(* ===== verification/Prelude.thy ===== *)
theory Prelude
  imports Main "HOL-Library.AList" "HOL-Library.Multiset" "HOL-Library.Char_ord"
    "HOL-Library.List_Lexorder"
begin

text \<open>
  The shared vocabulary of the development: Go's 32- and 64-bit signed arithmetic written out
  on \<open>int\<close>, Go maps as association lists with distinct keys, sums over such maps, Go's stable
  sort, and the strict weak orders that every comparator of the program is.
\<close>

named_theorems gomap_simps
named_theorems i64_facts

section \<open>Machine integers\<close>

text \<open>
  Go's \<open>int64\<close> and \<open>int32\<close> wrap around. A value is kept as an \<open>int\<close> and every arithmetic
  operation of the source is followed by \<open>i64\<close> (\<open>i32\<close>), the representative in range.
\<close>

definition i64 :: "int \<Rightarrow> int" where
  "i64 x = (x + 2 ^ 63) mod 2 ^ 64 - 2 ^ 63"

definition i32 :: "int \<Rightarrow> int" where
  "i32 x = (x + 2 ^ 31) mod 2 ^ 32 - 2 ^ 31"

definition in_i64 :: "int \<Rightarrow> bool" where
  "in_i64 x \<longleftrightarrow> - (2 ^ 63) \<le> x \<and> x < 2 ^ 63"

definition in_i32 :: "int \<Rightarrow> bool" where
  "in_i32 x \<longleftrightarrow> - (2 ^ 31) \<le> x \<and> x < 2 ^ 31"

lemma i64_id: "- (2 ^ 63) \<le> x \<Longrightarrow> x < 2 ^ 63 \<Longrightarrow> i64 x = x"
  by (simp add: i64_def)

lemma i32_id: "- (2 ^ 31) \<le> x \<Longrightarrow> x < 2 ^ 31 \<Longrightarrow> i32 x = x"
  by (simp add: i32_def)

lemma in_i64_i64 [simp]: "in_i64 (i64 x)"
  unfolding in_i64_def i64_def
  using pos_mod_bound [of "2 ^ 64" "x + 2 ^ 63"] pos_mod_sign [of "2 ^ 64" "x + 2 ^ 63"]
  by simp

lemma in_i32_i32 [simp]: "in_i32 (i32 x)"
  unfolding in_i32_def i32_def
  using pos_mod_bound [of "2 ^ 32" "x + 2 ^ 31"] pos_mod_sign [of "2 ^ 32" "x + 2 ^ 31"]
  by simp

lemma i64_in [i64_facts]: "in_i64 x \<Longrightarrow> i64 x = x"
  by (simp add: in_i64_def i64_id)

lemma i32_in [i64_facts]: "in_i32 x \<Longrightarrow> i32 x = x"
  by (simp add: in_i32_def i32_id)

lemma i64_add_left: "i64 (i64 a + b) = i64 (a + b)"
proof -
  have "i64 a + b + 2 ^ 63 = (a + 2 ^ 63) mod 2 ^ 64 + b"
    by (simp add: i64_def)
  then have "(i64 a + b + 2 ^ 63) mod 2 ^ 64 = (a + 2 ^ 63 + b) mod 2 ^ 64"
    by (simp only: mod_add_left_eq)
  then show ?thesis
    by (simp only: i64_def add.assoc add.commute [of "2 ^ 63" b])
qed

lemma i64_add_right: "i64 (a + i64 b) = i64 (a + b)"
  using i64_add_left [of b a] by (simp only: add.commute)

text \<open>Go's integer division truncates towards zero; a zero divisor panics and never occurs here.\<close>

definition go_div :: "int \<Rightarrow> int \<Rightarrow> int" where
  "go_div a b = sgn a * sgn b * (\<bar>a\<bar> div \<bar>b\<bar>)"

definition go_mod :: "int \<Rightarrow> int \<Rightarrow> int" where
  "go_mod a b = a - b * go_div a b"

lemma go_div_nonneg: "0 \<le> a \<Longrightarrow> 0 < b \<Longrightarrow> go_div a b = a div b"
  by (cases "a = 0") (simp_all add: go_div_def sgn_if)

section \<open>Go maps\<close>

text \<open>
  A Go map is a list of key/value pairs with distinct keys, in some iteration order: \<open>map_of\<close>
  reads it, \<open>gput\<close> stores, \<open>gdel\<close> deletes, and a \<open>for range\<close> loop walks the list. Go leaves the
  iteration order open, so what the program relies on must not depend on it: the lemmas speak
  of \<open>map_of\<close> and of sums, which do not.
\<close>

type_synonym ('k, 'v) gomap = "('k \<times> 'v) list"

definition gput :: "'k \<Rightarrow> 'v \<Rightarrow> ('k, 'v) gomap \<Rightarrow> ('k, 'v) gomap" where
  "gput k v m = AList.update k v m"

definition gdel :: "'k \<Rightarrow> ('k, 'v) gomap \<Rightarrow> ('k, 'v) gomap" where
  "gdel k m = AList.delete k m"

text \<open>Reading a missing key gives the element type's zero value.\<close>

definition gget :: "'v \<Rightarrow> ('k, 'v) gomap \<Rightarrow> 'k \<Rightarrow> 'v" where
  "gget z m k = (case map_of m k of None \<Rightarrow> z | Some v \<Rightarrow> v)"

definition gmap_ok :: "('k, 'v) gomap \<Rightarrow> bool" where
  "gmap_ok m \<longleftrightarrow> distinct (map fst m)"

definition ghas :: "('k, 'v) gomap \<Rightarrow> 'k \<Rightarrow> bool" where
  "ghas m k \<longleftrightarrow> map_of m k \<noteq> None"

lemma gmap_ok_Nil [simp]: "gmap_ok []"
  by (simp add: gmap_ok_def)

lemma gmap_ok_gput [simp]: "gmap_ok m \<Longrightarrow> gmap_ok (gput k v m)"
  by (simp add: gmap_ok_def gput_def distinct_update)

lemma gmap_ok_gdel [simp]: "gmap_ok m \<Longrightarrow> gmap_ok (gdel k m)"
  by (simp add: gmap_ok_def gdel_def distinct_delete)

lemma gmap_ok_filter [simp]: "gmap_ok m \<Longrightarrow> gmap_ok (filter P m)"
  by (simp add: gmap_ok_def distinct_map_filter)

lemma map_of_gput [simp, gomap_simps]: "map_of (gput k v m) = (map_of m)(k \<mapsto> v)"
  by (simp add: gput_def update_conv')

lemma map_of_gdel [simp, gomap_simps]: "map_of (gdel k m) = (map_of m)(k := None)"
  by (simp add: gdel_def delete_conv')

lemma ghas_gput [simp, gomap_simps]: "ghas (gput k v m) j \<longleftrightarrow> j = k \<or> ghas m j"
  by (simp add: ghas_def)

lemma ghas_gdel [simp, gomap_simps]: "ghas (gdel k m) j \<longleftrightarrow> j \<noteq> k \<and> ghas m j"
  by (simp add: ghas_def)

lemma ghas_Nil [simp]: "\<not> ghas [] k"
  by (simp add: ghas_def)

lemma gget_gput [simp, gomap_simps]: "gget z (gput k v m) j = (if j = k then v else gget z m j)"
  by (simp add: gget_def)

lemma gget_gdel [simp, gomap_simps]: "gget z (gdel k m) j = (if j = k then z else gget z m j)"
  by (simp add: gget_def)

lemma gget_Some [simp]: "map_of m k = Some v \<Longrightarrow> gget z m k = v"
  by (simp add: gget_def)

lemma gget_None [simp]: "map_of m k = None \<Longrightarrow> gget z m k = z"
  by (simp add: gget_def)

lemma not_ghas: "\<not> ghas m k \<longleftrightarrow> map_of m k = None"
  by (simp add: ghas_def)

lemma ghasE: "ghas m k \<Longrightarrow> (\<And>v. map_of m k = Some v \<Longrightarrow> P) \<Longrightarrow> P"
  by (auto simp: ghas_def)

lemma map_of_SomeD_ghas: "map_of m k = Some v \<Longrightarrow> ghas m k"
  by (simp add: ghas_def)

lemma map_of_filter_ok:
  assumes "gmap_ok m"
  shows "map_of (filter P m) k =
    (case map_of m k of None \<Rightarrow> None | Some v \<Rightarrow> if P (k, v) then Some v else None)"
  using assms
proof (induction m)
  case Nil
  then show ?case by simp
next
  case (Cons kv m)
  obtain k' v' where kv: "kv = (k', v')" by (cases kv)
  from Cons.prems have ok: "gmap_ok m" and fresh: "k' \<notin> fst ` set m"
    by (auto simp: gmap_ok_def kv)
  from fresh have "map_of m k' = None"
    by (simp add: map_of_eq_None_iff)
  with Cons.IH [OF ok] show ?case
    by (auto simp: kv split: option.splits)
qed

lemma map_of_SomeD_ok: "gmap_ok m \<Longrightarrow> (k, v) \<in> set m \<longleftrightarrow> map_of m k = Some v"
  by (auto simp: gmap_ok_def dest: map_of_SomeD)

subsection \<open>Sums over a Go map\<close>

definition gsum :: "('k \<Rightarrow> 'v \<Rightarrow> int) \<Rightarrow> ('k, 'v) gomap \<Rightarrow> int" where
  "gsum f m = (\<Sum>kv\<leftarrow>m. f (fst kv) (snd kv))"

abbreviation at_key :: "('k \<Rightarrow> 'v \<Rightarrow> int) \<Rightarrow> ('k, 'v) gomap \<Rightarrow> 'k \<Rightarrow> int" where
  "at_key f m k \<equiv> (case map_of m k of None \<Rightarrow> 0 | Some v \<Rightarrow> f k v)"

lemma gsum_Nil [simp]: "gsum f [] = 0"
  by (simp add: gsum_def)

lemma gsum_Cons [simp]: "gsum f ((k, v) # m) = f k v + gsum f m"
  by (simp add: gsum_def)

lemma gsum_gdel: "gmap_ok m \<Longrightarrow> gsum f (gdel k m) = gsum f m - at_key f m k"
proof (induction m)
  case Nil
  then show ?case by (simp add: gdel_def)
next
  case (Cons kv m)
  obtain k' v' where kv: "kv = (k', v')" by (cases kv)
  from Cons.prems have ok: "gmap_ok m" and fresh: "k' \<notin> fst ` set m"
    by (auto simp: gmap_ok_def kv)
  show ?case
  proof (cases "k' = k")
    case True
    with fresh show ?thesis by (simp add: kv gdel_def)
  next
    case False
    with Cons.IH [OF ok] show ?thesis by (simp add: kv gdel_def)
  qed
qed

lemma gsum_gput: "gmap_ok m \<Longrightarrow> gsum f (gput k v m) = gsum f m - at_key f m k + f k v"
proof (induction m)
  case Nil
  then show ?case by (simp add: gput_def)
next
  case (Cons kv m)
  obtain k' v' where kv: "kv = (k', v')" by (cases kv)
  from Cons.prems have ok: "gmap_ok m"
    by (auto simp: gmap_ok_def kv)
  show ?case
  proof (cases "k' = k")
    case True
    then show ?thesis by (simp add: kv gput_def)
  next
    case False
    with Cons.IH [OF ok] show ?thesis by (simp add: kv gput_def)
  qed
qed

lemma gsum_nonneg: "(\<And>k v. (k, v) \<in> set m \<Longrightarrow> 0 \<le> f k v) \<Longrightarrow> 0 \<le> gsum f m"
  by (induction m) (auto simp: gsum_def add_nonneg_nonneg)

lemma gsum_cong: "(\<And>k v. (k, v) \<in> set m \<Longrightarrow> f k v = g k v) \<Longrightarrow> gsum f m = gsum g m"
  by (induction m) (auto simp: gsum_def)

lemma gsum_filter: "gsum f (filter P m) = gsum (\<lambda>k v. if P (k, v) then f k v else 0) m"
  by (induction m) (auto simp: gsum_def)

lemma gsum_zero: "(\<And>k v. (k, v) \<in> set m \<Longrightarrow> f k v = 0) \<Longrightarrow> gsum f m = 0"
  by (induction m) (auto simp: gsum_def)

text \<open>An entry is at most the sum, when nothing is negative.\<close>

lemma at_key_le_gsum:
  assumes ok: "gmap_ok m" and nonneg: "\<And>k v. (k, v) \<in> set m \<Longrightarrow> 0 \<le> f k v"
  shows "at_key f m k \<le> gsum f m"
proof -
  have "0 \<le> gsum f (gdel k m)"
  proof (rule gsum_nonneg)
    fix k' v assume "(k', v) \<in> set (gdel k m)"
    then have "(k', v) \<in> set m" by (auto simp: gdel_def AList.delete_eq)
    then show "0 \<le> f k' v" by (rule nonneg)
  qed
  then show ?thesis by (simp add: gsum_gdel [OF ok])
qed

text \<open>Sums only depend on what the map holds, not on its iteration order.\<close>

lemma gsum_map_of:
  assumes "gmap_ok m" and "gmap_ok m'" and "map_of m = map_of m'"
  shows "gsum f m = gsum f m'"
proof -
  have "set m = set m'"
    using assms by (auto simp: set_eq_iff map_of_SomeD_ok)
  moreover have "distinct m" and "distinct m'"
    using assms(1,2) by (auto simp: gmap_ok_def distinct_map)
  ultimately have "mset m = mset m'"
    by (simp add: set_eq_iff_mset_eq_distinct)
  then have "mset (map (\<lambda>kv. f (fst kv) (snd kv)) m) = mset (map (\<lambda>kv. f (fst kv) (snd kv)) m')"
    by (simp only: mset_map)
  then show ?thesis
    by (simp only: gsum_def flip: sum_mset_sum_list)
qed

section \<open>Comparators, scans and Go's stable sort\<close>

text \<open>
  Every comparator the program hands to \<open>sort.Slice\<close>, to a heap or to a selection loop is a strict
  weak order. The selection loop \<open>for x { if best == nil || lt(x, best) { best = x } }\<close> is
  \<open>scan_best\<close>; \<open>sort.SliceStable\<close> is a stable insertion sort.
\<close>

fun scan_best :: "('a \<Rightarrow> 'a \<Rightarrow> bool) \<Rightarrow> 'a list \<Rightarrow> 'a option \<Rightarrow> 'a option" where
  "scan_best lt [] b = b"
| "scan_best lt (x # xs) None = scan_best lt xs (Some x)"
| "scan_best lt (x # xs) (Some b) = scan_best lt xs (Some (if lt x b then x else b))"

fun sinsert :: "('a \<Rightarrow> 'a \<Rightarrow> bool) \<Rightarrow> 'a \<Rightarrow> 'a list \<Rightarrow> 'a list" where
  "sinsert lt x [] = [x]"
| "sinsert lt x (y # ys) = (if lt y x then y # sinsert lt x ys else x # y # ys)"

definition sort_stable :: "('a \<Rightarrow> 'a \<Rightarrow> bool) \<Rightarrow> 'a list \<Rightarrow> 'a list" where
  "sort_stable lt xs = foldr (sinsert lt) xs []"

lemma scan_best_mem: "scan_best lt xs b = Some y \<Longrightarrow> y \<in> set xs \<or> b = Some y"
  by (induction lt xs b rule: scan_best.induct) (auto split: if_splits)

lemma scan_best_Some: "\<exists>y. scan_best lt xs (Some b) = Some y"
  by (induction xs arbitrary: b) auto

lemma scan_best_None: "scan_best lt xs b = None \<longleftrightarrow> xs = [] \<and> b = None"
  by (cases xs; cases b) (auto simp: scan_best_Some not_None_eq [symmetric] simp del: not_None_eq
      dest: arg_cong [where f = "\<lambda>r. r = None"])

lemma mset_sinsert: "mset (sinsert lt x xs) = {#x#} + mset xs"
  by (induction xs) auto

lemma set_sinsert: "set (sinsert lt x xs) = insert x (set xs)"
  by (induction xs) auto

lemma mset_sort_stable: "mset (sort_stable lt xs) = mset xs"
  by (induction xs) (simp_all add: sort_stable_def mset_sinsert)

lemma set_sort_stable: "set (sort_stable lt xs) = set xs"
  by (metis mset_sort_stable set_mset_mset)

lemma length_sort_stable: "length (sort_stable lt xs) = length xs"
  by (metis mset_sort_stable size_mset)

locale strict_weak =
  fixes lt :: "'a \<Rightarrow> 'a \<Rightarrow> bool"
  assumes asym: "lt x y \<Longrightarrow> \<not> lt y x"
    and neg_trans: "\<not> lt x y \<Longrightarrow> \<not> lt y z \<Longrightarrow> \<not> lt x z"
begin

lemma irrefl: "\<not> lt x x"
  using asym by blast

lemma trans: "lt x y \<Longrightarrow> lt y z \<Longrightarrow> lt x z"
  using asym neg_trans by blast

lemma scan_best_min: "scan_best lt xs b = Some y \<Longrightarrow> x \<in> set xs \<or> b = Some x \<Longrightarrow> \<not> lt x y"
proof (induction xs arbitrary: b x)
  case Nil
  then show ?case by (simp add: irrefl)
next
  case (Cons z zs)
  show ?case
  proof (cases b)
    case None
    with Cons show ?thesis by auto
  next
    case (Some c)
    let ?w = "if lt z c then z else c"
    from Cons.prems(1) Some have r: "scan_best lt zs (Some ?w) = Some y" by simp
    have w: "\<not> lt ?w y" by (intro Cons.IH [OF r, of ?w] disjI2 refl)
    from Cons.prems(2) Some consider "x \<in> set zs" | "x = z" | "x = c" by auto
    then show ?thesis
    proof cases
      case 1
      with Cons.IH [OF r] show ?thesis by blast
    next
      case 2
      with w show ?thesis by (cases "lt z c") (auto dest: neg_trans)
    next
      case 3
      with w asym [of z c] show ?thesis by (cases "lt z c") (auto dest: neg_trans)
    qed
  qed
qed

text \<open>Where no two elements tie, the loop's result does not depend on the iteration order.\<close>

lemma scan_best_order_free:
  assumes "set xs = set ys"
    and total: "\<And>x y. x \<in> set xs \<Longrightarrow> y \<in> set xs \<Longrightarrow> x \<noteq> y \<Longrightarrow> lt x y \<or> lt y x"
  shows "scan_best lt xs None = scan_best lt ys None"
proof (cases "scan_best lt xs None")
  case None
  then have "xs = []" by (simp add: scan_best_None)
  with assms(1) show ?thesis by simp
next
  case (Some a)
  then have a: "a \<in> set xs" by (auto dest: scan_best_mem)
  with assms(1) have "ys \<noteq> []" by auto
  then obtain b where b: "scan_best lt ys None = Some b"
    by (cases "scan_best lt ys None") (auto simp: scan_best_None)
  then have "b \<in> set xs" using assms(1) by (auto dest: scan_best_mem)
  moreover have "\<not> lt b a"
    using scan_best_min [OF Some, of b] \<open>b \<in> set xs\<close> by blast
  moreover have "\<not> lt a b"
    using scan_best_min [OF b, of a] a assms(1) by blast
  ultimately have "a = b" using total a by blast
  with Some b show ?thesis by simp
qed

lemma sorted_sinsert:
  "sorted_wrt (\<lambda>x y. \<not> lt y x) xs \<Longrightarrow> sorted_wrt (\<lambda>x y. \<not> lt y x) (sinsert lt x xs)"
proof (induction xs)
  case Nil
  then show ?case by simp
next
  case (Cons y ys)
  show ?case
  proof (cases "lt y x")
    case True
    with Cons asym show ?thesis by (auto simp: set_sinsert)
  next
    case False
    with Cons.prems show ?thesis by (auto dest: neg_trans)
  qed
qed

lemma sorted_sort_stable: "sorted_wrt (\<lambda>x y. \<not> lt y x) (sort_stable lt xs)"
  by (induction xs) (simp_all add: sort_stable_def sorted_sinsert)

lemma hd_sort_stable_min: "x \<in> set xs \<Longrightarrow> \<not> lt x (hd (sort_stable lt xs))"
  using sorted_sort_stable [of xs] set_sort_stable [of lt xs, symmetric]
  by (cases "sort_stable lt xs") (auto simp: irrefl)

end

text \<open>Comparing by one integer key is a strict weak order; so is comparing by it in reverse.\<close>

lemma strict_weak_key: "strict_weak (\<lambda>x y. (key x :: int) < key y)"
  by unfold_locales auto

lemma strict_weak_key_desc: "strict_weak (\<lambda>x y. (key x :: int) > key y)"
  by unfold_locales auto

end
