(* ===== verification/ApiTypes.thy ===== *)
theory ApiTypes
  imports Prelude
begin

text \<open>
  The Kubernetes objects of \<open>api/v1alpha1\<close> as records: the fields the modelled code reads or
  writes, with the object metadata flattened into each record. Go's \<open>metav1.Time\<close> and
  \<open>time.Time\<close> are nanosecond counts (\<open>int\<close>); a pointer that may be nil is an \<open>option\<close>; the
  string enums stay strings, because the code compares and indexes by the string value.
\<close>

record condition =
  cd_Type :: string
  cd_Status :: string
  cd_Reason :: string
  cd_Message :: string
  cd_LastTransitionTime :: int

record vgpu_slice =
  sl_Name :: string
  sl_Namespace :: string
  sl_UID :: string
  sl_Annotations :: "(string, string) gomap"
  sl_CreationTimestamp :: int
  sl_DeletionTimestamp :: "int option"
  sl_ClaimRef :: string
  sl_NodeName :: string
  sl_RequestedVRAMBytes :: int
  sl_Phase :: string
  sl_DeviceUUID :: string
  sl_AllocationID :: string
  sl_AllocatedBytes :: int
  sl_FailureReason :: string
  sl_LastError :: string
  sl_Conditions :: "condition list"
  sl_Finalizers :: "string list"

record vgpu_claim =
  cl_Name :: string
  cl_Namespace :: string
  cl_DeletionTimestamp :: "int option"
  cl_RequestedVRAMBytes :: int
  cl_ServiceTier :: string
  cl_JobRef :: string
  cl_Annotations :: "(string, string) gomap"
  cl_Finalizers :: "string list"
  cl_Phase :: string
  cl_BoundSliceName :: string
  cl_FailureReason :: string

text \<open>A workload pod: the metadata, spec and status the controllers and the webhook touch.\<close>

record env_var =
  ev_Name :: string
  ev_Value :: string
  ev_FromSource :: bool

record security_context =
  sx_Privileged :: "bool option"
  sx_AllowPrivilegeEscalation :: "bool option"
  sx_HostProcess :: "bool option"
  sx_ProcMount :: "string option"
  sx_AddCapabilities :: "string list"

record container =
  co_Name :: string
  co_Env :: "env_var list"
  co_SecurityContext :: "security_context option"

record pod =
  pd_Name :: string
  pd_Namespace :: string
  pd_Labels :: "(string, string) gomap"
  pd_Annotations :: "(string, string) gomap"
  pd_DeletionTimestamp :: "int option"
  pd_NodeName :: string
  pd_RestartPolicy :: string
  pd_HostIPC :: bool
  pd_HostPID :: bool
  pd_HostNetwork :: bool
  pd_Containers :: "container list"
  pd_InitContainers :: "container list"
  pd_HostPathVolumes :: "bool list"
  pd_Phase :: string

record vgpu_job =
  jb_Name :: string
  jb_Namespace :: string
  jb_Annotations :: "(string, string) gomap"
  jb_Priority :: int
  jb_Preemptible :: bool
  jb_PreemptionGraceSeconds :: "int option"
  jb_ClaimTemplate :: vgpu_claim
  jb_WorkloadClass :: string
  jb_Labels :: "(string, string) gomap"
  jb_PodTemplate :: "pod option"
  jb_DeletionTimestamp :: "int option"
  jb_Phase :: string
  jb_ClaimRef :: string
  jb_PodRef :: string
  jb_NodeName :: string
  jb_DeviceUUID :: string
  jb_Message :: string
  jb_Conditions :: "condition list"

record vgpu_gang_job =
  gj_Name :: string
  gj_Namespace :: string
  gj_Annotations :: "(string, string) gomap"
  gj_DeletionTimestamp :: "int option"
  gj_Priority :: int
  gj_WorkloadClass :: string
  gj_Preemptible :: bool
  gj_PreemptionGraceSeconds :: "int option"
  gj_GangSize :: int
  gj_MinAvailable :: int
  gj_ReservationTimeoutSeconds :: "int option"
  gj_PodTemplate :: vgpu_claim
  gj_Phase :: string
  gj_Message :: string
  gj_ChildrenCreated :: int
  gj_ChildrenRunning :: int
  gj_ReservationRef :: string

record vgpu_gang_reservation =
  rv_Name :: string
  rv_Namespace :: string
  rv_UID :: string
  rv_GangSize :: int
  rv_ChildClaims :: "string list"
  rv_DeadlineSeconds :: "int option"
  rv_Phase :: string
  rv_FirstReservingTime :: "int option"
  rv_GangRef :: string
  rv_DeletionTimestamp :: "int option"
  rv_ReservedSlots :: int
  rv_CommittedSlots :: int
  rv_FailedSlots :: int
  rv_PerSliceState :: "(string, string) gomap"
  rv_Message :: string
  rv_FailureReason :: string

record vgpu_quota =
  qt_TargetNamespace :: string
  qt_MaxVramBytes :: int

record vgpu_workload_profile =
  pf_RecommendedVRAMBytes :: int
  pf_Confidence :: string

text \<open>The annotation keys that tie a child slice to its gang.\<close>

definition AnnotationReservationRef :: string where
  "AnnotationReservationRef = ''gang.vgpu.pranav2910.com/reservation''"

definition AnnotationGangRef :: string where
  "AnnotationGangRef = ''gang.vgpu.pranav2910.com/gang''"

definition AnnotationGangPriority :: string where
  "AnnotationGangPriority = ''gang.vgpu.pranav2910.com/priority''"

lemma annotation_keys_distinct [simp]:
  "AnnotationReservationRef \<noteq> AnnotationGangRef"
  "AnnotationGangRef \<noteq> AnnotationReservationRef"
  "AnnotationReservationRef \<noteq> AnnotationGangPriority"
  "AnnotationGangPriority \<noteq> AnnotationReservationRef"
  "AnnotationGangRef \<noteq> AnnotationGangPriority"
  "AnnotationGangPriority \<noteq> AnnotationGangRef"
  by (simp_all add: AnnotationReservationRef_def AnnotationGangRef_def AnnotationGangPriority_def)

definition ServiceTierGuaranteed :: string where
  "ServiceTierGuaranteed = ''Guaranteed''"

definition ServiceTierBestEffort :: string where
  "ServiceTierBestEffort = ''BestEffort''"

text \<open>
  One read through the API client: the object, a definite \<open>NotFound\<close>, or any other failure
  (an unsynced cache, a timeout, a throttled request).
\<close>

datatype 'a api_read = Found 'a | NotFound | ReadErr

text \<open>A write through the API client either lands or fails.\<close>

datatype api_write = WriteOk | WriteErr

text \<open>Slices the witnesses start from: a Pending, unbound solo slice.\<close>

definition slice0 :: vgpu_slice where
  "slice0 = \<lparr>sl_Name = ''s'', sl_Namespace = ''ns'', sl_UID = ''u'', sl_Annotations = [],
     sl_CreationTimestamp = 0, sl_DeletionTimestamp = None, sl_ClaimRef = ''c'', sl_NodeName = [],
     sl_RequestedVRAMBytes = 10, sl_Phase = ''Pending'', sl_DeviceUUID = [], sl_AllocationID = [],
     sl_AllocatedBytes = 0, sl_FailureReason = [], sl_LastError = [], sl_Conditions = [],
     sl_Finalizers = []\<rparr>"

definition zero_claim :: vgpu_claim where
  "zero_claim = \<lparr>cl_Name = [], cl_Namespace = [], cl_DeletionTimestamp = None, cl_RequestedVRAMBytes = 0,
     cl_ServiceTier = [], cl_JobRef = [], cl_Annotations = [], cl_Finalizers = [], cl_Phase = [],
     cl_BoundSliceName = [], cl_FailureReason = []\<rparr>"

definition zero_job :: vgpu_job where
  "zero_job = \<lparr>jb_Name = [], jb_Namespace = [], jb_Annotations = [], jb_Priority = 0, jb_Preemptible = False,
     jb_PreemptionGraceSeconds = None, jb_ClaimTemplate = zero_claim, jb_WorkloadClass = [], jb_Labels = [],
     jb_PodTemplate = None, jb_DeletionTimestamp = None, jb_Phase = [], jb_ClaimRef = [], jb_PodRef = [],
     jb_NodeName = [], jb_DeviceUUID = [], jb_Message = [], jb_Conditions = []\<rparr>"

definition zero_reservation :: vgpu_gang_reservation where
  "zero_reservation = \<lparr>rv_Name = [], rv_Namespace = [], rv_UID = [], rv_GangSize = 0, rv_ChildClaims = [],
     rv_DeadlineSeconds = None, rv_Phase = [], rv_FirstReservingTime = None, rv_GangRef = [],
     rv_DeletionTimestamp = None, rv_ReservedSlots = 0, rv_CommittedSlots = 0, rv_FailedSlots = 0,
     rv_PerSliceState = [], rv_Message = [], rv_FailureReason = []\<rparr>"

text \<open>Replace the condition of the same type in place, or append (\<open>upsertCondition\<close>).\<close>

fun upsertCondition :: "condition list \<Rightarrow> condition \<Rightarrow> condition list" where
  "upsertCondition [] c = [c]"
| "upsertCondition (d # ds) c = (if cd_Type d = cd_Type c then c # ds else d # upsertCondition ds c)"

lemma upsertCondition_mem: "c \<in> set (upsertCondition cs c)"
  by (induction cs) auto

lemma upsertCondition_other:
  "cd_Type d \<noteq> cd_Type c \<Longrightarrow> d \<in> set (upsertCondition cs c) \<longleftrightarrow> d \<in> set cs"
  by (induction cs) auto

end
