(* ===== verification/SlicePhases.thy ===== *)
theory SlicePhases
  imports ApiTypes
begin

text \<open>
  \<open>internal/state\<close>: the slice phases, the table of legal transitions with
  \<open>TransitionSlicePhase\<close> and \<open>MarkSliceReady\<close>, and the phase-conditional invariant
  \<open>ValidateSliceInvariant\<close>. An error return is a value of \<open>phase_error\<close>, one constructor per
  format string.
\<close>

definition SlicePhasePending :: string where "SlicePhasePending = ''Pending''"
definition SlicePhaseScheduled :: string where "SlicePhaseScheduled = ''Scheduled''"
definition SlicePhaseAllocating :: string where "SlicePhaseAllocating = ''Allocating''"
definition SlicePhaseReady :: string where "SlicePhaseReady = ''Ready''"
definition SlicePhaseReleasing :: string where "SlicePhaseReleasing = ''Releasing''"
definition SlicePhaseReleased :: string where "SlicePhaseReleased = ''Released''"
definition SlicePhaseFailed :: string where "SlicePhaseFailed = ''Failed''"

text \<open>The phase the preemptor writes; \<open>internal/state/phases.go\<close> does not list it.\<close>

definition PhasePreempting :: string where "PhasePreempting = ''Preempting''"

lemmas phase_defs = SlicePhasePending_def SlicePhaseScheduled_def SlicePhaseAllocating_def
  SlicePhaseReady_def SlicePhaseReleasing_def SlicePhaseReleased_def SlicePhaseFailed_def
  PhasePreempting_def

lemma phases_distinct_list:
  "distinct [[], SlicePhasePending, SlicePhaseScheduled, SlicePhaseAllocating, SlicePhaseReady, SlicePhaseReleasing, SlicePhaseReleased, SlicePhaseFailed, PhasePreempting]"
  by (simp add: phase_defs)

lemma phases_distinct_rev:
  "distinct [PhasePreempting, SlicePhaseFailed, SlicePhaseReleased, SlicePhaseReleasing, SlicePhaseReady, SlicePhaseAllocating, SlicePhaseScheduled, SlicePhasePending, []]"
  by (simp add: phase_defs)

lemmas phases_distinct [simp] = phases_distinct_list [simplified] phases_distinct_rev [simplified]

datatype phase_error =
    IllegalTransition string string
  | ReadyWithoutAllocationID

datatype invariant_error =
    RequiresNodeName string
  | ReadyMissingNodeName
  | ReadyMissingAllocationID
  | ReadyMissingDeviceUUID
  | ReadyNonPositiveBytes
  | ReleasingWithoutAllocationID
  | FailedWithoutReason
  | ReleasedHoldsHardware

section \<open>The transition table\<close>

definition legalSliceTransitions :: "(string, string list) gomap" where
  "legalSliceTransitions =
    [([], [SlicePhasePending, SlicePhaseReleasing]),
     (SlicePhasePending, [SlicePhaseScheduled, SlicePhaseFailed, SlicePhaseReleasing]),
     (SlicePhaseScheduled, [SlicePhaseAllocating, SlicePhaseFailed, SlicePhaseReleasing]),
     (SlicePhaseAllocating, [SlicePhaseReady, SlicePhaseFailed, SlicePhaseReleasing]),
     (SlicePhaseReady, [SlicePhaseReleasing, SlicePhaseFailed]),
     (SlicePhaseReleasing, [SlicePhaseReleased, SlicePhaseFailed]),
     (SlicePhaseReleased, []),
     (SlicePhaseFailed, [SlicePhaseReleasing])]"

definition TransitionSlicePhase ::
  "vgpu_slice \<Rightarrow> string \<Rightarrow> string \<Rightarrow> string \<Rightarrow> phase_error + vgpu_slice" where
  "TransitionSlicePhase slice nextPhase reason message =
    (let currentPhase = sl_Phase slice in
     if currentPhase = nextPhase then Inr slice
     else case map_of legalSliceTransitions currentPhase of
       None \<Rightarrow> Inl (IllegalTransition currentPhase nextPhase)
     | Some allowed \<Rightarrow>
         if nextPhase \<notin> set allowed then Inl (IllegalTransition currentPhase nextPhase)
         else
           let s1 = slice\<lparr>sl_Phase := nextPhase\<rparr>;
               s2 = (if reason \<noteq> [] then s1\<lparr>sl_FailureReason := reason\<rparr> else s1);
               s3 = (if message \<noteq> [] then s2\<lparr>sl_LastError := message\<rparr> else s2)
           in Inr s3)"

definition MarkSliceReady ::
  "vgpu_slice \<Rightarrow> string \<Rightarrow> string \<Rightarrow> int \<Rightarrow> phase_error + vgpu_slice" where
  "MarkSliceReady slice allocID devUUID bytes =
    (if allocID = [] then Inl ReadyWithoutAllocationID
     else case TransitionSlicePhase slice SlicePhaseReady [] [] of
       Inl e \<Rightarrow> Inl e
     | Inr s \<Rightarrow> Inr (s\<lparr>sl_AllocationID := allocID, sl_DeviceUUID := devUUID,
                         sl_AllocatedBytes := bytes\<rparr>))"

text \<open>
  \<open>sanitizeForLog\<close> maps control characters to an underscore. The model works on the bytes of a
  valid UTF-8 string, where every byte of a multi-byte character is above \<open>0x7f\<close>.
\<close>

definition sanitizeForLog :: "string \<Rightarrow> string" where
  "sanitizeForLog s =
    map (\<lambda>r. if (of_char r :: nat) < 0x20 \<or> (of_char r :: nat) = 0x7f then CHR ''_'' else r) s"

definition ValidateSliceInvariant :: "vgpu_slice \<Rightarrow> invariant_error option" where
  "ValidateSliceInvariant slice =
    (let p = sl_Phase slice in
     if p = SlicePhaseScheduled \<or> p = SlicePhaseAllocating then
       (if sl_NodeName slice = [] then Some (RequiresNodeName p) else None)
     else if p = SlicePhaseReady then
       (if sl_NodeName slice = [] then Some ReadyMissingNodeName
        else if sl_AllocationID slice = [] then Some ReadyMissingAllocationID
        else if sl_DeviceUUID slice = [] then Some ReadyMissingDeviceUUID
        else if sl_AllocatedBytes slice \<le> 0 then Some ReadyNonPositiveBytes
        else None)
     else if p = SlicePhaseReleasing then
       (if sl_AllocatedBytes slice > 0 \<and> sl_AllocationID slice = []
        then Some ReleasingWithoutAllocationID else None)
     else if p = SlicePhaseFailed then
       (if sl_FailureReason slice = [] then Some FailedWithoutReason else None)
     else if p = SlicePhaseReleased then
       (if sl_DeviceUUID slice \<noteq> [] \<or> sl_AllocationID slice \<noteq> [] \<or> sl_AllocatedBytes slice \<noteq> 0
        then Some ReleasedHoldsHardware else None)
     else None)"

section \<open>Lemmas\<close>

definition legal_next :: "string \<Rightarrow> string \<Rightarrow> bool" where
  "legal_next p q \<longleftrightarrow> (case map_of legalSliceTransitions p of None \<Rightarrow> False | Some ns \<Rightarrow> q \<in> set ns)"

lemma TransitionSlicePhase_Inr_iff:
  "(\<exists>s'. TransitionSlicePhase s q r m = Inr s') \<longleftrightarrow> sl_Phase s = q \<or> legal_next (sl_Phase s) q"
  by (auto simp: TransitionSlicePhase_def legal_next_def Let_def split: option.splits)

lemma TransitionSlicePhase_phase:
  "TransitionSlicePhase s q r m = Inr s' \<Longrightarrow> sl_Phase s' = q"
  by (auto simp: TransitionSlicePhase_def Let_def split: option.splits if_splits)

text \<open>A transition writes the phase, the reason and the error text, and nothing else.\<close>

lemma TransitionSlicePhase_frame:
  "TransitionSlicePhase s q r m = Inr s' \<Longrightarrow>
     s' = s\<lparr>sl_Phase := q, sl_FailureReason := sl_FailureReason s', sl_LastError := sl_LastError s'\<rparr>"
  by (auto simp: TransitionSlicePhase_def Let_def split: option.splits if_splits)

lemma legal_next_iff:
  "legal_next p q \<longleftrightarrow> (\<exists>ns. (p, ns) \<in> set legalSliceTransitions \<and> q \<in> set ns)"
proof -
  have "gmap_ok legalSliceTransitions"
    by (simp add: gmap_ok_def legalSliceTransitions_def phase_defs)
  then show ?thesis
    by (auto simp: legal_next_def map_of_SomeD_ok split: option.splits)
qed

lemma legal_predecessors:
  "legal_next p SlicePhaseReady \<longleftrightarrow> p = SlicePhaseAllocating"
  "legal_next p SlicePhaseAllocating \<longleftrightarrow> p = SlicePhaseScheduled"
  "legal_next p SlicePhaseScheduled \<longleftrightarrow> p = SlicePhasePending"
  "legal_next p SlicePhasePending \<longleftrightarrow> p = []"
  "legal_next p SlicePhaseReleased \<longleftrightarrow> p = SlicePhaseReleasing"
  "\<not> legal_next p []"
  "\<not> legal_next p PhasePreempting"
  by (simp_all add: legal_next_iff legalSliceTransitions_def conj_disj_distribR ex_disj_distrib)

text \<open>Runs: the phases a slice goes through under successful, phase-changing transitions.\<close>

inductive phase_run :: "string list \<Rightarrow> bool" where
  start: "phase_run [p]"
| step: "phase_run (p # ps) \<Longrightarrow> legal_next p q \<Longrightarrow> phase_run (q # p # ps)"

inductive_cases phase_run_Cons2: "phase_run (q # p # ps)"

lemma phase_run_pred: "phase_run (q # p # ps) \<Longrightarrow> legal_next p q \<and> phase_run (p # ps)"
  by (auto elim: phase_run_Cons2)

lemma phase_run_back:
  assumes "phase_run (q # ps)" and "last (q # ps) = []" and "q \<noteq> []"
    and "\<And>p. legal_next p q \<Longrightarrow> p = r"
  shows "\<exists>ps'. ps = r # ps' \<and> phase_run (r # ps') \<and> last (r # ps') = []"
  using assms by (cases ps) (auto dest: phase_run_pred)

text \<open>
  Hardware is only ever reached in order: the one run of legal transitions that takes a slice
  from the empty phase to Ready is Pending, Scheduled, Allocating, Ready.
\<close>

theorem ready_only_in_order:
  assumes "phase_run (SlicePhaseReady # ps)" and "last (SlicePhaseReady # ps) = []"
  shows "ps = [SlicePhaseAllocating, SlicePhaseScheduled, SlicePhasePending, []]"
proof -
  obtain ps1 where 1: "ps = SlicePhaseAllocating # ps1" "phase_run (SlicePhaseAllocating # ps1)"
      "last (SlicePhaseAllocating # ps1) = []"
    using phase_run_back [OF assms, of SlicePhaseAllocating] by (auto simp: legal_predecessors)
  obtain ps2 where 2: "ps1 = SlicePhaseScheduled # ps2" "phase_run (SlicePhaseScheduled # ps2)"
      "last (SlicePhaseScheduled # ps2) = []"
    using phase_run_back [OF 1(2,3), of SlicePhaseScheduled] by (auto simp: legal_predecessors)
  obtain ps3 where 3: "ps2 = SlicePhasePending # ps3" "phase_run (SlicePhasePending # ps3)"
      "last (SlicePhasePending # ps3) = []"
    using phase_run_back [OF 2(2,3), of SlicePhasePending] by (auto simp: legal_predecessors)
  obtain ps4 where 4: "ps3 = [] # ps4" "phase_run ([] # ps4)"
    using phase_run_back [OF 3(2,3), of "[]"] by (auto simp: legal_predecessors)
  have "ps4 = []"
    using 4(2) by (cases ps4) (auto dest: phase_run_pred simp: legal_predecessors)
  with 1 2 3 4 show ?thesis by simp
qed

theorem ready_only_in_order_witness:
  "phase_run [SlicePhaseReady, SlicePhaseAllocating, SlicePhaseScheduled, SlicePhasePending, []] \<and>
   [SlicePhaseAllocating, SlicePhaseScheduled, SlicePhasePending, []] =
     [SlicePhaseAllocating, SlicePhaseScheduled, SlicePhasePending, []]"
proof -
  have run: "phase_run [SlicePhaseReady, SlicePhaseAllocating, SlicePhaseScheduled,
      SlicePhasePending, []]"
    by (intro phase_run.intros) (simp_all add: legal_predecessors)
  show ?thesis using run ready_only_in_order [OF run] by simp
qed

text \<open>
  Teardown never wedges: from every phase of the table but Released, the two transitions to
  Releasing and then to Released are accepted, whatever reason and message they carry.
\<close>

theorem teardown_always_legal:
  assumes "sl_Phase s \<in> fst ` set legalSliceTransitions" and "sl_Phase s \<noteq> SlicePhaseReleased"
  shows "\<exists>s1 s2. TransitionSlicePhase s SlicePhaseReleasing r m = Inr s1 \<and>
    TransitionSlicePhase s1 SlicePhaseReleased r' m' = Inr s2 \<and> sl_Phase s2 = SlicePhaseReleased"
proof -
  have "sl_Phase s = SlicePhaseReleasing \<or> legal_next (sl_Phase s) SlicePhaseReleasing"
    using assms by (auto simp: legalSliceTransitions_def legal_next_def)
  then obtain s1 where s1: "TransitionSlicePhase s SlicePhaseReleasing r m = Inr s1"
    using TransitionSlicePhase_Inr_iff by blast
  then have "legal_next (sl_Phase s1) SlicePhaseReleased"
    by (simp add: TransitionSlicePhase_phase legal_predecessors)
  then obtain s2 where "TransitionSlicePhase s1 SlicePhaseReleased r' m' = Inr s2"
    using TransitionSlicePhase_Inr_iff by blast
  with s1 show ?thesis by (blast dest: TransitionSlicePhase_phase)
qed

theorem teardown_always_legal_witness:
  "\<exists>s1 s2. TransitionSlicePhase slice0 SlicePhaseReleasing ''d'' [] = Inr s1 \<and>
    TransitionSlicePhase s1 SlicePhaseReleased [] [] = Inr s2 \<and> sl_Phase s2 = SlicePhaseReleased"
  by (rule teardown_always_legal) (simp_all add: slice0_def legalSliceTransitions_def phase_defs)

text \<open>
  A successful \<open>MarkSliceReady\<close> comes from Allocating (or repeats Ready), records exactly the
  allocation it was given, and leaves a slice that satisfies the Ready invariant whenever the
  slice is bound and the device and byte count are real.
\<close>

theorem mark_ready_sound:
  assumes "MarkSliceReady s allocID dev bytes = Inr s'"
  shows "allocID \<noteq> [] \<and> sl_Phase s \<in> {SlicePhaseAllocating, SlicePhaseReady} \<and>
    sl_Phase s' = SlicePhaseReady \<and> sl_AllocationID s' = allocID \<and> sl_DeviceUUID s' = dev \<and>
    sl_AllocatedBytes s' = bytes \<and> sl_NodeName s' = sl_NodeName s \<and>
    (ValidateSliceInvariant s' = None \<longleftrightarrow> sl_NodeName s \<noteq> [] \<and> dev \<noteq> [] \<and> bytes > 0)"
proof -
  from assms obtain t where id: "allocID \<noteq> []"
      and t: "TransitionSlicePhase s SlicePhaseReady [] [] = Inr t"
      and s': "s' = t\<lparr>sl_AllocationID := allocID, sl_DeviceUUID := dev, sl_AllocatedBytes := bytes\<rparr>"
    by (auto simp: MarkSliceReady_def split: if_splits sum.splits)
  have "sl_Phase s = SlicePhaseReady \<or> legal_next (sl_Phase s) SlicePhaseReady"
    using t TransitionSlicePhase_Inr_iff by blast
  then have origin: "sl_Phase s \<in> {SlicePhaseAllocating, SlicePhaseReady}"
    by (auto simp: legal_predecessors)
  have "sl_Phase t = SlicePhaseReady" and "sl_NodeName t = sl_NodeName s"
    using TransitionSlicePhase_phase [OF t] arg_cong [OF TransitionSlicePhase_frame [OF t], of sl_NodeName]
    by simp_all
  with id origin s' show ?thesis
    by (auto simp: ValidateSliceInvariant_def)
qed

theorem mark_ready_sound_witness:
  "\<exists>s'. MarkSliceReady (slice0\<lparr>sl_Phase := ''Allocating'', sl_NodeName := ''n''\<rparr>) ''a'' ''g'' 10 = Inr s' \<and>
    ValidateSliceInvariant s' = None"
proof -
  obtain s' where m: "MarkSliceReady (slice0\<lparr>sl_Phase := ''Allocating'', sl_NodeName := ''n''\<rparr>) ''a'' ''g'' 10 = Inr s'"
    by (simp add: MarkSliceReady_def TransitionSlicePhase_def legalSliceTransitions_def phase_defs slice0_def)
  then show ?thesis using mark_ready_sound [OF m] by (auto simp: slice0_def)
qed

text \<open>
  The Preempting phase is outside the table: no transition leads into it, and once a slice
  carries it every transition to another phase is refused, so only a direct status write (the
  slice reconciler's own Preempting branch) can move it on.
\<close>

theorem preempting_outside_table:
  "(sl_Phase s = PhasePreempting \<and> q \<noteq> PhasePreempting \<or> sl_Phase s \<noteq> PhasePreempting \<and> q = PhasePreempting)
    \<longrightarrow> TransitionSlicePhase s q r m = Inl (IllegalTransition (sl_Phase s) q)"
proof -
  have "map_of legalSliceTransitions PhasePreempting = None"
    by (simp add: legalSliceTransitions_def phase_defs)
  moreover have "PhasePreempting \<notin> set a" if "map_of legalSliceTransitions p = Some a" for p a
    using legal_predecessors(7) [of p] that by (simp add: legal_next_def)
  ultimately show ?thesis
    by (auto simp: TransitionSlicePhase_def Let_def split: option.splits)
qed

theorem preempting_outside_table_witness:
  "TransitionSlicePhase (slice0\<lparr>sl_Phase := PhasePreempting\<rparr>) SlicePhaseReleasing [] [] =
     Inl (IllegalTransition PhasePreempting SlicePhaseReleasing)"
  using preempting_outside_table [of "slice0\<lparr>sl_Phase := PhasePreempting\<rparr>" SlicePhaseReleasing "[]" "[]"]
  by (simp add: phase_defs)

end
