(* ===== verification/VramCache.thy ===== *)
theory VramCache
  imports SlicePhases
begin

text \<open>
  \<open>internal/scheduler/cache.go\<close>: the scheduler's in-memory VRAM ledger. \<open>VRAMCache\<close> is the record
  \<open>vram_cache\<close>; each method is one definition that takes the state and returns the new one, run
  as a whole because the code holds the cache's mutex for the method's whole body (the two
  methods that drop the lock in between, \<open>ReleaseSliceOnce\<close> and \<open>FailSliceOnce\<close>, are composed
  from their locked parts). The clock is the argument \<open>now\<close>; telemetry and logging are left out.
\<close>

section \<open>State\<close>

record node_state =
  ns_NodeName :: string
  ns_Total :: int
  ns_Allocated :: int
  ns_Reserved :: int
  ns_Free :: int
  ns_Healthy :: bool
  ns_Zone :: string

record assumed_allocation =
  aa_SliceUID :: string
  aa_Namespace :: string
  aa_NodeName :: string
  aa_Bytes :: int
  aa_ExpiresAt :: int

record vram_cache =
  nodes :: "(string, node_state) gomap"
  assumedBySlice :: "(string, assumed_allocation) gomap"
  confirmedBySlice :: "(string, assumed_allocation) gomap"
  syncedPhaseBySlice :: "(string, string) gomap"
  allocatedBytesBySlice :: "(string, int) gomap"
  allocatedNodeBySlice :: "(string, string) gomap"
  seeded :: bool

text \<open>The rejection reasons of \<open>CanFit\<close> with the details they print, and the error returns.\<close>

datatype fit_result =
    Fits
  | ReasonNodeNotFound
  | ReasonNodeUnhealthy
  | ReasonInsufficientVRAM int int

datatype cache_error =
    DuplicateAssumed string
  | DuplicateConfirmed string
  | RaceNodeNotFound string
  | RaceNodeUnhealthy string
  | RaceLacksCapacity string int int
  | PromotionNodeNotFound string
  | PromotionFallback string

definition NewVRAMCache :: vram_cache where
  "NewVRAMCache = \<lparr>nodes = [], assumedBySlice = [], confirmedBySlice = [],
     syncedPhaseBySlice = [], allocatedBytesBySlice = [], allocatedNodeBySlice = [],
     seeded = False\<rparr>"

definition MarkSeeded :: "vram_cache \<Rightarrow> vram_cache" where
  "MarkSeeded c = c\<lparr>seeded := True\<rparr>"

definition IsSeeded :: "vram_cache \<Rightarrow> bool" where
  "IsSeeded c = seeded c"

section \<open>Node accounting\<close>

definition recalculateFreeVRAM :: "node_state \<Rightarrow> node_state" where
  "recalculateFreeVRAM n =
    (let f = i64 (i64 (ns_Total n - ns_Allocated n) - ns_Reserved n)
     in n\<lparr>ns_Free := (if f < 0 then 0 else f)\<rparr>)"

text \<open>
  The block \<open>Reserved -= bytes; if Reserved < 0 { Reserved = 0 }; recalculate\<close>, which the reaper,
  the rollback and the release of a confirmed hold share.
\<close>

definition drop_reserved :: "int \<Rightarrow> node_state \<Rightarrow> node_state" where
  "drop_reserved bytes n =
    (let r = i64 (ns_Reserved n - bytes)
     in recalculateFreeVRAM (n\<lparr>ns_Reserved := (if r < 0 then 0 else r)\<rparr>))"

definition drop_allocated :: "int \<Rightarrow> node_state \<Rightarrow> node_state" where
  "drop_allocated bytes n =
    (let a = i64 (ns_Allocated n - bytes)
     in recalculateFreeVRAM (n\<lparr>ns_Allocated := (if a < 0 then 0 else a)\<rparr>))"

definition add_reserved :: "int \<Rightarrow> node_state \<Rightarrow> node_state" where
  "add_reserved bytes n = recalculateFreeVRAM (n\<lparr>ns_Reserved := i64 (ns_Reserved n + bytes)\<rparr>)"

definition add_allocated :: "int \<Rightarrow> node_state \<Rightarrow> node_state" where
  "add_allocated bytes n = recalculateFreeVRAM (n\<lparr>ns_Allocated := i64 (ns_Allocated n + bytes)\<rparr>)"

text \<open>Apply a change to a node if the cache knows it (\<open>if node, ok := c.nodes[name]; ok { ... }\<close>).\<close>

definition upd_node :: "string \<Rightarrow> (node_state \<Rightarrow> node_state) \<Rightarrow> vram_cache \<Rightarrow> vram_cache" where
  "upd_node name f c =
    (case map_of (nodes c) name of
       None \<Rightarrow> c
     | Some n \<Rightarrow> c\<lparr>nodes := gput name (f n) (nodes c)\<rparr>)"

section \<open>Speculative holds\<close>

definition RollbackAssumedSlice :: "string \<Rightarrow> vram_cache \<Rightarrow> vram_cache" where
  "RollbackAssumedSlice uid c =
    (case map_of (assumedBySlice c) uid of
       None \<Rightarrow> c
     | Some a \<Rightarrow>
         (let c1 = upd_node (aa_NodeName a) (drop_reserved (aa_Bytes a)) c
          in c1\<lparr>assumedBySlice := gdel uid (assumedBySlice c1)\<rparr>))"

text \<open>
  \<open>reapExpiredAssumptions\<close>: the range loop over the assumed entries, each expired one rolled back.
  The loop body of an expired entry is the body of \<open>RollbackAssumedSlice\<close>.
\<close>

fun reap_loop :: "int \<Rightarrow> (string \<times> assumed_allocation) list \<Rightarrow> vram_cache \<Rightarrow> vram_cache" where
  "reap_loop now [] c = c"
| "reap_loop now ((uid, a) # rest) c =
     reap_loop now rest
       (if now > aa_ExpiresAt a then
          (let c1 = upd_node (aa_NodeName a) (drop_reserved (aa_Bytes a)) c
           in c1\<lparr>assumedBySlice := gdel uid (assumedBySlice c1)\<rparr>)
        else c)"

definition reapExpiredAssumptions :: "int \<Rightarrow> vram_cache \<Rightarrow> vram_cache" where
  "reapExpiredAssumptions now c = reap_loop now (assumedBySlice c) c"

definition CanFit :: "vram_cache \<Rightarrow> string \<Rightarrow> int \<Rightarrow> fit_result" where
  "CanFit c nodeName req =
    (case map_of (nodes c) nodeName of
       None \<Rightarrow> ReasonNodeNotFound
     | Some n \<Rightarrow>
         if \<not> ns_Healthy n then ReasonNodeUnhealthy
         else if ns_Free n < req then ReasonInsufficientVRAM req (ns_Free n)
         else Fits)"

definition AssumeSlice ::
  "string \<Rightarrow> string \<Rightarrow> string \<Rightarrow> int \<Rightarrow> int \<Rightarrow> int \<Rightarrow> vram_cache \<Rightarrow> cache_error + vram_cache" where
  "AssumeSlice uid ns nodeName req ttl now c =
    (if ghas (assumedBySlice c) uid then Inl (DuplicateAssumed uid)
     else if ghas (confirmedBySlice c) uid then Inl (DuplicateConfirmed uid)
     else case map_of (nodes c) nodeName of
       None \<Rightarrow> Inl (RaceNodeNotFound nodeName)
     | Some n \<Rightarrow>
         if \<not> ns_Healthy n then Inl (RaceNodeUnhealthy nodeName)
         else if ns_Free n < req then Inl (RaceLacksCapacity nodeName req (ns_Free n))
         else
           (let c1 = c\<lparr>assumedBySlice := gput uid
                 \<lparr>aa_SliceUID = uid, aa_Namespace = ns, aa_NodeName = nodeName, aa_Bytes = req,
                  aa_ExpiresAt = now + ttl\<rparr> (assumedBySlice c)\<rparr>
            in Inr (upd_node nodeName (add_reserved req) c1)))"

definition ConfirmSliceOrRearm ::
  "string \<Rightarrow> string \<Rightarrow> string \<Rightarrow> int \<Rightarrow> int \<Rightarrow> vram_cache \<Rightarrow> bool \<times> vram_cache" where
  "ConfirmSliceOrRearm uid ns nodeName bytes now c =
    (case map_of (assumedBySlice c) uid of
       Some a \<Rightarrow>
         (False, c\<lparr>confirmedBySlice := gput uid a (confirmedBySlice c),
                   assumedBySlice := gdel uid (assumedBySlice c)\<rparr>)
     | None \<Rightarrow>
         (let c1 = c\<lparr>confirmedBySlice := gput uid
                 \<lparr>aa_SliceUID = uid, aa_Namespace = ns, aa_NodeName = nodeName, aa_Bytes = bytes,
                  aa_ExpiresAt = now\<rparr> (confirmedBySlice c)\<rparr>
          in (True, upd_node nodeName (add_reserved bytes) c1)))"

definition IsAssumed :: "vram_cache \<Rightarrow> string \<Rightarrow> (string \<times> int) option" where
  "IsAssumed c uid = map_option (\<lambda>a. (aa_NodeName a, aa_Bytes a)) (map_of (assumedBySlice c) uid)"

definition PinAssumption :: "string \<Rightarrow> int \<Rightarrow> int \<Rightarrow> vram_cache \<Rightarrow> (string \<times> int) option \<times> vram_cache" where
  "PinAssumption uid ttl now c =
    (case map_of (assumedBySlice c) uid of
       None \<Rightarrow> (None, c)
     | Some a \<Rightarrow>
         (Some (aa_NodeName a, aa_Bytes a),
          c\<lparr>assumedBySlice := gput uid (a\<lparr>aa_ExpiresAt := now + ttl\<rparr>) (assumedBySlice c)\<rparr>))"

section \<open>Confirmed holds and allocations\<close>

definition ReleaseConfirmedSlice :: "string \<Rightarrow> vram_cache \<Rightarrow> vram_cache" where
  "ReleaseConfirmedSlice uid c =
    (case map_of (confirmedBySlice c) uid of
       None \<Rightarrow> c
     | Some a \<Rightarrow>
         (let c1 = upd_node (aa_NodeName a) (drop_reserved (aa_Bytes a)) c
          in c1\<lparr>confirmedBySlice := gdel uid (confirmedBySlice c1)\<rparr>))"

text \<open>
  The promotion body returns its error beside the new state, because the fallback both charges
  the node and reports an error. The confirmed branch subtracts from the node the caller names,
  clamps, adds the real bytes and recalculates once.
\<close>

definition promoteConfirmedToAllocatedLocked ::
  "string \<Rightarrow> string \<Rightarrow> int \<Rightarrow> vram_cache \<Rightarrow> cache_error option \<times> vram_cache" where
  "promoteConfirmedToAllocatedLocked uid nodeName actualBytes c =
    (case map_of (nodes c) nodeName of
       None \<Rightarrow> (Some (PromotionNodeNotFound nodeName), c)
     | Some n \<Rightarrow>
         (case map_of (confirmedBySlice c) uid of
            Some a \<Rightarrow>
              (None,
               (let r = i64 (ns_Reserved n - aa_Bytes a);
                    n1 = n\<lparr>ns_Reserved := (if r < 0 then 0 else r)\<rparr>;
                    n2 = n1\<lparr>ns_Allocated := i64 (ns_Allocated n1 + actualBytes)\<rparr>
                in c\<lparr>confirmedBySlice := gdel uid (confirmedBySlice c),
                     nodes := gput nodeName (recalculateFreeVRAM n2) (nodes c)\<rparr>))
          | None \<Rightarrow>
              (Some (PromotionFallback uid), upd_node nodeName (add_allocated actualBytes) c)))"

definition PromoteConfirmedToAllocated ::
  "string \<Rightarrow> string \<Rightarrow> int \<Rightarrow> vram_cache \<Rightarrow> cache_error option \<times> vram_cache" where
  "PromoteConfirmedToAllocated uid nodeName actualBytes c =
     promoteConfirmedToAllocatedLocked uid nodeName actualBytes c"

definition PromoteSliceToAllocatedOnce ::
  "string \<Rightarrow> string \<Rightarrow> int \<Rightarrow> vram_cache \<Rightarrow> cache_error option \<times> vram_cache" where
  "PromoteSliceToAllocatedOnce uid nodeName actualBytes c =
    (if gget [] (syncedPhaseBySlice c) uid = ''Ready'' then (None, c)
     else
       (let (err, c1) = promoteConfirmedToAllocatedLocked uid nodeName actualBytes c
        in (err, c1\<lparr>syncedPhaseBySlice := gput uid ''Ready'' (syncedPhaseBySlice c1),
                    allocatedBytesBySlice := gput uid actualBytes (allocatedBytesBySlice c1),
                    allocatedNodeBySlice := gput uid nodeName (allocatedNodeBySlice c1)\<rparr>)))"

definition ReleaseAllocated :: "string \<Rightarrow> int \<Rightarrow> vram_cache \<Rightarrow> vram_cache" where
  "ReleaseAllocated nodeName freedBytes c = upd_node nodeName (drop_allocated freedBytes) c"

definition ReleaseSliceOnce :: "string \<Rightarrow> string \<Rightarrow> vram_cache \<Rightarrow> vram_cache" where
  "ReleaseSliceOnce uid nodeName c =
    (if gget [] (syncedPhaseBySlice c) uid = ''Released'' then c
     else if \<not> ghas (allocatedBytesBySlice c) uid \<and> gget [] (syncedPhaseBySlice c) uid = [] then c
     else
       (let bytes = gget 0 (allocatedBytesBySlice c) uid;
            c1 = c\<lparr>syncedPhaseBySlice := gput uid ''Released'' (syncedPhaseBySlice c),
                   allocatedBytesBySlice := gdel uid (allocatedBytesBySlice c),
                   allocatedNodeBySlice := gdel uid (allocatedNodeBySlice c)\<rparr>
        in ReleaseAllocated nodeName bytes c1))"

definition FailSliceOnce :: "string \<Rightarrow> string \<Rightarrow> vram_cache \<Rightarrow> vram_cache" where
  "FailSliceOnce uid nodeName c =
    (let p = gget [] (syncedPhaseBySlice c) uid in
     if p = ''Failed'' \<or> p = ''Released'' then c
     else if \<not> ghas (confirmedBySlice c) uid \<and> \<not> ghas (allocatedBytesBySlice c) uid \<and> p = [] then c
     else
       (let bytes = gget 0 (allocatedBytesBySlice c) uid;
            c1 = c\<lparr>syncedPhaseBySlice := gput uid ''Failed'' (syncedPhaseBySlice c),
                   allocatedBytesBySlice := gdel uid (allocatedBytesBySlice c),
                   allocatedNodeBySlice := gdel uid (allocatedNodeBySlice c)\<rparr>;
            c2 = (if bytes > 0 then ReleaseAllocated nodeName bytes c1 else c1)
        in ReleaseConfirmedSlice uid c2))"

text \<open>The janitor's working set: assumed, then confirmed, then allocated entries, later ones winning.\<close>

definition TrackedSliceUIDs :: "vram_cache \<Rightarrow> (string, string) gomap" where
  "TrackedSliceUIDs c =
     fold (\<lambda>(uid, n) out. gput uid n out) (allocatedNodeBySlice c)
      (fold (\<lambda>(uid, a) out. gput uid (aa_NodeName a) out) (confirmedBySlice c)
        (fold (\<lambda>(uid, a) out. gput uid (aa_NodeName a) out) (assumedBySlice c) []))"

definition ForgetSlice :: "string \<Rightarrow> string \<Rightarrow> vram_cache \<Rightarrow> vram_cache" where
  "ForgetSlice uid nodeName c =
    (let c1 = RollbackAssumedSlice uid c;
         c2 = ReleaseConfirmedSlice uid c1;
         c3 = (if nodeName \<noteq> [] then ReleaseSliceOnce uid nodeName c2 else c2)
     in c3\<lparr>syncedPhaseBySlice := gdel uid (syncedPhaseBySlice c3)\<rparr>)"

section \<open>Nodes\<close>

definition HasNode :: "vram_cache \<Rightarrow> string \<Rightarrow> bool" where
  "HasNode c nodeName = ghas (nodes c) nodeName"

definition ListNodes :: "vram_cache \<Rightarrow> string list" where
  "ListNodes c = map fst (nodes c)"

definition new_node :: "string \<Rightarrow> node_state" where
  "new_node nodeName = \<lparr>ns_NodeName = nodeName, ns_Total = 0, ns_Allocated = 0, ns_Reserved = 0,
     ns_Free = 0, ns_Healthy = True, ns_Zone = []\<rparr>"

definition UpdateNode :: "string \<Rightarrow> int \<Rightarrow> int \<Rightarrow> vram_cache \<Rightarrow> vram_cache" where
  "UpdateNode nodeName totalBytes allocatedBytes c =
    (let n = gget (new_node nodeName) (nodes c) nodeName;
         n1 = n\<lparr>ns_Total := totalBytes\<rparr>;
         n2 = (if allocatedBytes > ns_Allocated n1 then n1\<lparr>ns_Allocated := allocatedBytes\<rparr> else n1)
     in c\<lparr>nodes := gput nodeName (recalculateFreeVRAM n2) (nodes c)\<rparr>)"

definition UpdateNodeCapacity :: "string \<Rightarrow> int \<Rightarrow> vram_cache \<Rightarrow> vram_cache" where
  "UpdateNodeCapacity nodeName totalGiB c =
     UpdateNode nodeName (i64 (i64 (i64 (totalGiB * 1024) * 1024) * 1024)) 0 c"

definition RemoveNode :: "string \<Rightarrow> vram_cache \<Rightarrow> vram_cache" where
  "RemoveNode nodeName c =
    (if \<not> ghas (nodes c) nodeName then c
     else
       (let gone = map fst (filter (\<lambda>(uid, n). n = nodeName) (allocatedNodeBySlice c))
        in c\<lparr>assumedBySlice := filter (\<lambda>(uid, a). aa_NodeName a \<noteq> nodeName) (assumedBySlice c),
             confirmedBySlice := filter (\<lambda>(uid, a). aa_NodeName a \<noteq> nodeName) (confirmedBySlice c),
             allocatedNodeBySlice := filter (\<lambda>(uid, n). n \<noteq> nodeName) (allocatedNodeBySlice c),
             allocatedBytesBySlice := filter (\<lambda>(uid, b). uid \<notin> set gone) (allocatedBytesBySlice c),
             syncedPhaseBySlice := filter (\<lambda>(uid, p). uid \<notin> set gone) (syncedPhaseBySlice c),
             nodes := gdel nodeName (nodes c)\<rparr>))"

definition SetNodeHealth :: "string \<Rightarrow> bool \<Rightarrow> vram_cache \<Rightarrow> vram_cache" where
  "SetNodeHealth nodeName healthy c = upd_node nodeName (\<lambda>n. n\<lparr>ns_Healthy := healthy\<rparr>) c"

text \<open>A node snapshot has the fields of the node state, so its record is reused.\<close>

definition SnapshotNode :: "vram_cache \<Rightarrow> string \<Rightarrow> node_state option" where
  "SnapshotNode c nodeName = map_of (nodes c) nodeName"

definition SnapshotAllNodes :: "vram_cache \<Rightarrow> node_state list" where
  "SnapshotAllNodes c = map snd (nodes c)"

definition SetNodeZone :: "string \<Rightarrow> string \<Rightarrow> vram_cache \<Rightarrow> vram_cache" where
  "SetNodeZone nodeName zone c =
    (let n = gget (new_node nodeName) (nodes c) nodeName
     in c\<lparr>nodes := gput nodeName (n\<lparr>ns_Zone := zone\<rparr>) (nodes c)\<rparr>)"

definition NodeZone :: "vram_cache \<Rightarrow> string \<Rightarrow> string" where
  "NodeZone c nodeName = (case map_of (nodes c) nodeName of None \<Rightarrow> [] | Some n \<Rightarrow> ns_Zone n)"

section \<open>The in-flight ledger of a namespace\<close>

definition pending_of :: "string \<Rightarrow> string list \<Rightarrow> (string, assumed_allocation) gomap \<Rightarrow> int \<Rightarrow> int" where
  "pending_of ns counted m acc =
     fold (\<lambda>(uid, a) t. if aa_Namespace a \<noteq> ns then t
                         else if uid \<in> set counted then t
                         else i64 (t + aa_Bytes a)) m acc"

definition PendingNamespaceBytes :: "vram_cache \<Rightarrow> string \<Rightarrow> string list \<Rightarrow> int" where
  "PendingNamespaceBytes c ns counted =
     pending_of ns counted (confirmedBySlice c) (pending_of ns counted (assumedBySlice c) 0)"

end
