(* ===== verification/VramLedger.thy ===== *)
theory VramLedger
  imports VramCache
begin

text \<open>
  The ledger invariant of the VRAM cache. For every node the cache knows, the reserved counter is
  exactly the sum of the speculative and confirmed holds recorded for it, the allocated counter
  covers the recorded allocations, and the free counter is what is left of the total, floored at
  zero. \<open>cache_step\<close> collects the operations with what their callers guarantee (the node named is
  the one the ledger holds, byte counts are not negative and stay below \<open>2 ^ 63\<close> on a node);
  every reachable cache satisfies the invariant.
\<close>

section \<open>The invariant\<close>

definition on_node :: "string \<Rightarrow> string \<Rightarrow> assumed_allocation \<Rightarrow> int" where
  "on_node n uid a = (if aa_NodeName a = n then aa_Bytes a else 0)"

definition assumed_on :: "vram_cache \<Rightarrow> string \<Rightarrow> int" where
  "assumed_on c n = gsum (on_node n) (assumedBySlice c)"

definition confirmed_on :: "vram_cache \<Rightarrow> string \<Rightarrow> int" where
  "confirmed_on c n = gsum (on_node n) (confirmedBySlice c)"

definition alloc_on :: "(string, string) gomap \<Rightarrow> string \<Rightarrow> string \<Rightarrow> int \<Rightarrow> int" where
  "alloc_on m n uid b = (if map_of m uid = Some n then b else 0)"

definition allocated_on :: "vram_cache \<Rightarrow> string \<Rightarrow> int" where
  "allocated_on c n = gsum (alloc_on (allocatedNodeBySlice c) n) (allocatedBytesBySlice c)"

text \<open>What the ledger holds on a node, in every stage.\<close>

definition used_on :: "vram_cache \<Rightarrow> string \<Rightarrow> int" where
  "used_on c n = assumed_on c n + confirmed_on c n + allocated_on c n"

definition node_ok :: "int \<Rightarrow> int \<Rightarrow> node_state \<Rightarrow> bool" where
  "node_ok r a n \<longleftrightarrow>
     ns_Reserved n = r \<and> 0 \<le> r \<and> 0 \<le> a \<and> a \<le> ns_Allocated n \<and>
     ns_Allocated n + ns_Reserved n < 2 ^ 63 \<and> 0 \<le> ns_Total n \<and> ns_Total n < 2 ^ 63 \<and>
     ns_Free n = max 0 (ns_Total n - ns_Allocated n - ns_Reserved n)"

definition maps_ok :: "vram_cache \<Rightarrow> bool" where
  "maps_ok c \<longleftrightarrow>
     gmap_ok (nodes c) \<and> gmap_ok (assumedBySlice c) \<and> gmap_ok (confirmedBySlice c) \<and>
     gmap_ok (syncedPhaseBySlice c) \<and> gmap_ok (allocatedBytesBySlice c) \<and>
     gmap_ok (allocatedNodeBySlice c)"

definition stages_ok :: "vram_cache \<Rightarrow> bool" where
  "stages_ok c \<longleftrightarrow>
     (\<forall>uid. ghas (assumedBySlice c) uid \<longrightarrow> \<not> ghas (confirmedBySlice c) uid) \<and>
     (\<forall>uid. ghas (allocatedBytesBySlice c) uid \<longleftrightarrow> ghas (allocatedNodeBySlice c) uid) \<and>
     (\<forall>uid. gget [] (syncedPhaseBySlice c) uid = ''Ready'' \<longleftrightarrow> ghas (allocatedBytesBySlice c) uid)"

definition entries_ok :: "vram_cache \<Rightarrow> bool" where
  "entries_ok c \<longleftrightarrow>
     (\<forall>uid a. map_of (assumedBySlice c) uid = Some a \<longrightarrow>
        0 \<le> aa_Bytes a \<and> ghas (nodes c) (aa_NodeName a)) \<and>
     (\<forall>uid a. map_of (confirmedBySlice c) uid = Some a \<longrightarrow>
        0 \<le> aa_Bytes a \<and> ghas (nodes c) (aa_NodeName a)) \<and>
     (\<forall>uid b. map_of (allocatedBytesBySlice c) uid = Some b \<longrightarrow> 0 \<le> b) \<and>
     (\<forall>uid n. map_of (allocatedNodeBySlice c) uid = Some n \<longrightarrow> ghas (nodes c) n)"

definition counters_ok :: "vram_cache \<Rightarrow> bool" where
  "counters_ok c \<longleftrightarrow> (\<forall>k n. map_of (nodes c) k = Some n \<longrightarrow>
     node_ok (assumed_on c k + confirmed_on c k) (allocated_on c k) n)"

definition cache_ok :: "vram_cache \<Rightarrow> bool" where
  "cache_ok c \<longleftrightarrow> maps_ok c \<and> stages_ok c \<and> entries_ok c \<and> counters_ok c"

lemmas cache_ok_defs = cache_ok_def maps_ok_def stages_ok_def entries_ok_def

section \<open>Counters of one node\<close>

lemma i64_small: "- (2 ^ 63) \<le> x \<Longrightarrow> x < 2 ^ 63 \<Longrightarrow> i64 x = x"
  by (rule i64_id)

lemma recalculate_free:
  assumes "0 \<le> ns_Total n" and "ns_Total n < 2 ^ 63" and "0 \<le> ns_Allocated n"
    and "0 \<le> ns_Reserved n" and "ns_Allocated n + ns_Reserved n < 2 ^ 63"
  shows "recalculateFreeVRAM n =
    n\<lparr>ns_Free := max 0 (ns_Total n - ns_Allocated n - ns_Reserved n)\<rparr>"
proof -
  have "i64 (ns_Total n - ns_Allocated n) = ns_Total n - ns_Allocated n"
    using assms by (intro i64_id) linarith+
  moreover have "i64 (ns_Total n - ns_Allocated n - ns_Reserved n)
      = ns_Total n - ns_Allocated n - ns_Reserved n"
    using assms by (intro i64_id) linarith+
  ultimately show ?thesis
    by (simp add: recalculateFreeVRAM_def Let_def max_def)
qed

lemma node_ok_bounds:
  assumes "node_ok r a n"
  shows "0 \<le> ns_Total n" and "ns_Total n < 2 ^ 63" and "0 \<le> ns_Allocated n"
    and "0 \<le> ns_Reserved n" and "ns_Allocated n + ns_Reserved n < 2 ^ 63"
  using assms by (auto simp: node_ok_def)

lemma node_ok_add_reserved:
  assumes ok: "node_ok r a n" and "0 \<le> b" and fits: "ns_Allocated n + ns_Reserved n + b < 2 ^ 63"
  shows "node_ok (r + b) a (add_reserved b n)"
proof -
  note bounds = node_ok_bounds [OF ok]
  have "i64 (ns_Reserved n + b) = ns_Reserved n + b"
    using bounds assms by (intro i64_id) linarith+
  with bounds assms show ?thesis
    by (simp add: add_reserved_def recalculate_free node_ok_def)
qed

lemma node_ok_drop_reserved:
  assumes ok: "node_ok r a n" and "0 \<le> b" and "b \<le> r"
  shows "node_ok (r - b) a (drop_reserved b n)"
proof -
  note bounds = node_ok_bounds [OF ok]
  have r: "ns_Reserved n = r" using ok by (simp add: node_ok_def)
  have "i64 (r - b) = r - b"
    using bounds assms r by (intro i64_id) linarith+
  with bounds assms r show ?thesis
    by (simp add: drop_reserved_def recalculate_free node_ok_def Let_def)
qed

lemma node_ok_add_allocated:
  assumes ok: "node_ok r a n" and "0 \<le> b" and fits: "ns_Allocated n + ns_Reserved n + b < 2 ^ 63"
  shows "node_ok r (a + b) (add_allocated b n)"
proof -
  note bounds = node_ok_bounds [OF ok]
  have "i64 (ns_Allocated n + b) = ns_Allocated n + b"
    using bounds assms by (intro i64_id) linarith+
  with bounds assms show ?thesis
    by (simp add: add_allocated_def recalculate_free node_ok_def)
qed

lemma node_ok_drop_allocated:
  assumes ok: "node_ok r a n" and "0 \<le> b" and "b \<le> a"
  shows "node_ok r (a - b) (drop_allocated b n)"
proof -
  note bounds = node_ok_bounds [OF ok]
  have a: "a \<le> ns_Allocated n" "0 \<le> a" using ok by (simp_all add: node_ok_def)
  have "i64 (ns_Allocated n - b) = ns_Allocated n - b"
    using bounds assms a by (intro i64_id) linarith+
  with bounds assms a ok show ?thesis
    by (simp add: drop_allocated_def recalculate_free node_ok_def Let_def)
qed

section \<open>Sums of the ledger under updates\<close>

lemma upd_node_Some: "map_of (nodes c) k = Some n \<Longrightarrow> upd_node k f c = c\<lparr>nodes := gput k (f n) (nodes c)\<rparr>"
  by (simp add: upd_node_def)

lemma upd_node_None: "map_of (nodes c) k = None \<Longrightarrow> upd_node k f c = c"
  by (simp add: upd_node_def)

lemma upd_node_sel [simp]:
  "assumedBySlice (upd_node k f c) = assumedBySlice c"
  "confirmedBySlice (upd_node k f c) = confirmedBySlice c"
  "syncedPhaseBySlice (upd_node k f c) = syncedPhaseBySlice c"
  "allocatedBytesBySlice (upd_node k f c) = allocatedBytesBySlice c"
  "allocatedNodeBySlice (upd_node k f c) = allocatedNodeBySlice c"
  "seeded (upd_node k f c) = seeded c"
  by (simp_all add: upd_node_def split: option.splits)

lemma upd_node_nodes:
  "map_of (nodes (upd_node k f c)) j =
    (if j = k then map_option f (map_of (nodes c) k) else map_of (nodes c) j)"
  by (auto simp: upd_node_def split: option.splits)

lemma gmap_ok_upd_node [simp]: "gmap_ok (nodes c) \<Longrightarrow> gmap_ok (nodes (upd_node k f c))"
  by (simp add: upd_node_def split: option.splits)

lemma on_node_gput:
  "gmap_ok m \<Longrightarrow> map_of m uid = None \<Longrightarrow>
     gsum (on_node k) (gput uid a m) = gsum (on_node k) m + (if aa_NodeName a = k then aa_Bytes a else 0)"
  by (simp add: gsum_gput on_node_def)

lemma on_node_gdel:
  "gmap_ok m \<Longrightarrow> map_of m uid = Some a \<Longrightarrow>
     gsum (on_node k) (gdel uid m) = gsum (on_node k) m - (if aa_NodeName a = k then aa_Bytes a else 0)"
  by (simp add: gsum_gdel on_node_def)

lemma alloc_on_gput:
  assumes ok: "gmap_ok mb" and fresh: "map_of mb uid = None"
  shows "gsum (alloc_on (gput uid n mn) k) (gput uid b mb) = gsum (alloc_on mn k) mb + (if n = k then b else 0)"
proof -
  have "gsum (alloc_on (gput uid n mn) k) mb = gsum (alloc_on mn k) mb"
    using ok fresh by (intro gsum_cong) (auto simp: alloc_on_def map_of_SomeD_ok)
  then show ?thesis
    using assms by (simp add: gsum_gput alloc_on_def)
qed

lemma alloc_on_gdel:
  assumes ok: "gmap_ok mb" and b: "map_of mb uid = Some b" and n: "map_of mn uid = Some n"
  shows "gsum (alloc_on (gdel uid mn) k) (gdel uid mb) = gsum (alloc_on mn k) mb - (if n = k then b else 0)"
proof -
  have "gsum (alloc_on (gdel uid mn) k) (gdel uid mb) = gsum (alloc_on mn k) (gdel uid mb)"
    using ok by (intro gsum_cong) (auto simp: alloc_on_def map_of_SomeD_ok)
  then show ?thesis
    using assms by (simp add: gsum_gdel alloc_on_def)
qed

lemma alloc_on_gdel_None:
  assumes "gmap_ok mb" and "map_of mb uid = None"
  shows "gsum (alloc_on (gdel uid mn) k) (gdel uid mb) = gsum (alloc_on mn k) mb"
proof -
  have "gsum (alloc_on (gdel uid mn) k) (gdel uid mb) = gsum (alloc_on mn k) (gdel uid mb)"
    using assms(1) by (intro gsum_cong) (auto simp: alloc_on_def map_of_SomeD_ok)
  then show ?thesis
    using assms by (simp add: gsum_gdel)
qed

text \<open>A hold's bytes are part of its node's sum.\<close>

lemma on_node_ge:
  assumes "gmap_ok m" and "map_of m uid = Some a"
    and "\<And>u b. map_of m u = Some b \<Longrightarrow> 0 \<le> aa_Bytes b"
  shows "aa_Bytes a \<le> gsum (on_node (aa_NodeName a)) m"
  using at_key_le_gsum [of m "on_node (aa_NodeName a)" uid] assms
  by (auto simp: on_node_def map_of_SomeD_ok)

lemma alloc_on_ge:
  assumes "gmap_ok mb" and "map_of mb uid = Some b" and "map_of mn uid = Some n"
    and "\<And>u x. map_of mb u = Some x \<Longrightarrow> 0 \<le> x"
  shows "b \<le> gsum (alloc_on mn n) mb"
  using at_key_le_gsum [of mb "alloc_on mn n" uid] assms
  by (auto simp: alloc_on_def map_of_SomeD_ok)

lemma on_node_nonneg:
  "gmap_ok m \<Longrightarrow> (\<And>u b. map_of m u = Some b \<Longrightarrow> 0 \<le> aa_Bytes b) \<Longrightarrow> 0 \<le> gsum (on_node k) m"
  by (rule gsum_nonneg) (auto simp: on_node_def map_of_SomeD_ok)

lemma alloc_on_nonneg:
  "gmap_ok mb \<Longrightarrow> (\<And>u x. map_of mb u = Some x \<Longrightarrow> 0 \<le> x) \<Longrightarrow> 0 \<le> gsum (alloc_on mn k) mb"
  by (rule gsum_nonneg) (auto simp: alloc_on_def map_of_SomeD_ok)

text \<open>One node changes, the ledger's sums elsewhere do not.\<close>

lemma cache_ok_at:
  assumes "cache_ok c" and "maps_ok c'" and "stages_ok c'" and "entries_ok c'"
    and "map_of (nodes c') = (map_of (nodes c))(k \<mapsto> n')"
    and "\<And>j. j \<noteq> k \<Longrightarrow> assumed_on c' j + confirmed_on c' j = assumed_on c j + confirmed_on c j"
    and "\<And>j. j \<noteq> k \<Longrightarrow> allocated_on c' j = allocated_on c j"
    and "node_ok (assumed_on c' k + confirmed_on c' k) (allocated_on c' k) n'"
  shows "cache_ok c'"
  using assms by (simp add: cache_ok_def counters_ok_def)

lemma cache_okD:
  assumes "cache_ok c"
  shows "maps_ok c" and "stages_ok c" and "entries_ok c" and "counters_ok c"
  using assms by (simp_all add: cache_ok_def)

lemma counters_okD:
  "cache_ok c \<Longrightarrow> map_of (nodes c) k = Some n \<Longrightarrow>
     node_ok (assumed_on c k + confirmed_on c k) (allocated_on c k) n"
  by (simp add: cache_ok_def counters_ok_def)

lemma assumed_entry:
  assumes "entries_ok c" and "map_of (assumedBySlice c) uid = Some a"
  obtains n where "0 \<le> aa_Bytes a" and "map_of (nodes c) (aa_NodeName a) = Some n"
proof -
  have "0 \<le> aa_Bytes a \<and> ghas (nodes c) (aa_NodeName a)"
    using assms unfolding entries_ok_def by blast
  then show ?thesis using that by (auto elim: ghasE)
qed

lemma confirmed_entry:
  assumes "entries_ok c" and "map_of (confirmedBySlice c) uid = Some a"
  obtains n where "0 \<le> aa_Bytes a" and "map_of (nodes c) (aa_NodeName a) = Some n"
proof -
  have "0 \<le> aa_Bytes a \<and> ghas (nodes c) (aa_NodeName a)"
    using assms unfolding entries_ok_def by blast
  then show ?thesis using that by (auto elim: ghasE)
qed

lemmas on_defs = assumed_on_def confirmed_on_def allocated_on_def

lemma cache_ok_New: "cache_ok NewVRAMCache"
  by (simp add: cache_ok_defs counters_ok_def NewVRAMCache_def gget_def)

section \<open>Each operation keeps the invariant\<close>

lemma cache_ok_AssumeSlice:
  assumes ok: "cache_ok c" and "0 \<le> req" and asm: "AssumeSlice uid ns k req ttl now c = Inr c'"
  shows "cache_ok c'"
proof -
  note parts = cache_okD [OF ok]
  from asm obtain n where fresh: "\<not> ghas (assumedBySlice c) uid" "\<not> ghas (confirmedBySlice c) uid"
      and n: "map_of (nodes c) k = Some n" and room: "req \<le> ns_Free n"
    by (auto simp: AssumeSlice_def split: if_splits option.splits)
  define a where "a = \<lparr>aa_SliceUID = uid, aa_Namespace = ns, aa_NodeName = k, aa_Bytes = req,
                  aa_ExpiresAt = now + ttl\<rparr>"
  have c': "c' = c\<lparr>assumedBySlice := gput uid a (assumedBySlice c),
                   nodes := gput k (add_reserved req n) (nodes c)\<rparr>"
    using asm n fresh by (auto simp: AssumeSlice_def a_def upd_node_def Let_def split: if_splits)
  note nok = counters_okD [OF ok n]
  have sums: "assumed_on c' j = assumed_on c j + (if j = k then req else 0)"
      "confirmed_on c' j = confirmed_on c j" "allocated_on c' j = allocated_on c j" for j
    using parts(1) fresh by (auto simp: c' on_defs on_node_gput maps_ok_def a_def not_ghas)
  have fits: "ns_Allocated n + ns_Reserved n + req < 2 ^ 63"
    using nok room \<open>0 \<le> req\<close> by (auto simp: node_ok_def max_def split: if_splits)
  show ?thesis
  proof (rule cache_ok_at [OF ok])
    show "maps_ok c'" using parts(1) by (simp add: maps_ok_def c')
    show "stages_ok c'" using parts(2) fresh by (simp add: stages_ok_def c')
    show "entries_ok c'" using parts(3) \<open>0 \<le> req\<close> n by (auto simp: entries_ok_def c' a_def)
    show "map_of (nodes c') = (map_of (nodes c))(k \<mapsto> add_reserved req n)" by (simp add: c')
    show "node_ok (assumed_on c' k + confirmed_on c' k) (allocated_on c' k) (add_reserved req n)"
      using node_ok_add_reserved [OF nok \<open>0 \<le> req\<close> fits] by (simp add: sums algebra_simps)
  qed (simp_all add: sums)
qed

text \<open>Dropping one speculative hold: the rollback, and the reaper's body.\<close>

lemma RollbackAssumedSlice_Some:
  "map_of (assumedBySlice c) uid = Some a \<Longrightarrow> RollbackAssumedSlice uid c =
    (upd_node (aa_NodeName a) (drop_reserved (aa_Bytes a)) c)\<lparr>assumedBySlice := gdel uid (assumedBySlice c)\<rparr>"
  by (simp add: RollbackAssumedSlice_def Let_def)

lemma RollbackAssumedSlice_None:
  "map_of (assumedBySlice c) uid = None \<Longrightarrow> RollbackAssumedSlice uid c = c"
  by (simp add: RollbackAssumedSlice_def)

lemma cache_ok_RollbackAssumedSlice:
  assumes ok: "cache_ok c"
  shows "cache_ok (RollbackAssumedSlice uid c)"
proof (cases "map_of (assumedBySlice c) uid")
  case None
  with ok show ?thesis by (simp add: RollbackAssumedSlice_None)
next
  case (Some a)
  note parts = cache_okD [OF ok]
  let ?c' = "RollbackAssumedSlice uid c" and ?k = "aa_NodeName a"
  obtain n where pos: "0 \<le> aa_Bytes a" and n: "map_of (nodes c) ?k = Some n"
    by (rule assumed_entry [OF parts(3) Some])
  have c': "?c' = c\<lparr>nodes := gput ?k (drop_reserved (aa_Bytes a) n) (nodes c),
                    assumedBySlice := gdel uid (assumedBySlice c)\<rparr>"
    using Some n by (simp add: RollbackAssumedSlice_Some upd_node_Some)
  have sums: "assumed_on ?c' j = assumed_on c j - (if j = ?k then aa_Bytes a else 0)"
      "confirmed_on ?c' j = confirmed_on c j" "allocated_on ?c' j = allocated_on c j" for j
    using parts(1) Some by (auto simp: c' on_defs on_node_gdel maps_ok_def)
  have "aa_Bytes a \<le> assumed_on c ?k" and "0 \<le> confirmed_on c ?k"
    using parts(1,3) Some unfolding on_defs
    by (auto intro!: on_node_ge on_node_nonneg simp: maps_ok_def entries_ok_def)
  then have le: "aa_Bytes a \<le> assumed_on c ?k + confirmed_on c ?k" by simp
  show ?thesis
  proof (rule cache_ok_at [OF ok])
    show "maps_ok ?c'" using parts(1) by (simp add: maps_ok_def c')
    show "stages_ok ?c'" using parts(2) by (simp add: stages_ok_def c')
    show "entries_ok ?c'" using parts(3) n by (auto simp: entries_ok_def c')
    show "map_of (nodes ?c') = (map_of (nodes c))(?k \<mapsto> drop_reserved (aa_Bytes a) n)" by (simp add: c')
    show "node_ok (assumed_on ?c' ?k + confirmed_on ?c' ?k) (allocated_on ?c' ?k) (drop_reserved (aa_Bytes a) n)"
      using node_ok_drop_reserved [OF counters_okD [OF ok n] pos le] by (simp add: sums algebra_simps)
  qed (simp_all add: sums)
qed


lemma reap_loop_Cons:
  "map_of (assumedBySlice c) uid = Some a \<Longrightarrow> reap_loop now ((uid, a) # rest) c =
     reap_loop now rest (if now > aa_ExpiresAt a then RollbackAssumedSlice uid c else c)"
  by (simp add: RollbackAssumedSlice_Some Let_def)

lemma RollbackAssumedSlice_other:
  "u \<noteq> uid \<Longrightarrow> map_of (assumedBySlice (RollbackAssumedSlice uid c)) u = map_of (assumedBySlice c) u"
  by (cases "map_of (assumedBySlice c) uid")
    (simp_all add: RollbackAssumedSlice_Some RollbackAssumedSlice_None)

lemma reap_loop_ok:
  assumes "cache_ok c" and "\<And>uid a. (uid, a) \<in> set m \<Longrightarrow> map_of (assumedBySlice c) uid = Some a"
    and "distinct (map fst m)"
  shows "cache_ok (reap_loop now m c)"
  using assms
proof (induction m arbitrary: c)
  case Nil
  then show ?case by simp
next
  case (Cons ua rest)
  obtain uid a where ua: "ua = (uid, a)" by (cases ua)
  have a: "map_of (assumedBySlice c) uid = Some a" using Cons.prems(2) ua by simp
  let ?c1 = "if now > aa_ExpiresAt a then RollbackAssumedSlice uid c else c"
  have "cache_ok ?c1" using Cons.prems(1) cache_ok_RollbackAssumedSlice by simp
  moreover have "map_of (assumedBySlice ?c1) u = Some b" if ub: "(u, b) \<in> set rest" for u b
  proof -
    have "u \<noteq> uid" using ub Cons.prems(3) ua by force
    moreover have "map_of (assumedBySlice c) u = Some b" using ub Cons.prems(2) by simp
    ultimately show ?thesis by (simp add: RollbackAssumedSlice_other)
  qed
  moreover have "distinct (map fst rest)" using Cons.prems(3) by simp
  ultimately have "cache_ok (reap_loop now rest ?c1)" by (rule Cons.IH)
  then show ?case by (simp only: ua reap_loop_Cons [OF a])
qed

lemma cache_ok_reap: "cache_ok c \<Longrightarrow> cache_ok (reapExpiredAssumptions now c)"
proof -
  assume ok: "cache_ok c"
  then have m: "gmap_ok (assumedBySlice c)" by (simp add: cache_ok_def maps_ok_def)
  show ?thesis
    unfolding reapExpiredAssumptions_def
  proof (rule reap_loop_ok [OF ok])
    show "distinct (map fst (assumedBySlice c))" using m by (simp add: gmap_ok_def)
    fix uid a assume "(uid, a) \<in> set (assumedBySlice c)"
    with m show "map_of (assumedBySlice c) uid = Some a" by (simp only: map_of_SomeD_ok)
  qed
qed

lemma cache_ok_Pin: "cache_ok c \<Longrightarrow> cache_ok (snd (PinAssumption uid ttl now c))"
proof (cases "map_of (assumedBySlice c) uid")
  case None
  then show "cache_ok c \<Longrightarrow> ?thesis" by (simp add: PinAssumption_def)
next
  case (Some a)
  assume ok: "cache_ok c"
  note parts = cache_okD [OF ok]
  let ?c' = "c\<lparr>assumedBySlice := gput uid (a\<lparr>aa_ExpiresAt := now + ttl\<rparr>) (assumedBySlice c)\<rparr>"
  have sums: "assumed_on ?c' j = assumed_on c j" "confirmed_on ?c' j = confirmed_on c j"
      "allocated_on ?c' j = allocated_on c j" for j
    using parts(1) Some by (auto simp: on_defs gsum_gput on_node_def maps_ok_def)
  have "cache_ok ?c'"
    using parts Some by (auto simp: cache_ok_defs counters_ok_def sums map_of_SomeD_ghas)
  with Some show ?thesis by (simp add: PinAssumption_def)
qed

lemma cache_ok_Confirm:
  assumes ok: "cache_ok c" and a: "map_of (assumedBySlice c) uid = Some a"
  shows "cache_ok (snd (ConfirmSliceOrRearm uid ns k bytes now c))"
proof -
  note parts = cache_okD [OF ok]
  let ?c' = "c\<lparr>confirmedBySlice := gput uid a (confirmedBySlice c), assumedBySlice := gdel uid (assumedBySlice c)\<rparr>"
  have free: "map_of (confirmedBySlice c) uid = None"
    using parts(2) a by (auto simp: stages_ok_def not_ghas map_of_SomeD_ghas)
  have sums: "assumed_on ?c' j + confirmed_on ?c' j = assumed_on c j + confirmed_on c j"
      "allocated_on ?c' j = allocated_on c j" for j
    using parts(1) a free by (auto simp: on_defs on_node_gput on_node_gdel maps_ok_def)
  have "cache_ok ?c'"
    using parts a by (auto simp: cache_ok_defs counters_ok_def sums map_of_SomeD_ghas)
  with a show ?thesis by (simp add: ConfirmSliceOrRearm_def)
qed

lemma cache_ok_Rearm:
  assumes ok: "cache_ok c" and fresh: "\<not> ghas (assumedBySlice c) uid" "\<not> ghas (confirmedBySlice c) uid"
    and n: "map_of (nodes c) k = Some n" and pos: "0 \<le> bytes"
    and fits: "ns_Allocated n + ns_Reserved n + bytes < 2 ^ 63"
  shows "cache_ok (snd (ConfirmSliceOrRearm uid ns k bytes now c))"
proof -
  note parts = cache_okD [OF ok] and nok = counters_okD [OF ok n]
  define a where "a = \<lparr>aa_SliceUID = uid, aa_Namespace = ns, aa_NodeName = k, aa_Bytes = bytes,
                  aa_ExpiresAt = now\<rparr>"
  let ?c' = "c\<lparr>confirmedBySlice := gput uid a (confirmedBySlice c),
               nodes := gput k (add_reserved bytes n) (nodes c)\<rparr>"
  have c': "snd (ConfirmSliceOrRearm uid ns k bytes now c) = ?c'"
    using fresh n by (simp add: ConfirmSliceOrRearm_def not_ghas upd_node_def a_def Let_def)
  have sums: "confirmed_on ?c' j = confirmed_on c j + (if j = k then bytes else 0)"
      "assumed_on ?c' j = assumed_on c j" "allocated_on ?c' j = allocated_on c j" for j
    using parts(1) fresh by (auto simp: on_defs on_node_gput maps_ok_def a_def not_ghas)
  have "cache_ok ?c'"
  proof (rule cache_ok_at [OF ok])
    show "maps_ok ?c'" using parts(1) by (simp add: maps_ok_def)
    show "stages_ok ?c'" using parts(2) fresh by (auto simp: stages_ok_def)
    show "entries_ok ?c'" using parts(3) pos n by (auto simp: entries_ok_def a_def)
    show "map_of (nodes ?c') = (map_of (nodes c))(k \<mapsto> add_reserved bytes n)" by simp
    show "node_ok (assumed_on ?c' k + confirmed_on ?c' k) (allocated_on ?c' k) (add_reserved bytes n)"
      using node_ok_add_reserved [OF nok pos fits] by (simp add: sums algebra_simps)
  qed (simp_all add: sums)
  then show ?thesis by (simp only: c')
qed

lemma ReleaseConfirmedSlice_Some:
  "map_of (confirmedBySlice c) uid = Some a \<Longrightarrow> ReleaseConfirmedSlice uid c =
    (upd_node (aa_NodeName a) (drop_reserved (aa_Bytes a)) c)\<lparr>confirmedBySlice := gdel uid (confirmedBySlice c)\<rparr>"
  by (simp add: ReleaseConfirmedSlice_def Let_def)

lemma ReleaseConfirmedSlice_None:
  "map_of (confirmedBySlice c) uid = None \<Longrightarrow> ReleaseConfirmedSlice uid c = c"
  by (simp add: ReleaseConfirmedSlice_def)

lemma cache_ok_ReleaseConfirmedSlice:
  assumes ok: "cache_ok c"
  shows "cache_ok (ReleaseConfirmedSlice uid c)"
proof (cases "map_of (confirmedBySlice c) uid")
  case None
  with ok show ?thesis by (simp add: ReleaseConfirmedSlice_None)
next
  case (Some a)
  note parts = cache_okD [OF ok]
  let ?c' = "ReleaseConfirmedSlice uid c" and ?k = "aa_NodeName a"
  obtain n where pos: "0 \<le> aa_Bytes a" and n: "map_of (nodes c) ?k = Some n"
    by (rule confirmed_entry [OF parts(3) Some])
  have c': "?c' = c\<lparr>nodes := gput ?k (drop_reserved (aa_Bytes a) n) (nodes c),
                    confirmedBySlice := gdel uid (confirmedBySlice c)\<rparr>"
    using Some n by (simp add: ReleaseConfirmedSlice_Some upd_node_Some)
  have sums: "confirmed_on ?c' j = confirmed_on c j - (if j = ?k then aa_Bytes a else 0)"
      "assumed_on ?c' j = assumed_on c j" "allocated_on ?c' j = allocated_on c j" for j
    using parts(1) Some by (auto simp: c' on_defs on_node_gdel maps_ok_def)
  have "aa_Bytes a \<le> confirmed_on c ?k" and "0 \<le> assumed_on c ?k"
    using parts(1,3) Some unfolding on_defs
    by (auto intro!: on_node_ge on_node_nonneg simp: maps_ok_def entries_ok_def)
  then have le: "aa_Bytes a \<le> assumed_on c ?k + confirmed_on c ?k" by simp
  show ?thesis
  proof (rule cache_ok_at [OF ok])
    show "maps_ok ?c'" using parts(1) by (simp add: maps_ok_def c')
    show "stages_ok ?c'" using parts(2) by (simp add: stages_ok_def c')
    show "entries_ok ?c'" using parts(3) n by (auto simp: entries_ok_def c')
    show "map_of (nodes ?c') = (map_of (nodes c))(?k \<mapsto> drop_reserved (aa_Bytes a) n)" by (simp add: c')
    show "node_ok (assumed_on ?c' ?k + confirmed_on ?c' ?k) (allocated_on ?c' ?k) (drop_reserved (aa_Bytes a) n)"
      using node_ok_drop_reserved [OF counters_okD [OF ok n] pos le] by (simp add: sums algebra_simps)
  qed (simp_all add: sums)
qed

text \<open>The caller names the node the ledger has the allocation on, if it has one.\<close>

definition node_agrees :: "vram_cache \<Rightarrow> string \<Rightarrow> string \<Rightarrow> bool" where
  "node_agrees c uid k \<longleftrightarrow> (\<forall>m. map_of (allocatedNodeBySlice c) uid = Some m \<longrightarrow> m = k)"

lemma node_ok_promote:
  assumes ok: "node_ok r a n" and "0 \<le> b" and "b \<le> r" and "0 \<le> x"
    and fits: "ns_Allocated n + ns_Reserved n + x < 2 ^ 63"
  shows "node_ok (r - b) (a + x)
    (recalculateFreeVRAM (n\<lparr>ns_Reserved := (if i64 (ns_Reserved n - b) < 0 then 0 else i64 (ns_Reserved n - b)),
       ns_Allocated := i64 (ns_Allocated n + x)\<rparr>))"
proof -
  note bounds = node_ok_bounds [OF ok]
  have r: "ns_Reserved n = r" using ok by (simp add: node_ok_def)
  have "i64 (r - b) = r - b"
    using bounds assms r by (intro i64_id) linarith+
  moreover have "i64 (ns_Allocated n + x) = ns_Allocated n + x"
    using bounds assms by (intro i64_id) linarith+
  ultimately show ?thesis
    using bounds assms r by (simp add: recalculate_free node_ok_def)
qed

lemma promote_not_ready:
  assumes "stages_ok c" and "gget [] (syncedPhaseBySlice c) uid \<noteq> ''Ready''"
  shows "map_of (allocatedBytesBySlice c) uid = None" and "map_of (allocatedNodeBySlice c) uid = None"
  using assms by (simp_all add: stages_ok_def flip: not_ghas)

lemma alloc_entry:
  assumes "stages_ok c" and "map_of (allocatedBytesBySlice c) uid = Some b"
  obtains m where "map_of (allocatedNodeBySlice c) uid = Some m"
proof -
  have "ghas (allocatedBytesBySlice c) uid" by (rule map_of_SomeD_ghas [OF assms(2)])
  with assms(1) have "ghas (allocatedNodeBySlice c) uid" by (simp add: stages_ok_def)
  then show ?thesis using that by (auto elim: ghasE)
qed

lemma cache_ok_Promote:
  assumes ok: "cache_ok c" and n: "map_of (nodes c) k = Some n" and pos: "0 \<le> bytes"
    and fits: "ns_Allocated n + ns_Reserved n + bytes < 2 ^ 63"
    and agree: "\<And>a. map_of (confirmedBySlice c) uid = Some a \<Longrightarrow> aa_NodeName a = k"
  shows "cache_ok (snd (PromoteSliceToAllocatedOnce uid k bytes c))"
proof (cases "gget [] (syncedPhaseBySlice c) uid = ''Ready''")
  case True
  with ok show ?thesis by (simp add: PromoteSliceToAllocatedOnce_def)
next
  case False
  note parts = cache_okD [OF ok] and nok = counters_okD [OF ok n]
  note fresh = promote_not_ready [OF parts(2) False]
  let ?c' = "snd (PromoteSliceToAllocatedOnce uid k bytes c)"
  show ?thesis
  proof (cases "map_of (confirmedBySlice c) uid")
    case None
    have c': "?c' = c\<lparr>nodes := gput k (add_allocated bytes n) (nodes c),
        syncedPhaseBySlice := gput uid ''Ready'' (syncedPhaseBySlice c),
        allocatedBytesBySlice := gput uid bytes (allocatedBytesBySlice c),
        allocatedNodeBySlice := gput uid k (allocatedNodeBySlice c)\<rparr>"
      using False None n by (simp add: PromoteSliceToAllocatedOnce_def
          promoteConfirmedToAllocatedLocked_def upd_node_Some)
    have sums: "confirmed_on ?c' j = confirmed_on c j" "assumed_on ?c' j = assumed_on c j"
        "allocated_on ?c' j = allocated_on c j + (if j = k then bytes else 0)" for j
      using parts(1) fresh by (auto simp: c' on_defs alloc_on_gput maps_ok_def)
    show ?thesis
    proof (rule cache_ok_at [OF ok])
      show "maps_ok ?c'" using parts(1) by (simp add: maps_ok_def c')
      show "stages_ok ?c'" using parts(2) by (simp add: stages_ok_def c')
      show "entries_ok ?c'" using parts(3) pos n by (auto simp: entries_ok_def c' map_of_SomeD_ghas)
      show "map_of (nodes ?c') = (map_of (nodes c))(k \<mapsto> add_allocated bytes n)" by (simp add: c')
      show "node_ok (assumed_on ?c' k + confirmed_on ?c' k) (allocated_on ?c' k) (add_allocated bytes n)"
        using node_ok_add_allocated [OF nok pos fits] by (simp add: sums algebra_simps)
    qed (simp_all add: sums)
  next
    case (Some a)
    have node: "aa_NodeName a = k" by (rule agree [OF Some])
    have a: "0 \<le> aa_Bytes a" by (rule confirmed_entry [OF parts(3) Some])
    let ?n' = "recalculateFreeVRAM (n\<lparr>ns_Reserved := (if i64 (ns_Reserved n - aa_Bytes a) < 0 then 0
        else i64 (ns_Reserved n - aa_Bytes a)), ns_Allocated := i64 (ns_Allocated n + bytes)\<rparr>)"
    have c': "?c' = c\<lparr>confirmedBySlice := gdel uid (confirmedBySlice c), nodes := gput k ?n' (nodes c),
        syncedPhaseBySlice := gput uid ''Ready'' (syncedPhaseBySlice c),
        allocatedBytesBySlice := gput uid bytes (allocatedBytesBySlice c),
        allocatedNodeBySlice := gput uid k (allocatedNodeBySlice c)\<rparr>"
      using False Some n by (simp add: PromoteSliceToAllocatedOnce_def
          promoteConfirmedToAllocatedLocked_def Let_def)
    have sums: "confirmed_on ?c' j = confirmed_on c j - (if j = k then aa_Bytes a else 0)"
        "assumed_on ?c' j = assumed_on c j"
        "allocated_on ?c' j = allocated_on c j + (if j = k then bytes else 0)" for j
      using parts(1) fresh Some node by (auto simp: c' on_defs alloc_on_gput on_node_gdel maps_ok_def)
    have "aa_Bytes a \<le> confirmed_on c k" and "0 \<le> assumed_on c k"
      using parts(1,3) Some node unfolding on_defs
      by (auto intro!: on_node_ge [where uid = uid] on_node_nonneg simp: maps_ok_def entries_ok_def
          simp flip: node)
    then have le: "aa_Bytes a \<le> assumed_on c k + confirmed_on c k" by simp
    show ?thesis
    proof (rule cache_ok_at [OF ok])
      show "maps_ok ?c'" using parts(1) by (simp add: maps_ok_def c')
      show "stages_ok ?c'" using parts(2) by (auto simp: stages_ok_def c')
      show "entries_ok ?c'" using parts(3) pos n by (auto simp: entries_ok_def c' map_of_SomeD_ghas)
      show "map_of (nodes ?c') = (map_of (nodes c))(k \<mapsto> ?n')" by (simp add: c')
      show "node_ok (assumed_on ?c' k + confirmed_on ?c' k) (allocated_on ?c' k) ?n'"
        using node_ok_promote [OF nok a le pos fits] by (simp only: sums) (simp add: algebra_simps)
    qed (simp_all add: sums)
  qed
qed

text \<open>Forgetting an allocation: the shared middle of \<open>ReleaseSliceOnce\<close> and \<open>FailSliceOnce\<close>.\<close>

definition drop_alloc_entry :: "string \<Rightarrow> string \<Rightarrow> vram_cache \<Rightarrow> vram_cache" where
  "drop_alloc_entry ph uid c = c\<lparr>syncedPhaseBySlice := gput uid ph (syncedPhaseBySlice c),
     allocatedBytesBySlice := gdel uid (allocatedBytesBySlice c),
     allocatedNodeBySlice := gdel uid (allocatedNodeBySlice c)\<rparr>"

lemma cache_ok_drop_alloc:
  assumes ok: "cache_ok c" and agree: "node_agrees c uid k" and ph: "ph \<noteq> ''Ready''"
  shows "cache_ok (ReleaseAllocated k (gget 0 (allocatedBytesBySlice c) uid) (drop_alloc_entry ph uid c))"
proof -
  note parts = cache_okD [OF ok]
  let ?b = "gget 0 (allocatedBytesBySlice c) uid"
  let ?c' = "ReleaseAllocated k ?b (drop_alloc_entry ph uid c)"
  have pos: "0 \<le> ?b"
    using parts(3) by (cases "map_of (allocatedBytesBySlice c) uid") (auto simp: entries_ok_def)
  have sums: "confirmed_on ?c' j = confirmed_on c j" "assumed_on ?c' j = assumed_on c j" for j
    by (simp_all add: on_defs ReleaseAllocated_def drop_alloc_entry_def)
  have alloc: "allocated_on ?c' j = allocated_on c j - (if j = k then ?b else 0)" for j
  proof (cases "map_of (allocatedBytesBySlice c) uid")
    case None
    with parts(1) show ?thesis
      by (simp add: on_defs ReleaseAllocated_def drop_alloc_entry_def alloc_on_gdel_None maps_ok_def)
  next
    case (Some b)
    obtain m where m: "map_of (allocatedNodeBySlice c) uid = Some m"
      by (rule alloc_entry [OF parts(2) Some])
    with agree have "m = k" by (simp add: node_agrees_def)
    with Some m parts(1) show ?thesis
      by (auto simp: on_defs ReleaseAllocated_def drop_alloc_entry_def alloc_on_gdel maps_ok_def)
  qed
  have maps: "maps_ok ?c'" using parts(1)
    by (simp add: maps_ok_def ReleaseAllocated_def drop_alloc_entry_def)
  have stages: "stages_ok ?c'" using parts(2) ph
    by (auto simp: stages_ok_def ReleaseAllocated_def drop_alloc_entry_def)
  have "map_of (nodes ?c') j = (if j = k then map_option (drop_allocated ?b) (map_of (nodes c) k)
      else map_of (nodes c) j)" for j
    by (simp add: ReleaseAllocated_def upd_node_nodes drop_alloc_entry_def)
  note nodes' = this
  have "ghas (nodes ?c') = ghas (nodes c)"
    by (auto simp: fun_eq_iff ghas_def nodes')
  then have entries: "entries_ok ?c'" using parts(3)
    by (auto simp: entries_ok_def ReleaseAllocated_def drop_alloc_entry_def)
  show ?thesis
  proof (cases "map_of (nodes c) k")
    case None
    have "allocated_on c j - (if j = k then ?b else 0) = allocated_on c j"
      if "map_of (nodes c) j = Some nd" for j nd
      using that None by auto
    with parts(4) None show ?thesis
      using maps stages entries
      by (simp add: cache_ok_def counters_ok_def nodes' sums alloc)
  next
    case (Some n)
    have le: "?b \<le> allocated_on c k"
    proof (cases "map_of (allocatedBytesBySlice c) uid")
      case None
      with parts(1,3) show ?thesis
        by (auto simp: on_defs intro!: alloc_on_nonneg simp: maps_ok_def entries_ok_def)
    next
      case (Some b)
      obtain m where m: "map_of (allocatedNodeBySlice c) uid = Some m"
        by (rule alloc_entry [OF parts(2) Some])
      with agree have "m = k" by (simp add: node_agrees_def)
      with Some m parts(1,3) show ?thesis
        by (auto simp: on_defs intro!: alloc_on_ge [where uid = uid] simp: maps_ok_def entries_ok_def)
    qed
    show ?thesis
    proof (rule cache_ok_at [OF ok maps stages entries])
      show "map_of (nodes ?c') = (map_of (nodes c))(k \<mapsto> drop_allocated ?b n)"
        using Some by (auto simp: fun_eq_iff nodes')
      show "node_ok (assumed_on ?c' k + confirmed_on ?c' k) (allocated_on ?c' k) (drop_allocated ?b n)"
        using node_ok_drop_allocated [OF counters_okD [OF ok Some] pos le] by (simp add: sums alloc)
    qed (simp_all add: sums alloc)
  qed
qed

lemma ReleaseSliceOnce_alt:
  "ReleaseSliceOnce uid k c =
    (if gget [] (syncedPhaseBySlice c) uid = ''Released'' then c
     else if \<not> ghas (allocatedBytesBySlice c) uid \<and> gget [] (syncedPhaseBySlice c) uid = [] then c
     else ReleaseAllocated k (gget 0 (allocatedBytesBySlice c) uid) (drop_alloc_entry ''Released'' uid c))"
  by (simp add: ReleaseSliceOnce_def drop_alloc_entry_def Let_def)

lemma cache_ok_ReleaseSliceOnce:
  "cache_ok c \<Longrightarrow> node_agrees c uid k \<Longrightarrow> cache_ok (ReleaseSliceOnce uid k c)"
  by (simp add: ReleaseSliceOnce_alt cache_ok_drop_alloc)

lemma cache_ok_drop_alloc0:
  assumes ok: "cache_ok c" and b: "gget 0 (allocatedBytesBySlice c) uid \<le> 0" and ph: "ph \<noteq> ''Ready''"
  shows "cache_ok (drop_alloc_entry ph uid c)"
proof -
  note parts = cache_okD [OF ok]
  let ?c' = "drop_alloc_entry ph uid c"
  have alloc: "allocated_on ?c' j = allocated_on c j" for j
  proof (cases "map_of (allocatedBytesBySlice c) uid")
    case None
    with parts(1) show ?thesis
      by (simp add: on_defs drop_alloc_entry_def alloc_on_gdel_None maps_ok_def)
  next
    case (Some x)
    obtain m where m: "map_of (allocatedNodeBySlice c) uid = Some m"
      by (rule alloc_entry [OF parts(2) Some])
    have "x = 0" using b Some parts(3) by (force simp: entries_ok_def)
    with Some m parts(1) show ?thesis
      by (auto simp: on_defs drop_alloc_entry_def alloc_on_gdel maps_ok_def)
  qed
  have "maps_ok ?c'" using parts(1) by (simp add: maps_ok_def drop_alloc_entry_def)
  moreover have "stages_ok ?c'" using parts(2) ph by (auto simp: stages_ok_def drop_alloc_entry_def)
  moreover have "entries_ok ?c'" using parts(3) by (auto simp: entries_ok_def drop_alloc_entry_def)
  moreover have "counters_ok ?c'" using parts(4) alloc
    by (simp add: counters_ok_def assumed_on_def confirmed_on_def drop_alloc_entry_def)
  ultimately show ?thesis by (simp add: cache_ok_def)
qed

lemma FailSliceOnce_alt:
  "FailSliceOnce uid k c =
    (let p = gget [] (syncedPhaseBySlice c) uid; b = gget 0 (allocatedBytesBySlice c) uid in
     if p = ''Failed'' \<or> p = ''Released'' then c
     else if \<not> ghas (confirmedBySlice c) uid \<and> \<not> ghas (allocatedBytesBySlice c) uid \<and> p = [] then c
     else ReleaseConfirmedSlice uid
       (if b > 0 then ReleaseAllocated k b (drop_alloc_entry ''Failed'' uid c)
        else drop_alloc_entry ''Failed'' uid c))"
  by (simp add: FailSliceOnce_def drop_alloc_entry_def Let_def)

lemma cache_ok_FailSliceOnce:
  "cache_ok c \<Longrightarrow> node_agrees c uid k \<Longrightarrow> cache_ok (FailSliceOnce uid k c)"
  by (simp add: FailSliceOnce_alt Let_def cache_ok_ReleaseConfirmedSlice cache_ok_drop_alloc
      cache_ok_drop_alloc0)

lemma ReleaseConfirmedSlice_sel [simp]:
  "assumedBySlice (ReleaseConfirmedSlice uid c) = assumedBySlice c"
  "syncedPhaseBySlice (ReleaseConfirmedSlice uid c) = syncedPhaseBySlice c"
  "allocatedBytesBySlice (ReleaseConfirmedSlice uid c) = allocatedBytesBySlice c"
  "allocatedNodeBySlice (ReleaseConfirmedSlice uid c) = allocatedNodeBySlice c"
  by (simp_all add: ReleaseConfirmedSlice_def Let_def split: option.splits)

lemma RollbackAssumedSlice_sel [simp]:
  "confirmedBySlice (RollbackAssumedSlice uid c) = confirmedBySlice c"
  "syncedPhaseBySlice (RollbackAssumedSlice uid c) = syncedPhaseBySlice c"
  "allocatedBytesBySlice (RollbackAssumedSlice uid c) = allocatedBytesBySlice c"
  "allocatedNodeBySlice (RollbackAssumedSlice uid c) = allocatedNodeBySlice c"
  by (simp_all add: RollbackAssumedSlice_def Let_def split: option.splits)

lemma ReleaseSliceOnce_untracks:
  assumes "stages_ok c"
  shows "\<not> ghas (allocatedBytesBySlice (ReleaseSliceOnce uid k c)) uid"
proof (cases "gget [] (syncedPhaseBySlice c) uid = ''Released''")
  case True
  from assms have "gget [] (syncedPhaseBySlice c) uid = ''Ready'' \<longleftrightarrow> ghas (allocatedBytesBySlice c) uid"
    by (simp add: stages_ok_def)
  with True have "\<not> ghas (allocatedBytesBySlice c) uid" by simp
  with True show ?thesis by (simp add: ReleaseSliceOnce_alt)
next
  case False
  then show ?thesis
    by (auto simp: ReleaseSliceOnce_alt ReleaseAllocated_def drop_alloc_entry_def)
qed

lemma cache_ok_untombstone:
  assumes ok: "cache_ok c" and "\<not> ghas (allocatedBytesBySlice c) uid"
  shows "cache_ok (c\<lparr>syncedPhaseBySlice := gdel uid (syncedPhaseBySlice c)\<rparr>)"
  using assms by (auto simp: cache_ok_defs counters_ok_def on_defs)

text \<open>Callers of \<open>ForgetSlice\<close> may pass an empty node only for a slice that was never allocated.\<close>

lemma cache_ok_ForgetSlice:
  assumes ok: "cache_ok c" and agree: "node_agrees c uid k"
    and named: "k = [] \<Longrightarrow> \<not> ghas (allocatedBytesBySlice c) uid"
  shows "cache_ok (ForgetSlice uid k c)"
proof -
  let ?c2 = "ReleaseConfirmedSlice uid (RollbackAssumedSlice uid c)"
  have c2: "cache_ok ?c2"
    by (intro cache_ok_ReleaseConfirmedSlice cache_ok_RollbackAssumedSlice ok)
  have agree2: "node_agrees ?c2 uid k" using agree by (simp add: node_agrees_def)
  show ?thesis
  proof (cases "k = []")
    case True
    then have "\<not> ghas (allocatedBytesBySlice ?c2) uid" using named by simp
    then have "cache_ok (?c2\<lparr>syncedPhaseBySlice := gdel uid (syncedPhaseBySlice ?c2)\<rparr>)"
      by (rule cache_ok_untombstone [OF c2])
    with True show ?thesis by (simp add: ForgetSlice_def Let_def)
  next
    case False
    let ?c3 = "ReleaseSliceOnce uid k ?c2"
    have "cache_ok ?c3" by (rule cache_ok_ReleaseSliceOnce [OF c2 agree2])
    moreover have "\<not> ghas (allocatedBytesBySlice ?c3) uid"
      using c2 by (intro ReleaseSliceOnce_untracks) (simp add: cache_ok_def)
    ultimately have "cache_ok (?c3\<lparr>syncedPhaseBySlice := gdel uid (syncedPhaseBySlice ?c3)\<rparr>)"
      by (rule cache_ok_untombstone)
    with False show ?thesis by (simp add: ForgetSlice_def Let_def)
  qed
qed

text \<open>Nothing is recorded on a node the cache does not know.\<close>

lemma unknown_node_sums:
  assumes ok: "cache_ok c" and k: "map_of (nodes c) k = None"
  shows "assumed_on c k = 0" and "confirmed_on c k = 0" and "allocated_on c k = 0"
proof -
  note parts = cache_okD [OF ok]
  have "\<not> ghas (nodes c) k" using k by (simp add: not_ghas)
  with parts(1,3) show "assumed_on c k = 0" and "confirmed_on c k = 0" and "allocated_on c k = 0"
    unfolding on_defs
    by (auto intro!: gsum_zero simp: on_node_def alloc_on_def maps_ok_def entries_ok_def map_of_SomeD_ok)
qed

lemma known_or_new_ok:
  assumes ok: "cache_ok c"
  shows "node_ok (assumed_on c k + confirmed_on c k) (allocated_on c k) (gget (new_node k) (nodes c) k)"
proof (cases "map_of (nodes c) k")
  case None
  with unknown_node_sums [OF ok None] show ?thesis by (simp add: new_node_def node_ok_def)
next
  case (Some n)
  with counters_okD [OF ok Some] show ?thesis by simp
qed

lemma cache_ok_set_node:
  assumes ok: "cache_ok c"
    and "node_ok (assumed_on c k + confirmed_on c k) (allocated_on c k) n'"
  shows "cache_ok (c\<lparr>nodes := gput k n' (nodes c)\<rparr>)"
  using assms by (auto simp: cache_ok_defs counters_ok_def on_defs)

lemma cache_ok_UpdateNode:
  assumes ok: "cache_ok c" and "0 \<le> total_bytes" and "total_bytes < 2 ^ 63"
    and fits: "allocatedBytes + ns_Reserved (gget (new_node k) (nodes c) k) < 2 ^ 63"
  shows "cache_ok (UpdateNode k total_bytes allocatedBytes c)"
proof -
  let ?n = "gget (new_node k) (nodes c) k"
  let ?n2 = "if allocatedBytes > ns_Allocated ?n then ?n\<lparr>ns_Total := total_bytes, ns_Allocated := allocatedBytes\<rparr>
    else ?n\<lparr>ns_Total := total_bytes\<rparr>"
  note nok = known_or_new_ok [OF ok, of k]
  have "node_ok (assumed_on c k + confirmed_on c k) (allocated_on c k) (recalculateFreeVRAM ?n2)"
    using nok assms(2-4) by (auto simp: node_ok_def recalculate_free)
  then have "cache_ok (c\<lparr>nodes := gput k (recalculateFreeVRAM ?n2) (nodes c)\<rparr>)"
    by (rule cache_ok_set_node [OF ok])
  then show ?thesis by (simp add: UpdateNode_def Let_def)
qed

lemma cache_ok_SetNodeZone: "cache_ok c \<Longrightarrow> cache_ok (SetNodeZone k z c)"
  unfolding SetNodeZone_def Let_def
  using known_or_new_ok [of c k] by (intro cache_ok_set_node) (auto simp: node_ok_def)

lemma cache_ok_SetNodeHealth:
  assumes ok: "cache_ok c"
  shows "cache_ok (SetNodeHealth k h c)"
proof (cases "map_of (nodes c) k")
  case None
  with ok show ?thesis by (simp add: SetNodeHealth_def upd_node_None)
next
  case (Some n)
  have "node_ok (assumed_on c k + confirmed_on c k) (allocated_on c k) (n\<lparr>ns_Healthy := h\<rparr>)"
    using counters_okD [OF ok Some] by (simp add: node_ok_def)
  with Some show ?thesis by (simp add: SetNodeHealth_def upd_node_Some cache_ok_set_node [OF ok])
qed

text \<open>Removing a node drops every entry on it and leaves the other nodes' sums alone.\<close>

lemma on_node_filter:
  "j \<noteq> k \<Longrightarrow> gsum (on_node j) (filter (\<lambda>(uid, a). aa_NodeName a \<noteq> k) m) = gsum (on_node j) m"
  unfolding gsum_filter by (rule gsum_cong) (auto simp: on_node_def)

lemma gone_uids:
  "gmap_ok m \<Longrightarrow> uid \<in> set (map fst (filter (\<lambda>(uid, n). n = k) m)) \<longleftrightarrow> map_of m uid = Some k"
  by (force simp: map_of_SomeD_ok)

lemma alloc_on_filter:
  assumes ok: "gmap_ok mn" and "j \<noteq> k"
  shows "gsum (alloc_on (filter (\<lambda>(uid, n). n \<noteq> k) mn) j)
      (filter (\<lambda>(uid, b). uid \<notin> set (map fst (filter (\<lambda>(uid, n). n = k) mn))) mb) = gsum (alloc_on mn j) mb"
  unfolding gsum_filter gone_uids [OF ok] split
  by (rule gsum_cong) (use assms in \<open>auto simp: alloc_on_def map_of_filter_ok split: option.splits\<close>)

lemma ghas_filter: "gmap_ok m \<Longrightarrow> ghas (filter P m) k \<longleftrightarrow> (\<exists>v. map_of m k = Some v \<and> P (k, v))"
  by (auto simp: ghas_def map_of_filter_ok split: option.splits)

definition keep_named :: "string \<Rightarrow> (string, assumed_allocation) gomap \<Rightarrow> (string, assumed_allocation) gomap" where
  "keep_named k m = filter (\<lambda>(uid, a). aa_NodeName a \<noteq> k) m"

definition gone :: "string \<Rightarrow> vram_cache \<Rightarrow> string \<Rightarrow> bool" where
  "gone k c uid \<longleftrightarrow> map_of (allocatedNodeBySlice c) uid = Some k"

lemma RemoveNode_alt:
  assumes "maps_ok c" and "ghas (nodes c) k"
  shows "RemoveNode k c = c\<lparr>assumedBySlice := keep_named k (assumedBySlice c),
     confirmedBySlice := keep_named k (confirmedBySlice c),
     allocatedNodeBySlice := filter (\<lambda>(uid, n). n \<noteq> k) (allocatedNodeBySlice c),
     allocatedBytesBySlice := filter (\<lambda>(uid, b). \<not> gone k c uid) (allocatedBytesBySlice c),
     syncedPhaseBySlice := filter (\<lambda>(uid, p). \<not> gone k c uid) (syncedPhaseBySlice c),
     nodes := gdel k (nodes c)\<rparr>"
  using assms gone_uids [of "allocatedNodeBySlice c" _ k]
  by (simp add: RemoveNode_def keep_named_def gone_def maps_ok_def)

lemma map_of_keep_named:
  "gmap_ok m \<Longrightarrow> map_of (keep_named k m) uid = Some a \<longleftrightarrow> map_of m uid = Some a \<and> aa_NodeName a \<noteq> k"
  by (auto simp: keep_named_def map_of_filter_ok split: option.splits if_splits)

lemma cache_ok_RemoveNode:
  assumes ok: "cache_ok c"
  shows "cache_ok (RemoveNode k c)"
proof (cases "ghas (nodes c) k")
  case False
  with ok show ?thesis by (simp add: RemoveNode_def)
next
  case True
  note parts = cache_okD [OF ok]
  note maps = parts(1) [unfolded maps_ok_def]
  let ?c' = "RemoveNode k c"
  note c' = RemoveNode_alt [OF parts(1) True]
  have sums: "assumed_on ?c' j = assumed_on c j" "confirmed_on ?c' j = confirmed_on c j"
      "allocated_on ?c' j = allocated_on c j" if "j \<noteq> k" for j
    using that maps alloc_on_filter [of "allocatedNodeBySlice c" j k "allocatedBytesBySlice c"]
      gone_uids [of "allocatedNodeBySlice c" _ k]
    by (simp_all add: c' on_defs keep_named_def on_node_filter gone_def)
  have "maps_ok ?c'" using maps by (simp add: maps_ok_def c' keep_named_def)
  moreover have "stages_ok ?c'"
    unfolding stages_ok_def
  proof (intro conjI allI impI)
    fix uid
    show "\<not> ghas (confirmedBySlice ?c') uid" if "ghas (assumedBySlice ?c') uid"
    proof -
      from that maps have "ghas (assumedBySlice c) uid"
        by (auto simp: c' keep_named_def ghas_filter map_of_SomeD_ghas)
      with parts(2) have "\<not> ghas (confirmedBySlice c) uid" by (simp add: stages_ok_def)
      with maps show ?thesis by (auto simp: c' keep_named_def ghas_filter map_of_SomeD_ghas not_ghas)
    qed
    have pair: "ghas (allocatedBytesBySlice c) uid \<longleftrightarrow> ghas (allocatedNodeBySlice c) uid"
      and phase: "gget [] (syncedPhaseBySlice c) uid = ''Ready'' \<longleftrightarrow> ghas (allocatedBytesBySlice c) uid"
      using parts(2) by (simp_all add: stages_ok_def)
    have b: "ghas (allocatedBytesBySlice ?c') uid \<longleftrightarrow> ghas (allocatedBytesBySlice c) uid \<and> \<not> gone k c uid"
      using maps by (auto simp: c' ghas_def map_of_filter_ok split: option.splits)
    have n: "ghas (allocatedNodeBySlice ?c') uid \<longleftrightarrow> ghas (allocatedNodeBySlice c) uid \<and> \<not> gone k c uid"
      using maps by (auto simp: c' ghas_def gone_def map_of_filter_ok split: option.splits if_splits)
    have p: "gget [] (syncedPhaseBySlice ?c') uid = (if gone k c uid then [] else gget [] (syncedPhaseBySlice c) uid)"
      using maps by (auto simp: c' gget_def map_of_filter_ok split: option.splits)
    show "ghas (allocatedBytesBySlice ?c') uid \<longleftrightarrow> ghas (allocatedNodeBySlice ?c') uid"
      by (simp add: b n pair)
    show "gget [] (syncedPhaseBySlice ?c') uid = ''Ready'' \<longleftrightarrow> ghas (allocatedBytesBySlice ?c') uid"
      using phase by (simp add: b p)
  qed
  moreover have "entries_ok ?c'" using parts(3) maps
    by (auto simp: entries_ok_def c' map_of_keep_named map_of_filter_ok split: option.splits if_splits)
  moreover have "counters_ok ?c'" using parts(4) sums
    by (simp add: counters_ok_def) (simp add: c')
  ultimately show ?thesis by (simp add: cache_ok_def)
qed

section \<open>Reachable caches\<close>

text \<open>
  The steps of the running scheduler. The guards are what the callers give: byte counts are not
  negative, a slice's node is the one the ledger has for it, a re-armed or promoted slice's node
  is in the cache, and a node's counters have room below \<open>2 ^ 63\<close>.
\<close>

definition room_for :: "vram_cache \<Rightarrow> string \<Rightarrow> int \<Rightarrow> bool" where
  "room_for c k bytes \<longleftrightarrow> 0 \<le> bytes \<and>
     (case map_of (nodes c) k of None \<Rightarrow> False
      | Some n \<Rightarrow> ns_Allocated n + ns_Reserved n + bytes < 2 ^ 63)"

definition holds_agree :: "vram_cache \<Rightarrow> string \<Rightarrow> string \<Rightarrow> bool" where
  "holds_agree c uid k \<longleftrightarrow> (case map_of (confirmedBySlice c) uid of None \<Rightarrow> True | Some a \<Rightarrow> aa_NodeName a = k)"

inductive cache_step :: "vram_cache \<Rightarrow> vram_cache \<Rightarrow> bool" where
  step_seed: "cache_step c (MarkSeeded c)"
| step_reap: "cache_step c (reapExpiredAssumptions now c)"
| step_assume: "0 \<le> req \<Longrightarrow> AssumeSlice uid ns k req ttl now c = Inr c' \<Longrightarrow> cache_step c c'"
| step_rollback: "cache_step c (RollbackAssumedSlice uid c)"
| step_pin: "cache_step c (snd (PinAssumption uid ttl now c))"
| step_confirm: "ghas (assumedBySlice c) uid \<Longrightarrow>
    cache_step c (snd (ConfirmSliceOrRearm uid ns k bytes now c))"
| step_rearm: "\<not> ghas (assumedBySlice c) uid \<Longrightarrow> \<not> ghas (confirmedBySlice c) uid \<Longrightarrow> room_for c k bytes \<Longrightarrow>
    cache_step c (snd (ConfirmSliceOrRearm uid ns k bytes now c))"
| step_release_confirmed: "cache_step c (ReleaseConfirmedSlice uid c)"
| step_promote: "room_for c k bytes \<Longrightarrow> holds_agree c uid k \<Longrightarrow>
    cache_step c (snd (PromoteSliceToAllocatedOnce uid k bytes c))"
| step_release: "node_agrees c uid k \<Longrightarrow> cache_step c (ReleaseSliceOnce uid k c)"
| step_fail: "node_agrees c uid k \<Longrightarrow> cache_step c (FailSliceOnce uid k c)"
| step_forget: "node_agrees c uid k \<Longrightarrow> (k = [] \<Longrightarrow> \<not> ghas (allocatedBytesBySlice c) uid) \<Longrightarrow>
    cache_step c (ForgetSlice uid k c)"
| step_update_node: "0 \<le> tot \<Longrightarrow> tot < 2 ^ 63 \<Longrightarrow>
    alloc + ns_Reserved (gget (new_node k) (nodes c) k) < 2 ^ 63 \<Longrightarrow>
    cache_step c (UpdateNode k tot alloc c)"
| step_remove_node: "cache_step c (RemoveNode k c)"
| step_health: "cache_step c (SetNodeHealth k h c)"
| step_zone: "cache_step c (SetNodeZone k z c)"

inductive reachable :: "vram_cache \<Rightarrow> bool" where
  reach_new: "reachable NewVRAMCache"
| reach_step: "reachable c \<Longrightarrow> cache_step c c' \<Longrightarrow> reachable c'"

inductive_cases cache_stepE: "cache_step c c'"

lemma cache_ok_step: "cache_step c c' \<Longrightarrow> cache_ok c \<Longrightarrow> cache_ok c'"
proof (induction rule: cache_step.induct)
  case (step_seed c)
  then show ?case by (simp add: MarkSeeded_def cache_ok_defs counters_ok_def on_defs)
next
  case (step_confirm c uid ns k bytes now)
  then obtain a where "map_of (assumedBySlice c) uid = Some a" by (auto elim: ghasE)
  with step_confirm show ?case by (intro cache_ok_Confirm)
next
  case (step_rearm c uid k bytes ns now)
  then show ?case
    by (auto simp: room_for_def split: option.splits intro!: cache_ok_Rearm)
next
  case (step_promote c k bytes uid)
  then show ?case
    by (auto simp: room_for_def holds_agree_def split: option.splits intro!: cache_ok_Promote)
qed (simp_all add: cache_ok_reap cache_ok_AssumeSlice cache_ok_RollbackAssumedSlice cache_ok_Pin
    cache_ok_ReleaseConfirmedSlice cache_ok_ReleaseSliceOnce cache_ok_FailSliceOnce
    cache_ok_ForgetSlice cache_ok_UpdateNode cache_ok_RemoveNode cache_ok_SetNodeHealth
    cache_ok_SetNodeZone)

lemma reachable_ok: "reachable c \<Longrightarrow> cache_ok c"
  by (induction rule: reachable.induct) (auto intro: cache_ok_New cache_ok_step)

section \<open>What the ledger promises\<close>

text \<open>Facts the properties share.\<close>

lemma node_ok_free_room:
  "node_ok r a n \<Longrightarrow> 0 < req \<Longrightarrow> req \<le> ns_Free n \<Longrightarrow> ns_Allocated n + ns_Reserved n + req \<le> ns_Total n"
  by (auto simp: node_ok_def max_def split: if_splits)

lemma AssumeSlice_SomeD:
  assumes "AssumeSlice uid ns k req ttl now c = Inr c'"
  obtains n where "\<not> ghas (assumedBySlice c) uid" and "\<not> ghas (confirmedBySlice c) uid"
    and "map_of (nodes c) k = Some n" and "ns_Healthy n" and "req \<le> ns_Free n"
    and "c' = c\<lparr>assumedBySlice := gput uid \<lparr>aa_SliceUID = uid, aa_Namespace = ns, aa_NodeName = k,
           aa_Bytes = req, aa_ExpiresAt = now + ttl\<rparr> (assumedBySlice c),
         nodes := gput k (add_reserved req n) (nodes c)\<rparr>"
  using assms that
  by (auto simp: AssumeSlice_def upd_node_def Let_def split: if_splits option.splits)

lemma add_reserved_node:
  assumes "node_ok r a n" and "0 \<le> req" and "req \<le> ns_Free n"
  shows "add_reserved req n =
    n\<lparr>ns_Reserved := ns_Reserved n + req, ns_Free := max 0 (ns_Total n - ns_Allocated n - ns_Reserved n - req)\<rparr>"
proof -
  note bounds = node_ok_bounds [OF assms(1)]
  have fits: "ns_Allocated n + ns_Reserved n + req < 2 ^ 63"
    using assms by (auto simp: node_ok_def max_def split: if_splits)
  have "i64 (ns_Reserved n + req) = ns_Reserved n + req"
    using bounds assms fits by (intro i64_id) linarith+
  with bounds assms fits show ?thesis
    by (simp add: add_reserved_def recalculate_free algebra_simps)
qed

lemma add_drop_reserved:
  assumes ok: "node_ok r a n" and "0 \<le> req" and "req \<le> ns_Free n"
  shows "drop_reserved req (add_reserved req n) = n"
proof -
  note bounds = node_ok_bounds [OF ok]
  have r: "0 \<le> r" "ns_Reserved n = r" "ns_Free n = max 0 (ns_Total n - ns_Allocated n - ns_Reserved n)"
    using ok by (simp_all add: node_ok_def)
  have "i64 (ns_Reserved n) = ns_Reserved n"
    using bounds by (intro i64_id) linarith+
  then show ?thesis
    using bounds r by (simp add: add_reserved_node [OF assms] drop_reserved_def recalculate_free Let_def)
qed

lemma allocated_on_nonneg: "cache_ok c \<Longrightarrow> 0 \<le> allocated_on c k"
  unfolding allocated_on_def
  by (rule alloc_on_nonneg) (auto simp: cache_ok_def maps_ok_def entries_ok_def)

definition pending_at :: "string \<Rightarrow> string list \<Rightarrow> string \<Rightarrow> assumed_allocation \<Rightarrow> int" where
  "pending_at ns counted uid a =
     (if aa_Namespace a = ns \<and> uid \<notin> set counted then aa_Bytes a else 0)"

lemma pending_of_gsum: "i64 (pending_of ns counted m acc) = i64 (acc + gsum (pending_at ns counted) m)"
proof (induction m arbitrary: acc)
  case Nil
  then show ?case by (simp add: pending_of_def)
next
  case (Cons e m)
  obtain uid a where e: "e = (uid, a)" by (cases e)
  show ?case
  proof (cases "aa_Namespace a = ns \<and> uid \<notin> set counted")
    case True
    have "i64 (pending_of ns counted ((uid, a) # m) acc) = i64 (pending_of ns counted m (i64 (acc + aa_Bytes a)))"
      using True by (simp add: pending_of_def)
    also have "\<dots> = i64 (i64 (acc + aa_Bytes a) + gsum (pending_at ns counted) m)" by (rule Cons.IH)
    also have "\<dots> = i64 (acc + aa_Bytes a + gsum (pending_at ns counted) m)" by (rule i64_add_left)
    also have "acc + aa_Bytes a + gsum (pending_at ns counted) m = acc + gsum (pending_at ns counted) ((uid, a) # m)"
      using True by (simp add: pending_at_def [of _ _ uid])
    finally show ?thesis by (simp only: e)
  next
    case False
    then have "pending_of ns counted ((uid, a) # m) acc = pending_of ns counted m acc"
      by (auto simp: pending_of_def)
    moreover have "pending_at ns counted uid a = 0" using False by (auto simp: pending_at_def)
    ultimately show ?thesis using Cons.IH by (simp add: e)
  qed
qed

lemma pending_of_in: "in_i64 acc \<Longrightarrow> in_i64 (pending_of ns counted m acc)"
proof (induction m arbitrary: acc)
  case Nil
  then show ?case by (simp add: pending_of_def)
next
  case (Cons e m)
  have "pending_of ns counted (e # m) acc = pending_of ns counted m
      (if aa_Namespace (snd e) \<noteq> ns then acc else if fst e \<in> set counted then acc
       else i64 (acc + aa_Bytes (snd e)))"
    by (cases e) (simp add: pending_of_def)
  with Cons show ?case by simp
qed

lemma i64_idem [simp]: "i64 (i64 x) = i64 x"
  by (rule i64_in) simp

lemma pending_eq:
  "PendingNamespaceBytes c ns counted =
     i64 (gsum (pending_at ns counted) (assumedBySlice c) + gsum (pending_at ns counted) (confirmedBySlice c))"
proof -
  let ?a = "pending_of ns counted (assumedBySlice c) 0"
  have z: "in_i64 0" by (simp add: in_i64_def)
  have "PendingNamespaceBytes c ns counted = i64 (PendingNamespaceBytes c ns counted)"
    unfolding PendingNamespaceBytes_def by (intro i64_in [symmetric] pending_of_in z)
  also have "\<dots> = i64 (?a + gsum (pending_at ns counted) (confirmedBySlice c))"
    unfolding PendingNamespaceBytes_def by (simp only: pending_of_gsum)
  also have "\<dots> = i64 (i64 ?a + gsum (pending_at ns counted) (confirmedBySlice c))"
    by (simp only: i64_add_left)
  also have "i64 ?a = i64 (gsum (pending_at ns counted) (assumedBySlice c))"
    by (simp add: pending_of_gsum)
  finally show ?thesis by (simp only: i64_add_left)
qed

lemma reap_loop_assumed:
  "distinct (map fst m) \<Longrightarrow> map_of (assumedBySlice (reap_loop now m c)) uid =
    (case map_of m uid of
       Some a \<Rightarrow> (if now > aa_ExpiresAt a then None else map_of (assumedBySlice c) uid)
     | None \<Rightarrow> map_of (assumedBySlice c) uid)"
proof (induction m arbitrary: c)
  case Nil
  then show ?case by simp
next
  case (Cons e m)
  obtain u a where e: "e = (u, a)" by (cases e)
  from Cons.prems have "map_of m u = None" by (simp add: e map_of_eq_None_iff)
  with Cons show ?case by (auto simp: e Let_def split: option.splits)
qed

lemma TrackedSliceUIDs_has_fold:
  "ghas (fold (\<lambda>(u, a) out. gput u (f a) out) m out) uid \<longleftrightarrow> uid \<in> fst ` set m \<or> ghas out uid"
  by (induction m arbitrary: out) auto

lemma tracked_iff:
  "ghas (TrackedSliceUIDs c) uid \<longleftrightarrow>
     ghas (assumedBySlice c) uid \<or> ghas (confirmedBySlice c) uid \<or> ghas (allocatedNodeBySlice c) uid"
proof -
  have "ghas (fold (\<lambda>(u, n) out. gput u n out) m out) uid \<longleftrightarrow> ghas m uid \<or> ghas out uid"
    for m out :: "(string, string) gomap"
    using TrackedSliceUIDs_has_fold [of "\<lambda>n. n" m out uid] by (simp add: ghas_def map_of_eq_None_iff)
  moreover have "ghas (fold (\<lambda>(u, a) out. gput u (aa_NodeName a) out) m out) uid \<longleftrightarrow> ghas m uid \<or> ghas out uid"
    for m :: "(string, assumed_allocation) gomap" and out
    using TrackedSliceUIDs_has_fold [of aa_NodeName m out uid] by (simp add: ghas_def map_of_eq_None_iff)
  ultimately show ?thesis by (auto simp: TrackedSliceUIDs_def)
qed

end
