(* ===== verification/VramProps.thy ===== *)
theory VramProps
  imports VramLedger
begin

text \<open>
  The properties of the VRAM cache, each a few steps over the invariant and the lemmas of
  \<open>VramLedger\<close>, with the concrete caches their witnesses run on.
\<close>


definition one_node :: vram_cache where
  "one_node = UpdateNode ''n1'' 100 0 NewVRAMCache"

lemma reachable_one_node: "reachable one_node"
  unfolding one_node_def
  by (rule reach_step [OF reach_new step_update_node]) (simp_all add: NewVRAMCache_def new_node_def gget_def)

lemma one_node_eq: "one_node = NewVRAMCache\<lparr>nodes :=
    [(''n1'', \<lparr>ns_NodeName = ''n1'', ns_Total = 100, ns_Allocated = 0, ns_Reserved = 0, ns_Free = 100,
       ns_Healthy = True, ns_Zone = []\<rparr>)]\<rparr>"
  by (simp add: one_node_def UpdateNode_def NewVRAMCache_def gget_def new_node_def
      recalculateFreeVRAM_def i64_def gput_def)

definition one_hold :: vram_cache where
  "one_hold = one_node\<lparr>nodes :=
    [(''n1'', \<lparr>ns_NodeName = ''n1'', ns_Total = 100, ns_Allocated = 0, ns_Reserved = 60, ns_Free = 40,
       ns_Healthy = True, ns_Zone = []\<rparr>)],
     assumedBySlice := [(''s1'', \<lparr>aa_SliceUID = ''s1'', aa_Namespace = ''ns'', aa_NodeName = ''n1'',
       aa_Bytes = 60, aa_ExpiresAt = 30\<rparr>)]\<rparr>"

lemma AssumeSlice_one_node: "AssumeSlice ''s1'' ''ns'' ''n1'' 60 30 0 one_node = Inr one_hold"
  by (simp add: AssumeSlice_def one_node_eq NewVRAMCache_def one_hold_def upd_node_def add_reserved_def
      recalculateFreeVRAM_def i64_def gput_def)

lemma reachable_one_hold: "reachable one_hold"
  by (rule reach_step [OF reachable_one_node step_assume [OF _ AssumeSlice_one_node]]) simp

lemma one_hold_node: "map_of (nodes one_hold) ''n1'' = Some
    \<lparr>ns_NodeName = ''n1'', ns_Total = 100, ns_Allocated = 0, ns_Reserved = 60, ns_Free = 40,
       ns_Healthy = True, ns_Zone = []\<rparr>"
  by (simp add: one_hold_def)


lemma assume_within_total:
  assumes "reachable c" and "0 < req" and "AssumeSlice uid ns k req ttl now c = Inr c'"
  shows "\<exists>n'. map_of (nodes c') k = Some n' \<and> ns_Healthy n' \<and>
    ns_Allocated n' + ns_Reserved n' \<le> ns_Total n' \<and> used_on c' k \<le> ns_Total n'"
proof -
  have ok: "cache_ok c" by (rule reachable_ok [OF assms(1)])
  have ok': "cache_ok c'" using assms by (intro cache_ok_AssumeSlice [OF ok]) auto
  from assms(3) obtain n where n: "map_of (nodes c) k = Some n" "ns_Healthy n" "req \<le> ns_Free n"
      and c': "map_of (nodes c') k = Some (add_reserved req n)"
    by (rule AssumeSlice_SomeD) simp
  note nok = counters_okD [OF ok n(1)]
  have room: "ns_Allocated n + ns_Reserved n + req \<le> ns_Total n"
    by (rule node_ok_free_room [OF nok assms(2) n(3)])
  have new: "add_reserved req n = n\<lparr>ns_Reserved := ns_Reserved n + req,
      ns_Free := max 0 (ns_Total n - ns_Allocated n - ns_Reserved n - req)\<rparr>"
    using add_reserved_node [OF nok _ n(3)] assms(2) by simp
  have "used_on c' k \<le> ns_Allocated (add_reserved req n) + ns_Reserved (add_reserved req n)"
    using counters_okD [OF ok' c'] by (simp add: used_on_def node_ok_def)
  with room n(2) c' new show ?thesis by simp
qed



text \<open>
  A reservation succeeds exactly when the slice holds nothing speculative or confirmed yet and
  the capacity filter accepts the node at the moment of the reservation.
\<close>

theorem assume_iff_fits:
  "(\<exists>c'. AssumeSlice uid ns k req ttl now c = Inr c') \<longleftrightarrow>
     \<not> ghas (assumedBySlice c) uid \<and> \<not> ghas (confirmedBySlice c) uid \<and> CanFit c k req = Fits"
  by (auto simp: AssumeSlice_def CanFit_def Let_def split: option.splits)

text \<open>
  Reserving and rolling back is a round trip: in a reachable cache, the rollback of a fresh
  hold restores every node, every speculative hold and every ledger sum.
\<close>

theorem assume_rollback_roundtrip:
  assumes "reachable c" and "0 \<le> req" and "AssumeSlice uid ns k req ttl now c = Inr c'"
  shows "map_of (nodes (RollbackAssumedSlice uid c')) = map_of (nodes c) \<and>
    map_of (assumedBySlice (RollbackAssumedSlice uid c')) = map_of (assumedBySlice c) \<and>
    confirmedBySlice (RollbackAssumedSlice uid c') = confirmedBySlice c \<and>
    (\<forall>j. used_on (RollbackAssumedSlice uid c') j = used_on c j)"
proof -
  have ok: "cache_ok c" by (rule reachable_ok [OF assms(1)])
  note maps = cache_okD(1) [OF ok, unfolded maps_ok_def]
  from assms(3) obtain n where fresh: "\<not> ghas (assumedBySlice c) uid"
      and n: "map_of (nodes c) k = Some n" "req \<le> ns_Free n"
      and c': "c' = c\<lparr>assumedBySlice := gput uid \<lparr>aa_SliceUID = uid, aa_Namespace = ns, aa_NodeName = k,
           aa_Bytes = req, aa_ExpiresAt = now + ttl\<rparr> (assumedBySlice c),
         nodes := gput k (add_reserved req n) (nodes c)\<rparr>"
    by (rule AssumeSlice_SomeD) simp
  have undo: "drop_reserved req (add_reserved req n) = n"
    by (rule add_drop_reserved [OF counters_okD [OF ok n(1)] assms(2) n(2)])
  have r: "RollbackAssumedSlice uid c' = c'\<lparr>nodes := gput k n (nodes c'),
      assumedBySlice := gdel uid (assumedBySlice c')\<rparr>"
    by (simp add: RollbackAssumedSlice_def c' upd_node_def undo)
  have "(map_of (nodes c))(k \<mapsto> n) = map_of (nodes c)" using n(1) by (simp add: fun_upd_idem)
  moreover have "(map_of (assumedBySlice c))(uid := None) = map_of (assumedBySlice c)"
    using fresh by (simp add: not_ghas fun_upd_idem)
  moreover have "assumed_on (RollbackAssumedSlice uid c') j = assumed_on c j" for j
    using maps fresh unfolding r assumed_on_def by (simp add: c' on_node_gdel on_node_gput not_ghas)
  ultimately show ?thesis
    unfolding r by (simp add: c' used_on_def confirmed_on_def allocated_on_def)
qed

theorem assume_rollback_roundtrip_witness:
  "map_of (nodes (RollbackAssumedSlice ''s1'' one_hold)) = map_of (nodes one_node)"
  using assume_rollback_roundtrip [OF reachable_one_node _ AssumeSlice_one_node] by simp

text \<open>
  The exactly-once operations are idempotent: a second promotion, whatever node or size it
  names, a second release and a second failure of the same slice change nothing.
\<close>

theorem once_operations_idempotent:
  shows "snd (PromoteSliceToAllocatedOnce uid k' b' (snd (PromoteSliceToAllocatedOnce uid k b c)))
      = snd (PromoteSliceToAllocatedOnce uid k b c) \<and>
    ReleaseSliceOnce uid k' (ReleaseSliceOnce uid k c) = ReleaseSliceOnce uid k c \<and>
    FailSliceOnce uid k' (FailSliceOnce uid k c) = FailSliceOnce uid k c"
proof (intro conjI)
  have "gget [] (syncedPhaseBySlice (snd (PromoteSliceToAllocatedOnce uid k b c))) uid = ''Ready''"
    by (auto simp: PromoteSliceToAllocatedOnce_def Let_def split: prod.splits)
  then show "snd (PromoteSliceToAllocatedOnce uid k' b' (snd (PromoteSliceToAllocatedOnce uid k b c)))
      = snd (PromoteSliceToAllocatedOnce uid k b c)"
    by (simp add: PromoteSliceToAllocatedOnce_def [of uid k'])
  show "ReleaseSliceOnce uid k' (ReleaseSliceOnce uid k c) = ReleaseSliceOnce uid k c"
  proof (cases "gget [] (syncedPhaseBySlice c) uid = ''Released'' \<or>
      \<not> ghas (allocatedBytesBySlice c) uid \<and> gget [] (syncedPhaseBySlice c) uid = []")
    case True
    then have "ReleaseSliceOnce uid j c = c" for j by (auto simp: ReleaseSliceOnce_alt)
    then show ?thesis by simp
  next
    case False
    then have "gget [] (syncedPhaseBySlice (ReleaseSliceOnce uid k c)) uid = ''Released''"
      by (auto simp: ReleaseSliceOnce_alt ReleaseAllocated_def drop_alloc_entry_def)
    then show ?thesis by (simp add: ReleaseSliceOnce_alt [of uid k'])
  qed
  show "FailSliceOnce uid k' (FailSliceOnce uid k c) = FailSliceOnce uid k c"
  proof (cases "gget [] (syncedPhaseBySlice c) uid = ''Failed'' \<or> gget [] (syncedPhaseBySlice c) uid = ''Released'' \<or>
      (\<not> ghas (confirmedBySlice c) uid \<and> \<not> ghas (allocatedBytesBySlice c) uid \<and> gget [] (syncedPhaseBySlice c) uid = [])")
    case True
    then have "FailSliceOnce uid j c = c" for j by (auto simp: FailSliceOnce_alt Let_def)
    then show ?thesis by simp
  next
    case False
    then have "gget [] (syncedPhaseBySlice (FailSliceOnce uid k c)) uid = ''Failed''"
      by (auto simp: FailSliceOnce_alt Let_def ReleaseAllocated_def drop_alloc_entry_def)
    then show ?thesis by (simp add: FailSliceOnce_alt [of uid k'])
  qed
qed


text \<open>
  Confirming a held slice moves its hold without changing what any node has in use, and from
  then on the reaper, whenever it runs, leaves it alone.
\<close>

theorem confirm_keeps_usage:
  assumes "reachable c" and a: "map_of (assumedBySlice c) uid = Some a"
  shows "nodes (snd (ConfirmSliceOrRearm uid ns k bytes now c)) = nodes c \<and>
    (\<forall>j. used_on (snd (ConfirmSliceOrRearm uid ns k bytes now c)) j = used_on c j) \<and>
    map_of (confirmedBySlice (reapExpiredAssumptions later
      (snd (ConfirmSliceOrRearm uid ns k bytes now c)))) uid = Some a"
proof -
  note parts = cache_okD [OF reachable_ok [OF assms(1)]]
  note maps = parts(1) [unfolded maps_ok_def]
  let ?c' = "c\<lparr>confirmedBySlice := gput uid a (confirmedBySlice c), assumedBySlice := gdel uid (assumedBySlice c)\<rparr>"
  have "ghas (assumedBySlice c) uid" by (rule map_of_SomeD_ghas [OF a])
  with parts(2) have free: "map_of (confirmedBySlice c) uid = None"
    by (simp add: stages_ok_def not_ghas)
  have "assumed_on ?c' j + confirmed_on ?c' j = assumed_on c j + confirmed_on c j" for j
    using maps a free by (simp add: on_defs on_node_gdel on_node_gput)
  then have "used_on ?c' j = used_on c j" for j
    by (simp add: used_on_def allocated_on_def)
  moreover have "confirmedBySlice (reap_loop later m d) = confirmedBySlice d" for m d
    by (induction m arbitrary: d) (auto simp: Let_def)
  ultimately show ?thesis
    using a by (simp add: ConfirmSliceOrRearm_def reapExpiredAssumptions_def)
qed

lemma one_hold_assumed: "map_of (assumedBySlice one_hold) ''s1'' = Some
    \<lparr>aa_SliceUID = ''s1'', aa_Namespace = ''ns'', aa_NodeName = ''n1'', aa_Bytes = 60, aa_ExpiresAt = 30\<rparr>"
  by (simp add: one_hold_def)

theorem confirm_keeps_usage_witness:
  "nodes (snd (ConfirmSliceOrRearm ''s1'' ''ns'' ''n1'' 60 5 one_hold)) = nodes one_hold"
  using confirm_keeps_usage [OF reachable_one_hold one_hold_assumed] by simp

text \<open>
  The reaper drops exactly the expired speculative holds, gives their bytes back, and what
  it leaves does not depend on the order the map iterates in.
\<close>

theorem reap_exact:
  assumes "reachable c"
  shows "map_of (assumedBySlice (reapExpiredAssumptions now c)) uid =
      (case map_of (assumedBySlice c) uid of
         None \<Rightarrow> None | Some a \<Rightarrow> if now > aa_ExpiresAt a then None else Some a) \<and>
    (\<forall>k n. map_of (nodes (reapExpiredAssumptions now c)) k = Some n \<longrightarrow>
       ns_Reserved n = assumed_on (reapExpiredAssumptions now c) k + confirmed_on (reapExpiredAssumptions now c) k)"
proof -
  have "distinct (map fst (assumedBySlice c))"
    using cache_okD(1) [OF reachable_ok [OF assms]] by (simp add: maps_ok_def gmap_ok_def)
  note left = reap_loop_assumed [OF this, of now c uid]
  have "cache_ok (reapExpiredAssumptions now c)"
    by (rule cache_ok_reap [OF reachable_ok [OF assms]])
  then show ?thesis
    using left by (auto simp: reapExpiredAssumptions_def cache_ok_def counters_ok_def node_ok_def split: option.splits)
qed

theorem reap_exact_witness:
  "map_of (assumedBySlice (reapExpiredAssumptions 31 one_hold)) ''s1'' = None \<and>
   map_of (assumedBySlice (reapExpiredAssumptions 30 one_hold)) ''s1'' \<noteq> None"
  using reap_exact [OF reachable_one_hold, of 31 "''s1''"] reap_exact [OF reachable_one_hold, of 30 "''s1''"]
  by (simp add: one_hold_assumed)

text \<open>
  The in-flight ledger of a namespace is the sum of its speculative and confirmed holds the
  caller has not counted yet, reduced to an \<open>int64\<close>, in whatever order the maps iterate.
\<close>

theorem pending_bytes_sum:
  "PendingNamespaceBytes c ns counted =
     i64 (gsum (pending_at ns counted) (assumedBySlice c) + gsum (pending_at ns counted) (confirmedBySlice c))"
  by (rule pending_eq)

text \<open>
  Forgetting a slice removes it from every stage of the ledger, so the janitor's working set
  no longer has it, and the ledger stays exact.
\<close>

theorem forget_untracks:
  assumes "reachable c" and "node_agrees c uid k" and "k \<noteq> []"
  shows "\<not> ghas (TrackedSliceUIDs (ForgetSlice uid k c)) uid \<and>
    gget [] (syncedPhaseBySlice (ForgetSlice uid k c)) uid = [] \<and>
    (\<forall>j n. map_of (nodes (ForgetSlice uid k c)) j = Some n \<longrightarrow>
       ns_Reserved n = assumed_on (ForgetSlice uid k c) j + confirmed_on (ForgetSlice uid k c) j)"
proof -
  have ok: "cache_ok c" by (rule reachable_ok [OF assms(1)])
  let ?c2 = "ReleaseConfirmedSlice uid (RollbackAssumedSlice uid c)"
  have "cache_ok ?c2" by (intro cache_ok_ReleaseConfirmedSlice cache_ok_RollbackAssumedSlice ok)
  then have "stages_ok (ReleaseSliceOnce uid k ?c2)"
    using assms(2) by (intro cache_okD(2) cache_ok_ReleaseSliceOnce) (simp_all add: node_agrees_def)
  moreover have "\<not> ghas (allocatedBytesBySlice (ReleaseSliceOnce uid k ?c2)) uid"
    using \<open>cache_ok ?c2\<close> by (intro ReleaseSliceOnce_untracks) (simp add: cache_ok_def)
  ultimately have alloc: "\<not> ghas (allocatedNodeBySlice (ReleaseSliceOnce uid k ?c2)) uid"
    by (simp add: stages_ok_def)
  have keep: "assumedBySlice (ReleaseSliceOnce uid k d) = assumedBySlice d"
      "confirmedBySlice (ReleaseSliceOnce uid k d) = confirmedBySlice d" for d
    by (simp_all add: ReleaseSliceOnce_alt ReleaseAllocated_def drop_alloc_entry_def)
  have "\<not> ghas (assumedBySlice (RollbackAssumedSlice uid c)) uid"
    by (cases "map_of (assumedBySlice c) uid") (simp_all add: RollbackAssumedSlice_def Let_def not_ghas)
  moreover have "\<not> ghas (confirmedBySlice ?c2) uid"
    by (cases "map_of (confirmedBySlice c) uid") (simp_all add: ReleaseConfirmedSlice_def Let_def not_ghas)
  moreover have "cache_ok (ForgetSlice uid k c)"
    using assms by (intro cache_ok_ForgetSlice ok) auto
  ultimately show ?thesis
    using alloc assms(3) keep by (auto simp: tracked_iff ForgetSlice_def Let_def cache_ok_def counters_ok_def node_ok_def)
qed

theorem forget_untracks_witness: "\<not> ghas (TrackedSliceUIDs (ForgetSlice ''s1'' ''n1'' one_hold)) ''s1''"
  using forget_untracks [OF reachable_one_hold, of "''s1''" "''n1''"]
  by (simp add: node_agrees_def one_hold_def one_node_eq NewVRAMCache_def)

text \<open>
  A removed node is gone with everything recorded on it: no hold names it, and every slice
  that was allocated there can be promoted again when the node comes back.
\<close>

theorem remove_node_clears:
  assumes "reachable c" and "ghas (nodes c) k"
  shows "\<not> ghas (nodes (RemoveNode k c)) k \<and> used_on (RemoveNode k c) k = 0 \<and>
    (\<forall>uid. map_of (allocatedNodeBySlice c) uid = Some k \<longrightarrow>
       gget [] (syncedPhaseBySlice (RemoveNode k c)) uid \<noteq> ''Ready'') \<and>
    (\<forall>j. j \<noteq> k \<longrightarrow> map_of (nodes (RemoveNode k c)) j = map_of (nodes c) j)"
proof -
  note parts = cache_okD [OF reachable_ok [OF assms(1)]]
  note maps = parts(1) [unfolded maps_ok_def]
  note c' = RemoveNode_alt [OF parts(1) assms(2)]
  have none: "\<not> ghas (nodes (RemoveNode k c)) k" by (simp add: c')
  then have "map_of (nodes (RemoveNode k c)) k = None" by (simp add: not_ghas)
  note sums = unknown_node_sums [OF cache_ok_RemoveNode [OF reachable_ok [OF assms(1)]] this]
  have "gget [] (syncedPhaseBySlice (RemoveNode k c)) uid \<noteq> ''Ready''"
    if "map_of (allocatedNodeBySlice c) uid = Some k" for uid
    using that maps by (auto simp: c' gget_def map_of_filter_ok gone_def split: option.splits)
  with none sums show ?thesis by (auto simp: used_on_def c')
qed

theorem remove_node_clears_witness: "used_on (RemoveNode ''n1'' one_hold) ''n1'' = 0"
  using remove_node_clears [OF reachable_one_hold, of "''n1''"] map_of_SomeD_ghas [OF one_hold_node] by simp

text \<open>
  A slice promoted before its node is known is never charged: the promotion is recorded as
  done, so when the node registers and the slices on it are walked again the second promotion
  returns early, the node's allocated counter stays what it was, and the whole node is offered.
\<close>

theorem early_promotion_not_charged:
  assumes "\<not> ghas (nodes c) k" and "gget [] (syncedPhaseBySlice c) uid \<noteq> ''Ready''"
    and "0 \<le> tot" and "tot < 2 ^ 63"
  shows "map_of (nodes (snd (PromoteSliceToAllocatedOnce uid k bytes (UpdateNode k tot 0
      (snd (PromoteSliceToAllocatedOnce uid k bytes c)))))) k =
    Some ((new_node k)\<lparr>ns_Total := tot, ns_Free := tot\<rparr>) \<and>
    gget 0 (allocatedBytesBySlice (snd (PromoteSliceToAllocatedOnce uid k bytes c))) uid = bytes"
  using assms
  by (auto simp: PromoteSliceToAllocatedOnce_def promoteConfirmedToAllocatedLocked_def UpdateNode_def
      new_node_def not_ghas recalculate_free Let_def)

theorem early_promotion_not_charged_witness:
  "map_of (nodes (snd (PromoteSliceToAllocatedOnce ''s1'' ''n1'' 80 (UpdateNode ''n1'' 100 0
      (snd (PromoteSliceToAllocatedOnce ''s1'' ''n1'' 80 NewVRAMCache)))))) ''n1'' =
    Some ((new_node ''n1'')\<lparr>ns_Total := 100, ns_Free := 100\<rparr>)"
  using early_promotion_not_charged [of NewVRAMCache "''n1''" "''s1''" 100 80]
  by (simp add: NewVRAMCache_def gget_def)

end
