(* ===== verification/Reservation.thy ===== *)
theory Reservation
  imports VramProps
begin

text \<open>
  \<open>internal/scheduler/reserve.go\<close>: the two-phase reservation handle. The interface it uses of the
  cache is the locale \<open>hold_store\<close> (take a hold, drop it, pin it, make it firm, with what each does
  to a node's usage); its client lemmas are proved there once, and the interpretation shows that
  the VRAM cache keeps the contract. A \<open>ReservationTx\<close> is the record \<open>reservation_tx\<close>; the deferred
  \<open>RollbackIfNotConfirmed\<close> is a step of its own.
\<close>

section \<open>The interface of a hold store\<close>

locale hold_store =
  fixes inv :: "'s \<Rightarrow> bool"
    and usage :: "'s \<Rightarrow> string \<Rightarrow> int"
    and held :: "'s \<Rightarrow> string \<Rightarrow> (string \<times> int) option"
    and take_hold :: "string \<Rightarrow> string \<Rightarrow> string \<Rightarrow> int \<Rightarrow> int \<Rightarrow> int \<Rightarrow> 's \<Rightarrow> 'e + 's"
    and drop_hold :: "string \<Rightarrow> 's \<Rightarrow> 's"
    and pin_hold :: "string \<Rightarrow> int \<Rightarrow> int \<Rightarrow> 's \<Rightarrow> (string \<times> int) option \<times> 's"
    and firm_hold :: "string \<Rightarrow> string \<Rightarrow> string \<Rightarrow> int \<Rightarrow> int \<Rightarrow> 's \<Rightarrow> bool \<times> 's"
  assumes take_inv: "inv s \<Longrightarrow> 0 \<le> b \<Longrightarrow> take_hold u ns k b ttl now s = Inr s' \<Longrightarrow> inv s'"
    and take_usage: "inv s \<Longrightarrow> 0 \<le> b \<Longrightarrow> take_hold u ns k b ttl now s = Inr s' \<Longrightarrow>
          usage s' j = usage s j + (if j = k then b else 0)"
    and take_held: "inv s \<Longrightarrow> 0 \<le> b \<Longrightarrow> take_hold u ns k b ttl now s = Inr s' \<Longrightarrow> held s' u = Some (k, b)"
    and drop_inv: "inv s \<Longrightarrow> inv (drop_hold u s)"
    and drop_usage: "inv s \<Longrightarrow> usage (drop_hold u s) j =
          usage s j - (case held s u of Some (k, b) \<Rightarrow> (if j = k then b else 0) | None \<Rightarrow> 0)"
    and drop_held: "inv s \<Longrightarrow> held (drop_hold u s) u = None"
    and pin_inv: "inv s \<Longrightarrow> inv (snd (pin_hold u ttl now s))"
    and pin_usage: "inv s \<Longrightarrow> usage (snd (pin_hold u ttl now s)) j = usage s j"
    and pin_held: "inv s \<Longrightarrow> held (snd (pin_hold u ttl now s)) = held s \<and> fst (pin_hold u ttl now s) = held s u"
    and firm_inv: "inv s \<Longrightarrow> held s u = Some h \<Longrightarrow> inv (snd (firm_hold u ns k b now s))"
    and firm_usage: "inv s \<Longrightarrow> held s u = Some h \<Longrightarrow> usage (snd (firm_hold u ns k b now s)) j = usage s j"
    and firm_held: "inv s \<Longrightarrow> held s u = Some h \<Longrightarrow>
          held (snd (firm_hold u ns k b now s)) u = None \<and> \<not> fst (firm_hold u ns k b now s)"
begin

lemma take_drop:
  assumes "inv s" and "0 \<le> b" and "take_hold u ns k b ttl now s = Inr s'"
  shows "usage (drop_hold u s') j = usage s j" and "held (drop_hold u s') u = None" and "inv (drop_hold u s')"
  using assms take_inv [OF assms] take_held [OF assms] take_usage [OF assms]
  by (simp_all add: drop_usage drop_held drop_inv)

lemma take_pin_drop:
  assumes "inv s" and "0 \<le> b" and "take_hold u ns k b ttl now s = Inr s'"
  shows "usage (drop_hold u (snd (pin_hold u ttl' now' s'))) j = usage s j"
  using assms take_inv [OF assms] take_held [OF assms] take_usage [OF assms]
  by (simp add: drop_usage pin_inv pin_usage pin_held)

lemma take_firm_drop:
  assumes "inv s" and "0 \<le> b" and "take_hold u ns k b ttl now s = Inr s'"
  shows "usage (drop_hold u (snd (firm_hold u ns k b now' s'))) j = usage s j + (if j = k then b else 0)"
  using take_inv [OF assms] take_held [OF assms] take_usage [OF assms]
  by (simp add: drop_usage firm_inv firm_usage firm_held)

lemma pin_lost_iff: "inv s \<Longrightarrow> fst (pin_hold u ttl now s) = None \<longleftrightarrow> held s u = None"
  by (simp add: pin_held)

end

section \<open>The VRAM cache is a hold store\<close>

lemma IsAssumed_Some: "map_of (assumedBySlice c) uid = Some a \<Longrightarrow> IsAssumed c uid = Some (aa_NodeName a, aa_Bytes a)"
  by (simp add: IsAssumed_def)

lemma used_on_AssumeSlice:
  assumes "cache_ok c" and "AssumeSlice uid ns k req ttl now c = Inr c'"
  shows "used_on c' j = used_on c j + (if j = k then req else 0)"
proof -
  note maps = cache_okD(1) [OF assms(1), unfolded maps_ok_def]
  from assms(2) obtain n where fresh: "\<not> ghas (assumedBySlice c) uid"
      and c': "c' = c\<lparr>assumedBySlice := gput uid \<lparr>aa_SliceUID = uid, aa_Namespace = ns, aa_NodeName = k,
           aa_Bytes = req, aa_ExpiresAt = now + ttl\<rparr> (assumedBySlice c),
         nodes := gput k (add_reserved req n) (nodes c)\<rparr>"
    by (rule AssumeSlice_SomeD) simp
  with maps show ?thesis by (simp add: used_on_def on_defs on_node_gput not_ghas)
qed

lemma used_on_Rollback:
  assumes "cache_ok c"
  shows "used_on (RollbackAssumedSlice uid c) j =
    used_on c j - (case IsAssumed c uid of Some (k, b) \<Rightarrow> (if j = k then b else 0) | None \<Rightarrow> 0)"
proof -
  note maps = cache_okD(1) [OF assms, unfolded maps_ok_def]
  show ?thesis
  proof (cases "map_of (assumedBySlice c) uid")
    case None
    then show ?thesis by (simp add: RollbackAssumedSlice_def IsAssumed_def)
  next
    case (Some a)
    with maps show ?thesis
      by (auto simp: RollbackAssumedSlice_def IsAssumed_def Let_def used_on_def on_defs on_node_gdel)
  qed
qed

lemma used_on_Pin:
  assumes "cache_ok c"
  shows "used_on (snd (PinAssumption uid ttl now c)) j = used_on c j"
proof -
  note maps = cache_okD(1) [OF assms, unfolded maps_ok_def]
  then show ?thesis
    by (cases "map_of (assumedBySlice c) uid")
      (auto simp: PinAssumption_def used_on_def on_defs gsum_gput on_node_def)
qed

lemma IsAssumed_Pin:
  "IsAssumed (snd (PinAssumption uid ttl now c)) = IsAssumed c \<and> fst (PinAssumption uid ttl now c) = IsAssumed c uid"
  by (auto simp: PinAssumption_def IsAssumed_def fun_eq_iff split: option.splits)

lemma used_on_Confirm:
  assumes "cache_ok c" and "IsAssumed c uid = Some h"
  shows "used_on (snd (ConfirmSliceOrRearm uid ns k b now c)) j = used_on c j"
proof -
  note parts = cache_okD [OF assms(1)]
  note maps = parts(1) [unfolded maps_ok_def]
  from assms(2) obtain a where a: "map_of (assumedBySlice c) uid = Some a"
    by (auto simp: IsAssumed_def)
  have "ghas (assumedBySlice c) uid" by (rule map_of_SomeD_ghas [OF a])
  with parts(2) have "map_of (confirmedBySlice c) uid = None" by (simp add: stages_ok_def not_ghas)
  with maps a show ?thesis
    by (simp add: ConfirmSliceOrRearm_def used_on_def on_defs on_node_gdel on_node_gput)
qed

interpretation ledger: hold_store cache_ok used_on IsAssumed AssumeSlice RollbackAssumedSlice
    PinAssumption ConfirmSliceOrRearm
proof unfold_locales
  fix s u h ns k b now
  assume ok: "cache_ok s" and h: "IsAssumed s u = Some h"
  then obtain a where a: "map_of (assumedBySlice s) u = Some a" by (auto simp: IsAssumed_def)
  show "cache_ok (snd (ConfirmSliceOrRearm u ns k b now s))" by (rule cache_ok_Confirm [OF ok a])
  show "IsAssumed (snd (ConfirmSliceOrRearm u ns k b now s)) u = None \<and>
      \<not> fst (ConfirmSliceOrRearm u ns k b now s)"
    by (simp add: ConfirmSliceOrRearm_def IsAssumed_def a)
next
  fix s b u ns k ttl now s'
  assume "cache_ok s" "0 \<le> b" "AssumeSlice u ns k b ttl now s = Inr s'"
  then show "IsAssumed s' u = Some (k, b)" by (elim AssumeSlice_SomeD) (simp add: IsAssumed_def)
next
  fix s u
  show "IsAssumed (RollbackAssumedSlice u s) u = None"
    by (simp add: RollbackAssumedSlice_def IsAssumed_def Let_def split: option.splits)
qed (simp_all add: cache_ok_AssumeSlice used_on_AssumeSlice cache_ok_RollbackAssumedSlice used_on_Rollback
    cache_ok_Pin used_on_Pin IsAssumed_Pin used_on_Confirm)

section \<open>The transaction\<close>

record reservation_tx =
  tx_SliceUID :: string
  tx_Namespace :: string
  tx_NodeName :: string
  tx_Bytes :: int
  tx_confirmed :: bool
  tx_held :: bool

definition NewReservationTxForHeld :: "string \<Rightarrow> string \<Rightarrow> string \<Rightarrow> int \<Rightarrow> reservation_tx" where
  "NewReservationTxForHeld sliceUID namespace nodeName bytes =
     \<lparr>tx_SliceUID = sliceUID, tx_Namespace = namespace, tx_NodeName = nodeName, tx_Bytes = bytes,
      tx_confirmed = False, tx_held = False\<rparr>"

definition Reserve :: "int \<Rightarrow> string \<Rightarrow> string \<Rightarrow> string \<Rightarrow> int \<Rightarrow> int \<Rightarrow> vram_cache
    \<Rightarrow> cache_error + (reservation_tx \<times> vram_cache)" where
  "Reserve ttl sliceUID namespace nodeName bytes now c =
    (case AssumeSlice sliceUID namespace nodeName bytes ttl now c of
       Inl err \<Rightarrow> Inl err
     | Inr c' \<Rightarrow> Inr (\<lparr>tx_SliceUID = sliceUID, tx_Namespace = namespace, tx_NodeName = nodeName,
         tx_Bytes = bytes, tx_confirmed = False, tx_held = False\<rparr>, c'))"

definition Confirm :: "int \<Rightarrow> reservation_tx \<Rightarrow> vram_cache \<Rightarrow> reservation_tx \<times> vram_cache" where
  "Confirm now tx c =
    (tx\<lparr>tx_confirmed := True\<rparr>,
     snd (ConfirmSliceOrRearm (tx_SliceUID tx) (tx_Namespace tx) (tx_NodeName tx) (tx_Bytes tx) now c))"

definition MarkHeld :: "reservation_tx \<Rightarrow> reservation_tx" where
  "MarkHeld tx = tx\<lparr>tx_held := True\<rparr>"

definition RollbackIfNotConfirmed :: "reservation_tx \<Rightarrow> vram_cache \<Rightarrow> vram_cache" where
  "RollbackIfNotConfirmed tx c =
    (if tx_confirmed tx \<or> tx_held tx then c else RollbackAssumedSlice (tx_SliceUID tx) c)"

lemma ReserveD:
  assumes "Reserve ttl uid ns k b now c = Inr (tx, c')"
  shows "AssumeSlice uid ns k b ttl now c = Inr c'"
    and "tx = NewReservationTxForHeld uid ns k b"
  using assms by (auto simp: Reserve_def NewReservationTxForHeld_def split: sum.splits)

text \<open>
  An abandoned reservation leaves nothing behind: when a transaction ends neither confirmed nor
  held, the deferred rollback gives every node the usage it had before the reservation, even when
  the hold was pinned in between.
\<close>

theorem abandoned_tx_leaves_nothing:
  assumes "reachable c" and "0 \<le> b" and "Reserve ttl uid ns k b now c = Inr (tx, c')"
  shows "used_on (RollbackIfNotConfirmed tx c') j = used_on c j \<and>
    used_on (RollbackIfNotConfirmed tx (snd (PinAssumption uid ttl' now' c'))) j = used_on c j \<and>
    IsAssumed (RollbackIfNotConfirmed tx c') uid = None"
  using ledger.take_drop [OF reachable_ok [OF assms(1)] assms(2) ReserveD(1) [OF assms(3)]]
    ledger.take_pin_drop [OF reachable_ok [OF assms(1)] assms(2) ReserveD(1) [OF assms(3)]]
  by (simp add: RollbackIfNotConfirmed_def ReserveD(2) [OF assms(3)] NewReservationTxForHeld_def)

theorem abandoned_tx_leaves_nothing_witness:
  "used_on (RollbackIfNotConfirmed (NewReservationTxForHeld ''s1'' ''ns'' ''n1'' 60) one_hold) ''n1''
     = used_on one_node ''n1''"
  using abandoned_tx_leaves_nothing [OF reachable_one_node, of 60 30 "''s1''" "''ns''" "''n1''" 0
      "NewReservationTxForHeld ''s1'' ''ns'' ''n1'' 60" one_hold "''n1''"]
  by (simp add: Reserve_def AssumeSlice_one_node NewReservationTxForHeld_def)

text \<open>
  A confirmed reservation survives its own deferred rollback: the node's usage is the usage
  before the reservation plus exactly the reserved bytes, and other nodes are unchanged.
\<close>

theorem confirmed_tx_survives:
  assumes "reachable c" and "0 \<le> b" and "Reserve ttl uid ns k b now c = Inr (tx, c')"
  shows "case Confirm now' tx c' of (tx2, c2) \<Rightarrow> RollbackIfNotConfirmed tx2 c2 = c2 \<and>
    used_on c2 j = used_on c j + (if j = k then b else 0)"
proof -
  have ok: "cache_ok c" by (rule reachable_ok [OF assms(1)])
  note r = ReserveD [OF assms(3)]
  note held = ledger.take_held [OF ok assms(2) r(1)]
  note ok' = ledger.take_inv [OF ok assms(2) r(1)]
  show ?thesis
    using ledger.firm_usage [OF ok' held] ledger.take_usage [OF ok assms(2) r(1)]
    by (simp add: Confirm_def RollbackIfNotConfirmed_def r(2) NewReservationTxForHeld_def)
qed

theorem confirmed_tx_survives_witness:
  "used_on (snd (Confirm 5 (NewReservationTxForHeld ''s1'' ''ns'' ''n1'' 60) one_hold)) ''n1''
     = used_on one_node ''n1'' + 60"
  using confirmed_tx_survives [OF reachable_one_node, of 60 30 "''s1''" "''ns''" "''n1''" 0
      "NewReservationTxForHeld ''s1'' ''ns'' ''n1'' 60" one_hold, where now' = 5 and j = "''n1''"]
  by (simp add: Reserve_def AssumeSlice_one_node NewReservationTxForHeld_def split: prod.splits)

text \<open>
  A slow bind does not lose its bytes: when the reaper took the hold while the bind was in
  flight, \<open>Confirm\<close> charges the node again, and the slice ends with a confirmed hold that the
  ledger counts.
\<close>

theorem rearm_recharges:
  assumes "reachable c" and "map_of (assumedBySlice c) uid = None"
    and "map_of (confirmedBySlice c) uid = None" and "room_for c k b"
  shows "case Confirm now (NewReservationTxForHeld uid ns k b) c of (tx2, c2) \<Rightarrow>
    used_on c2 j = used_on c j + (if j = k then b else 0) \<and> ghas (confirmedBySlice c2) uid \<and>
    RollbackIfNotConfirmed tx2 c2 = c2 \<and> cache_ok c2"
proof -
  note maps = cache_okD(1) [OF reachable_ok [OF assms(1)], unfolded maps_ok_def]
  have "cache_step c (snd (ConfirmSliceOrRearm uid ns k b now c))"
    using assms by (intro step_rearm) (simp_all add: not_ghas)
  then have "cache_ok (snd (ConfirmSliceOrRearm uid ns k b now c))"
    by (rule cache_ok_step [OF _ reachable_ok [OF assms(1)]])
  moreover have "used_on (snd (ConfirmSliceOrRearm uid ns k b now c)) j = used_on c j + (if j = k then b else 0)"
    using maps assms(2,3) by (simp add: ConfirmSliceOrRearm_def Let_def used_on_def on_defs on_node_gput)
  moreover have "ghas (confirmedBySlice (snd (ConfirmSliceOrRearm uid ns k b now c))) uid"
    using assms(2) by (simp add: ConfirmSliceOrRearm_def Let_def)
  ultimately show ?thesis
    by (simp add: Confirm_def RollbackIfNotConfirmed_def NewReservationTxForHeld_def)
qed

theorem rearm_recharges_witness:
  "used_on (snd (Confirm 99 (NewReservationTxForHeld ''s1'' ''ns'' ''n1'' 60) one_node)) ''n1''
     = used_on one_node ''n1'' + 60"
  using rearm_recharges [OF reachable_one_node, where uid = "''s1''" and k = "''n1''" and b = 60 and now = 99
      and ns = "''ns''" and j = "''n1''"]
  by (simp add: one_node_eq NewVRAMCache_def room_for_def split: prod.splits)

end
