(* ===== verification/Scoring.thy ===== *)
theory Scoring
  imports VramProps
begin

text \<open>
  \<open>internal/scheduler/filter.go\<close> and \<open>score.go\<close>: the capacity filter's result and the ranking of the
  nodes that pass it. \<open>score_loop\<close> is the loop over the valid nodes; \<open>ScoreWithTopology\<close> adds the
  final \<open>sort.Slice\<close>. That sort fixes no order among equal totals: \<open>sort_stable\<close> is the insertion
  sort Go uses for up to twelve elements, and the ranking properties hold of every list
  \<open>sort.Slice\<close> may return (\<open>ranking_of\<close>).
\<close>

section \<open>The filter\<close>

datatype filter_reason = PASSED | Rejected fit_result

record filter_result =
  fr_NodeName :: string
  fr_Passed :: bool
  fr_Reason :: filter_reason

definition Filter :: "vram_cache \<Rightarrow> string \<Rightarrow> int \<Rightarrow> filter_result" where
  "Filter cache nodeName requestedBytes =
    (let fits = CanFit cache nodeName requestedBytes in
     if fits \<noteq> Fits
     then \<lparr>fr_NodeName = nodeName, fr_Passed = False, fr_Reason = Rejected fits\<rparr>
     else \<lparr>fr_NodeName = nodeName, fr_Passed = True, fr_Reason = PASSED\<rparr>)"

section \<open>The score\<close>

definition scoreWeightVRAMBytes :: int where "scoreWeightVRAMBytes = 80000000000"
definition fragmentThresholdBytes :: int where "fragmentThresholdBytes = 4000000000"
definition fragmentPenaltyBytes :: int where "fragmentPenaltyBytes = 5000000000"
definition topologyZoneMatchBonus :: int where "topologyZoneMatchBonus = 1000000000000"
definition BestEffortPenalty :: int where "BestEffortPenalty = 1000000000"

lemmas score_consts = scoreWeightVRAMBytes_def fragmentThresholdBytes_def fragmentPenaltyBytes_def
  topologyZoneMatchBonus_def BestEffortPenalty_def

record score_breakdown =
  sb_BinPackScore :: int
  sb_FragmentationScore :: int
  sb_ZoneScore :: int
  sb_Total :: int

record node_score =
  sc_NodeName :: string
  sc_Score :: score_breakdown

abbreviation sc_Total :: "node_score \<Rightarrow> int" where
  "sc_Total s \<equiv> sb_Total (sc_Score s)"

text \<open>The loop body: the score of one node's snapshot.\<close>

definition score_node :: "node_state \<Rightarrow> int \<Rightarrow> bool \<Rightarrow> string \<Rightarrow> score_breakdown" where
  "score_node node requestedBytes bestEffort preferredZone =
    (let leftover = i64 (ns_Free node - requestedBytes);
         binPack = i64 (scoreWeightVRAMBytes - leftover);
         frag = (if leftover > 0 \<and> leftover < fragmentThresholdBytes then - fragmentPenaltyBytes else 0);
         zone = (if preferredZone \<noteq> [] \<and> ns_Zone node = preferredZone then topologyZoneMatchBonus else 0);
         total0 = i64 (i64 (binPack + frag) + zone);
         total1 = (if bestEffort then i64 (total0 - BestEffortPenalty) else total0)
     in \<lparr>sb_BinPackScore = binPack, sb_FragmentationScore = frag, sb_ZoneScore = zone, sb_Total = total1\<rparr>)"

definition byName :: "node_state list \<Rightarrow> (string, node_state) gomap" where
  "byName snaps = fold (\<lambda>s m. gput (ns_NodeName s) s m) snaps []"

fun score_loop :: "(string, node_state) gomap \<Rightarrow> int \<Rightarrow> bool \<Rightarrow> string \<Rightarrow> string list \<Rightarrow> node_score list" where
  "score_loop m req be zone [] = []"
| "score_loop m req be zone (nodeName # rest) =
    (case map_of m nodeName of
       None \<Rightarrow> score_loop m req be zone rest
     | Some node \<Rightarrow> \<lparr>sc_NodeName = nodeName, sc_Score = score_node node req be zone\<rparr>
                    # score_loop m req be zone rest)"

definition score_before :: "node_score \<Rightarrow> node_score \<Rightarrow> bool" where
  "score_before x y \<longleftrightarrow> sc_Total x > sc_Total y"

definition ScoreWithTopology :: "vram_cache \<Rightarrow> string list \<Rightarrow> int \<Rightarrow> bool \<Rightarrow> string \<Rightarrow> node_score list" where
  "ScoreWithTopology cache validNodes requestedBytes bestEffort preferredZone =
     sort_stable score_before
       (score_loop (byName (SnapshotAllNodes cache)) requestedBytes bestEffort preferredZone validNodes)"

definition ScoreWithTier :: "vram_cache \<Rightarrow> string list \<Rightarrow> int \<Rightarrow> bool \<Rightarrow> node_score list" where
  "ScoreWithTier cache validNodes requestedBytes bestEffort =
     ScoreWithTopology cache validNodes requestedBytes bestEffort []"

definition Score :: "vram_cache \<Rightarrow> string list \<Rightarrow> int \<Rightarrow> node_score list" where
  "Score cache validNodes requestedBytes = ScoreWithTier cache validNodes requestedBytes False"

definition priorityBonus :: "int \<Rightarrow> int" where
  "priorityBonus priority =
    (if priority < 0 then 0
     else (let p = (if priority > 1000 then 1000 else priority) in go_div p 10))"

definition workloadAffinityBonus :: "string \<Rightarrow> int" where
  "workloadAffinityBonus cls =
    (if cls = ''Training'' then 10
     else if cls = ''Inference'' then 5
     else if cls = ''Batch'' then -5
     else 0)"

section \<open>Lemmas\<close>

interpretation score_order: strict_weak score_before
  unfolding score_before_def by (rule strict_weak_key_desc)

text \<open>What \<open>sort.Slice\<close> with this comparator promises.\<close>

definition ranking_of :: "node_score list \<Rightarrow> node_score list \<Rightarrow> bool" where
  "ranking_of xs ys \<longleftrightarrow> mset ys = mset xs \<and> sorted_wrt (\<lambda>x y. \<not> score_before y x) ys"

lemma ranking_sort_stable: "ranking_of xs (sort_stable score_before xs)"
  by (simp add: ranking_of_def mset_sort_stable score_order.sorted_sort_stable)

lemma ranking_hd:
  assumes "ranking_of xs (w # ys)" and "x \<in> set xs"
  shows "sc_Total x \<le> sc_Total w"
proof -
  have "set xs = set (w # ys)" using assms(1) by (metis ranking_of_def set_mset_mset)
  with assms show ?thesis by (auto simp: ranking_of_def score_before_def)
qed

lemma map_of_byName_fold:
  "map_of (fold (\<lambda>s m. gput (ns_NodeName s) s m) snaps m) k = Some n \<Longrightarrow>
     (n \<in> set snaps \<and> ns_NodeName n = k) \<or> map_of m k = Some n"
proof (induction snaps arbitrary: m)
  case Nil
  then show ?case by simp
next
  case (Cons s snaps)
  from Cons.IH [of "gput (ns_NodeName s) s m"] Cons.prems show ?case by (auto split: if_splits)
qed

lemma byName_fold_has:
  "k \<in> ns_NodeName ` set snaps \<or> ghas m k \<Longrightarrow> ghas (fold (\<lambda>s m. gput (ns_NodeName s) s m) snaps m) k"
  by (induction snaps arbitrary: m) auto

lemma score_loop_mem:
  "x \<in> set (score_loop m req be zone vs) \<longleftrightarrow>
    (\<exists>k n. k \<in> set vs \<and> map_of m k = Some n \<and> x = \<lparr>sc_NodeName = k, sc_Score = score_node n req be zone\<rparr>)"
  by (induction vs) (auto split: option.splits)

text \<open>The total of a node that fits, with nothing near the ends of \<open>int64\<close>.\<close>

lemma score_total:
  assumes "0 \<le> req" and "req \<le> ns_Free n" and "ns_Free n < 2 ^ 62"
  shows "sb_Total (score_node n req be z) =
    scoreWeightVRAMBytes - (ns_Free n - req)
    - (if 0 < ns_Free n - req \<and> ns_Free n - req < fragmentThresholdBytes then fragmentPenaltyBytes else 0)
    + (if z \<noteq> [] \<and> ns_Zone n = z then topologyZoneMatchBonus else 0)
    - (if be then BestEffortPenalty else 0)"
proof -
  let ?l = "ns_Free n - req"
  let ?f = "if 0 < ?l \<and> ?l < fragmentThresholdBytes then - fragmentPenaltyBytes else 0"
  let ?z = "if z \<noteq> [] \<and> ns_Zone n = z then topologyZoneMatchBonus else 0"
  have l: "i64 ?l = ?l" using assms by (intro i64_id) simp_all
  have b: "i64 (scoreWeightVRAMBytes - ?l) = scoreWeightVRAMBytes - ?l"
    using assms unfolding score_consts by (intro i64_id) simp_all
  have f: "i64 (scoreWeightVRAMBytes - ?l + ?f) = scoreWeightVRAMBytes - ?l + ?f"
    using assms unfolding score_consts by (intro i64_id) (auto split: if_splits)
  have z: "i64 (scoreWeightVRAMBytes - ?l + ?f + ?z) = scoreWeightVRAMBytes - ?l + ?f + ?z"
    using assms unfolding score_consts by (intro i64_id) (auto split: if_splits)
  have be: "i64 (scoreWeightVRAMBytes - ?l + ?f + ?z - BestEffortPenalty)
      = scoreWeightVRAMBytes - ?l + ?f + ?z - BestEffortPenalty"
    using assms unfolding score_consts by (intro i64_id) (auto split: if_splits)
  show ?thesis
    unfolding score_node_def Let_def l b f z be by (auto split: if_splits)
qed

lemma sort_stable_map:
  assumes "\<And>x y. x \<in> set xs \<Longrightarrow> y \<in> set xs \<Longrightarrow> lt' (f x) (f y) = lt x y"
  shows "sort_stable lt' (map f xs) = map f (sort_stable lt xs)"
proof -
  have ins: "sinsert lt' (f x) (map f ys) = map f (sinsert lt x ys)"
    if "\<And>y. y \<in> set ys \<Longrightarrow> lt' (f y) (f x) = lt y x" for x ys
    using that by (induction ys) auto
  show ?thesis
    using assms
  proof (induction xs)
    case Nil
    then show ?case by (simp add: sort_stable_def)
  next
    case (Cons x xs)
    have "sort_stable lt' (map f xs) = map f (sort_stable lt xs)"
      using Cons by (intro Cons.IH) auto
    moreover have "sinsert lt' (f x) (map f (sort_stable lt xs)) = map f (sinsert lt x (sort_stable lt xs))"
      using Cons.prems by (intro ins) (auto simp: set_sort_stable)
    ultimately show ?case by (simp add: sort_stable_def)
  qed
qed


section \<open>Nodes keep their names\<close>

definition names_ok :: "vram_cache \<Rightarrow> bool" where
  "names_ok c \<longleftrightarrow> (\<forall>k n. map_of (nodes c) k = Some n \<longrightarrow> ns_NodeName n = k)"

lemma names_ok_upd: "names_ok c \<Longrightarrow> (\<And>n. ns_NodeName (f n) = ns_NodeName n) \<Longrightarrow> names_ok (upd_node k f c)"
  by (auto simp: names_ok_def upd_node_nodes)

lemma name_kept [simp]:
  "ns_NodeName (drop_reserved b n) = ns_NodeName n" "ns_NodeName (drop_allocated b n) = ns_NodeName n"
  "ns_NodeName (add_reserved b n) = ns_NodeName n" "ns_NodeName (add_allocated b n) = ns_NodeName n"
  "ns_NodeName (recalculateFreeVRAM n) = ns_NodeName n"
  by (simp_all add: drop_reserved_def drop_allocated_def add_reserved_def add_allocated_def
      recalculateFreeVRAM_def Let_def)

lemma names_ok_nodes: "nodes c' = nodes c \<Longrightarrow> names_ok c \<Longrightarrow> names_ok c'"
  by (simp add: names_ok_def)

lemma names_ok_Rollback: "names_ok c \<Longrightarrow> names_ok (RollbackAssumedSlice uid c)"
  by (auto simp: RollbackAssumedSlice_def Let_def intro: names_ok_nodes [OF _ names_ok_upd] split: option.splits)

lemma names_ok_ReleaseConfirmed: "names_ok c \<Longrightarrow> names_ok (ReleaseConfirmedSlice uid c)"
  by (auto simp: ReleaseConfirmedSlice_def Let_def intro: names_ok_nodes [OF _ names_ok_upd] split: option.splits)

lemma names_ok_reap_loop: "names_ok c \<Longrightarrow> names_ok (reap_loop now m c)"
proof (induction m arbitrary: c)
  case Nil
  then show ?case by simp
next
  case (Cons e m)
  obtain u a where e: "e = (u, a)" by (cases e)
  have "names_ok ((upd_node (aa_NodeName a) (drop_reserved (aa_Bytes a)) c)
      \<lparr>assumedBySlice := gdel u (assumedBySlice (upd_node (aa_NodeName a) (drop_reserved (aa_Bytes a)) c))\<rparr>)"
    using Cons.prems by (auto simp: names_ok_def upd_node_nodes)
  with Cons show ?case by (simp add: e Let_def)
qed

lemma names_ok_drop: "names_ok c \<Longrightarrow> names_ok (drop_alloc_entry ph uid c)"
  by (simp add: names_ok_def drop_alloc_entry_def)

lemma names_ok_ReleaseAllocated: "names_ok c \<Longrightarrow> names_ok (ReleaseAllocated k b c)"
  by (simp add: ReleaseAllocated_def names_ok_upd)

lemma names_ok_ReleaseSliceOnce: "names_ok c \<Longrightarrow> names_ok (ReleaseSliceOnce uid k c)"
  by (simp add: ReleaseSliceOnce_alt names_ok_ReleaseAllocated names_ok_drop)

lemma names_ok_Forget: "names_ok c \<Longrightarrow> names_ok (ForgetSlice uid k c)"
  unfolding ForgetSlice_def Let_def
  by (rule names_ok_nodes [of _ "if k \<noteq> [] then ReleaseSliceOnce uid k (ReleaseConfirmedSlice uid (RollbackAssumedSlice uid c))
        else ReleaseConfirmedSlice uid (RollbackAssumedSlice uid c)"])
    (simp_all add: names_ok_ReleaseSliceOnce names_ok_ReleaseConfirmed names_ok_Rollback)

lemma names_ok_gput: "names_ok c \<Longrightarrow> ns_NodeName n = k \<Longrightarrow> names_ok (c\<lparr>nodes := gput k n (nodes c)\<rparr>)"
  by (simp add: names_ok_def)

lemma name_of_known: "names_ok c \<Longrightarrow> ns_NodeName (gget (new_node k) (nodes c) k) = k"
  by (cases "map_of (nodes c) k") (simp_all add: names_ok_def new_node_def)

lemma names_ok_Promote: "names_ok c \<Longrightarrow> names_ok (snd (PromoteSliceToAllocatedOnce uid k b c))"
  by (auto simp: PromoteSliceToAllocatedOnce_def promoteConfirmedToAllocatedLocked_def Let_def
      names_ok_def upd_node_nodes split: option.splits)

lemma names_ok_Confirm: "names_ok c \<Longrightarrow> names_ok (snd (ConfirmSliceOrRearm uid ns k b now c))"
  by (auto simp: ConfirmSliceOrRearm_def Let_def names_ok_def upd_node_nodes split: option.splits)

lemma names_ok_step: "cache_step c c' \<Longrightarrow> cache_ok c \<Longrightarrow> names_ok c \<Longrightarrow> names_ok c'"
proof (induction rule: cache_step.induct)
  case (step_reap c now)
  then show ?case by (simp add: reapExpiredAssumptions_def names_ok_reap_loop)
next
  case (step_assume req uid ns k ttl now c c')
  from step_assume(2) show ?case
    by (rule AssumeSlice_SomeD) (use step_assume(4) in \<open>simp add: names_ok_def\<close>)
next
  case (step_remove_node c k)
  then show ?case by (auto simp: RemoveNode_def names_ok_def Let_def)
next
  case (step_fail c uid k)
  then show ?case
    by (simp add: FailSliceOnce_alt Let_def names_ok_ReleaseConfirmed names_ok_ReleaseAllocated names_ok_drop)
next
  case (step_update_node tot alloc k c)
  then show ?case by (simp add: UpdateNode_def Let_def names_ok_gput name_of_known)
next
  case (step_zone c k z)
  then show ?case by (simp add: SetNodeZone_def Let_def names_ok_gput name_of_known)
next
  case (step_health c k h)
  then show ?case by (simp add: SetNodeHealth_def names_ok_upd)
next
  case (step_pin c uid ttl now)
  then show ?case by (auto simp: PinAssumption_def names_ok_def split: option.splits)
next
  case (step_seed c)
  then show ?case by (simp add: MarkSeeded_def names_ok_def)
qed (simp_all add: names_ok_Rollback names_ok_Confirm
    names_ok_ReleaseConfirmed names_ok_ReleaseSliceOnce names_ok_Forget names_ok_Promote)

lemma reachable_names: "reachable c \<Longrightarrow> names_ok c"
proof (induction rule: reachable.induct)
  case reach_new
  show ?case by (simp add: names_ok_def NewVRAMCache_def)
next
  case (reach_step c c')
  then show ?case using names_ok_step reachable_ok by blast
qed

lemma map_of_byName:
  assumes "reachable c"
  shows "map_of (byName (SnapshotAllNodes c)) = map_of (nodes c)"
proof
  fix k
  note names = reachable_names [OF assms, unfolded names_ok_def]
  have maps: "gmap_ok (nodes c)" using reachable_ok [OF assms] by (simp add: cache_ok_def maps_ok_def)
  have sound: "map_of (nodes c) k = Some n" if "map_of (byName (SnapshotAllNodes c)) k = Some n" for n
  proof -
    from map_of_byName_fold [OF that [unfolded byName_def]]
    have "n \<in> set (map snd (nodes c))" and name: "ns_NodeName n = k" by (simp_all add: SnapshotAllNodes_def)
    then obtain k' where "map_of (nodes c) k' = Some n" using maps by (auto simp: map_of_SomeD_ok)
    with names name show ?thesis by auto
  qed
  show "map_of (byName (SnapshotAllNodes c)) k = map_of (nodes c) k"
  proof (cases "map_of (nodes c) k")
    case None
    with sound show ?thesis by (cases "map_of (byName (SnapshotAllNodes c)) k") auto
  next
    case (Some n)
    then have "(k, n) \<in> set (nodes c)" by (rule map_of_SomeD)
    moreover have "ns_NodeName n = k" using names Some by auto
    ultimately have "k \<in> ns_NodeName ` set (SnapshotAllNodes c)" by (force simp: SnapshotAllNodes_def)
    then have "ghas (byName (SnapshotAllNodes c)) k" unfolding byName_def by (intro byName_fold_has) simp
    then obtain n' where "map_of (byName (SnapshotAllNodes c)) k = Some n'" by (elim ghasE)
    with sound [OF this] show ?thesis by simp
  qed
qed

section \<open>Properties\<close>

text \<open>
  The head of the ranking is a best node: it is one of the candidates, its total is at least
  every candidate's, whatever order \<open>sort.Slice\<close> gives to ties, and every candidate the cache
  knows is in the ranking.
\<close>

theorem winner_is_best:
  assumes "reachable c" and "\<forall>v\<in>set vs. CanFit c v req = Fits" and "vs \<noteq> []"
    and "ranking_of (score_loop (byName (SnapshotAllNodes c)) req be z vs) ys"
  shows "ys \<noteq> [] \<and> sc_NodeName (hd ys) \<in> set vs \<and>
    (\<forall>v\<in>set vs. \<exists>n. map_of (nodes c) v = Some n \<and> sb_Total (score_node n req be z) \<le> sc_Total (hd ys))"
proof -
  let ?xs = "score_loop (byName (SnapshotAllNodes c)) req be z vs"
  have known: "\<exists>n. map_of (nodes c) v = Some n" if "v \<in> set vs" for v
    using assms(2) that by (force simp: CanFit_def split: option.splits)
  have mem: "x \<in> set ?xs \<longleftrightarrow> (\<exists>k n. k \<in> set vs \<and> map_of (nodes c) k = Some n \<and>
      x = \<lparr>sc_NodeName = k, sc_Score = score_node n req be z\<rparr>)" for x
    by (simp add: score_loop_mem map_of_byName [OF assms(1)])
  have set: "set ys = set ?xs" using assms(4) by (metis ranking_of_def set_mset_mset)
  obtain v where "v \<in> set vs" using assms(3) by (cases vs) auto
  moreover obtain n where "map_of (nodes c) v = Some n" using known [OF \<open>v \<in> set vs\<close>] by blast
  ultimately have "\<lparr>sc_NodeName = v, sc_Score = score_node n req be z\<rparr> \<in> set ys"
    unfolding set mem by blast
  then have ne: "ys \<noteq> []" by auto
  then obtain w ws where ys: "ys = w # ws" by (cases ys) auto
  have "\<exists>n. map_of (nodes c) v = Some n \<and> sb_Total (score_node n req be z) \<le> sc_Total w" if v: "v \<in> set vs" for v
  proof -
    obtain n where n: "map_of (nodes c) v = Some n" using known [OF v] by blast
    then have "\<lparr>sc_NodeName = v, sc_Score = score_node n req be z\<rparr> \<in> set ?xs" using v unfolding mem by blast
    from ranking_hd [OF assms(4) [unfolded ys] this] n show ?thesis by simp
  qed
  moreover have "w \<in> set ?xs" using set ys by auto
  then have "sc_NodeName w \<in> set vs" by (auto simp: mem)
  ultimately show ?thesis using ne ys by simp
qed

theorem winner_is_best_witness:
  "sc_NodeName (hd (Score one_node [''n1''] 60)) = ''n1''"
  using winner_is_best [OF reachable_one_node, of "[''n1'']" 60 False "[]" "Score one_node [''n1''] 60"]
  by (simp add: Score_def ScoreWithTier_def ScoreWithTopology_def ranking_sort_stable CanFit_def one_node_eq)

text \<open>
  The zone preference is strong up to its stated range: a fitting in-zone node whose leftover
  is below \<open>10 ^ 12\<close> bytes outranks every fitting node outside the zone.
\<close>

theorem zone_dominates:
  assumes "0 \<le> req" and "req \<le> ns_Free n" and "ns_Free n < 2 ^ 62" and "req \<le> ns_Free m" and "ns_Free m < 2 ^ 62"
    and "z \<noteq> []" and "ns_Zone n = z" and "ns_Zone m \<noteq> z" and "ns_Free n - req < 1000000000000"
  shows "sb_Total (score_node n req be z) > sb_Total (score_node m req be z)"
  using assms by (simp add: score_total score_consts)

definition snap :: "string \<Rightarrow> int \<Rightarrow> string \<Rightarrow> node_state" where
  "snap k f z = \<lparr>ns_NodeName = k, ns_Total = f, ns_Allocated = 0, ns_Reserved = 0, ns_Free = f,
     ns_Healthy = True, ns_Zone = z\<rparr>"

theorem zone_dominates_witness:
  "sb_Total (score_node (snap ''a'' 80000000000 ''z'') 20000000000 False ''z'')
   > sb_Total (score_node (snap ''b'' 20000000000 ''y'') 20000000000 False ''z'')"
  by (rule zone_dominates) (simp_all add: snap_def)

text \<open>
  The zone preference has a limit the documentation of the score does not mention: an in-zone
  node with at least \<open>10 ^ 12 + 5 * 10 ^ 9\<close> bytes left over loses to an out-of-zone node that the
  request fills exactly, although both fit.
\<close>

theorem zone_dominance_limit:
  assumes "0 \<le> req" and "ns_Free m = req" and "ns_Free n < 2 ^ 62" and "ns_Zone n = z" and "ns_Zone m \<noteq> z"
    and "ns_Free n - req \<ge> 1005000000000"
  shows "sb_Total (score_node n req be z) < sb_Total (score_node m req be z)"
  using assms by (simp add: score_total score_consts)

theorem zone_dominance_limit_witness:
  "sb_Total (score_node (snap ''a'' 1128000000000 ''z'') 20000000000 False ''z'')
   < sb_Total (score_node (snap ''b'' 20000000000 ''y'') 20000000000 False ''z'')"
  by (rule zone_dominance_limit) (simp_all add: snap_def)

definition penalised :: "node_score \<Rightarrow> node_score" where
  "penalised s = s\<lparr>sc_Score := (sc_Score s)\<lparr>sb_Total := sc_Total s - BestEffortPenalty\<rparr>\<rparr>"

text \<open>
  The best-effort penalty never changes a ranking: it lowers every candidate's total by the same
  amount, so the nodes come out in the same order as for a guaranteed claim.
\<close>

theorem best_effort_same_order:
  assumes "reachable c" and "0 \<le> req" and "\<forall>v\<in>set vs. \<exists>n. map_of (nodes c) v = Some n \<and> req \<le> ns_Free n \<and> ns_Free n < 2 ^ 62"
  shows "map sc_NodeName (ScoreWithTopology c vs req True z) = map sc_NodeName (ScoreWithTopology c vs req False z)"
proof -
  let ?m = "byName (SnapshotAllNodes c)"
  have pen: "score_node n req True z = (score_node n req False z)\<lparr>sb_Total := sb_Total (score_node n req False z) - BestEffortPenalty\<rparr>"
    if "req \<le> ns_Free n" "ns_Free n < 2 ^ 62" for n
    using score_total [OF assms(2) that, of False z] score_total [OF assms(2) that, of True z]
    by (simp add: score_node_def Let_def)
  have "score_loop ?m req True z vs = map penalised (score_loop ?m req False z vs)"
    using assms(3) by (induction vs) (auto simp: map_of_byName [OF assms(1)] penalised_def pen split: option.splits)
  moreover have "sort_stable score_before (map penalised xs) = map penalised (sort_stable score_before xs)" for xs
    by (rule sort_stable_map) (simp add: score_before_def penalised_def)
  moreover have "sc_NodeName \<circ> penalised = sc_NodeName" by (auto simp: fun_eq_iff penalised_def)
  ultimately show ?thesis by (simp add: ScoreWithTopology_def)
qed

theorem best_effort_same_order_witness:
  "map sc_NodeName (ScoreWithTopology one_node [''n1''] 60 True ''z'')
   = map sc_NodeName (ScoreWithTopology one_node [''n1''] 60 False ''z'')"
  by (rule best_effort_same_order [OF reachable_one_node]) (simp_all add: one_node_eq)

end
