(* ===== verification/Quota.thy ===== *)
theory Quota
  imports VramProps
begin

text \<open>
  \<open>internal/scheduler/quota.go\<close>: the namespace quota at scheduling time. The two \<open>List\<close> calls of the
  API client are arguments: \<open>None\<close> is a failed call, \<open>Some items\<close> what the informer returned (for
  slices the whole cluster's list, of which \<open>InNamespace\<close> selects a part). The checker's cache is an
  option because it may be nil.
\<close>

section \<open>Code\<close>

datatype quota_check = QuotaOk | QuotaExceeded string int int int int

definition sliceHeldBytes :: "vgpu_slice \<Rightarrow> int" where
  "sliceHeldBytes s = (if sl_AllocatedBytes s > 0 then sl_AllocatedBytes s else sl_RequestedVRAMBytes s)"

text \<open>A missing annotation map reads like a missing key.\<close>

definition annotation :: "vgpu_slice \<Rightarrow> string \<Rightarrow> string" where
  "annotation s key = gget [] (sl_Annotations s) key"

fun usage_loop :: "string \<Rightarrow> vgpu_slice list \<Rightarrow> int \<times> string list \<Rightarrow> int \<times> string list" where
  "usage_loop excludeGang [] r = r"
| "usage_loop excludeGang (s # rest) (acc, counted) =
    (if excludeGang \<noteq> [] \<and> annotation s AnnotationGangRef = excludeGang
     then usage_loop excludeGang rest (acc, sl_UID s # counted)
     else if sl_NodeName s = [] then usage_loop excludeGang rest (acc, counted)
     else if sl_Phase s = ''Released'' \<or> sl_Phase s = ''Failed''
     then usage_loop excludeGang rest (acc, sl_UID s # counted)
     else usage_loop excludeGang rest (i64 (acc + sliceHeldBytes s), sl_UID s # counted))"

definition namespaceUsage :: "string \<Rightarrow> string \<Rightarrow> vgpu_slice list option \<Rightarrow> (int \<times> string list) option" where
  "namespaceUsage namespace excludeGang listed =
    (case listed of
       None \<Rightarrow> None
     | Some items \<Rightarrow> Some (usage_loop excludeGang (filter (\<lambda>s. sl_Namespace s = namespace) items) (0, [])))"

definition Check ::
  "string \<Rightarrow> int \<Rightarrow> string \<Rightarrow> int \<Rightarrow> vgpu_quota list option \<Rightarrow> vgpu_slice list option \<Rightarrow> vram_cache option
   \<Rightarrow> quota_check" where
  "Check namespace requested gangRef gangTotal quotas slices cache =
    (case quotas of
       None \<Rightarrow> QuotaOk
     | Some qs \<Rightarrow>
       (case find (\<lambda>q. qt_TargetNamespace q = namespace) qs of
          None \<Rightarrow> QuotaOk
        | Some match \<Rightarrow>
          (let gang = gangRef \<noteq> [] \<and> gangTotal > 0;
               demand = (if gang then gangTotal else requested);
               excludeGang = (if gang then gangRef else [])
           in (case namespaceUsage namespace excludeGang slices of
                 None \<Rightarrow> QuotaOk
               | Some (used, counted) \<Rightarrow>
                 (let pending = (case cache of None \<Rightarrow> 0 | Some c \<Rightarrow> PendingNamespaceBytes c namespace counted)
                  in if i64 (i64 (used + pending) + demand) > qt_MaxVramBytes match
                     then QuotaExceeded namespace used pending demand (qt_MaxVramBytes match)
                     else QuotaOk)))))"

section \<open>What is charged to the namespace\<close>

text \<open>The bytes one listed slice is charged, and whether the list accounts for it at all.\<close>

definition of_gang :: "string \<Rightarrow> vgpu_slice \<Rightarrow> bool" where
  "of_gang g s \<longleftrightarrow> g \<noteq> [] \<and> annotation s AnnotationGangRef = g"

definition api_charge :: "string \<Rightarrow> vgpu_slice \<Rightarrow> int" where
  "api_charge g s =
    (if of_gang g s \<or> sl_NodeName s = [] \<or> sl_Phase s \<in> {''Released'', ''Failed''} then 0 else sliceHeldBytes s)"

definition accounted :: "string \<Rightarrow> vgpu_slice \<Rightarrow> bool" where
  "accounted g s \<longleftrightarrow> of_gang g s \<or> sl_NodeName s \<noteq> []"

definition accounted_uids :: "string \<Rightarrow> vgpu_slice list \<Rightarrow> string list" where
  "accounted_uids g ss = map sl_UID (filter (accounted g) ss)"

lemma usage_loop_eq:
  "in_i64 acc \<Longrightarrow> usage_loop g ss (acc, cs) =
     (i64 (acc + (\<Sum>s\<leftarrow>ss. api_charge g s)), rev (accounted_uids g ss) @ cs)"
proof (induction ss arbitrary: acc cs)
  case Nil
  then show ?case by (simp add: accounted_uids_def i64_in)
next
  case (Cons s ss)
  have "usage_loop g ss (i64 (acc + b), ds) = (i64 (acc + (b + (\<Sum>s\<leftarrow>ss. api_charge g s))), rev (accounted_uids g ss) @ ds)" for b ds
    using Cons.IH [of "i64 (acc + b)" ds] by (simp only: in_i64_i64 i64_add_left True_implies_equals add.assoc)
  then show ?case
    using Cons by (auto simp: accounted_uids_def accounted_def api_charge_def of_gang_def)
qed

lemma namespaceUsage_eq:
  "namespaceUsage ns g (Some items) =
    Some (i64 (\<Sum>s\<leftarrow>filter (\<lambda>s. sl_Namespace s = ns) items. api_charge g s),
          rev (accounted_uids g (filter (\<lambda>s. sl_Namespace s = ns) items)))"
  using usage_loop_eq [of 0 g "filter (\<lambda>s. sl_Namespace s = ns) items" "[]"]
  by (simp add: namespaceUsage_def in_i64_def)

lemma pending_at_cong: "set cs = set ds \<Longrightarrow> PendingNamespaceBytes c ns cs = PendingNamespaceBytes c ns ds"
  by (simp add: pending_eq pending_at_def [abs_def])

text \<open>Everything charged against the quota besides the demand: the API's slices and the ledger's rest.\<close>

definition charged :: "string \<Rightarrow> string \<Rightarrow> vgpu_slice list \<Rightarrow> vram_cache \<Rightarrow> int" where
  "charged ns g items c =
    (let ss = filter (\<lambda>s. sl_Namespace s = ns) items; cs = accounted_uids g ss in
     (\<Sum>s\<leftarrow>ss. api_charge g s)
     + gsum (pending_at ns cs) (assumedBySlice c) + gsum (pending_at ns cs) (confirmedBySlice c))"

definition quota_for :: "string \<Rightarrow> vgpu_quota list \<Rightarrow> vgpu_quota option" where
  "quota_for ns qs = find (\<lambda>q. qt_TargetNamespace q = ns) qs"

lemma i64_sum3: "i64 (i64 (i64 a + i64 b) + d) = i64 (a + b + d)"
proof -
  have "i64 (i64 a + i64 b) = i64 (a + b)" by (simp only: i64_add_left i64_add_right)
  then show ?thesis by (simp only: i64_add_left)
qed

definition demand_of :: "int \<Rightarrow> string \<Rightarrow> int \<Rightarrow> int" where
  "demand_of requested gangRef gangTotal = (if gangRef \<noteq> [] \<and> gangTotal > 0 then gangTotal else requested)"

definition own_gang :: "string \<Rightarrow> int \<Rightarrow> string" where
  "own_gang gangRef gangTotal = (if gangRef \<noteq> [] \<and> gangTotal > 0 then gangRef else [])"

lemma Check_alt:
  "Check ns req gang gtot quotas slices cache =
    (case quotas of None \<Rightarrow> QuotaOk
     | Some qs \<Rightarrow> (case quota_for ns qs of None \<Rightarrow> QuotaOk
        | Some q \<Rightarrow> (case namespaceUsage ns (own_gang gang gtot) slices of None \<Rightarrow> QuotaOk
           | Some (used, counted) \<Rightarrow>
              (let pending = (case cache of None \<Rightarrow> 0 | Some c \<Rightarrow> PendingNamespaceBytes c ns counted)
               in if i64 (i64 (used + pending) + demand_of req gang gtot) > qt_MaxVramBytes q
                  then QuotaExceeded ns used pending (demand_of req gang gtot) (qt_MaxVramBytes q)
                  else QuotaOk))))"
  by (simp only: Check_def quota_for_def own_gang_def demand_of_def Let_def)

lemma Check_eq:
  assumes "quota_for ns qs = Some q"
  shows "Check ns req gang gtot (Some qs) (Some items) (Some c) = QuotaOk \<longleftrightarrow>
    i64 (charged ns (own_gang gang gtot) items c + demand_of req gang gtot) \<le> qt_MaxVramBytes q"
proof -
  let ?g = "own_gang gang gtot" and ?ss = "filter (\<lambda>s. sl_Namespace s = ns) items"
  let ?cs = "accounted_uids ?g ?ss" and ?d = "demand_of req gang gtot"
  let ?a = "\<Sum>s\<leftarrow>?ss. api_charge ?g s"
  have p: "PendingNamespaceBytes c ns (rev ?cs) =
      i64 (gsum (pending_at ns ?cs) (assumedBySlice c) + gsum (pending_at ns ?cs) (confirmedBySlice c))"
    using pending_at_cong [of "rev ?cs" ?cs c ns] by (simp add: pending_eq)
  have "Check ns req gang gtot (Some qs) (Some items) (Some c) = QuotaOk \<longleftrightarrow>
      i64 (i64 (i64 ?a + PendingNamespaceBytes c ns (rev ?cs)) + ?d) \<le> qt_MaxVramBytes q"
    using assms by (simp add: Check_def quota_for_def namespaceUsage_eq Let_def demand_of_def own_gang_def
        split del: if_split) (auto split: if_splits)
  also have "i64 (i64 (i64 ?a + PendingNamespaceBytes c ns (rev ?cs)) + ?d) =
      i64 (charged ns ?g items c + ?d)"
    unfolding p i64_sum3 by (simp add: charged_def Let_def add.assoc)
  finally show ?thesis .
qed


section \<open>Properties\<close>

text \<open>
  C17. The quota verdict is exact: with the quota, the slices and the ledger read, a request is
  admitted exactly when what the API shows as held, plus what only the in-flight ledger holds, plus
  the demand stays within the namespace's quota (sums within \<open>int64\<close>).
\<close>

theorem quota_exact:
  assumes "quota_for ns qs = Some q"
    and "in_i64 (charged ns (own_gang gang gtot) items c + demand_of req gang gtot)"
  shows "Check ns req gang gtot (Some qs) (Some items) (Some c) = QuotaOk \<longleftrightarrow>
    charged ns (own_gang gang gtot) items c + demand_of req gang gtot \<le> qt_MaxVramBytes q"
  using Check_eq [OF assms(1), of req gang gtot items c] assms(2) by (simp add: i64_in)

definition quota100 :: vgpu_quota where
  "quota100 = \<lparr>qt_TargetNamespace = ''ns'', qt_MaxVramBytes = 100\<rparr>"

definition bound0 :: vgpu_slice where
  "bound0 = slice0\<lparr>sl_NodeName := ''n1'', sl_Phase := ''Scheduled'', sl_UID := ''b''\<rparr>"

lemma bound0_accounted: "accounted_uids [] [bound0] = [''b'']"
  by (simp add: accounted_uids_def accounted_def bound0_def)

lemma charged_one: "charged ''ns'' [] [bound0] one_hold = 70"
  using bound0_accounted
  by (simp add: charged_def api_charge_def of_gang_def bound0_def slice0_def
      sliceHeldBytes_def one_hold_def one_node_eq NewVRAMCache_def pending_at_def)

theorem quota_exact_witness:
  "Check ''ns'' 30 [] 0 (Some [quota100]) (Some [bound0]) (Some one_hold) = QuotaOk \<and>
   Check ''ns'' 31 [] 0 (Some [quota100]) (Some [bound0]) (Some one_hold) \<noteq> QuotaOk"
proof
  have q: "quota_for ''ns'' [quota100] = Some quota100" by (simp add: quota_for_def quota100_def)
  show "Check ''ns'' 30 [] 0 (Some [quota100]) (Some [bound0]) (Some one_hold) = QuotaOk"
    by (subst quota_exact [OF q]) (simp_all add: own_gang_def demand_of_def charged_one in_i64_def quota100_def)
  show "Check ''ns'' 31 [] 0 (Some [quota100]) (Some [bound0]) (Some one_hold) \<noteq> QuotaOk"
    by (subst quota_exact [OF q]) (simp_all add: own_gang_def demand_of_def charged_one in_i64_def quota100_def)
qed

definition without :: "string list \<Rightarrow> vram_cache \<Rightarrow> vram_cache" where
  "without us c = c\<lparr>assumedBySlice := filter (\<lambda>(u, a). u \<notin> set us) (assumedBySlice c),
     confirmedBySlice := filter (\<lambda>(u, a). u \<notin> set us) (confirmedBySlice c)\<rparr>"

lemma pending_without:
  "gsum (pending_at ns us) (filter (\<lambda>(u, a). u \<notin> set us) m) = gsum (pending_at ns us) m"
  unfolding gsum_filter by (rule gsum_cong) (simp add: pending_at_def)

text \<open>
  Nothing is counted twice: the verdict does not change when every ledger hold of a slice the
  API's list already accounts for (bound, terminal, or of the checked gang) is taken out of the
  ledger.
\<close>

theorem quota_no_double_count:
  "Check ns req gang gtot quotas (Some items) (Some c) =
   Check ns req gang gtot quotas (Some items)
     (Some (without (accounted_uids (own_gang gang gtot) (filter (\<lambda>s. sl_Namespace s = ns) items)) c))"
proof -
  let ?cs = "accounted_uids (own_gang gang gtot) (filter (\<lambda>s. sl_Namespace s = ns) items)"
  have e: "PendingNamespaceBytes d ns (rev ?cs) = PendingNamespaceBytes d ns ?cs" for d
    by (rule pending_at_cong) simp
  have "PendingNamespaceBytes (without ?cs c) ns (rev ?cs) = PendingNamespaceBytes c ns (rev ?cs)"
    unfolding e by (simp add: pending_eq without_def pending_without)
  then show ?thesis
    by (simp add: Check_alt namespaceUsage_eq cong: option.case_cong)
qed

text \<open>
  A gang is judged as a whole: the verdict for a member depends neither on the member's own
  request nor on how many of the gang's slices are already bound, allocated or held, so all members
  get the same all-or-none answer.
\<close>

theorem gang_quota_atomic:
  assumes "gang \<noteq> []" and "gtot > 0"
    and same: "\<And>s. \<not> of_gang gang s \<Longrightarrow> f s = s"
    and kept: "\<And>s. of_gang gang s \<Longrightarrow> of_gang gang (f s) \<and> sl_UID (f s) = sl_UID s \<and> sl_Namespace (f s) = sl_Namespace s"
  shows "Check ns req gang gtot quotas (Some (map f items)) cache = Check ns req' gang gtot quotas (Some items) cache"
proof -
  have g: "own_gang gang gtot = gang" using assms(1,2) by (simp add: own_gang_def)
  have nsf: "sl_Namespace (f s) = sl_Namespace s" for s by (cases "of_gang gang s") (simp_all add: same kept)
  have fil: "filter (\<lambda>s. sl_Namespace s = ns) (map f items) = map f (filter (\<lambda>s. sl_Namespace s = ns) items)"
    by (induction items) (simp_all add: nsf)
  have "api_charge gang (f s) = api_charge gang s" for s
    by (cases "of_gang gang s") (simp_all add: same kept api_charge_def)
  then have a: "map (api_charge gang) (map f ss) = map (api_charge gang) ss" for ss by simp
  have "accounted gang (f s) = accounted gang s \<and> sl_UID (f s) = sl_UID s" for s
    by (cases "of_gang gang s") (simp_all add: same kept accounted_def)
  then have u: "accounted_uids gang (map f ss) = accounted_uids gang ss" for ss
    by (induction ss) (simp_all add: accounted_uids_def)
  have "namespaceUsage ns gang (Some (map f items)) = namespaceUsage ns gang (Some items)"
    unfolding namespaceUsage_eq fil a u ..
  moreover have "demand_of req gang gtot = demand_of req' gang gtot" using assms(1,2) by (simp add: demand_of_def)
  ultimately show ?thesis by (simp only: Check_alt g cong: if_cong)
qed

definition member0 :: "string \<Rightarrow> vgpu_slice" where
  "member0 u = slice0\<lparr>sl_UID := u, sl_Annotations := [(AnnotationGangRef, ''g'')]\<rparr>"

theorem gang_quota_atomic_witness:
  "Check ''ns'' 10 ''g'' 20 (Some [quota100]) (Some (map (\<lambda>s. if of_gang ''g'' s then s\<lparr>sl_NodeName := ''n1''\<rparr> else s)
       [member0 ''a'', bound0])) None
   = Check ''ns'' 99 ''g'' 20 (Some [quota100]) (Some [member0 ''a'', bound0]) None"
  by (rule gang_quota_atomic) (simp_all add: of_gang_def annotation_def)

text \<open>
  The check fails open: a namespace without a quota, and a failed read of the quotas or of the
  slices, admit every request.
\<close>

theorem quota_fails_open:
  "Check ns req gang gtot None slices cache = QuotaOk \<and>
   Check ns req gang gtot quotas None cache = QuotaOk \<and>
   (quota_for ns qs = None \<longrightarrow> Check ns req gang gtot (Some qs) slices cache = QuotaOk)"
  by (simp add: Check_def quota_for_def namespaceUsage_def Let_def split: option.splits)

theorem quota_fails_open_witness: "Check ''other'' 1000 [] 0 (Some [quota100]) (Some []) None = QuotaOk"
  using quota_fails_open [of "''other''" 1000 "[]" 0 _ None _ "[quota100]"]
  by (simp add: quota_for_def quota100_def Check_def)

end
