(* ===== verification/GangGate.thy ===== *)
theory GangGate
  imports GoText ApiTypes
begin

text \<open>
  \<open>internal/scheduler/gang.go\<close>: the gang binding gate, one admission slot shared by all gangs. The gate
  is the record \<open>gang_gate\<close>; \<open>CheckSliceWithCohort\<close> is composed of its stages in the code's order:
  the reservation read, the reaping of stale cohorts, the incarnation check, the released fast
  path, freeing a stalled slot, picking the head, and the registration of the member. A cohort is a
  pointer in Go: every change is written back to the cohort map. The reservation read is an
  argument, and the two clock reads are \<open>t0\<close> (reaping) and \<open>now\<close>.
\<close>

section \<open>State\<close>

datatype gang_check_result =
    GangNotApplicable | GangBindAllowed | GangBindDeferred | GangBindRejected | GangBindWait | GangRetry

record gang_member =
  gm_sliceUID :: string
  gm_nodeName :: string
  gm_bytes :: int
  gm_heldAt :: int

record gang_cohort =
  co_gangSize :: int
  co_priority :: int
  co_members :: "(string, gang_member) gomap"
  co_released :: bool
  co_createdAt :: int
  co_rsvUID :: string

record gang_gate =
  cohorts :: "(string, gang_cohort) gomap"
  admitting :: string
  admittingSince :: int
  backoff :: "(string, int) gomap"

text \<open>The reason strings, one constructor per format string.\<close>

datatype gate_reason =
    NoAnnotations
  | NoReservationAnnotation
  | ReservationNotVisible string
  | ReservationReadError
  | TerminalPhase string string
  | InvalidGangSize int
  | CohortReleased string
  | WaitingNoneEligible string
  | WaitingFor string string
  | QuorumReached string int int
  | HoldingMembers string int int

definition NewGangBindingGate :: gang_gate where
  "NewGangBindingGate = \<lparr>cohorts = [], admitting = [], admittingSince = 0, backoff = []\<rparr>"

definition gateMaxHoldAge :: int where "gateMaxHoldAge = 90 * 10 ^ 9"
definition gangAdmissionTimeout :: int where "gangAdmissionTimeout = 20 * 10 ^ 9"
definition gangAdmissionBackoff :: int where "gangAdmissionBackoff = 15 * 10 ^ 9"

definition ReservationPhaseFailed :: string where "ReservationPhaseFailed = ''Failed''"
definition ReservationPhaseReleased :: string where "ReservationPhaseReleased = ''Released''"

section \<open>The stages of a check\<close>

definition forgetCohort :: "string \<Rightarrow> gang_gate \<Rightarrow> gang_gate" where
  "forgetCohort key g =
    g\<lparr>cohorts := gdel key (cohorts g), backoff := gdel key (backoff g),
      admitting := (if admitting g = key then [] else admitting g)\<rparr>"

fun reap_cohorts :: "int \<Rightarrow> (string \<times> gang_cohort) list \<Rightarrow> gang_gate \<Rightarrow> gang_gate" where
  "reap_cohorts now [] g = g"
| "reap_cohorts now ((key, co) # rest) g =
    reap_cohorts now rest
      (if co_released co then g
       else if now - co_createdAt co > gateMaxHoldAge
       then g\<lparr>cohorts := gdel key (cohorts g), backoff := gdel key (backoff g),
              admitting := (if admitting g = key then [] else admitting g)\<rparr>
       else g)"

definition reapStaleCohortsLocked :: "int \<Rightarrow> gang_gate \<Rightarrow> gang_gate" where
  "reapStaleCohortsLocked now g = reap_cohorts now (cohorts g) g"

definition releaseHoldsLocked :: "string \<Rightarrow> gang_gate \<Rightarrow> gang_gate" where
  "releaseHoldsLocked key g =
    (case map_of (cohorts g) key of
       None \<Rightarrow> g
     | Some co \<Rightarrow> if \<not> co_released co then g\<lparr>cohorts := gput key (co\<lparr>co_members := []\<rparr>) (cohorts g)\<rparr> else g)"

definition admissionLess :: "gang_cohort \<Rightarrow> string \<Rightarrow> gang_cohort \<Rightarrow> string \<Rightarrow> bool" where
  "admissionLess a aKey b bKey =
    (if co_priority a \<noteq> co_priority b then co_priority a > co_priority b
     else if co_createdAt a \<noteq> co_createdAt b then co_createdAt a < co_createdAt b
     else aKey < bKey)"

text \<open>
  The range loop of \<open>pickAdmissionHeadLocked\<close>: the best key and cohort so far, and the backoff map,
  from which elapsed entries are deleted on the way.
\<close>

fun pick_loop :: "int \<Rightarrow> string \<Rightarrow> (string \<times> gang_cohort) list \<Rightarrow> (string \<times> gang_cohort) option
    \<Rightarrow> (string, int) gomap \<Rightarrow> (string \<times> gang_cohort) option \<times> (string, int) gomap" where
  "pick_loop now callerKey [] best bo = (best, bo)"
| "pick_loop now callerKey ((key, co) # rest) best bo =
    (if co_released co then pick_loop now callerKey rest best bo
     else if key \<noteq> callerKey \<and> co_members co = [] then pick_loop now callerKey rest best bo
     else if (case map_of bo key of None \<Rightarrow> False | Some until \<Rightarrow> now < until)
     then pick_loop now callerKey rest best bo
     else
       (let bo' = gdel key bo;
            better = (case best of None \<Rightarrow> True | Some (bk, bc) \<Rightarrow> admissionLess co key bc bk)
        in pick_loop now callerKey rest (if better then Some (key, co) else best) bo'))"

definition pickAdmissionHeadLocked :: "int \<Rightarrow> string \<Rightarrow> gang_gate \<Rightarrow> string \<times> gang_gate" where
  "pickAdmissionHeadLocked now callerKey g =
    (let (best, bo) = pick_loop now callerKey (cohorts g) None (backoff g)
     in (case best of None \<Rightarrow> [] | Some (k, co) \<Rightarrow> k, g\<lparr>backoff := bo\<rparr>))"

text \<open>The cohort of this check: an older incarnation is purged, a missing one created.\<close>

definition find_cohort :: "int \<Rightarrow> string \<Rightarrow> int \<Rightarrow> vgpu_gang_reservation \<Rightarrow> gang_gate \<Rightarrow> gang_gate" where
  "find_cohort now key priority rsv g =
    (let stale = (case map_of (cohorts g) key of None \<Rightarrow> False | Some co \<Rightarrow> co_rsvUID co \<noteq> rv_UID rsv);
         g1 = (if stale then g\<lparr>cohorts := gdel key (cohorts g), backoff := gdel key (backoff g),
                   admitting := (if admitting g = key then [] else admitting g)\<rparr> else g)
     in case map_of (cohorts g1) key of
          None \<Rightarrow> g1\<lparr>cohorts := gput key \<lparr>co_gangSize = rv_GangSize rsv, co_priority = priority, co_members = [],
                       co_released = False, co_createdAt = now, co_rsvUID = rv_UID rsv\<rparr> (cohorts g1)\<rparr>
        | Some co \<Rightarrow> g1\<lparr>cohorts := gput key (co\<lparr>co_priority := priority\<rparr>) (cohorts g1)\<rparr>)"

definition free_stalled_slot :: "int \<Rightarrow> gang_gate \<Rightarrow> gang_gate" where
  "free_stalled_slot now g =
    (if admitting g \<noteq> [] \<and> now - admittingSince g > gangAdmissionTimeout then
       (let h = admitting g in
        case map_of (cohorts g) h of
          Some holder \<Rightarrow>
            if co_members holder = []
            then g\<lparr>cohorts := gdel h (cohorts g), backoff := gdel h (backoff g), admitting := []\<rparr>
            else (releaseHoldsLocked h
                   (g\<lparr>backoff := gput h (now + gangAdmissionBackoff) (backoff g),
                      cohorts := gput h (holder\<lparr>co_createdAt := now\<rparr>) (cohorts g)\<rparr>))\<lparr>admitting := []\<rparr>
        | None \<Rightarrow>
            (releaseHoldsLocked h (g\<lparr>backoff := gput h (now + gangAdmissionBackoff) (backoff g)\<rparr>))
              \<lparr>admitting := []\<rparr>)
     else g)"

definition claim_slot :: "int \<Rightarrow> string \<Rightarrow> gang_gate \<Rightarrow> gang_gate" where
  "claim_slot now key g =
    (if admitting g = [] then
       (let (head, g1) = pickAdmissionHeadLocked now key g
        in if head \<noteq> [] then g1\<lparr>admitting := head, admittingSince := now\<rparr> else g1)
     else g)"

text \<open>Change the caller's cohort through its pointer, if the map still has it.\<close>

definition upd_cohort :: "string \<Rightarrow> (gang_cohort \<Rightarrow> gang_cohort) \<Rightarrow> gang_gate \<Rightarrow> gang_gate" where
  "upd_cohort key f g =
    (case map_of (cohorts g) key of
       None \<Rightarrow> g
     | Some co \<Rightarrow> g\<lparr>cohorts := gput key (f co) (cohorts g)\<rparr>)"

definition members_of :: "string \<Rightarrow> gang_gate \<Rightarrow> (string, gang_member) gomap" where
  "members_of key g = (case map_of (cohorts g) key of None \<Rightarrow> [] | Some co \<Rightarrow> co_members co)"

definition drop_member :: "string \<Rightarrow> string \<Rightarrow> gang_gate \<Rightarrow> gang_gate" where
  "drop_member key uid g = upd_cohort key (\<lambda>co. co\<lparr>co_members := gdel uid (co_members co)\<rparr>) g"

definition add_member :: "string \<Rightarrow> gang_member \<Rightarrow> gang_gate \<Rightarrow> gang_gate" where
  "add_member key m g = upd_cohort key (\<lambda>co. co\<lparr>co_members := gput (gm_sliceUID m) m (co_members co)\<rparr>) g"

definition register_member ::
  "int \<Rightarrow> string \<Rightarrow> string \<Rightarrow> vgpu_slice \<Rightarrow> string \<Rightarrow> int \<Rightarrow> int \<Rightarrow> gang_gate
   \<Rightarrow> (gang_check_result \<times> gate_reason) \<times> gang_gate" where
  "register_member now key rsvName slice nodeName bytes gangSize g =
    (let g1 = add_member key \<lparr>gm_sliceUID = sl_UID slice, gm_nodeName = nodeName, gm_bytes = bytes,
                 gm_heldAt = now\<rparr> g;
         n = int (length (members_of key g1))
     in if i32 n \<ge> gangSize
        then ((GangBindAllowed, QuorumReached rsvName n gangSize),
              (upd_cohort key (\<lambda>co. co\<lparr>co_released := True\<rparr>) g1)\<lparr>admitting := [], backoff := gdel key (backoff g1)\<rparr>)
        else ((GangBindDeferred, HoldingMembers rsvName n gangSize), g1))"

text \<open>From the taking of the lock on.\<close>

definition check_locked ::
  "int \<Rightarrow> int \<Rightarrow> string \<Rightarrow> int \<Rightarrow> string \<Rightarrow> vgpu_slice \<Rightarrow> string \<Rightarrow> int \<Rightarrow> vgpu_gang_reservation \<Rightarrow> gang_gate
   \<Rightarrow> (gang_check_result \<times> gate_reason) \<times> gang_gate" where
  "check_locked t0 now key priority rsvName slice nodeName bytes rsv g =
    (let g1 = find_cohort now key priority rsv (reapStaleCohortsLocked t0 g)
     in if (case map_of (cohorts g1) key of None \<Rightarrow> False | Some co \<Rightarrow> co_released co)
        then ((GangBindAllowed, CohortReleased rsvName), g1)
        else
          (let g2 = claim_slot now key (free_stalled_slot now g1)
           in if admitting g2 \<noteq> key
              then ((GangBindWait,
                     if admitting g2 \<noteq> [] then WaitingFor rsvName (admitting g2) else WaitingNoneEligible rsvName),
                    drop_member key (sl_UID slice) g2)
              else register_member now key rsvName slice nodeName bytes (rv_GangSize rsv) g2))"

definition cohort_key :: "vgpu_slice \<Rightarrow> string \<Rightarrow> string" where
  "cohort_key slice rsvName = sl_Namespace slice @ ''/'' @ rsvName"

definition gang_priority :: "vgpu_slice \<Rightarrow> int" where
  "gang_priority slice =
    (let ps = gget [] (sl_Annotations slice) AnnotationGangPriority
     in if ps \<noteq> [] then (case ParseInt64 ps of None \<Rightarrow> 0 | Some p \<Rightarrow> i32 p) else 0)"

text \<open>The API error of the third result component is \<open>True\<close> in the triple's flag.\<close>

definition CheckSliceWithCohort ::
  "int \<Rightarrow> int \<Rightarrow> vgpu_gang_reservation api_read \<Rightarrow> vgpu_slice option \<Rightarrow> string \<Rightarrow> int \<Rightarrow> gang_gate
   \<Rightarrow> (gang_check_result \<times> gate_reason \<times> bool) \<times> gang_gate" where
  "CheckSliceWithCohort t0 now rsvRead sliceOpt nodeName bytes g =
    (case sliceOpt of
       None \<Rightarrow> ((GangNotApplicable, NoAnnotations, False), g)
     | Some slice \<Rightarrow>
         if sl_Annotations slice = [] then ((GangNotApplicable, NoAnnotations, False), g)
         else
           (let rsvName = gget [] (sl_Annotations slice) AnnotationReservationRef in
            if rsvName = [] then ((GangNotApplicable, NoReservationAnnotation, False), g)
            else case rsvRead of
              NotFound \<Rightarrow> ((GangRetry, ReservationNotVisible rsvName, False), g)
            | ReadErr \<Rightarrow> ((GangRetry, ReservationReadError, True), g)
            | Found rsv \<Rightarrow>
                if rv_Phase rsv = ReservationPhaseFailed \<or> rv_Phase rsv = ReservationPhaseReleased
                then ((GangBindRejected, TerminalPhase rsvName (rv_Phase rsv), False),
                      forgetCohort (cohort_key slice rsvName) g)
                else if rv_GangSize rsv \<le> 0
                then ((GangNotApplicable, InvalidGangSize (rv_GangSize rsv), False), g)
                else
                  (let ((res, reason), g') = check_locked t0 now (cohort_key slice rsvName)
                         (gang_priority slice) rsvName slice nodeName bytes rsv g
                   in ((res, reason, False), g'))))"

definition CheckSlice ::
  "int \<Rightarrow> int \<Rightarrow> vgpu_gang_reservation api_read \<Rightarrow> vgpu_slice option \<Rightarrow> gang_gate
   \<Rightarrow> (gang_check_result \<times> gate_reason \<times> bool) \<times> gang_gate" where
  "CheckSlice t0 now rsvRead slice g = CheckSliceWithCohort t0 now rsvRead slice [] 0 g"

end
