(* ===== verification/GangProps.thy ===== *)
theory GangProps
  imports GangGate
begin

text \<open>
  The gang gate's invariant and its properties. \<open>gate_ok\<close>: only the cohort that holds the admission
  slot may have members before its quorum, and the holder always has one. Every check keeps it, so
  it holds in every reachable gate.
\<close>

section \<open>The invariant\<close>

definition cohort_ok :: "string \<Rightarrow> string \<Rightarrow> gang_cohort \<Rightarrow> bool" where
  "cohort_ok holder key co \<longleftrightarrow>
     gmap_ok (co_members co) \<and> key \<noteq> [] \<and> (\<not> co_released co \<and> key \<noteq> holder \<longrightarrow> co_members co = [])"

definition gate_core :: "gang_gate \<Rightarrow> bool" where
  "gate_core g \<longleftrightarrow> gmap_ok (cohorts g) \<and> gmap_ok (backoff g) \<and>
     (\<forall>key co. map_of (cohorts g) key = Some co \<longrightarrow> cohort_ok (admitting g) key co)"

definition holder_ok :: "gang_gate \<Rightarrow> bool" where
  "holder_ok g \<longleftrightarrow> admitting g = [] \<or>
     (\<exists>co. map_of (cohorts g) (admitting g) = Some co \<and> \<not> co_released co \<and> co_members co \<noteq> [])"

definition gate_ok :: "gang_gate \<Rightarrow> bool" where
  "gate_ok g \<longleftrightarrow> gate_core g \<and> holder_ok g"

text \<open>Released cohorts had a full gang, where \<open>S\<close> gives each reservation object's gang size.\<close>

definition sizes_ok :: "(string \<Rightarrow> int) \<Rightarrow> gang_gate \<Rightarrow> bool" where
  "sizes_ok S g \<longleftrightarrow> (\<forall>key co. map_of (cohorts g) key = Some co \<and> co_released co \<longrightarrow>
     S (co_rsvUID co) \<le> int (length (co_members co)))"

lemma gate_ok_New: "gate_ok NewGangBindingGate"
  by (simp add: gate_ok_def gate_core_def holder_ok_def NewGangBindingGate_def)

lemma sizes_ok_New: "sizes_ok S NewGangBindingGate"
  by (simp add: sizes_ok_def NewGangBindingGate_def)

section \<open>Each stage\<close>

lemma gate_ok_forget: "gate_ok g \<Longrightarrow> gate_ok (forgetCohort key g)"
  by (auto simp: gate_ok_def gate_core_def holder_ok_def forgetCohort_def cohort_ok_def split: if_splits)

lemma sizes_ok_forget: "sizes_ok S g \<Longrightarrow> sizes_ok S (forgetCohort key g)"
  by (auto simp: sizes_ok_def forgetCohort_def)

lemma reap_cohorts_alt:
  "reap_cohorts now ((key, co) # rest) g = reap_cohorts now rest
     (if \<not> co_released co \<and> now - co_createdAt co > gateMaxHoldAge then forgetCohort key g else g)"
  by (simp add: forgetCohort_def)

declare reap_cohorts.simps(2) [simp del]

lemma gate_ok_reap_loop: "gate_ok g \<Longrightarrow> gate_ok (reap_cohorts now m g)"
  by (induction m arbitrary: g) (auto simp: reap_cohorts_alt gate_ok_forget)

lemma sizes_ok_reap_loop: "sizes_ok S g \<Longrightarrow> sizes_ok S (reap_cohorts now m g)"
  by (induction m arbitrary: g) (auto simp: reap_cohorts_alt sizes_ok_forget)

definition stale_in :: "string \<Rightarrow> vgpu_gang_reservation \<Rightarrow> gang_gate \<Rightarrow> bool" where
  "stale_in key rsv g \<longleftrightarrow> (\<exists>co. map_of (cohorts g) key = Some co \<and> co_rsvUID co \<noteq> rv_UID rsv)"

lemma find_cohort_alt:
  "find_cohort now key priority rsv g =
    (let g1 = (if stale_in key rsv g then forgetCohort key g else g)
     in case map_of (cohorts g1) key of
          None \<Rightarrow> g1\<lparr>cohorts := gput key \<lparr>co_gangSize = rv_GangSize rsv, co_priority = priority, co_members = [],
                       co_released = False, co_createdAt = now, co_rsvUID = rv_UID rsv\<rparr> (cohorts g1)\<rparr>
        | Some co \<Rightarrow> g1\<lparr>cohorts := gput key (co\<lparr>co_priority := priority\<rparr>) (cohorts g1)\<rparr>)"
  by (simp add: find_cohort_def stale_in_def forgetCohort_def Let_def split: option.splits)

lemma gate_ok_find:
  assumes "gate_ok g" and "key \<noteq> []"
  shows "gate_ok (find_cohort now key priority rsv g)"
proof -
  let ?g1 = "if stale_in key rsv g then forgetCohort key g else g"
  have ok: "gate_ok ?g1" using assms(1) by (simp add: gate_ok_forget)
  have "gate_ok (case map_of (cohorts h) key of
          None \<Rightarrow> h\<lparr>cohorts := gput key \<lparr>co_gangSize = rv_GangSize rsv, co_priority = priority, co_members = [],
                       co_released = False, co_createdAt = now, co_rsvUID = rv_UID rsv\<rparr> (cohorts h)\<rparr>
        | Some co \<Rightarrow> h\<lparr>cohorts := gput key (co\<lparr>co_priority := priority\<rparr>) (cohorts h)\<rparr>)"
    if "gate_ok h" for h
    using that assms(2)
    by (auto simp: gate_ok_def gate_core_def holder_ok_def cohort_ok_def split: option.splits)
  from this [OF ok] show ?thesis by (simp only: find_cohort_alt Let_def)
qed

lemma find_cohort_has:
  "\<exists>co. map_of (cohorts (find_cohort now key priority rsv g)) key = Some co \<and> co_rsvUID co = rv_UID rsv \<and>
     co_priority co = priority \<and>
     (co_released co \<longrightarrow> (\<exists>co0. map_of (cohorts g) key = Some co0 \<and> co_released co0 \<and> co_rsvUID co0 = rv_UID rsv
        \<and> co_members co = co_members co0))"
proof (cases "stale_in key rsv g")
  case True
  then show ?thesis by (simp add: find_cohort_alt forgetCohort_def)
next
  case False
  then show ?thesis
    by (cases "map_of (cohorts g) key") (auto simp: find_cohort_alt stale_in_def)
qed

lemma sizes_ok_find: "sizes_ok S g \<Longrightarrow> sizes_ok S (find_cohort now key priority rsv g)"
proof -
  assume s: "sizes_ok S g"
  let ?g1 = "if stale_in key rsv g then forgetCohort key g else g"
  have ok: "sizes_ok S ?g1" using s by (simp add: sizes_ok_forget)
  have "sizes_ok S (case map_of (cohorts h) key of
          None \<Rightarrow> h\<lparr>cohorts := gput key \<lparr>co_gangSize = rv_GangSize rsv, co_priority = priority, co_members = [],
                       co_released = False, co_createdAt = now, co_rsvUID = rv_UID rsv\<rparr> (cohorts h)\<rparr>
        | Some co \<Rightarrow> h\<lparr>cohorts := gput key (co\<lparr>co_priority := priority\<rparr>) (cohorts h)\<rparr>)"
    if "sizes_ok S h" for h
    using that by (auto simp: sizes_ok_def split: option.splits)
  from this [OF ok] show ?thesis by (simp only: find_cohort_alt Let_def)
qed

text \<open>With the invariant, a stalled holder always has members: the code's ghost branch cannot run.\<close>

definition yield_slot :: "int \<Rightarrow> gang_gate \<Rightarrow> gang_gate" where
  "yield_slot now g =
    (case map_of (cohorts g) (admitting g) of
       None \<Rightarrow> g
     | Some co \<Rightarrow> g\<lparr>cohorts := gput (admitting g) (co\<lparr>co_createdAt := now, co_members := []\<rparr>) (cohorts g),
                    backoff := gput (admitting g) (now + gangAdmissionBackoff) (backoff g), admitting := []\<rparr>)"

lemma AList_update_twice: "gput k v (gput k u m) = gput k v m"
  by (induction m) (auto simp: gput_def)

lemma free_stalled_alt:
  assumes "gate_ok g"
  shows "free_stalled_slot now g =
    (if admitting g \<noteq> [] \<and> now - admittingSince g > gangAdmissionTimeout then yield_slot now g else g)"
proof (cases "admitting g = []")
  case True
  then show ?thesis by (simp add: free_stalled_slot_def)
next
  case False
  with assms obtain co where co: "map_of (cohorts g) (admitting g) = Some co" "\<not> co_released co" "co_members co \<noteq> []"
    by (auto simp: gate_ok_def holder_ok_def)
  then show ?thesis
    by (simp add: free_stalled_slot_def yield_slot_def releaseHoldsLocked_def Let_def AList_update_twice)
qed

lemma gate_ok_free: "gate_ok g \<Longrightarrow> gate_ok (free_stalled_slot now g)"
  by (auto simp: free_stalled_alt yield_slot_def gate_ok_def gate_core_def holder_ok_def cohort_ok_def
      split: option.splits)

lemma sizes_ok_free:
  assumes "sizes_ok S g" and "gate_ok g"
  shows "sizes_ok S (free_stalled_slot now g)"
proof -
  have "\<not> co_released co" if "admitting g \<noteq> []" "map_of (cohorts g) (admitting g) = Some co" for co
    using assms(2) that by (auto simp: gate_ok_def holder_ok_def)
  with assms show ?thesis
    by (auto simp: free_stalled_alt yield_slot_def sizes_ok_def split: option.splits)
qed

lemma free_keeps:
  assumes "gate_ok g" and "map_of (cohorts g) key = Some co"
  shows "\<exists>co'. map_of (cohorts (free_stalled_slot now g)) key = Some co' \<and> co_released co' = co_released co \<and>
     co_priority co' = co_priority co \<and> co_rsvUID co' = co_rsvUID co"
  using assms by (auto simp: free_stalled_alt yield_slot_def split: option.splits)


section \<open>Picking the head\<close>

definition backed_off :: "int \<Rightarrow> (string, int) gomap \<Rightarrow> string \<Rightarrow> bool" where
  "backed_off now bo key \<longleftrightarrow> (case map_of bo key of None \<Rightarrow> False | Some until \<Rightarrow> now < until)"

text \<open>With the slot free no other cohort has members, so the loop can only pick the caller's cohort.\<close>

lemma pick_loop_caller:
  assumes "gmap_ok m" and "\<And>k co. (k, co) \<in> set m \<Longrightarrow> k \<noteq> key \<Longrightarrow> \<not> co_released co \<Longrightarrow> co_members co = []"
  shows "fst (pick_loop now key m best bo) =
    (case map_of m key of
       Some co \<Rightarrow> (if co_released co \<or> backed_off now bo key then best
                  else if (case best of None \<Rightarrow> True | Some (bk, bc) \<Rightarrow> admissionLess co key bc bk)
                  then Some (key, co) else best)
     | None \<Rightarrow> best)"
  using assms
proof (induction m arbitrary: best bo)
  case Nil
  then show ?case by simp
next
  case (Cons e m)
  obtain k co where e: "e = (k, co)" by (cases e)
  from Cons.prems(1) have ok: "gmap_ok m" and fresh: "map_of m k = None"
    by (auto simp: gmap_ok_def e map_of_eq_None_iff)
  have IH: "fst (pick_loop now key m best' bo') = (case map_of m key of
       Some co \<Rightarrow> (if co_released co \<or> backed_off now bo' key then best'
                  else if (case best' of None \<Rightarrow> True | Some (bk, bc) \<Rightarrow> admissionLess co key bc bk)
                  then Some (key, co) else best')
     | None \<Rightarrow> best')" for best' bo'
    using Cons.prems(2) by (intro Cons.IH ok) auto
  show ?case
  proof (cases "k = key")
    case True
    with fresh show ?thesis by (simp add: e IH backed_off_def Let_def)
  next
    case False
    with Cons.prems(2) [of k co] have "co_released co \<or> co_members co = []" by (auto simp: e)
    with False show ?thesis by (auto simp: e IH)
  qed
qed

lemma pick_loop_backoff:
  "gmap_ok bo \<Longrightarrow> gmap_ok (snd (pick_loop now key m best bo))"
  by (induction m arbitrary: best bo) (auto simp: Let_def)

lemma claim_slot_alt:
  "claim_slot now key g =
    (if admitting g = [] then
       (case fst (pick_loop now key (cohorts g) None (backoff g)) of
          None \<Rightarrow> g\<lparr>backoff := snd (pick_loop now key (cohorts g) None (backoff g))\<rparr>
        | Some (k, co) \<Rightarrow>
            if k \<noteq> [] then g\<lparr>backoff := snd (pick_loop now key (cohorts g) None (backoff g)), admitting := k,
                                admittingSince := now\<rparr>
            else g\<lparr>backoff := snd (pick_loop now key (cohorts g) None (backoff g))\<rparr>)
     else g)"
  by (simp add: claim_slot_def pickAdmissionHeadLocked_def Let_def case_prod_beta split: option.split)

lemma claim_slot_sel [simp]: "cohorts (claim_slot now key g) = cohorts g"
  by (simp add: claim_slot_alt split: option.split)

lemma claim_slot_taken: "admitting g \<noteq> [] \<Longrightarrow> claim_slot now key g = g"
  by (simp add: claim_slot_def)

lemma claim_slot_free:
  assumes "gate_core g" and free: "admitting g = []" and co: "map_of (cohorts g) key = Some co"
    and "\<not> co_released co"
  shows "admitting (claim_slot now key g) = (if backed_off now (backoff g) key then [] else key)"
    and "\<not> backed_off now (backoff g) key \<Longrightarrow> admittingSince (claim_slot now key g) = now"
proof -
  have maps: "gmap_ok (cohorts g)" using assms(1) by (simp add: gate_core_def)
  have key: "key \<noteq> []" using assms(1) co by (auto simp: gate_core_def cohort_ok_def)
  have "co_members d = []" if "(k, d) \<in> set (cohorts g)" "k \<noteq> key" "\<not> co_released d" for k d
  proof -
    have "map_of (cohorts g) k = Some d" using maps that(1) by (simp only: map_of_SomeD_ok)
    with assms(1) have "cohort_ok (admitting g) k d" unfolding gate_core_def by blast
    with that free show ?thesis by (simp add: cohort_ok_def)
  qed
  note p = pick_loop_caller [OF maps this, where now = now and best = None and bo = "backoff g"]
  then have "fst (pick_loop now key (cohorts g) None (backoff g)) =
      (if backed_off now (backoff g) key then None else Some (key, co))"
    using co assms(4) by simp
  then show "admitting (claim_slot now key g) = (if backed_off now (backoff g) key then [] else key)"
    and "\<not> backed_off now (backoff g) key \<Longrightarrow> admittingSince (claim_slot now key g) = now"
    using free key by (simp_all add: claim_slot_alt)
qed

lemma gate_core_claim:
  assumes "gate_core g" and "map_of (cohorts g) key = Some co" and "\<not> co_released co"
  shows "gate_core (claim_slot now key g)"
proof (cases "admitting g = []")
  case False
  with assms show ?thesis by (simp add: claim_slot_taken)
next
  case True
  have "gmap_ok (backoff (claim_slot now key g))"
    using assms(1) True pick_loop_backoff [of "backoff g" now key "cohorts g" None]
    by (simp add: claim_slot_alt gate_core_def split: option.split)
  moreover have "cohort_ok h k d" if "map_of (cohorts g) k = Some d" for h k d
  proof -
    have "cohort_ok (admitting g) k d" using assms(1) that unfolding gate_core_def by blast
    with True show ?thesis by (auto simp: cohort_ok_def)
  qed
  ultimately show ?thesis using assms(1) by (simp add: gate_core_def)
qed

section \<open>The whole check\<close>

lemma upd_cohort_Some: "map_of (cohorts g) key = Some co \<Longrightarrow> upd_cohort key f g = g\<lparr>cohorts := gput key (f co) (cohorts g)\<rparr>"
  by (simp add: upd_cohort_def)

lemma i32_le: "0 \<le> x \<Longrightarrow> i32 x \<le> x"
proof -
  assume "0 \<le> x"
  then have "(x + 2 ^ 31) mod 2 ^ 32 \<le> x + 2 ^ 31" by (intro zmod_le_nonneg_dividend) simp
  then show ?thesis by (simp add: i32_def)
qed

text \<open>The state in which the slot decision is made, and what is known of it.\<close>

definition decide_state :: "int \<Rightarrow> int \<Rightarrow> string \<Rightarrow> int \<Rightarrow> vgpu_gang_reservation \<Rightarrow> gang_gate \<Rightarrow> gang_gate" where
  "decide_state t0 now key priority rsv g =
     claim_slot now key (free_stalled_slot now (find_cohort now key priority rsv (reapStaleCohortsLocked t0 g)))"

definition entry_state :: "int \<Rightarrow> int \<Rightarrow> string \<Rightarrow> int \<Rightarrow> vgpu_gang_reservation \<Rightarrow> gang_gate \<Rightarrow> gang_gate" where
  "entry_state t0 now key priority rsv g = find_cohort now key priority rsv (reapStaleCohortsLocked t0 g)"

lemma gate_ok_entry: "gate_ok g \<Longrightarrow> key \<noteq> [] \<Longrightarrow> gate_ok (entry_state t0 now key priority rsv g)"
  by (simp add: entry_state_def reapStaleCohortsLocked_def gate_ok_find gate_ok_reap_loop)

lemma sizes_ok_entry: "sizes_ok S g \<Longrightarrow> sizes_ok S (entry_state t0 now key priority rsv g)"
  by (simp add: entry_state_def reapStaleCohortsLocked_def sizes_ok_find sizes_ok_reap_loop)

lemma check_locked_alt:
  "check_locked t0 now key priority rsvName slice nodeName bytes rsv g =
    (let g1 = entry_state t0 now key priority rsv g; g2 = claim_slot now key (free_stalled_slot now g1)
     in if (case map_of (cohorts g1) key of None \<Rightarrow> False | Some co \<Rightarrow> co_released co)
        then ((GangBindAllowed, CohortReleased rsvName), g1)
        else if admitting g2 \<noteq> key
              then ((GangBindWait,
                     if admitting g2 \<noteq> [] then WaitingFor rsvName (admitting g2) else WaitingNoneEligible rsvName),
                    drop_member key (sl_UID slice) g2)
              else register_member now key rsvName slice nodeName bytes (rv_GangSize rsv) g2)"
  by (simp add: check_locked_def entry_state_def Let_def)

lemma entry_cohort:
  obtains co where "map_of (cohorts (entry_state t0 now key priority rsv g)) key = Some co"
    and "co_rsvUID co = rv_UID rsv"
  using find_cohort_has [of now key priority rsv "reapStaleCohortsLocked t0 g"]
  by (auto simp: entry_state_def)

lemma gdel_Nil [simp]: "gdel k [] = []"
  by (simp add: gdel_def)

lemma gate_ok_wait:
  assumes core: "gate_core g" and hold: "admitting g = [] \<or> holder_ok g"
    and co: "map_of (cohorts g) key = Some co" "\<not> co_released co" and "admitting g \<noteq> key"
  shows "gate_ok (drop_member key uid g)"
  using assms
  by (auto simp: drop_member_def upd_cohort_Some gate_ok_def gate_core_def holder_ok_def cohort_ok_def)

lemma members_of_add:
  "map_of (cohorts g) key = Some co \<Longrightarrow>
     members_of key (add_member key m g) = gput (gm_sliceUID m) m (co_members co)"
  by (simp add: members_of_def add_member_def upd_cohort_Some)

lemma gput_not_Nil: "gput k v m \<noteq> []"
  by (cases m) (auto simp: gput_def)

lemma gate_ok_register:
  assumes core: "gate_core g" and co: "map_of (cohorts g) key = Some co" "\<not> co_released co"
    and adm: "admitting g = key"
  shows "gate_ok (snd (register_member now key rsvName slice nodeName bytes sz g))"
  using assms
  by (auto simp: register_member_def Let_def add_member_def upd_cohort_Some gate_ok_def gate_core_def
      holder_ok_def cohort_ok_def gput_not_Nil)


lemma decide_facts:
  assumes ok: "gate_ok g" and key: "key \<noteq> []"
    and co1: "map_of (cohorts (entry_state t0 now key priority rsv g)) key = Some co1" "\<not> co_released co1"
  obtains co where "map_of (cohorts (decide_state t0 now key priority rsv g)) key = Some co"
    and "\<not> co_released co" and "co_rsvUID co = co_rsvUID co1"
    and "gate_core (decide_state t0 now key priority rsv g)"
    and "admitting (decide_state t0 now key priority rsv g) \<noteq> key \<longrightarrow>
         gate_ok (drop_member key uid (decide_state t0 now key priority rsv g))"
proof -
  let ?g1 = "entry_state t0 now key priority rsv g"
  let ?f = "free_stalled_slot now ?g1" and ?g2 = "decide_state t0 now key priority rsv g"
  have ok1: "gate_ok ?g1" by (rule gate_ok_entry [OF ok key])
  have okf: "gate_ok ?f" by (rule gate_ok_free [OF ok1])
  then have coref: "gate_core ?f" and holdf: "holder_ok ?f" by (simp_all add: gate_ok_def)
  obtain co where co: "map_of (cohorts ?f) key = Some co" "\<not> co_released co" "co_rsvUID co = co_rsvUID co1"
    using free_keeps [OF ok1 co1(1), of now] co1(2) by auto
  have g2: "?g2 = claim_slot now key ?f" by (simp add: decide_state_def entry_state_def)
  have core2: "gate_core ?g2" unfolding g2 by (rule gate_core_claim [OF coref co(1,2)])
  have hold2: "admitting ?g2 = [] \<or> holder_ok ?g2" if "admitting ?g2 \<noteq> key"
  proof (cases "admitting ?f = []")
    case True
    with that claim_slot_free(1) [OF coref True co(1,2), of now] show ?thesis by (simp add: g2 split: if_splits)
  next
    case False
    with holdf show ?thesis by (simp add: g2 claim_slot_taken)
  qed
  have co2: "map_of (cohorts ?g2) key = Some co" using co(1) by (simp add: g2)
  show ?thesis
  proof (rule that [OF co2 co(2,3) core2], rule impI)
    assume n: "admitting ?g2 \<noteq> key"
    show "gate_ok (drop_member key uid ?g2)" by (rule gate_ok_wait [OF core2 hold2 [OF n] co2 co(2) n])
  qed
qed

lemma check_locked_decide:
  "check_locked t0 now key priority rsvName slice nodeName bytes rsv g =
    (let g1 = entry_state t0 now key priority rsv g; g2 = decide_state t0 now key priority rsv g
     in if (case map_of (cohorts g1) key of None \<Rightarrow> False | Some co \<Rightarrow> co_released co)
        then ((GangBindAllowed, CohortReleased rsvName), g1)
        else if admitting g2 \<noteq> key
              then ((GangBindWait,
                     if admitting g2 \<noteq> [] then WaitingFor rsvName (admitting g2) else WaitingNoneEligible rsvName),
                    drop_member key (sl_UID slice) g2)
              else register_member now key rsvName slice nodeName bytes (rv_GangSize rsv) g2)"
  by (simp add: check_locked_alt decide_state_def entry_state_def Let_def)

lemma gate_ok_check_locked:
  assumes ok: "gate_ok g" and key: "key \<noteq> []"
  shows "gate_ok (snd (check_locked t0 now key priority rsvName slice nodeName bytes rsv g))"
proof -
  obtain co1 where co1: "map_of (cohorts (entry_state t0 now key priority rsv g)) key = Some co1"
    by (rule entry_cohort)
  show ?thesis
  proof (cases "co_released co1")
    case True
    with co1 show ?thesis by (simp add: check_locked_decide Let_def gate_ok_entry [OF ok key])
  next
    case False
    obtain co where "map_of (cohorts (decide_state t0 now key priority rsv g)) key = Some co"
      and "\<not> co_released co" and "gate_core (decide_state t0 now key priority rsv g)"
      and "admitting (decide_state t0 now key priority rsv g) \<noteq> key \<longrightarrow>
         gate_ok (drop_member key (sl_UID slice) (decide_state t0 now key priority rsv g))"
      by (rule decide_facts [OF ok key co1 False, where uid = "sl_UID slice"])
    with co1 False show ?thesis by (simp add: check_locked_decide Let_def gate_ok_register)
  qed
qed

lemma sizes_ok_claim: "sizes_ok S g \<Longrightarrow> sizes_ok S (claim_slot now key g)"
  by (simp add: sizes_ok_def)

lemma sizes_ok_drop:
  "sizes_ok S g \<Longrightarrow> map_of (cohorts g) key = Some co \<Longrightarrow> \<not> co_released co \<Longrightarrow> sizes_ok S (drop_member key uid g)"
  by (auto simp: sizes_ok_def drop_member_def upd_cohort_Some)

lemma sizes_ok_register:
  assumes s: "sizes_ok S g" and co: "map_of (cohorts g) key = Some co" "\<not> co_released co"
    and "S (co_rsvUID co) = sz"
  shows "sizes_ok S (snd (register_member now key rsvName slice nodeName bytes sz g))"
proof -
  have "sz \<le> x" if "sz \<le> i32 x" "0 \<le> x" for x using i32_le [OF that(2)] that(1) by simp
  from this [of "int (length (gput (sl_UID slice) \<lparr>gm_sliceUID = sl_UID slice, gm_nodeName = nodeName,
      gm_bytes = bytes, gm_heldAt = now\<rparr> (co_members co)))"] assms
  show ?thesis
    by (auto simp: register_member_def Let_def add_member_def upd_cohort_Some sizes_ok_def members_of_def)
qed

lemma sizes_ok_check_locked:
  assumes ok: "gate_ok g" and key: "key \<noteq> []" and s: "sizes_ok S g" and sz: "S (rv_UID rsv) = rv_GangSize rsv"
  shows "sizes_ok S (snd (check_locked t0 now key priority rsvName slice nodeName bytes rsv g))"
proof -
  obtain co1 where co1: "map_of (cohorts (entry_state t0 now key priority rsv g)) key = Some co1"
      "co_rsvUID co1 = rv_UID rsv"
    by (rule entry_cohort)
  have s1: "sizes_ok S (entry_state t0 now key priority rsv g)" by (rule sizes_ok_entry [OF s])
  have s2: "sizes_ok S (decide_state t0 now key priority rsv g)"
    using s1 gate_ok_entry [OF ok key, of t0 now priority rsv]
    by (simp add: decide_state_def sizes_ok_claim sizes_ok_free flip: entry_state_def)
  show ?thesis
  proof (cases "co_released co1")
    case True
    with co1 s1 show ?thesis by (simp add: check_locked_decide Let_def)
  next
    case False
    obtain co where co: "map_of (cohorts (decide_state t0 now key priority rsv g)) key = Some co"
      "\<not> co_released co" "co_rsvUID co = co_rsvUID co1"
      by (rule decide_facts [OF ok key co1(1) False, where uid = "[]"])
    with co1 False sz s2 show ?thesis
      by (simp add: check_locked_decide Let_def sizes_ok_drop sizes_ok_register)
  qed
qed

lemma cohort_key_not_Nil [simp]: "cohort_key slice rsvName \<noteq> []"
  by (simp add: cohort_key_def)

lemma CheckSlice_cases:
  obtains (unchanged) "snd (CheckSliceWithCohort t0 now rd so node bytes g) = g"
      and "fst (fst (CheckSliceWithCohort t0 now rd so node bytes g)) \<noteq> GangBindAllowed"
      and "fst (fst (CheckSliceWithCohort t0 now rd so node bytes g)) \<noteq> GangBindDeferred"
      and "fst (fst (CheckSliceWithCohort t0 now rd so node bytes g)) \<noteq> GangBindWait"
  | (terminal) slice rsv rsvName where "rd = Found rsv"
      and "CheckSliceWithCohort t0 now rd so node bytes g =
        ((GangBindRejected, TerminalPhase rsvName (rv_Phase rsv), False), forgetCohort (cohort_key slice rsvName) g)"
  | (locked) slice rsv rsvName where "so = Some slice" and "rd = Found rsv" and "0 < rv_GangSize rsv"
      and "rsvName = gget [] (sl_Annotations slice) AnnotationReservationRef"
      and "CheckSliceWithCohort t0 now rd so node bytes g =
        (let r = check_locked t0 now (cohort_key slice rsvName) (gang_priority slice) rsvName
           slice node bytes rsv g in ((fst (fst r), snd (fst r), False), snd r))"
proof (cases so)
  case None
  then show ?thesis by (intro unchanged) (simp_all add: CheckSliceWithCohort_def)
next
  case (Some slice)
  let ?n = "gget [] (sl_Annotations slice) AnnotationReservationRef"
  consider "sl_Annotations slice = [] \<or> ?n = [] \<or> rd = NotFound \<or> rd = ReadErr"
    | rsv where "rd = Found rsv" "sl_Annotations slice \<noteq> []" "?n \<noteq> []" by (cases rd) auto
  then show ?thesis
  proof cases
    case 1
    then show ?thesis using Some by (intro unchanged) (auto simp: CheckSliceWithCohort_def Let_def split: api_read.splits)
  next
    case (2 rsv)
    show ?thesis
    proof (cases "rv_Phase rsv = ReservationPhaseFailed \<or> rv_Phase rsv = ReservationPhaseReleased")
      case True
      show ?thesis
        by (rule terminal [OF 2(1), of ?n slice]) (use Some 2 True in \<open>simp add: CheckSliceWithCohort_def Let_def\<close>)
    next
      case nonterm: False
      show ?thesis
      proof (cases "rv_GangSize rsv \<le> 0")
        case True
        with Some 2 nonterm show ?thesis by (intro unchanged) (simp_all add: CheckSliceWithCohort_def Let_def)
      next
        case False
        show ?thesis
          by (rule locked [OF Some 2(1), of ?n])
            (use Some 2 nonterm False in \<open>simp_all add: CheckSliceWithCohort_def Let_def case_prod_beta\<close>)
      qed
    qed
  qed
qed

lemma gate_ok_Check:
  assumes "gate_ok g"
  shows "gate_ok (snd (CheckSliceWithCohort t0 now rd so node bytes g))"
proof (cases rule: CheckSlice_cases [of t0 now rd so node bytes g])
  case unchanged
  with assms show ?thesis by simp
next
  case (terminal slice rsv rsvName)
  then show ?thesis by (simp add: gate_ok_forget assms)
next
  case (locked slice rsv rsvName)
  show ?thesis by (simp add: locked(5) Let_def gate_ok_check_locked assms)
qed

lemma sizes_ok_Check:
  assumes "gate_ok g" and "sizes_ok S g" and "\<And>rsv. rd = Found rsv \<Longrightarrow> S (rv_UID rsv) = rv_GangSize rsv"
  shows "sizes_ok S (snd (CheckSliceWithCohort t0 now rd so node bytes g))"
proof (cases rule: CheckSlice_cases [of t0 now rd so node bytes g])
  case unchanged
  with assms show ?thesis by simp
next
  case (terminal slice rsv rsvName)
  then show ?thesis by (simp add: sizes_ok_forget assms)
next
  case (locked slice rsv rsvName)
  show ?thesis
    unfolding locked(5) Let_def snd_conv
    by (rule sizes_ok_check_locked [OF assms(1) cohort_key_not_Nil assms(2) assms(3) [OF locked(2)]])
qed

section \<open>Reachable gates\<close>

text \<open>
  The gate starts empty and changes by checks only. Each reservation object keeps its gang size,
  which \<open>S\<close> gives by the object's UID.
\<close>

inductive gate_reachable :: "(string \<Rightarrow> int) \<Rightarrow> gang_gate \<Rightarrow> bool" for S where
  gate_new: "gate_reachable S NewGangBindingGate"
| gate_check: "gate_reachable S g \<Longrightarrow> (\<And>rsv. rd = Found rsv \<Longrightarrow> S (rv_UID rsv) = rv_GangSize rsv) \<Longrightarrow>
    gate_reachable S (snd (CheckSliceWithCohort t0 now rd so node bytes g))"

lemma gate_reachable_ok: "gate_reachable S g \<Longrightarrow> gate_ok g \<and> sizes_ok S g"
  by (induction rule: gate_reachable.induct)
    (auto simp: gate_ok_New sizes_ok_New intro: gate_ok_Check sizes_ok_Check)


section \<open>The admission order\<close>

definition cohort_before :: "string \<times> gang_cohort \<Rightarrow> string \<times> gang_cohort \<Rightarrow> bool" where
  "cohort_before x y \<longleftrightarrow> admissionLess (snd x) (fst x) (snd y) (fst y)"

interpretation admission: strict_weak cohort_before
  by unfold_locales (auto simp: cohort_before_def admissionLess_def split: if_splits)

lemma cohort_before_total: "fst x \<noteq> fst y \<Longrightarrow> cohort_before x y \<or> cohort_before y x"
  by (auto simp: cohort_before_def admissionLess_def)

definition eligible :: "int \<Rightarrow> string \<Rightarrow> (string, int) gomap \<Rightarrow> string \<times> gang_cohort \<Rightarrow> bool" where
  "eligible now callerKey bo e \<longleftrightarrow> \<not> co_released (snd e) \<and> (fst e = callerKey \<or> co_members (snd e) \<noteq> []) \<and>
     \<not> backed_off now bo (fst e)"

lemma pick_loop_Cons:
  "pick_loop now key ((k, co) # m) best bo =
    (if eligible now key bo (k, co)
     then pick_loop now key m (Some (case best of None \<Rightarrow> (k, co)
            | Some b \<Rightarrow> if cohort_before (k, co) b then (k, co) else b)) (gdel k bo)
     else pick_loop now key m best bo)"
  unfolding pick_loop.simps(2) backed_off_def [symmetric] Let_def eligible_def fst_conv snd_conv
  by (cases "backed_off now bo k"; cases "co_released co"; cases best) (auto simp: cohort_before_def)

lemma pick_loop_scan:
  "gmap_ok m \<Longrightarrow> fst (pick_loop now key m best bo) = scan_best cohort_before (filter (eligible now key bo) m) best"
proof (induction m arbitrary: best bo)
  case Nil
  then show ?case by simp
next
  case (Cons e m)
  obtain k co where e: "e = (k, co)" by (cases e)
  from Cons.prems have ok: "gmap_ok m" and fresh: "k \<notin> fst ` set m"
    by (auto simp: gmap_ok_def e)
  have "filter (eligible now key (gdel k bo)) m = filter (eligible now key bo) m"
    using fresh by (intro filter_cong) (auto simp: eligible_def backed_off_def)
  then show ?case
    by (cases best) (simp_all add: e pick_loop_Cons Cons.IH [OF ok] del: pick_loop.simps(2))
qed

section \<open>Facts the properties share\<close>

lemma Check_found:
  assumes "sl_Annotations slice \<noteq> []" and "gget [] (sl_Annotations slice) AnnotationReservationRef = n" and "n \<noteq> []"
    and "rv_Phase rsv \<noteq> ReservationPhaseFailed" and "rv_Phase rsv \<noteq> ReservationPhaseReleased" and "0 < rv_GangSize rsv"
  shows "CheckSliceWithCohort t0 now (Found rsv) (Some slice) node bytes g =
    (let r = check_locked t0 now (cohort_key slice n) (gang_priority slice) n slice node bytes rsv g
     in ((fst (fst r), snd (fst r), False), snd r))"
  using assms by (simp add: CheckSliceWithCohort_def Let_def case_prod_beta)

lemma register_result:
  "fst (fst (register_member now key n slice node bytes sz g)) \<in> {GangBindAllowed, GangBindDeferred}"
  by (simp add: register_member_def Let_def)

lemma reap_backoff: "map_of (backoff g) k = None \<Longrightarrow> map_of (backoff (reap_cohorts now m g)) k = None"
  by (induction m arbitrary: g) (auto simp: reap_cohorts_alt forgetCohort_def)

lemma entry_backoff: "map_of (backoff g) k = None \<Longrightarrow> map_of (backoff (entry_state t0 now key p rsv g)) k = None"
  by (auto simp: entry_state_def reapStaleCohortsLocked_def find_cohort_alt Let_def forgetCohort_def
      reap_backoff split: option.splits)

lemma reap_slot: "admitting (reap_cohorts now m g) \<in> {[], admitting g} \<and>
    admittingSince (reap_cohorts now m g) = admittingSince g"
proof (induction m arbitrary: g)
  case Nil
  then show ?case by simp
next
  case (Cons e m)
  obtain k co where e: "e = (k, co)" by (cases e)
  let ?g' = "if \<not> co_released co \<and> now - co_createdAt co > gateMaxHoldAge then forgetCohort k g else g"
  have "admitting ?g' \<in> {[], admitting g} \<and> admittingSince ?g' = admittingSince g"
    by (simp add: forgetCohort_def)
  moreover have "reap_cohorts now (e # m) g = reap_cohorts now m ?g'" by (simp only: e reap_cohorts_alt)
  ultimately show ?case using Cons.IH [of ?g'] by (metis insert_iff)
qed

lemma entry_slot: "admitting (entry_state t0 now key p rsv g) \<in> {[], admitting g} \<and>
    admittingSince (entry_state t0 now key p rsv g) = admittingSince g"
  using reap_slot [of t0 "cohorts g" g]
  by (auto simp: entry_state_def reapStaleCohortsLocked_def find_cohort_alt Let_def forgetCohort_def
      split: option.splits)

text \<open>A gang that is neither released nor backed off gets a slot that is free or has stalled.\<close>

lemma asking_gang_gets_slot:
  assumes ok: "gate_ok g" and key: "key \<noteq> []"
    and slot: "admitting g = [] \<or> now - admittingSince g > gangAdmissionTimeout \<and> admitting g \<noteq> key"
    and nb: "map_of (backoff g) key = None"
  shows "fst (fst (check_locked t0 now key p n slice node bytes rsv g)) \<in> {GangBindAllowed, GangBindDeferred}"
proof -
  let ?g1 = "entry_state t0 now key p rsv g"
  obtain co1 where co1: "map_of (cohorts ?g1) key = Some co1" by (rule entry_cohort)
  have ok1: "gate_ok ?g1" by (rule gate_ok_entry [OF ok key])
  let ?f = "free_stalled_slot now ?g1"
  have slot1: "admitting ?g1 = [] \<or> now - admittingSince ?g1 > gangAdmissionTimeout \<and> admitting ?g1 \<noteq> key"
    using slot entry_slot [of t0 now key p rsv g] by auto
  have adm: "admitting ?f = []" and nbf: "\<not> backed_off now (backoff ?f) key"
    using slot1 entry_backoff [OF nb, of t0 now key p rsv] ok1
    by (auto simp: free_stalled_alt yield_slot_def backed_off_def gate_ok_def holder_ok_def split: option.splits)
  show ?thesis
  proof (cases "co_released co1")
    case True
    with co1 show ?thesis by (simp add: check_locked_decide Let_def)
  next
    case False
    obtain co where co: "map_of (cohorts ?f) key = Some co" "co_released co = co_released co1"
      using free_keeps [OF ok1 co1] by blast
    have core: "gate_core ?f" using gate_ok_free [OF ok1] by (simp add: gate_ok_def)
    have "admitting (claim_slot now key ?f) = key"
      using claim_slot_free(1) [OF core adm co(1), of now] co(2) False nbf by simp
    then have "admitting (decide_state t0 now key p rsv g) = key"
      by (simp add: decide_state_def entry_state_def)
    with co1 False register_result show ?thesis by (simp add: check_locked_decide Let_def)
  qed
qed

section \<open>Properties\<close>

text \<open>
  One gang at a time: in every reachable gate, a cohort that has not reached its quorum has
  members only if it holds the admission slot, so two unreleased cohorts never both hold capacity.
\<close>

theorem one_gang_holds:
  assumes "gate_reachable S g" and "map_of (cohorts g) k = Some co" and "\<not> co_released co" and "co_members co \<noteq> []"
  shows "k = admitting g"
  using gate_reachable_ok [OF assms(1)] assms(2-) by (auto simp: gate_ok_def gate_core_def cohort_ok_def)

definition gang2 :: "string \<Rightarrow> vgpu_gang_reservation" where
  "gang2 u = zero_reservation\<lparr>rv_Name := ''r'', rv_Namespace := ''ns'', rv_UID := u, rv_GangSize := 2,
     rv_Phase := ''Reserving''\<rparr>"

lemma gang2_sel [simp]:
  "rv_Name (gang2 u) = ''r''" "rv_Namespace (gang2 u) = ''ns''" "rv_UID (gang2 u) = u" "rv_GangSize (gang2 u) = 2"
  "rv_ChildClaims (gang2 u) = []" "rv_DeadlineSeconds (gang2 u) = None" "rv_Phase (gang2 u) = ''Reserving''"
  "rv_FirstReservingTime (gang2 u) = None"
  by (simp_all add: gang2_def zero_reservation_def)

definition gang_slice :: "string \<Rightarrow> string \<Rightarrow> vgpu_slice" where
  "gang_slice rsv u = slice0\<lparr>sl_UID := u, sl_Annotations := [(AnnotationReservationRef, rsv)]\<rparr>"

lemma gang_slice_sel:
  "sl_Annotations (gang_slice rsv u) = [(AnnotationReservationRef, rsv)]" "sl_UID (gang_slice rsv u) = u"
  "sl_Namespace (gang_slice rsv u) = ''ns''"
  by (simp_all add: gang_slice_def slice0_def)

definition size2 :: "string \<Rightarrow> int" where "size2 u = 2"

definition gate_a :: gang_gate where
  "gate_a = snd (CheckSliceWithCohort 0 0 (Found (gang2 ''ra'')) (Some (gang_slice ''a'' ''a1'')) ''n1'' 10 NewGangBindingGate)"

lemma gate_a_reachable: "gate_reachable size2 gate_a"
  unfolding gate_a_def by (rule gate_check [OF gate_new]) (simp add: size2_def gang2_def zero_reservation_def)

lemma gate_a_eq: "gate_a = \<lparr>cohorts = [(''ns/a'', \<lparr>co_gangSize = 2, co_priority = 0,
     co_members = [(''a1'', \<lparr>gm_sliceUID = ''a1'', gm_nodeName = ''n1'', gm_bytes = 10, gm_heldAt = 0\<rparr>)],
     co_released = False, co_createdAt = 0, co_rsvUID = ''ra''\<rparr>)],
     admitting = ''ns/a'', admittingSince = 0, backoff = []\<rparr>"
  by (simp add: gate_a_def CheckSliceWithCohort_def gang_slice_sel gang2_def zero_reservation_def
      check_locked_def find_cohort_def reapStaleCohortsLocked_def
      NewGangBindingGate_def cohort_key_def gang_priority_def claim_slot_def free_stalled_slot_def
      pickAdmissionHeadLocked_def register_member_def add_member_def upd_cohort_def members_of_def
      ReservationPhaseFailed_def ReservationPhaseReleased_def gput_def gdel_def gget_def Let_def i32_def)

definition cohort_a :: gang_cohort where
  "cohort_a = \<lparr>co_gangSize = 2, co_priority = 0,
     co_members = [(''a1'', \<lparr>gm_sliceUID = ''a1'', gm_nodeName = ''n1'', gm_bytes = 10, gm_heldAt = 0\<rparr>)],
     co_released = False, co_createdAt = 0, co_rsvUID = ''ra''\<rparr>"

lemma gate_a_cohort: "map_of (cohorts gate_a) ''ns/a'' = Some cohort_a"
  by (simp add: gate_a_eq cohort_a_def)

theorem one_gang_holds_witness: "''ns/a'' = admitting gate_a"
  by (rule one_gang_holds [OF gate_a_reachable gate_a_cohort]) (simp_all add: cohort_a_def)

lemma register_quorum:
  assumes co: "map_of (cohorts g) key = Some co"
    and res: "fst (fst (register_member now key n slice node bytes sz g)) = GangBindAllowed"
  shows "\<exists>co'. map_of (cohorts (snd (register_member now key n slice node bytes sz g))) key = Some co' \<and>
    co_released co' \<and> co_rsvUID co' = co_rsvUID co"
  using assms by (auto simp: register_member_def Let_def add_member_def upd_cohort_Some split: if_splits)

lemma quorum_at_bind:
  assumes "gate_reachable S g" and "\<forall>rsv. rd = Found rsv \<longrightarrow> S (rv_UID rsv) = rv_GangSize rsv"
    and "fst (fst (CheckSliceWithCohort t0 now rd so node bytes g)) = GangBindAllowed"
  shows "\<exists>slice rsv co. so = Some slice \<and> rd = Found rsv \<and>
    map_of (cohorts (snd (CheckSliceWithCohort t0 now rd so node bytes g)))
      (cohort_key slice (gget [] (sl_Annotations slice) AnnotationReservationRef)) = Some co \<and>
    co_released co \<and> co_rsvUID co = rv_UID rsv \<and> gmap_ok (co_members co) \<and>
    rv_GangSize rsv \<le> int (length (co_members co))"
proof (cases rule: CheckSlice_cases [of t0 now rd so node bytes g])
  case unchanged
  with assms(3) show ?thesis by simp
next
  case (terminal slice rsv rsvName)
  with assms(3) show ?thesis by simp
next
  case (locked slice rsv n)
  let ?key = "cohort_key slice n" and ?g' = "snd (CheckSliceWithCohort t0 now rd so node bytes g)"
  note inv = gate_reachable_ok [OF assms(1)]
  have ok: "gate_ok ?g'" and sz: "sizes_ok S ?g'"
    using inv assms(2) by (auto intro: gate_ok_Check sizes_ok_Check)
  note eq = locked(5) [unfolded Let_def]
  obtain co1 where co1: "map_of (cohorts (entry_state t0 now ?key (gang_priority slice) rsv g)) ?key = Some co1"
      "co_rsvUID co1 = rv_UID rsv"
    by (rule entry_cohort)
  have "\<exists>co. map_of (cohorts ?g') ?key = Some co \<and> co_released co \<and> co_rsvUID co = rv_UID rsv"
  proof (cases "co_released co1")
    case True
    with co1 show ?thesis by (simp add: eq check_locked_decide Let_def)
  next
    case False
    obtain co where "map_of (cohorts (decide_state t0 now ?key (gang_priority slice) rsv g)) ?key = Some co"
        "co_rsvUID co = co_rsvUID co1"
      by (rule decide_facts [OF conjunct1 [OF inv] cohort_key_not_Nil co1(1) False, where uid = "[]"])
    moreover have "fst (fst (check_locked t0 now ?key (gang_priority slice) n slice node bytes rsv g)) = GangBindAllowed"
      using assms(3) by (simp add: eq)
    ultimately show ?thesis
      using co1 False register_quorum [of "decide_state t0 now ?key (gang_priority slice) rsv g" ?key co now n slice node bytes
          "rv_GangSize rsv"]
      by (auto simp: eq check_locked_decide Let_def split: if_splits)
  qed
  then obtain co where co: "map_of (cohorts ?g') ?key = Some co" "co_released co" "co_rsvUID co = rv_UID rsv" by blast
  have "gmap_ok (co_members co)" using ok co(1) by (auto simp: gate_ok_def gate_core_def cohort_ok_def)
  moreover have "S (co_rsvUID co) \<le> int (length (co_members co))" using sz co(1,2) by (auto simp: sizes_ok_def)
  ultimately show ?thesis using co locked(1,2,4) assms(2) by auto
qed

text \<open>
  C16. All or nothing: the gate lets a gang member bind only when its reservation's cohort is released,
  belongs to the live reservation object, and at least the gang's size of distinct slices were
  registered as holding their reservations.
\<close>

theorem allowed_means_quorum:
  assumes "gate_reachable S g" and "\<forall>rsv. rd = Found rsv \<longrightarrow> S (rv_UID rsv) = rv_GangSize rsv"
    and "fst (fst (CheckSliceWithCohort t0 now rd so node bytes g)) = GangBindAllowed"
  shows "\<exists>slice rsv co. so = Some slice \<and> rd = Found rsv \<and>
    map_of (cohorts (snd (CheckSliceWithCohort t0 now rd so node bytes g)))
      (cohort_key slice (gget [] (sl_Annotations slice) AnnotationReservationRef)) = Some co \<and>
    co_released co \<and> co_rsvUID co = rv_UID rsv \<and> gmap_ok (co_members co) \<and>
    rv_GangSize rsv \<le> int (length (co_members co))"
  using assms by (rule quorum_at_bind)

lemma second_member_allowed:
  "fst (fst (CheckSliceWithCohort 1 1 (Found (gang2 ''ra'')) (Some (gang_slice ''a'' ''a2'')) ''n1'' 10 gate_a)) = GangBindAllowed"
  by (simp add: gate_a_eq CheckSliceWithCohort_def gang_slice_sel gang2_def zero_reservation_def check_locked_def find_cohort_def
      reapStaleCohortsLocked_def cohort_key_def gang_priority_def claim_slot_def free_stalled_slot_def
      reap_cohorts.simps gateMaxHoldAge_def gangAdmissionTimeout_def
      register_member_def add_member_def upd_cohort_def members_of_def
      ReservationPhaseFailed_def ReservationPhaseReleased_def gput_def gdel_def gget_def Let_def i32_def)

theorem allowed_means_quorum_witness:
  "\<exists>co :: gang_cohort. 2 \<le> int (length (co_members co)) \<and> co_rsvUID co = ''ra''"
proof -
  have "\<forall>rsv. Found (gang2 ''ra'') = Found rsv \<longrightarrow> size2 (rv_UID rsv) = rv_GangSize rsv"
    by (auto simp: gang2_def zero_reservation_def size2_def)
  from allowed_means_quorum [where rd = "Found (gang2 ''ra'')", OF gate_a_reachable this second_member_allowed]
  obtain rsv and co :: gang_cohort where "Found (gang2 ''ra'') = Found rsv" "co_rsvUID co = rv_UID rsv"
      "rv_GangSize rsv \<le> int (length (co_members co))" by blast
  then show ?thesis by (intro exI [of _ co]) (auto simp: gang2_def zero_reservation_def)
qed

text \<open>
  An unknown gang state never binds: for a slice with a reservation annotation, a missing
  reservation or a failed read gives \<open>GangRetry\<close> and leaves the gate unchanged, and a readable
  reservation with a positive size never lets the slice bind solo.
\<close>

theorem unknown_gang_never_binds:
  assumes "gget [] (sl_Annotations slice) AnnotationReservationRef \<noteq> []"
  shows "(rd = NotFound \<or> rd = ReadErr \<longrightarrow>
      fst (fst (CheckSliceWithCohort t0 now rd (Some slice) node bytes g)) = GangRetry \<and>
      snd (CheckSliceWithCohort t0 now rd (Some slice) node bytes g) = g) \<and>
    ((\<forall>rsv. rd = Found rsv \<longrightarrow> 0 < rv_GangSize rsv) \<longrightarrow>
      fst (fst (CheckSliceWithCohort t0 now rd (Some slice) node bytes g)) \<noteq> GangNotApplicable)"
proof -
  have ann: "sl_Annotations slice \<noteq> []" using assms by (auto simp: gget_def)
  have "fst (fst (check_locked t0 now k p n slice node bytes rsv g)) \<noteq> GangNotApplicable" for k p n rsv
    using register_result [of now k n slice node bytes "rv_GangSize rsv" "decide_state t0 now k p rsv g"]
    by (auto simp: check_locked_decide Let_def)
  then show ?thesis
    using assms ann
    by (cases rd) (auto simp: CheckSliceWithCohort_def Let_def case_prod_beta)
qed

theorem unknown_gang_never_binds_witness:
  "fst (fst (CheckSliceWithCohort 0 0 ReadErr (Some (gang_slice ''a'' ''a1'')) ''n1'' 10 NewGangBindingGate)) = GangRetry"
  using unknown_gang_never_binds [of "gang_slice ''a'' ''a1''" ReadErr] by (simp add: gang_slice_sel gget_def)

text \<open>
  The slot is live: a gang that asks while the slot is free, or while its holder has stalled past
  the admission timeout, and that is not backed off, gets the slot in that very check. No priority
  and no age enters into it: whichever gang asks first wins a free slot.
\<close>

theorem asking_gang_is_admitted:
  assumes "gate_reachable S g"
    and "admitting g = [] \<or> now - admittingSince g > gangAdmissionTimeout \<and>
         admitting g \<noteq> cohort_key slice (gget [] (sl_Annotations slice) AnnotationReservationRef)"
    and "map_of (backoff g) (cohort_key slice (gget [] (sl_Annotations slice) AnnotationReservationRef)) = None"
    and "gget [] (sl_Annotations slice) AnnotationReservationRef \<noteq> []"
    and "rv_Phase rsv \<noteq> ReservationPhaseFailed" and "rv_Phase rsv \<noteq> ReservationPhaseReleased" and "0 < rv_GangSize rsv"
  shows "fst (fst (CheckSliceWithCohort t0 now (Found rsv) (Some slice) node bytes g)) \<in> {GangBindAllowed, GangBindDeferred}"
proof -
  have ann: "sl_Annotations slice \<noteq> []" using assms(4) by (auto simp: gget_def)
  show ?thesis
    using asking_gang_gets_slot [OF conjunct1 [OF gate_reachable_ok [OF assms(1)]] cohort_key_not_Nil assms(2,3)]
    by (simp add: Check_found [OF ann refl assms(4-7)] Let_def)
qed

theorem asking_gang_is_admitted_witness:
  "fst (fst (CheckSliceWithCohort 0 30000000000 (Found (gang2 ''rb'')) (Some (gang_slice ''b'' ''b1'')) ''n1'' 10 gate_a))
     \<in> {GangBindAllowed, GangBindDeferred}"
  by (rule asking_gang_is_admitted [OF gate_a_reachable])
    (simp_all add: gate_a_eq gang_slice_sel gang2_def zero_reservation_def cohort_key_def gget_def gangAdmissionTimeout_def
      ReservationPhaseFailed_def ReservationPhaseReleased_def)

text \<open>
  The priority order never decides between gangs: whenever the slot is free, the head the gate
  picks is the asking gang or none, so no contender with a higher priority or an earlier creation
  is ever preferred.
\<close>

theorem head_is_the_caller:
  assumes "gate_reachable S g" and "admitting g = []"
  shows "fst (pickAdmissionHeadLocked now key g) \<in> {[], key}"
proof -
  have core: "gate_core g" using gate_reachable_ok [OF assms(1)] by (simp add: gate_ok_def)
  then have maps: "gmap_ok (cohorts g)" by (simp add: gate_core_def)
  have "co_members d = []" if "(k, d) \<in> set (cohorts g)" "k \<noteq> key" "\<not> co_released d" for k d
  proof -
    have "map_of (cohorts g) k = Some d" using maps that(1) by (simp only: map_of_SomeD_ok)
    with core have "cohort_ok (admitting g) k d" unfolding gate_core_def by blast
    with that assms(2) show ?thesis by (simp add: cohort_ok_def)
  qed
  note p = pick_loop_caller [OF maps this, where now = now and best = None and bo = "backoff g"]
  then show ?thesis
    by (auto simp: pickAdmissionHeadLocked_def Let_def case_prod_beta split: option.splits if_splits)
qed

theorem head_is_the_caller_witness:
  "fst (pickAdmissionHeadLocked 0 ''ns/a'' NewGangBindingGate) \<in> {[], ''ns/a''}"
  by (rule head_is_the_caller [OF gate_new [of size2]]) (simp add: NewGangBindingGate_def)

lemma gput_Nil: "gput k v [] = [(k, v)]"
  by (simp add: gput_def)

lemma reap_left:
  "map_of (cohorts (reap_cohorts now m g)) key \<in> {None, map_of (cohorts g) key}"
proof (induction m arbitrary: g)
  case Nil
  then show ?case by simp
next
  case (Cons e m)
  obtain k co where e: "e = (k, co)" by (cases e)
  let ?g' = "if \<not> co_released co \<and> now - co_createdAt co > gateMaxHoldAge then forgetCohort k g else g"
  have "map_of (cohorts ?g') key \<in> {None, map_of (cohorts g) key}" by (simp add: forgetCohort_def)
  moreover have "reap_cohorts now (e # m) g = reap_cohorts now m ?g'" by (simp only: e reap_cohorts_alt)
  ultimately show ?case using Cons.IH [of ?g'] by (metis insert_iff singleton_iff)
qed

text \<open>
  A re-created gang starts over: when the cohort of a gang belongs to an earlier reservation
  object, released or not, a check under the new object forgets it, and for a gang of two or more
  the first member is not allowed to bind.
\<close>

theorem new_incarnation_starts_over:
  assumes "gate_reachable S g"
    and "map_of (cohorts g) (cohort_key slice (gget [] (sl_Annotations slice) AnnotationReservationRef)) = Some co"
    and "co_rsvUID co \<noteq> rv_UID rsv" and "2 \<le> rv_GangSize rsv"
  shows "fst (fst (CheckSliceWithCohort t0 now (Found rsv) (Some slice) node bytes g)) \<noteq> GangBindAllowed"
proof (cases rule: CheckSlice_cases [of t0 now "Found rsv" "Some slice" node bytes g])
  case unchanged
  then show ?thesis by simp
next
  case (terminal s r n)
  then show ?thesis by simp
next
  case (locked s r n)
  let ?key = "cohort_key slice n" and ?p = "gang_priority slice"
  have eqs: "s = slice" "r = rsv" using locked(1,2) by simp_all
  note eq = locked(5) [unfolded eqs Let_def]
  let ?r = "reapStaleCohortsLocked t0 g"
  have ok: "gate_ok g" using gate_reachable_ok [OF assms(1)] by simp
  have "map_of (cohorts ?r) ?key = None \<or> map_of (cohorts ?r) ?key = Some co"
    using reap_left [of t0 "cohorts g" g ?key] assms(2) locked(4) eqs by (simp add: reapStaleCohortsLocked_def)
  then have fresh: "map_of (cohorts (entry_state t0 now ?key ?p rsv g)) ?key =
      Some \<lparr>co_gangSize = rv_GangSize rsv, co_priority = ?p, co_members = [], co_released = False,
        co_createdAt = now, co_rsvUID = rv_UID rsv\<rparr>"
  proof (cases "stale_in ?key rsv ?r")
    case True
    then show ?thesis by (simp add: entry_state_def find_cohort_alt forgetCohort_def)
  next
    case False
    with \<open>map_of (cohorts ?r) ?key = None \<or> map_of (cohorts ?r) ?key = Some co\<close> assms(3)
    have "map_of (cohorts ?r) ?key = None" by (auto simp: stale_in_def)
    with False show ?thesis by (simp add: entry_state_def find_cohort_alt Let_def)
  qed
  let ?g1 = "entry_state t0 now ?key ?p rsv g"
  have ok1: "gate_ok ?g1" by (rule gate_ok_entry [OF ok cohort_key_not_Nil])
  have "admitting ?g1 \<noteq> ?key"
  proof
    assume e: "admitting ?g1 = ?key"
    have "holder_ok ?g1" using ok1 by (simp add: gate_ok_def)
    then show False unfolding holder_ok_def e using fresh by simp
  qed
  then have "map_of (cohorts (decide_state t0 now ?key ?p rsv g)) ?key = map_of (cohorts ?g1) ?key"
    using ok1 by (simp add: decide_state_def free_stalled_alt yield_slot_def flip: entry_state_def split: option.split)
  with fresh assms(4) show ?thesis
    by (simp add: eq check_locked_decide Let_def register_member_def add_member_def upd_cohort_Some members_of_def
        gput_Nil i32_def)
qed

theorem new_incarnation_starts_over_witness:
  "fst (fst (CheckSliceWithCohort 1 1 (Found (gang2 ''rb'')) (Some (gang_slice ''a'' ''x'')) ''n1'' 10 gate_a)) \<noteq> GangBindAllowed"
  by (rule new_incarnation_starts_over [OF gate_a_reachable, where co = cohort_a])
    (simp_all add: gate_a_eq gang_slice_sel cohort_key_def gget_def cohort_a_def gang2_def zero_reservation_def)

text \<open>
  The head does not depend on the order in which the cohort map iterates: the loop of the head
  selection gives the same cohort for every order of the same cohorts.
\<close>

theorem head_order_free:
  assumes "gmap_ok m" and "gmap_ok m'" and "map_of m = map_of m'"
  shows "fst (pick_loop now key m None bo) = fst (pick_loop now key m' None bo)"
proof -
  have same: "set m = set m'" using assms by (auto simp: set_eq_iff map_of_SomeD_ok)
  have "scan_best cohort_before (filter (eligible now key bo) m) None =
      scan_best cohort_before (filter (eligible now key bo) m') None"
  proof (rule admission.scan_best_order_free)
    show "set (filter (eligible now key bo) m) = set (filter (eligible now key bo) m')" using same by simp
    fix x y assume "x \<in> set (filter (eligible now key bo) m)" "y \<in> set (filter (eligible now key bo) m)" "x \<noteq> y"
    with assms(1) have "fst x \<noteq> fst y"
      by (cases x; cases y) (auto simp: map_of_SomeD_ok)
    then show "cohort_before x y \<or> cohort_before y x" by (rule cohort_before_total)
  qed
  with assms(1,2) show ?thesis by (simp add: pick_loop_scan)
qed

theorem head_order_free_witness:
  "fst (pick_loop 0 ''k'' [(''ns/a'', cohort_a), (''ns/b'', cohort_a)] None []) =
   fst (pick_loop 0 ''k'' [(''ns/b'', cohort_a), (''ns/a'', cohort_a)] None [])"
  by (rule head_order_free) (auto simp: gmap_ok_def fun_eq_iff)

end
