(* ===== verification/Preemption.thy ===== *)
theory Preemption
  imports GangGate
begin

text \<open>
  \<open>internal/scheduler/preemptor.go\<close>: choosing and marking victims. The API server's slices are the map
  \<open>store\<close> (by namespace and name); the outcome of each client call is an input: whether a \<open>Get\<close> fails,
  what an \<open>Update\<close> gives, what the informer's lists hold. \<open>RetryOnConflict\<close> runs its body again only
  on a conflict, at most five times. Times are nanoseconds; the RFC 3339 text of the ownership stamp
  goes through the arguments \<open>pe_parse\<close> and \<open>pe_format\<close>.
\<close>

section \<open>Code: constants and data\<close>

definition PreemptionCooldown :: int where "PreemptionCooldown = 60 * 10 ^ 9"
definition PreemptionPriorityGap :: int where "PreemptionPriorityGap = 100"
definition DefaultGraceSeconds :: int where "DefaultGraceSeconds = 30"
definition MaxGraceSeconds :: int where "MaxGraceSeconds = 3600"
definition PreemptionInFlightWindow :: int where "PreemptionInFlightWindow = 60 * 10 ^ 9"

definition AnnotationPreemptionTriggeredAt :: string where
  "AnnotationPreemptionTriggeredAt = ''infrastructure.pranav2910.com/preemption-triggered-at''"

record victim_selection =
  vs_Slice :: vgpu_slice
  vs_Job :: vgpu_job
  vs_Priority :: int
  vs_GraceSeconds :: int
  vs_AllocatedBytes :: int

record preemption_plan =
  pl_Requester :: vgpu_slice
  pl_Victims :: "victim_selection list"
  pl_FreedBytes :: int
  pl_NeededBytes :: int
  pl_CreatedAt :: int

type_synonym slice_store = "(string \<times> string, vgpu_slice) gomap"
type_synonym cooldown = "(string, int) gomap"

datatype update_result = UpdateOk | UpdateConflict | UpdateErr

text \<open>One attempt of a read-modify-write: does its \<open>Get\<close> fail, and what does its \<open>Update\<close> give.\<close>

record attempt =
  at_getFails :: bool
  at_update :: update_result

record preempt_env =
  pe_own :: attempt
  pe_jobs :: "vgpu_job list option"
  pe_slices :: "vgpu_slice list option"
  pe_claim :: "string \<Rightarrow> string \<Rightarrow> vgpu_claim api_read"
  pe_job :: "string \<Rightarrow> string \<Rightarrow> vgpu_job api_read"
  pe_mark :: "nat \<Rightarrow> nat \<Rightarrow> attempt"
  pe_unmark :: "nat \<Rightarrow> nat \<Rightarrow> attempt"
  pe_parse :: "string \<Rightarrow> int option"
  pe_format :: "int \<Rightarrow> string"

section \<open>Code: ownership of the plan\<close>

definition grace_of :: "vgpu_job \<Rightarrow> int" where
  "grace_of job = (case jb_PreemptionGraceSeconds job of None \<Rightarrow> DefaultGraceSeconds | Some g \<Rightarrow> g)"

fun max_grace_loop :: "vgpu_job list \<Rightarrow> int \<Rightarrow> int" where
  "max_grace_loop [] maxGrace = maxGrace"
| "max_grace_loop (j # rest) maxGrace =
    (if \<not> jb_Preemptible j then max_grace_loop rest maxGrace
     else
       (let grace = grace_of j;
            capped = (if grace > MaxGraceSeconds then MaxGraceSeconds else grace)
        in max_grace_loop rest (if capped > maxGrace then capped else maxGrace)))"

definition effectiveInFlightWindow :: "vgpu_job list option \<Rightarrow> string \<Rightarrow> int" where
  "effectiveInFlightWindow jobs namespace =
    (case jobs of
       None \<Rightarrow> PreemptionInFlightWindow
     | Some items \<Rightarrow>
         (let maxGrace = max_grace_loop (filter (\<lambda>j. jb_Namespace j = namespace) items) DefaultGraceSeconds;
              dynamic = i64 (i32 (maxGrace + 30) * 10 ^ 9)
          in if dynamic > PreemptionInFlightWindow then dynamic else PreemptionInFlightWindow))"

definition get_slice :: "bool \<Rightarrow> slice_store \<Rightarrow> string \<times> string \<Rightarrow> vgpu_slice api_read" where
  "get_slice fails store key =
    (if fails then ReadErr else case map_of store key of None \<Rightarrow> NotFound | Some s \<Rightarrow> Found s)"

definition slice_key :: "vgpu_slice \<Rightarrow> string \<times> string" where
  "slice_key s = (sl_Namespace s, sl_Name s)"

text \<open>\<open>Inl ()\<close> is the error return, \<open>Inr owned\<close> the two others.\<close>

definition claimPlanOwnership ::
  "preempt_env \<Rightarrow> int \<Rightarrow> vgpu_slice \<Rightarrow> slice_store \<Rightarrow> (unit + bool) \<times> slice_store" where
  "claimPlanOwnership env now requester store =
    (case get_slice (at_getFails (pe_own env)) store (slice_key requester) of
       Found fresh \<Rightarrow>
         (let recent =
            (case map_of (sl_Annotations fresh) AnnotationPreemptionTriggeredAt of
               None \<Rightarrow> False
             | Some ts \<Rightarrow>
                 (case pe_parse env ts of
                    None \<Rightarrow> False
                  | Some t \<Rightarrow> now - t < effectiveInFlightWindow (pe_jobs env) (sl_Namespace requester)))
          in if recent then (Inr False, store)
             else
               (let stamped = fresh\<lparr>sl_Annotations :=
                      gput AnnotationPreemptionTriggeredAt (pe_format env now) (sl_Annotations fresh)\<rparr>
                in if at_update (pe_own env) = UpdateOk
                   then (Inr True, gput (slice_key requester) stamped store)
                   else (Inl (), store)))
     | _ \<Rightarrow> (Inl (), store))"

section \<open>Code: candidates and selection\<close>

definition in_cooldown :: "cooldown \<Rightarrow> int \<Rightarrow> string \<Rightarrow> bool" where
  "in_cooldown cd now key = (case map_of cd key of None \<Rightarrow> False | Some until \<Rightarrow> now < until)"

definition victim_key :: "string \<Rightarrow> string \<Rightarrow> string" where
  "victim_key namespace claimName = namespace @ ''/'' @ claimName"

text \<open>One iteration of the candidate loop: \<open>None\<close> is \<open>continue\<close>.\<close>

definition candidate ::
  "preempt_env \<Rightarrow> int \<Rightarrow> vgpu_slice \<Rightarrow> int \<Rightarrow> cooldown \<Rightarrow> vgpu_slice \<Rightarrow> victim_selection option" where
  "candidate env now requester requesterPriority cd s =
    (if sl_Name s = sl_Name requester then None
     else if sl_Phase s \<noteq> ''Ready'' then None
     else if sl_AllocatedBytes s \<le> 0 then None
     else if sl_ClaimRef s = [] then None
     else case pe_claim env (sl_Namespace s) (sl_ClaimRef s) of
       NotFound \<Rightarrow> None | ReadErr \<Rightarrow> None
     | Found claim \<Rightarrow>
       if cl_JobRef claim = [] then None
       else (case pe_job env (sl_Namespace s) (cl_JobRef claim) of
         NotFound \<Rightarrow> None | ReadErr \<Rightarrow> None
       | Found job \<Rightarrow>
         if \<not> jb_Preemptible job then None
         else if gget [] (sl_Annotations s) AnnotationReservationRef \<noteq> [] \<or>
                 gget [] (sl_Annotations s) AnnotationGangRef \<noteq> [] then None
         else if i32 (requesterPriority - jb_Priority job) < PreemptionPriorityGap then None
         else if in_cooldown cd now (victim_key (sl_Namespace s) (cl_Name claim)) then None
         else Some \<lparr>vs_Slice = s, vs_Job = job, vs_Priority = jb_Priority job,
                    vs_GraceSeconds = grace_of job, vs_AllocatedBytes = sl_AllocatedBytes s\<rparr>))"

definition candidates ::
  "preempt_env \<Rightarrow> int \<Rightarrow> vgpu_slice \<Rightarrow> int \<Rightarrow> cooldown \<Rightarrow> vgpu_slice list \<Rightarrow> victim_selection list" where
  "candidates env now requester requesterPriority cd items =
     List.map_filter (candidate env now requester requesterPriority cd)
       (filter (\<lambda>s. sl_Namespace s = sl_Namespace requester) items)"

definition victim_before :: "victim_selection \<Rightarrow> victim_selection \<Rightarrow> bool" where
  "victim_before a b =
    (if vs_Priority a \<noteq> vs_Priority b then vs_Priority a < vs_Priority b
     else if vs_AllocatedBytes a \<noteq> vs_AllocatedBytes b then vs_AllocatedBytes a < vs_AllocatedBytes b
     else sl_CreationTimestamp (vs_Slice a) < sl_CreationTimestamp (vs_Slice b))"

definition size_before :: "victim_selection \<Rightarrow> victim_selection \<Rightarrow> bool" where
  "size_before a b \<longleftrightarrow> vs_AllocatedBytes a < vs_AllocatedBytes b"

fun accumulate :: "int \<Rightarrow> victim_selection list \<Rightarrow> victim_selection list \<Rightarrow> int \<Rightarrow> victim_selection list \<times> int" where
  "accumulate needed [] vs freed = (vs, freed)"
| "accumulate needed (c # rest) vs freed =
    (let vs' = vs @ [c]; freed' = i64 (freed + vs_AllocatedBytes c)
     in if freed' \<ge> needed then (vs', freed') else accumulate needed rest vs' freed')"

definition select_victims :: "int \<Rightarrow> victim_selection list \<Rightarrow> victim_selection list \<times> int" where
  "select_victims needed ordered =
    (case find (\<lambda>v. vs_AllocatedBytes v \<ge> needed) (sort_stable size_before ordered) of
       Some single \<Rightarrow> ([single], vs_AllocatedBytes single)
     | None \<Rightarrow> accumulate needed ordered [] 0)"

section \<open>Code: marking\<close>

definition DefaultRetrySteps :: nat where "DefaultRetrySteps = 5"

definition preempting_condition :: "vgpu_slice \<Rightarrow> int \<Rightarrow> int \<Rightarrow> condition" where
  "preempting_condition requester grace now =
    \<lparr>cd_Type = ''Preempting'', cd_Status = ''True'', cd_Reason = ''HigherPriorityWorkload'',
     cd_Message = ''Preempted by '' @ sl_Namespace requester @ ''/'' @ sl_Name requester @ ''; grace='' @ FormatInt grace @ ''s'',
     cd_LastTransitionTime = now\<rparr>"

text \<open>
  \<open>RetryOnConflict\<close> around a \<open>Get\<close>, a change that may decline (\<open>None\<close>), and a status \<open>Update\<close>.
  \<open>fuel\<close> is the number of attempts left, \<open>i\<close> the attempt's number; the flag is the error.
\<close>

fun retry_update ::
  "nat \<Rightarrow> nat \<Rightarrow> (nat \<Rightarrow> attempt) \<Rightarrow> (vgpu_slice \<Rightarrow> vgpu_slice option) \<Rightarrow> string \<times> string \<Rightarrow> slice_store
   \<Rightarrow> bool \<times> slice_store" where
  "retry_update 0 i env change key store = (True, store)"
| "retry_update (Suc fuel) i env change key store =
    (case get_slice (at_getFails (env i)) store key of
       Found fresh \<Rightarrow>
         (case change fresh of
            None \<Rightarrow> (False, store)
          | Some fresh' \<Rightarrow>
              (case at_update (env i) of
                 UpdateOk \<Rightarrow> (False, gput key fresh' store)
               | UpdateConflict \<Rightarrow> retry_update fuel (Suc i) env change key store
               | UpdateErr \<Rightarrow> (True, store)))
     | _ \<Rightarrow> (True, store))"

definition mark_change :: "vgpu_slice \<Rightarrow> int \<Rightarrow> int \<Rightarrow> vgpu_slice \<Rightarrow> vgpu_slice option" where
  "mark_change requester grace now fresh =
    (if sl_Phase fresh \<noteq> ''Ready'' then None
     else Some (fresh\<lparr>sl_Phase := ''Preempting'',
            sl_Conditions := upsertCondition (sl_Conditions fresh) (preempting_condition requester grace now)\<rparr>))"

definition unmark_change :: "vgpu_slice \<Rightarrow> vgpu_slice option" where
  "unmark_change fresh =
    (if sl_Phase fresh \<noteq> ''Preempting'' then None
     else Some (fresh\<lparr>sl_Phase := ''Ready'',
            sl_Conditions := filter (\<lambda>c. cd_Type c \<noteq> ''Preempting'') (sl_Conditions fresh)\<rparr>))"

fun rollbackPreemptingMarks :: "(nat \<Rightarrow> nat \<Rightarrow> attempt) \<Rightarrow> (nat \<times> victim_selection) list \<Rightarrow> slice_store \<Rightarrow> slice_store" where
  "rollbackPreemptingMarks env [] store = store"
| "rollbackPreemptingMarks env ((i, v) # rest) store =
     rollbackPreemptingMarks env rest
       (snd (retry_update DefaultRetrySteps 0 (env i) unmark_change (slice_key (vs_Slice v)) store))"

fun mark_loop ::
  "preempt_env \<Rightarrow> int \<Rightarrow> vgpu_slice \<Rightarrow> (nat \<times> victim_selection) list \<Rightarrow> (nat \<times> victim_selection) list \<Rightarrow> slice_store
   \<Rightarrow> bool \<times> slice_store" where
  "mark_loop env now requester [] marked store = (False, store)"
| "mark_loop env now requester ((i, v) # rest) marked store =
    (let (err, store') = retry_update DefaultRetrySteps 0 (pe_mark env i)
           (mark_change requester (vs_GraceSeconds v) now) (slice_key (vs_Slice v)) store
     in if err then (True, rollbackPreemptingMarks (pe_unmark env) marked store')
        else mark_loop env now requester rest (marked @ [(i, v)]) store')"

definition markVictimsPreempting ::
  "preempt_env \<Rightarrow> int \<Rightarrow> preemption_plan \<Rightarrow> slice_store \<Rightarrow> bool \<times> slice_store" where
  "markVictimsPreempting env now plan store =
     mark_loop env now (pl_Requester plan) (enumerate 0 (pl_Victims plan)) [] store"

section \<open>Code: the attempt as a whole\<close>

datatype preempt_result = Plan preemption_plan | NoPlan | ListErr | MarkErr

definition cool_down :: "int \<Rightarrow> victim_selection list \<Rightarrow> cooldown \<Rightarrow> cooldown" where
  "cool_down until vs cd =
     fold (\<lambda>v m. gput (victim_key (sl_Namespace (vs_Slice v)) (sl_ClaimRef (vs_Slice v))) until m) vs cd"

definition TryPreempt ::
  "preempt_env \<Rightarrow> int \<Rightarrow> vgpu_slice \<Rightarrow> int \<Rightarrow> vgpu_claim option \<Rightarrow> int \<Rightarrow> cooldown \<Rightarrow> slice_store
   \<Rightarrow> preempt_result \<times> cooldown \<times> slice_store" where
  "TryPreempt env now requester requesterPriority requesterClaim neededBytes cd store =
    (case claimPlanOwnership env now requester store of
       (Inl _, store1) \<Rightarrow> (NoPlan, cd, store1)
     | (Inr False, store1) \<Rightarrow> (NoPlan, cd, store1)
     | (Inr True, store1) \<Rightarrow>
       if (case requesterClaim of None \<Rightarrow> False
           | Some cl \<Rightarrow> in_cooldown cd now (victim_key (sl_Namespace requester) (cl_Name cl)))
       then (NoPlan, cd, store1)
       else (case pe_slices env of
         None \<Rightarrow> (ListErr, cd, store1)
       | Some items \<Rightarrow>
         (let cs = candidates env now requester requesterPriority cd items in
          if cs = [] then (NoPlan, cd, store1)
          else
            (let (vs, freed) = select_victims neededBytes (sort_stable victim_before cs);
                 plan = \<lparr>pl_Requester = requester, pl_Victims = vs, pl_FreedBytes = freed,
                         pl_NeededBytes = neededBytes, pl_CreatedAt = now\<rparr>
             in if freed < neededBytes then (NoPlan, cd, store1)
                else
                  (let (err, store2) = markVictimsPreempting env now plan store1
                   in if err then (MarkErr, cd, store2)
                      else (Plan plan, cool_down (now + PreemptionCooldown) vs cd, store2))))))"

fun cleanup_loop :: "int \<Rightarrow> (string \<times> int) list \<Rightarrow> cooldown \<Rightarrow> cooldown" where
  "cleanup_loop now [] cd = cd"
| "cleanup_loop now ((k, until) # rest) cd = cleanup_loop now rest (if now > until then gdel k cd else cd)"

definition CleanupCooldown :: "int \<Rightarrow> cooldown \<Rightarrow> cooldown" where
  "CleanupCooldown now cd = cleanup_loop now cd cd"

end
