(* ===== verification/PreemptionProps.thy ===== *)
theory PreemptionProps
  imports Preemption
begin

text \<open>
  What the preemptor promises: whom it may evict, how few, what a failed marking leaves behind, and
  who owns a plan.
\<close>

interpretation victim_order: strict_weak victim_before
  by unfold_locales (auto simp: victim_before_def split: if_splits)

interpretation size_order: strict_weak size_before
  unfolding size_before_def by (rule strict_weak_key)

section \<open>Candidates\<close>

definition eligible_victim :: "preempt_env \<Rightarrow> int \<Rightarrow> vgpu_slice \<Rightarrow> int \<Rightarrow> cooldown \<Rightarrow> victim_selection \<Rightarrow> bool" where
  "eligible_victim env now requester prio cd v \<longleftrightarrow>
     sl_Namespace (vs_Slice v) = sl_Namespace requester \<and> sl_Name (vs_Slice v) \<noteq> sl_Name requester \<and>
     sl_Phase (vs_Slice v) = ''Ready'' \<and> 0 < vs_AllocatedBytes v \<and>
     vs_AllocatedBytes v = sl_AllocatedBytes (vs_Slice v) \<and>
     jb_Preemptible (vs_Job v) \<and> vs_Priority v = jb_Priority (vs_Job v) \<and>
     PreemptionPriorityGap \<le> i32 (prio - vs_Priority v) \<and>
     gget [] (sl_Annotations (vs_Slice v)) AnnotationReservationRef = [] \<and>
     gget [] (sl_Annotations (vs_Slice v)) AnnotationGangRef = [] \<and>
     (\<exists>claim. pe_claim env (sl_Namespace (vs_Slice v)) (sl_ClaimRef (vs_Slice v)) = Found claim \<and>
        \<not> in_cooldown cd now (victim_key (sl_Namespace (vs_Slice v)) (cl_Name claim)))"

lemma candidate_eligible:
  "candidate env now requester prio cd s = Some v \<Longrightarrow> sl_Namespace s = sl_Namespace requester \<Longrightarrow>
     eligible_victim env now requester prio cd v \<and> vs_Slice v = s"
  by (auto simp: candidate_def eligible_victim_def split: if_splits api_read.splits)

lemma candidates_mem:
  "v \<in> set (candidates env now requester prio cd items) \<longleftrightarrow>
     (\<exists>s\<in>set items. sl_Namespace s = sl_Namespace requester \<and> candidate env now requester prio cd s = Some v)"
  by (force simp: candidates_def List.map_filter_def)

lemma candidates_eligible:
  "v \<in> set (candidates env now requester prio cd items) \<Longrightarrow> eligible_victim env now requester prio cd v"
  by (auto simp: candidates_mem dest: candidate_eligible)

section \<open>Selection\<close>

definition bytes_of :: "victim_selection list \<Rightarrow> int" where
  "bytes_of vs = (\<Sum>v\<leftarrow>vs. vs_AllocatedBytes v)"

lemma bytes_of_simps [simp]:
  "bytes_of [] = 0" "bytes_of (v # vs) = vs_AllocatedBytes v + bytes_of vs"
  "bytes_of (vs @ ws) = bytes_of vs + bytes_of ws"
  by (simp_all add: bytes_of_def)

lemma bytes_of_nonneg: "(\<And>v. v \<in> set vs \<Longrightarrow> 0 < vs_AllocatedBytes v) \<Longrightarrow> 0 \<le> bytes_of vs"
  by (induction vs) (simp_all add: add_nonneg_nonneg less_imp_le)

lemma bytes_of_mset: "mset vs = mset ws \<Longrightarrow> bytes_of vs = bytes_of ws"
  unfolding bytes_of_def by (metis mset_map sum_mset_sum_list)

text \<open>The accumulation takes a shortest sufficient prefix, or everything.\<close>

lemma accumulate_spec:
  assumes "\<And>v. v \<in> set cs \<Longrightarrow> 0 < vs_AllocatedBytes v" and "0 \<le> freed" and "freed + bytes_of cs < 2 ^ 63"
    and "freed < needed"
  shows "\<exists>k \<le> length cs. accumulate needed cs vs freed = (vs @ take k cs, freed + bytes_of (take k cs)) \<and>
    (freed + bytes_of (take k cs) < needed \<longrightarrow> k = length cs) \<and>
    (\<forall>j < k. freed + bytes_of (take j cs) < needed)"
  using assms
proof (induction cs arbitrary: vs freed)
  case Nil
  then show ?case by simp
next
  case (Cons c cs)
  let ?f = "freed + vs_AllocatedBytes c"
  have nn: "0 \<le> bytes_of cs" using Cons.prems(1) by (intro bytes_of_nonneg) auto
  have c: "0 < vs_AllocatedBytes c" using Cons.prems(1) by simp
  have f: "i64 ?f = ?f" using Cons.prems(2,3) nn c by (intro i64_id) simp_all
  show ?case
  proof (cases "?f \<ge> needed")
    case True
    with f Cons.prems(4) show ?thesis by (intro exI [of _ 1]) (simp add: Let_def)
  next
    case False
    obtain k where k: "k \<le> length cs"
        "accumulate needed cs (vs @ [c]) ?f = ((vs @ [c]) @ take k cs, ?f + bytes_of (take k cs))"
        "?f + bytes_of (take k cs) < needed \<longrightarrow> k = length cs" "\<forall>j < k. ?f + bytes_of (take j cs) < needed"
    proof -
      have "\<exists>k\<le>length cs. accumulate needed cs (vs @ [c]) ?f = ((vs @ [c]) @ take k cs, ?f + bytes_of (take k cs)) \<and>
          (?f + bytes_of (take k cs) < needed \<longrightarrow> k = length cs) \<and> (\<forall>j < k. ?f + bytes_of (take j cs) < needed)"
      proof (rule Cons.IH)
        show "0 < vs_AllocatedBytes v" if "v \<in> set cs" for v using Cons.prems(1) that by simp
      qed (use Cons.prems(2,3) c False in simp_all)
      then show ?thesis using that by blast
    qed
    have "\<forall>j < Suc k. freed + bytes_of (take j (c # cs)) < needed"
    proof (intro allI impI)
      fix j assume "j < Suc k"
      then show "freed + bytes_of (take j (c # cs)) < needed"
        using k(4) Cons.prems(4) by (cases j) (auto simp: add.assoc)
    qed
    note short = this
    have step: "accumulate needed (c # cs) vs freed = accumulate needed cs (vs @ [c]) ?f"
      using f False by (simp add: Let_def)
    show ?thesis
    proof (intro exI [of _ "Suc k"] conjI)
      show "Suc k \<le> length (c # cs)" using k(1) by simp
      show "accumulate needed (c # cs) vs freed = (vs @ take (Suc k) (c # cs), freed + bytes_of (take (Suc k) (c # cs)))"
        unfolding step k(2) by (simp add: add.assoc)
      show "freed + bytes_of (take (Suc k) (c # cs)) < needed \<longrightarrow> Suc k = length (c # cs)"
        using k(3) by (simp add: add.assoc)
    qed (rule short)
  qed
qed

lemma find_covering:
  assumes "find (\<lambda>v. vs_AllocatedBytes v \<ge> needed) (sort_stable size_before cs) = Some v"
  shows "v \<in> set cs" and "needed \<le> vs_AllocatedBytes v"
    and "\<And>w. w \<in> set cs \<Longrightarrow> needed \<le> vs_AllocatedBytes w \<Longrightarrow> vs_AllocatedBytes v \<le> vs_AllocatedBytes w"
proof -
  from assms obtain i where i: "i < length (sort_stable size_before cs)" "needed \<le> vs_AllocatedBytes v"
      "v = sort_stable size_before cs ! i"
      "\<And>j. j < i \<Longrightarrow> \<not> needed \<le> vs_AllocatedBytes (sort_stable size_before cs ! j)"
    by (auto simp: find_Some_iff)
  show "v \<in> set cs" using i(1,3) by (metis nth_mem set_sort_stable)
  show "needed \<le> vs_AllocatedBytes v" by (rule i(2))
  fix w assume "w \<in> set cs" and w: "needed \<le> vs_AllocatedBytes w"
  then obtain j where j: "j < length (sort_stable size_before cs)" "w = sort_stable size_before cs ! j"
    by (metis in_set_conv_nth set_sort_stable)
  with w i(4) have "\<not> j < i" by auto
  then consider "j = i" | "i < j" by linarith
  then show "vs_AllocatedBytes v \<le> vs_AllocatedBytes w"
  proof cases
    case 1
    with i(3) j(2) show ?thesis by simp
  next
    case 2
    have "sorted_wrt (\<lambda>x y. \<not> size_before y x) (sort_stable size_before cs)"
      by (rule size_order.sorted_sort_stable)
    with 2 i(3) j show ?thesis by (auto simp: sorted_wrt_iff_nth_less size_before_def not_less)
  qed
qed

lemma find_covering_None:
  "find (\<lambda>v. vs_AllocatedBytes v \<ge> needed) (sort_stable size_before cs) = None \<Longrightarrow> v \<in> set cs \<Longrightarrow>
     vs_AllocatedBytes v < needed"
  by (auto simp: find_None_iff set_sort_stable)

text \<open>The selection's contract.\<close>

definition minimal_choice :: "int \<Rightarrow> victim_selection list \<Rightarrow> victim_selection list \<Rightarrow> bool" where
  "minimal_choice needed cs vs \<longleftrightarrow>
     (if \<exists>c\<in>set cs. needed \<le> vs_AllocatedBytes c
      then (\<exists>v. vs = [v] \<and> needed \<le> vs_AllocatedBytes v \<and>
              (\<forall>c\<in>set cs. needed \<le> vs_AllocatedBytes c \<longrightarrow> vs_AllocatedBytes v \<le> vs_AllocatedBytes c))
      else (vs = [] \<or> bytes_of (butlast vs) < needed) \<and>
           (\<forall>v\<in>set vs. \<forall>c\<in>set cs. victim_before c v \<longrightarrow> c \<in> set vs))"

lemma select_victims_spec:
  assumes pos: "\<And>v. v \<in> set cs \<Longrightarrow> 0 < vs_AllocatedBytes v" and "bytes_of cs < 2 ^ 63" and "0 < needed"
    and sel: "select_victims needed (sort_stable victim_before cs) = (vs, freed)"
  shows "set vs \<subseteq> set cs" and "freed = bytes_of vs" and "freed < needed \<longrightarrow> bytes_of cs < needed"
    and "needed \<le> freed \<Longrightarrow> minimal_choice needed cs vs"
proof -
  let ?s = "sort_stable victim_before cs"
  have s: "set ?s = set cs" "bytes_of ?s = bytes_of cs"
    by (rule set_sort_stable, rule bytes_of_mset [OF mset_sort_stable])
  have "set vs \<subseteq> set cs \<and> freed = bytes_of vs \<and> (freed < needed \<longrightarrow> bytes_of cs < needed) \<and>
      (needed \<le> freed \<longrightarrow> minimal_choice needed cs vs)"
  proof (cases "find (\<lambda>v. vs_AllocatedBytes v \<ge> needed) (sort_stable size_before ?s)")
    case (Some v)
    note f = find_covering [OF Some, unfolded s]
    from sel Some have "vs = [v]" "freed = vs_AllocatedBytes v" by (simp_all add: select_victims_def)
    moreover have "\<exists>c\<in>set cs. needed \<le> vs_AllocatedBytes c" using f(1,2) by blast
    ultimately show ?thesis using f by (auto simp: minimal_choice_def)
  next
    case None
    have small: "vs_AllocatedBytes c < needed" if "c \<in> set cs" for c
      using find_covering_None [OF None, of c] that s by simp
    obtain k where k: "k \<le> length ?s" "(vs, freed) = (take k ?s, bytes_of (take k ?s))"
        "bytes_of (take k ?s) < needed \<longrightarrow> k = length ?s" "\<forall>j < k. bytes_of (take j ?s) < needed"
    proof -
      have ex: "\<exists>k\<le>length ?s. accumulate needed ?s [] 0 = ([] @ take k ?s, 0 + bytes_of (take k ?s)) \<and>
          (0 + bytes_of (take k ?s) < needed \<longrightarrow> k = length ?s) \<and> (\<forall>j < k. 0 + bytes_of (take j ?s) < needed)"
        by (rule accumulate_spec) (use pos assms(2,3) s in simp_all)
      have acc: "accumulate needed ?s [] 0 = (vs, freed)" using sel None by (simp add: select_victims_def)
      show ?thesis using ex unfolding acc append_Nil add_0 by (elim exE conjE) (rule that)
    qed
    have "bytes_of (butlast vs) < needed" if "vs \<noteq> []"
    proof -
      from that k(2) have "0 < k" by auto
      then have "butlast vs = take (k - 1) ?s" using k(1,2) by (simp add: butlast_take)
      with k(4) \<open>0 < k\<close> show ?thesis by simp
    qed
    moreover have "c \<in> set vs" if "v \<in> set vs" "c \<in> set cs" "victim_before c v" for v c
    proof (rule ccontr)
      assume "c \<notin> set vs"
      with that(2) s k(2) have "c \<in> set (drop k ?s)"
        by (metis Un_iff append_take_drop_id prod.inject set_append)
      moreover have "v \<in> set (take k ?s)" using that(1) k(2) by simp
      moreover have "sorted_wrt (\<lambda>x y. \<not> victim_before y x) (take k ?s @ drop k ?s)"
        using victim_order.sorted_sort_stable by simp
      ultimately have "\<not> victim_before c v" by (simp only: sorted_wrt_append) blast
      with that(3) show False by contradiction
    qed
    ultimately have "minimal_choice needed cs vs" unfolding minimal_choice_def using small by (metis linorder_not_le)
    moreover have "set vs \<subseteq> set cs" using k(2) s by (auto dest: in_set_takeD)
    moreover have "freed = bytes_of vs" using k(2) by simp
    moreover have "bytes_of cs < needed" if "freed < needed"
    proof -
      from that k(2,3) have "k = length ?s" by simp
      with that k(2) s(2) show ?thesis by simp
    qed
    ultimately show ?thesis by blast
  qed
  then show "set vs \<subseteq> set cs" and "freed = bytes_of vs" and "freed < needed \<longrightarrow> bytes_of cs < needed"
    and "needed \<le> freed \<Longrightarrow> minimal_choice needed cs vs" by simp_all
qed


section \<open>Marking\<close>

definition phases :: "slice_store \<Rightarrow> string \<times> string \<Rightarrow> string option" where
  "phases store k = map_option sl_Phase (map_of store k)"

definition healthy :: "(nat \<Rightarrow> nat \<Rightarrow> attempt) \<Rightarrow> bool" where
  "healthy env \<longleftrightarrow> (\<forall>i j. \<not> at_getFails (env i j) \<and> at_update (env i j) = UpdateOk)"

definition vkey :: "nat \<times> victim_selection \<Rightarrow> string \<times> string" where
  "vkey iv = slice_key (vs_Slice (snd iv))"

text \<open>A retried update either failed and wrote nothing, or saw the object and wrote the change once.\<close>

lemma retry_update_cases:
  "retry_update n i env change key store = (err, store') \<Longrightarrow>
     (err \<longrightarrow> store' = store) \<and>
     (\<not> err \<longrightarrow> (\<exists>fresh. map_of store key = Some fresh \<and>
        store' = (case change fresh of None \<Rightarrow> store | Some f \<Rightarrow> gput key f store)))"
  by (induction n i env change key store rule: retry_update.induct)
    (auto simp: get_slice_def split: if_splits option.splits update_result.splits)

lemma retry_update_ok:
  assumes "\<not> at_getFails (env 0)" and "at_update (env 0) = UpdateOk" and "map_of store key = Some fresh"
  shows "retry_update DefaultRetrySteps 0 env change key store =
    (False, case change fresh of None \<Rightarrow> store | Some f \<Rightarrow> gput key f store)"
  using assms by (simp add: DefaultRetrySteps_def eval_nat_numeral get_slice_def split: option.split)

lemma rollback_phases:
  assumes "healthy env" and "distinct (map vkey marked)"
    and "\<And>iv. iv \<in> set marked \<Longrightarrow> phases store (vkey iv) = Some ''Preempting''"
  shows "phases (rollbackPreemptingMarks env marked store) k =
    (if k \<in> vkey ` set marked then Some ''Ready'' else phases store k)"
  using assms(2,3)
proof (induction marked arbitrary: store)
  case Nil
  then show ?case by simp
next
  case (Cons iv marked)
  obtain i v where iv: "iv = (i, v)" by (cases iv)
  from Cons.prems(2) [of iv] obtain s where s: "map_of store (vkey iv) = Some s" "sl_Phase s = ''Preempting''"
    by (auto simp: phases_def)
  define s' where "s' = s\<lparr>sl_Phase := ''Ready'', sl_Conditions := filter (\<lambda>c. cd_Type c \<noteq> ''Preempting'') (sl_Conditions s)\<rparr>"
  define st where "st = gput (vkey iv) s' store"
  have "snd (retry_update DefaultRetrySteps 0 (env i) unmark_change (slice_key (vs_Slice v)) store) = st"
    using assms(1) s by (simp add: iv vkey_def healthy_def retry_update_ok unmark_change_def st_def s'_def)
  then have step: "rollbackPreemptingMarks env (iv # marked) store = rollbackPreemptingMarks env marked st"
    by (simp add: iv)
  have st: "phases st j = (if j = vkey iv then Some ''Ready'' else phases store j)" for j
    by (simp add: st_def phases_def s'_def)
  have fresh: "vkey iv \<notin> vkey ` set marked" using Cons.prems(1) by simp
  have "phases (rollbackPreemptingMarks env marked st) k =
      (if k \<in> vkey ` set marked then Some ''Ready'' else phases st k)"
  proof (rule Cons.IH)
    show "distinct (map vkey marked)" using Cons.prems(1) by simp
    fix jw assume jw: "jw \<in> set marked"
    with fresh have "vkey jw \<noteq> vkey iv" by (metis imageI)
    with Cons.prems(2) [of jw] jw show "phases st (vkey jw) = Some ''Preempting''" by (simp add: st)
  qed
  then show ?case unfolding step by (auto simp: st)
qed

lemma mark_loop_phases:
  assumes "healthy (pe_unmark env)" and "distinct (map vkey (marked @ rest))"
    and "\<And>iv. iv \<in> set (marked @ rest) \<Longrightarrow> phases store0 (vkey iv) = Some ''Ready''"
    and "\<And>k. phases store k = (if k \<in> vkey ` set marked then Some ''Preempting'' else phases store0 k)"
    and "mark_loop env now requester rest marked store = (err, store')"
  shows "phases store' k =
    (if err then phases store0 k else if k \<in> vkey ` set (marked @ rest) then Some ''Preempting'' else phases store0 k)"
  using assms(2-5)
proof (induction rest arbitrary: marked store)
  case Nil
  then show ?case by auto
next
  case (Cons iv rest)
  obtain i v where iv: "iv = (i, v)" by (cases iv)
  let ?change = "mark_change requester (vs_GraceSeconds v) now"
  obtain e st where r: "retry_update DefaultRetrySteps 0 (pe_mark env i) ?change (vkey iv) store = (e, st)"
    by (cases "retry_update DefaultRetrySteps 0 (pe_mark env i) ?change (vkey iv) store")
  note rc = retry_update_cases [OF r]
  have key: "slice_key (vs_Slice v) = vkey iv" by (simp add: vkey_def iv)
  show ?case
  proof (cases e)
    case True
    then have err: "err" and st': "store' = rollbackPreemptingMarks (pe_unmark env) marked store"
      using Cons.prems(4) r rc by (simp_all add: iv key [unfolded iv])
    have "phases store' k = (if k \<in> vkey ` set marked then Some ''Ready'' else phases store k)"
      unfolding st'
    proof (rule rollback_phases [OF assms(1)])
      show "distinct (map vkey marked)" using Cons.prems(1) by simp
      fix jw assume "jw \<in> set marked"
      then show "phases store (vkey jw) = Some ''Preempting''" using Cons.prems(3) [of "vkey jw"] by simp
    qed
    moreover have "phases store0 k = Some ''Ready''" if "k \<in> vkey ` set marked"
      using that Cons.prems(2) by auto
    ultimately show ?thesis using err Cons.prems(3) [of k] by auto
  next
    case False
    have fresh: "vkey iv \<notin> vkey ` set marked" using Cons.prems(1) by auto
    then have "phases store (vkey iv) = Some ''Ready''"
      using Cons.prems(2) [of iv] Cons.prems(3) [of "vkey iv"] by simp
    then obtain s where s: "map_of store (vkey iv) = Some s" "sl_Phase s = ''Ready''" by (auto simp: phases_def)
    have st: "phases st j = (if j = vkey iv then Some ''Preempting'' else phases store j)" for j
      using rc False s by (simp add: mark_change_def phases_def)
    have go: "mark_loop env now requester rest (marked @ [iv]) st = (err, store')"
      using Cons.prems(4) r False by (simp add: iv key [unfolded iv])
    have "phases store' k = (if err then phases store0 k
        else if k \<in> vkey ` set ((marked @ [iv]) @ rest) then Some ''Preempting'' else phases store0 k)"
    proof (rule Cons.IH [OF _ _ _ go])
      show "distinct (map vkey ((marked @ [iv]) @ rest))" using Cons.prems(1) by simp
      show "phases store0 (vkey jw) = Some ''Ready''" if "jw \<in> set ((marked @ [iv]) @ rest)" for jw
        using that Cons.prems(2) by auto
      show "phases st j = (if j \<in> vkey ` set (marked @ [iv]) then Some ''Preempting'' else phases store0 j)" for j
        using Cons.prems(3) [of j] by (auto simp: st)
    qed
    then show ?thesis by simp
  qed
qed

section \<open>The in-flight window\<close>

definition capped_grace :: "vgpu_job \<Rightarrow> int" where
  "capped_grace j = min (grace_of j) MaxGraceSeconds"

lemma max_grace_loop_bounds:
  "m \<le> max_grace_loop js m \<and> (m \<le> MaxGraceSeconds \<longrightarrow> max_grace_loop js m \<le> MaxGraceSeconds) \<and>
     (\<forall>j\<in>set js. jb_Preemptible j \<longrightarrow> capped_grace j \<le> max_grace_loop js m)"
proof (induction js arbitrary: m)
  case Nil
  then show ?case by simp
next
  case (Cons j js)
  show ?case
  proof (cases "jb_Preemptible j")
    case False
    with Cons.IH [of m] show ?thesis by simp
  next
    case True
    have step: "max_grace_loop (j # js) m = max_grace_loop js (max (capped_grace j) m)"
      using True by (simp add: capped_grace_def Let_def max_def min_def)
    have "capped_grace j \<le> MaxGraceSeconds" by (simp add: capped_grace_def)
    with Cons.IH [of "max (capped_grace j) m"] show ?thesis unfolding step by auto
  qed
qed

lemma window_bounds:
  "PreemptionInFlightWindow \<le> effectiveInFlightWindow jobs ns \<and> effectiveInFlightWindow jobs ns \<le> 3630 * 10 ^ 9 \<and>
     (\<forall>items j. jobs = Some items \<and> j \<in> set items \<and> jb_Namespace j = ns \<and> jb_Preemptible j \<longrightarrow>
        (capped_grace j + 30) * 10 ^ 9 \<le> effectiveInFlightWindow jobs ns)"
proof (cases jobs)
  case None
  then show ?thesis by (simp add: effectiveInFlightWindow_def PreemptionInFlightWindow_def)
next
  case (Some items)
  let ?m = "max_grace_loop (filter (\<lambda>j. jb_Namespace j = ns) items) DefaultGraceSeconds"
  note b = max_grace_loop_bounds [of DefaultGraceSeconds "filter (\<lambda>j. jb_Namespace j = ns) items"]
  have m: "30 \<le> ?m" "?m \<le> 3600" using b by (simp_all add: DefaultGraceSeconds_def MaxGraceSeconds_def)
  have "i32 (?m + 30) = ?m + 30" using m by (intro i32_id) simp_all
  moreover have "i64 ((?m + 30) * 10 ^ 9) = (?m + 30) * 10 ^ 9" using m by (intro i64_id) simp_all
  ultimately have w: "effectiveInFlightWindow jobs ns = max PreemptionInFlightWindow ((?m + 30) * 10 ^ 9)"
    by (simp add: effectiveInFlightWindow_def Some Let_def max_def)
  have "capped_grace j \<le> ?m" if "j \<in> set items" "jb_Namespace j = ns" "jb_Preemptible j" for j
    using b that by simp
  then have "(capped_grace j + 30) * 10 ^ 9 \<le> (?m + 30) * 10 ^ 9"
    if "j \<in> set items" "jb_Namespace j = ns" "jb_Preemptible j" for j
    using that by simp
  with m show ?thesis unfolding w by (auto simp: PreemptionInFlightWindow_def Some max_def)
qed


section \<open>Properties\<close>

lemma TryPreempt_PlanD:
  assumes "TryPreempt env now requester prio rc needed cd store = (Plan plan, cd', store')"
  obtains items store1 where "pe_slices env = Some items"
    and "claimPlanOwnership env now requester store = (Inr True, store1)"
    and "select_victims needed (sort_stable victim_before (candidates env now requester prio cd items))
       = (pl_Victims plan, pl_FreedBytes plan)"
    and "needed \<le> pl_FreedBytes plan"
    and "markVictimsPreempting env now plan store1 = (False, store')"
    and "cd' = cool_down (now + PreemptionCooldown) (pl_Victims plan) cd"
proof -
  obtain own store1 where own: "claimPlanOwnership env now requester store = (own, store1)"
    by (cases "claimPlanOwnership env now requester store")
  with assms have "own = Inr True" by (auto simp: TryPreempt_def split: sum.splits bool.splits)
  note own = own [unfolded this]
  with assms obtain items where items: "pe_slices env = Some items"
    by (auto simp: TryPreempt_def split: if_splits option.splits)
  let ?cs = "candidates env now requester prio cd items"
  obtain vs freed where sel: "select_victims needed (sort_stable victim_before ?cs) = (vs, freed)"
    by (cases "select_victims needed (sort_stable victim_before ?cs)")
  let ?plan = "\<lparr>pl_Requester = requester, pl_Victims = vs, pl_FreedBytes = freed, pl_NeededBytes = needed, pl_CreatedAt = now\<rparr>"
  obtain err store2 where mark: "markVictimsPreempting env now ?plan store1 = (err, store2)"
    by (cases "markVictimsPreempting env now ?plan store1")
  from assms own items sel mark have "plan = ?plan" "\<not> err" "needed \<le> freed" "store' = store2"
      "cd' = cool_down (now + PreemptionCooldown) vs cd"
    by (auto simp: TryPreempt_def Let_def split: if_splits option.splits)
  then show ?thesis using that [OF items own] sel mark by simp
qed

text \<open>
  C18. Only eligible victims, and enough of them: every victim of a plan is a Ready, preemptible, solo
  slice of the requester's namespace with a priority at least 100 below the requester's and no
  running cooldown, and the plan's freed bytes are the victims' bytes and cover the need.
\<close>

theorem plan_evicts_eligible_enough:
  assumes "TryPreempt env now requester prio rc needed cd store = (Plan plan, cd', store')"
    and "pe_slices env = Some items" and "0 < needed"
    and "bytes_of (candidates env now requester prio cd items) < 2 ^ 63"
  shows "(\<forall>v\<in>set (pl_Victims plan). eligible_victim env now requester prio cd v) \<and>
    pl_FreedBytes plan = bytes_of (pl_Victims plan) \<and> needed \<le> bytes_of (pl_Victims plan)"
proof -
  let ?cs = "candidates env now requester prio cd items"
  from assms(1,2) have sel: "select_victims needed (sort_stable victim_before ?cs) = (pl_Victims plan, pl_FreedBytes plan)"
      and enough: "needed \<le> pl_FreedBytes plan"
    by (auto elim: TryPreempt_PlanD)
  have pos: "0 < vs_AllocatedBytes v" if "v \<in> set ?cs" for v
    using candidates_eligible [OF that] by (simp add: eligible_victim_def)
  note spec = select_victims_spec [OF pos assms(4,3) sel]
  show ?thesis using spec(1,2) enough candidates_eligible by auto
qed

text \<open>
  The least damage: when one candidate alone covers the need, the plan evicts exactly one, the
  smallest that does; otherwise it takes victims in the order of priority, size and age, and the
  need would not be met without the last one.
\<close>

theorem plan_is_minimal:
  assumes "TryPreempt env now requester prio rc needed cd store = (Plan plan, cd', store')"
    and "pe_slices env = Some items" and "0 < needed"
    and "bytes_of (candidates env now requester prio cd items) < 2 ^ 63"
  shows "minimal_choice needed (candidates env now requester prio cd items) (pl_Victims plan)"
proof -
  let ?cs = "candidates env now requester prio cd items"
  from assms(1,2) have sel: "select_victims needed (sort_stable victim_before ?cs) = (pl_Victims plan, pl_FreedBytes plan)"
      and enough: "needed \<le> pl_FreedBytes plan"
    by (auto elim: TryPreempt_PlanD)
  have pos: "0 < vs_AllocatedBytes v" if "v \<in> set ?cs" for v
    using candidates_eligible [OF that] by (simp add: eligible_victim_def)
  show ?thesis by (rule select_victims_spec(4) [OF pos assms(4,3) sel enough])
qed


text \<open>
  The rollback can undo another plan's mark: a victim that was already Preempting when this plan
  reached it counts as marked, so when the next victim's write fails, the rollback returns the
  first one to Ready although this plan never marked it.
\<close>

theorem rollback_reverts_foreign_mark:
  assumes "map_of store (slice_key (vs_Slice v)) = Some s" and "sl_Phase s = ''Preempting''"
    and "\<not> at_getFails (pe_mark env 0 0)" and "healthy (pe_unmark env)" and "at_getFails (pe_mark env 1 0)"
    and "pl_Victims plan = [v, w]"
  shows "fst (markVictimsPreempting env now plan store) \<and>
    phases (snd (markVictimsPreempting env now plan store)) (slice_key (vs_Slice v)) = Some ''Ready''"
proof -
  let ?k = "slice_key (vs_Slice v)"
  have first: "retry_update DefaultRetrySteps 0 (pe_mark env 0) (mark_change r g now) ?k store = (False, store)" for r g
    using assms(1-3) by (simp add: DefaultRetrySteps_def eval_nat_numeral get_slice_def mark_change_def)
  have second: "retry_update DefaultRetrySteps 0 (pe_mark env 1) ch k' store = (True, store)" for ch k'
    using assms(5) by (simp add: DefaultRetrySteps_def eval_nat_numeral get_slice_def)
  have "markVictimsPreempting env now plan store = (True, rollbackPreemptingMarks (pe_unmark env) [(0, v)] store)"
    using first second by (simp add: markVictimsPreempting_def assms(6) enumerate_simps)
  moreover have "phases (rollbackPreemptingMarks (pe_unmark env) [(0, v)] store) ?k = Some ''Ready''"
    using rollback_phases [OF assms(4), of "[(0, v)]" store ?k] assms(1,2) by (simp add: vkey_def phases_def)
  ultimately show ?thesis by simp
qed

text \<open>
  One plan at a time: once a preemption attempt has stamped its requester, another attempt within
  59 seconds does not own a plan and writes nothing, where RFC 3339 text keeps the stamp's second.
\<close>

theorem ownership_is_exclusive:
  assumes format: "\<forall>t. pe_parse env' (pe_format env t) = Some (t - t mod 10 ^ 9)"
    and "claimPlanOwnership env now requester store = (Inr True, store1)"
    and "now \<le> now'" and "now' < now + 59 * 10 ^ 9" and "\<not> at_getFails (pe_own env')"
  shows "claimPlanOwnership env' now' requester store1 = (Inr False, store1)"
proof -
  from assms(2) obtain fresh where store1: "store1 = gput (slice_key requester) (fresh\<lparr>sl_Annotations :=
      gput AnnotationPreemptionTriggeredAt (pe_format env now) (sl_Annotations fresh)\<rparr>) store"
    by (auto simp: claimPlanOwnership_def Let_def split: api_read.splits if_splits)
  have "60 * 10 ^ 9 \<le> effectiveInFlightWindow (pe_jobs env') (sl_Namespace requester)"
    using window_bounds [of "pe_jobs env'" "sl_Namespace requester"] by (simp add: PreemptionInFlightWindow_def)
  moreover have "now mod 10 ^ 9 < 10 ^ 9" by simp
  ultimately have "now' - (now - now mod 10 ^ 9) < effectiveInFlightWindow (pe_jobs env') (sl_Namespace requester)"
    using assms(4) by linarith
  then show ?thesis
    using assms(1,5) by (simp add: claimPlanOwnership_def store1 get_slice_def)
qed

lemma cool_down_has:
  "v \<in> set vs \<or> map_of cd (victim_key (sl_Namespace (vs_Slice v)) (sl_ClaimRef (vs_Slice v))) = Some until \<Longrightarrow>
     map_of (cool_down until vs cd) (victim_key (sl_Namespace (vs_Slice v)) (sl_ClaimRef (vs_Slice v))) = Some until"
  unfolding cool_down_def by (induction vs arbitrary: cd) (auto split: if_splits)

text \<open>
  A victim is not picked again while it cools down: for the 60 seconds after a plan, no evicted
  slice is a candidate of any later attempt, whichever claim object name the API serves it under
  being the name it was asked by.
\<close>

theorem victims_cool_down:
  assumes "TryPreempt env now requester prio rc needed cd store = (Plan plan, cd', store')"
    and "v \<in> set (pl_Victims plan)" and "now' < now + PreemptionCooldown"
    and "\<forall>ns n claim. pe_claim env' ns n = Found claim \<longrightarrow> cl_Name claim = n"
    and "sl_Namespace s = sl_Namespace (vs_Slice v)" and "sl_ClaimRef s = sl_ClaimRef (vs_Slice v)"
  shows "candidate env' now' requester' prio' cd' s = None"
proof -
  from assms(1) have "cd' = cool_down (now + PreemptionCooldown) (pl_Victims plan) cd" by (rule TryPreempt_PlanD)
  then have "map_of cd' (victim_key (sl_Namespace s) (sl_ClaimRef s)) = Some (now + PreemptionCooldown)"
    using cool_down_has [of v "pl_Victims plan" cd "now + PreemptionCooldown"] assms(2,5,6) by simp
  then have "in_cooldown cd' now' (victim_key (sl_Namespace s) (sl_ClaimRef s))"
    using assms(3) by (simp add: in_cooldown_def)
  then show ?thesis using assms(4) by (auto simp: candidate_def split: api_read.splits)
qed

section \<open>Witnesses\<close>

text \<open>A time text of whole seconds, as the stamps have it.\<close>

definition second_text :: "int \<Rightarrow> string" where
  "second_text t = FormatInt (t - t mod 10 ^ 9)"

definition second_parse :: "string \<Rightarrow> int option" where
  "second_parse s = (case s of [] \<Rightarrow> None | c # cs \<Rightarrow>
     if c = CHR ''-'' then map_option (\<lambda>n. - int n) (parse_digits cs 0) else map_option int (parse_digits s 0))"

lemma second_parse_text: "second_parse (second_text t) = Some (t - t mod 10 ^ 9)"
proof (cases "t - t mod 10 ^ 9 < 0")
  case True
  then show ?thesis
    using parse_show_nat [of "nat (- (t - t mod 10 ^ 9))"]
    by (simp add: second_parse_def second_text_def FormatInt_def)
next
  case False
  obtain c cs where "show_nat (nat (t - t mod 10 ^ 9)) = c # cs" "c \<noteq> CHR ''-''"
    using show_nat_head by blast
  with False parse_show_nat [of "nat (t - t mod 10 ^ 9)"] show ?thesis
    by (simp add: second_parse_def second_text_def FormatInt_def)
qed

definition victim_a :: vgpu_slice where
  "victim_a = slice0\<lparr>sl_Name := ''va'', sl_UID := ''ua'', sl_Phase := ''Ready'', sl_NodeName := ''n1'',
     sl_AllocatedBytes := 50, sl_ClaimRef := ''ca''\<rparr>"

definition victim_b :: vgpu_slice where
  "victim_b = slice0\<lparr>sl_Name := ''vb'', sl_UID := ''ub'', sl_Phase := ''Ready'', sl_NodeName := ''n1'',
     sl_AllocatedBytes := 20, sl_ClaimRef := ''cb''\<rparr>"

definition claim_n :: "string \<Rightarrow> vgpu_claim" where
  "claim_n n = zero_claim\<lparr>cl_Name := n, cl_Namespace := ''ns'', cl_RequestedVRAMBytes := 10, cl_JobRef := ''j''\<rparr>"

definition job_j :: vgpu_job where
  "job_j = zero_job\<lparr>jb_Name := ''j'', jb_Namespace := ''ns'', jb_Priority := 10, jb_Preemptible := True,
     jb_ClaimTemplate := claim_n ''t''\<rparr>"

definition good :: attempt where "good = \<lparr>at_getFails = False, at_update = UpdateOk\<rparr>"
definition bad :: attempt where "bad = \<lparr>at_getFails = True, at_update = UpdateOk\<rparr>"

definition env0 :: preempt_env where
  "env0 = \<lparr>pe_own = good, pe_jobs = Some [], pe_slices = Some [victim_a, victim_b],
     pe_claim = (\<lambda>ns n. Found (claim_n n)), pe_job = (\<lambda>ns n. Found job_j),
     pe_mark = (\<lambda>i j. good), pe_unmark = (\<lambda>i j. good), pe_parse = second_parse, pe_format = second_text\<rparr>"

definition store_ab :: slice_store where
  "store_ab = [((''ns'', ''s''), slice0), ((''ns'', ''va''), victim_a), ((''ns'', ''vb''), victim_b)]"

definition pick :: "vgpu_slice \<Rightarrow> victim_selection" where
  "pick s = \<lparr>vs_Slice = s, vs_Job = job_j, vs_Priority = 10, vs_GraceSeconds = 30, vs_AllocatedBytes = sl_AllocatedBytes s\<rparr>"

lemma candidates_ab: "candidates env0 0 slice0 200 [] [victim_a, victim_b] = [pick victim_a, pick victim_b]"
  by (simp add: candidates_def List.map_filter_def candidate_def env0_def victim_a_def victim_b_def slice0_def claim_n_def zero_claim_def
      job_j_def zero_job_def pick_def grace_of_def DefaultGraceSeconds_def PreemptionPriorityGap_def i32_def in_cooldown_def gget_def)

lemma bytes_ab: "vs_AllocatedBytes (pick victim_a) = 50" "vs_AllocatedBytes (pick victim_b) = 20"
  by (simp_all add: pick_def victim_a_def victim_b_def)

lemma select_ab: "select_victims 30 (sort_stable victim_before [pick victim_a, pick victim_b]) = ([pick victim_a], 50)"
  by (simp add: select_victims_def sort_stable_def victim_before_def size_before_def bytes_ab)

definition plan_a :: preemption_plan where
  "plan_a = \<lparr>pl_Requester = slice0, pl_Victims = [pick victim_a], pl_FreedBytes = 50, pl_NeededBytes = 30, pl_CreatedAt = 0\<rparr>"

definition stamped0 :: vgpu_slice where
  "stamped0 = slice0\<lparr>sl_Annotations := [(AnnotationPreemptionTriggeredAt, second_text 0)]\<rparr>"

definition store_own :: slice_store where
  "store_own = [((''ns'', ''s''), stamped0), ((''ns'', ''va''), victim_a), ((''ns'', ''vb''), victim_b)]"

lemma own_ab: "claimPlanOwnership env0 0 slice0 store_ab = (Inr True, store_own)"
  by (simp add: claimPlanOwnership_def env0_def store_ab_def get_slice_def slice_key_def good_def stamped0_def
      store_own_def slice0_def gput_def)

lemma mark_ab: "fst (markVictimsPreempting env0 0 plan_a store_own) = False"
  by (simp add: markVictimsPreempting_def plan_a_def enumerate_simps env0_def pick_def victim_a_def slice0_def slice_key_def
      store_own_def DefaultRetrySteps_def eval_nat_numeral get_slice_def good_def mark_change_def)

lemma try_ab: "\<exists>cd' store'. TryPreempt env0 0 slice0 200 None 30 [] store_ab = (Plan plan_a, cd', store')"
proof -
  have "pe_slices env0 = Some [victim_a, victim_b]" by (simp add: env0_def)
  then show ?thesis
    using own_ab mark_ab
    by (cases "markVictimsPreempting env0 0 plan_a store_own")
      (simp add: TryPreempt_def candidates_ab select_ab Let_def flip: plan_a_def)
qed

definition cd_a :: cooldown where "cd_a = fst (snd (TryPreempt env0 0 slice0 200 None 30 [] store_ab))"
definition store_a :: slice_store where "store_a = snd (snd (TryPreempt env0 0 slice0 200 None 30 [] store_ab))"

lemma try_a: "TryPreempt env0 0 slice0 200 None 30 [] store_ab = (Plan plan_a, cd_a, store_a)"
  using try_ab by (auto simp: cd_a_def store_a_def)

lemma slices_ab: "pe_slices env0 = Some [victim_a, victim_b]"
  by (simp add: env0_def)

lemma few_bytes: "bytes_of (candidates env0 0 slice0 200 [] [victim_a, victim_b]) < 2 ^ 63"
  by (simp add: candidates_ab bytes_ab)

theorem plan_evicts_eligible_enough_witness:
  "eligible_victim env0 0 slice0 200 [] (pick victim_a) \<and> (30 :: int) \<le> bytes_of [pick victim_a]"
  using plan_evicts_eligible_enough [OF try_a slices_ab _ few_bytes] by (simp add: plan_a_def)

theorem plan_is_minimal_witness:
  "minimal_choice 30 (candidates env0 0 slice0 200 [] [victim_a, victim_b]) [pick victim_a]"
  using plan_is_minimal [OF try_a slices_ab _ few_bytes] by (simp add: plan_a_def)

definition plan_ab :: preemption_plan where
  "plan_ab = plan_a\<lparr>pl_Victims := [pick victim_a, pick victim_b]\<rparr>"

definition env_fail :: preempt_env where
  "env_fail = env0\<lparr>pe_mark := (\<lambda>i j. if i = 1 then bad else good)\<rparr>"

lemma healthy_fail: "healthy (pe_unmark env_fail)"
  by (simp add: env_fail_def env0_def good_def healthy_def)

lemma keys_ab: "slice_key (vs_Slice (pick victim_a)) = (''ns'', ''va'')" "slice_key (vs_Slice (pick victim_b)) = (''ns'', ''vb'')"
  by (simp_all add: pick_def victim_a_def victim_b_def slice_key_def slice0_def)

lemma phases_ab: "phases store_ab (''ns'', ''va'') = Some ''Ready''" "phases store_ab (''ns'', ''vb'') = Some ''Ready''"
  by (simp_all add: phases_def store_ab_def victim_a_def victim_b_def)


definition store_foreign :: slice_store where
  "store_foreign = gput (''ns'', ''va'') (victim_a\<lparr>sl_Phase := ''Preempting''\<rparr>) store_ab"

theorem rollback_reverts_foreign_mark_witness:
  "phases store_foreign (''ns'', ''va'') = Some ''Preempting'' \<and>
   phases (snd (markVictimsPreempting env_fail 0 plan_ab store_foreign)) (''ns'', ''va'') = Some ''Ready''"
  using rollback_reverts_foreign_mark [of store_foreign "pick victim_a" "victim_a\<lparr>sl_Phase := ''Preempting''\<rparr>" env_fail
      plan_ab "pick victim_b" 0] healthy_fail
  by (simp add: keys_ab store_foreign_def plan_ab_def env_fail_def good_def bad_def phases_def)

theorem ownership_is_exclusive_witness:
  "claimPlanOwnership env0 (10 ^ 9) slice0 store_own = (Inr False, store_own)"
proof (rule ownership_is_exclusive [OF _ own_ab])
  show "\<forall>t. pe_parse env0 (pe_format env0 t) = Some (t - t mod 10 ^ 9)"
    by (simp add: env0_def second_parse_text)
qed (simp_all add: env0_def good_def)

theorem victims_cool_down_witness: "candidate env0 1 slice0 200 cd_a victim_a = None"
  by (rule victims_cool_down [OF try_a, of "pick victim_a"])
    (simp_all add: plan_a_def PreemptionCooldown_def env0_def claim_n_def zero_claim_def pick_def)

end
