(* ===== verification/SliceScheduler.thy ===== *)
theory SliceScheduler
  imports Reservation Scoring Quota GangProps PreemptionProps
begin

text \<open>
  \<open>internal/scheduler/plugin.go\<close>: one scheduling cycle of a slice, composed of the quota check, the
  cache, the scoring, the gang gate, the preemptor and the bind. Every client call of the cycle is
  a field of \<open>sched_env\<close>, as are the clock readings; \<open>se_gap\<close> stands for what the other goroutines
  (the reaper, the informer's handlers, other cycles) do to the cache between this cycle's locked
  sections. What a cycle writes to the API server is the list of \<open>api_effect\<close>s it returns.
\<close>

section \<open>Code: data\<close>

definition TopologyPreferredZoneAnnotation :: string where
  "TopologyPreferredZoneAnnotation = ''topology.vgpu.pranav2910.com/preferred-zone''"

definition reserverTTL :: int where "reserverTTL = 30 * 10 ^ 9"
definition gangHoldTTL :: int where "gangHoldTTL = 50 * 10 ^ 9"
definition bindPinTTL :: int where "bindPinTTL = 30 * 10 ^ 9"

datatype api_effect = PatchSpec vgpu_slice | PatchStatus vgpu_slice

datatype bind_error = BindGetFailed | BindPatchFailed | BindStatusPatchFailed

datatype schedule_result =
    Bound string
  | CacheNotReady
  | QuotaContextError
  | QuotaRejected quota_check
  | PreemptionInProgress preemption_plan
  | NoNodeFits int
  | NoScores
  | ReserveFailed cache_error
  | GateReadFailed
  | GateUndetermined
  | GangDeferred gate_reason
  | GangRejected gate_reason
  | HoldLost
  | BindFailed bind_error

record sched_state =
  ss_cache :: vram_cache
  ss_gate :: gang_gate
  ss_cooldown :: cooldown
  ss_store :: slice_store

text \<open>Which optional parts are wired in (the nil checks).\<close>

record sched_config =
  sf_quota :: bool
  sf_preemptor :: bool
  sf_gate :: bool

record sched_env =
  se_quotaSlice :: "vgpu_slice api_read"
  se_quotaRsv :: "vgpu_gang_reservation api_read"
  se_quotas :: "vgpu_quota list option"
  se_quotaSlices :: "vgpu_slice list option"
  se_memberSlice :: "vgpu_slice api_read"
  se_preemptSlice :: "vgpu_slice api_read"
  se_preemptClaim :: "vgpu_claim api_read"
  se_preemptJob :: "vgpu_job api_read"
  se_preempt :: preempt_env
  se_zoneSlice :: "vgpu_slice api_read"
  se_gateSlice :: "vgpu_slice api_read"
  se_gateRsv :: "vgpu_gang_reservation api_read"
  se_bindSlice :: "vgpu_slice api_read"
  se_bindPatch :: api_write
  se_bindStatus :: api_write
  se_now :: "nat \<Rightarrow> int"
  se_gap :: "nat \<Rightarrow> vram_cache \<Rightarrow> vram_cache"

section \<open>Code: reads\<close>

text \<open>\<open>None\<close> is the error return of \<open>gangQuotaContext\<close>.\<close>

definition gangQuotaContext ::
  "vgpu_slice api_read \<Rightarrow> vgpu_gang_reservation api_read \<Rightarrow> int \<Rightarrow> (string \<times> int) option" where
  "gangQuotaContext sliceRead rsvRead reqBytes =
    (case sliceRead of
       NotFound \<Rightarrow> Some ([], 0)
     | ReadErr \<Rightarrow> None
     | Found slice \<Rightarrow>
         (let gangRef = annotation slice AnnotationGangRef;
              rsvName = annotation slice AnnotationReservationRef
          in if gangRef = [] \<or> rsvName = [] then Some ([], 0)
             else case rsvRead of
               NotFound \<Rightarrow> Some ([], 0)
             | ReadErr \<Rightarrow> None
             | Found rsv \<Rightarrow>
                 if rv_GangSize rsv \<le> 0 then Some ([], 0)
                 else Some (gangRef, i64 (rv_GangSize rsv * reqBytes))))"

definition slicePreferredZone :: "vgpu_slice api_read \<Rightarrow> string" where
  "slicePreferredZone rd =
    (case rd of Found slice \<Rightarrow> annotation slice TopologyPreferredZoneAnnotation | _ \<Rightarrow> [])"

definition isGangMember :: "vgpu_slice api_read \<Rightarrow> bool" where
  "isGangMember rd = (case rd of Found slice \<Rightarrow> annotation slice AnnotationReservationRef \<noteq> [] | _ \<Rightarrow> False)"

definition tryPreemptionForSlice ::
  "sched_env \<Rightarrow> int \<Rightarrow> int \<Rightarrow> cooldown \<Rightarrow> slice_store \<Rightarrow> preempt_result option \<times> cooldown \<times> slice_store" where
  "tryPreemptionForSlice env now neededBytes cd store =
    (case se_preemptSlice env of
       Found slice \<Rightarrow>
         (let claim = (if sl_ClaimRef slice \<noteq> []
                then (case se_preemptClaim env of Found c \<Rightarrow> c | _ \<Rightarrow> zero_claim) else zero_claim);
              prio = (if sl_ClaimRef slice \<noteq> [] \<and> cl_JobRef claim \<noteq> []
                then (case se_preemptJob env of Found j \<Rightarrow> jb_Priority j | _ \<Rightarrow> 50) else 50);
              (r, cd', store') = TryPreempt (se_preempt env) now slice prio (Some claim) neededBytes cd store
          in (Some r, cd', store'))
     | _ \<Rightarrow> (None, cd, store))"

section \<open>Code: the bind\<close>

definition quoted :: "string \<Rightarrow> string" where
  "quoted t = CHR 0x22 # t @ [CHR 0x22]"

definition topology_condition :: "string \<Rightarrow> string \<Rightarrow> int \<Rightarrow> condition" where
  "topology_condition pref placed now =
    (if placed = pref
     then \<lparr>cd_Type = ''TopologyPreferenceSatisfied'', cd_Status = ''True'', cd_Reason = ''PreferredZoneHonored'',
           cd_Message = ''scheduled in preferred zone '' @ quoted pref, cd_LastTransitionTime = now\<rparr>
     else \<lparr>cd_Type = ''TopologyPreferenceSatisfied'', cd_Status = ''False'', cd_Reason = ''TopologyPreferenceMiss'',
           cd_Message = ''preferred zone '' @ quoted pref @ '' unavailable; scheduled in zone '' @ quoted placed,
           cd_LastTransitionTime = now\<rparr>)"

definition bindToKubernetesAPI ::
  "vgpu_slice api_read \<Rightarrow> api_write \<Rightarrow> api_write \<Rightarrow> int \<Rightarrow> vram_cache \<Rightarrow> string
   \<Rightarrow> bind_error option \<times> api_effect list" where
  "bindToKubernetesAPI rd patch statusPatch now cache nodeName =
    (case rd of
       Found target \<Rightarrow>
         (let t1 = target\<lparr>sl_NodeName := nodeName\<rparr> in
          if patch = WriteErr then (Some BindPatchFailed, [])
          else
            (let t2 = t1\<lparr>sl_Phase := ''Scheduled''\<rparr>;
                 pref = annotation t2 TopologyPreferredZoneAnnotation;
                 t3 = (if pref \<noteq> []
                       then t2\<lparr>sl_Conditions := upsertCondition (sl_Conditions t2)
                              (topology_condition pref (NodeZone cache nodeName) now)\<rparr>
                       else t2)
             in if statusPatch = WriteErr then (Some BindStatusPatchFailed, [PatchSpec t1])
                else (None, [PatchSpec t1, PatchStatus t3])))
     | _ \<Rightarrow> (Some BindGetFailed, []))"

text \<open>
  The gate's part of \<open>gateAndBind\<close>: \<open>Inl\<close> ends the cycle with a result, with the transaction held or
  not; \<open>Inr\<close> goes on to the bind.
\<close>

definition gate_step ::
  "sched_config \<Rightarrow> sched_env \<Rightarrow> string \<Rightarrow> int \<Rightarrow> reservation_tx \<Rightarrow> gang_gate
   \<Rightarrow> (schedule_result \<times> reservation_tx + reservation_tx) \<times> gang_gate" where
  "gate_step cfg env node reqBytes tx g =
    (if \<not> sf_gate cfg then (Inr tx, g)
     else case se_gateSlice env of
       Found slice \<Rightarrow>
         (let ((res, reason, err), g') =
                CheckSliceWithCohort (se_now env 2) (se_now env 3) (se_gateRsv env) (Some slice) node reqBytes g
          in (if err then Inl (GateUndetermined, tx)
              else case res of
                GangRetry \<Rightarrow> Inl (GangDeferred reason, tx)
              | GangBindDeferred \<Rightarrow> Inl (GangDeferred reason, MarkHeld tx)
              | GangBindWait \<Rightarrow> Inl (GangDeferred reason, tx)
              | GangBindRejected \<Rightarrow> Inl (GangRejected reason, tx)
              | GangBindAllowed \<Rightarrow> Inr tx
              | GangNotApplicable \<Rightarrow> Inr tx, g'))
     | _ \<Rightarrow> (Inl (GateReadFailed, tx), g))"

definition gateAndBind ::
  "sched_config \<Rightarrow> sched_env \<Rightarrow> string \<Rightarrow> string \<Rightarrow> int \<Rightarrow> reservation_tx \<Rightarrow> vram_cache \<Rightarrow> gang_gate
   \<Rightarrow> schedule_result \<times> reservation_tx \<times> vram_cache \<times> gang_gate \<times> api_effect list" where
  "gateAndBind cfg env sliceUID node reqBytes tx cache g =
    (case gate_step cfg env node reqBytes tx g of
       (Inl (res, tx'), g') \<Rightarrow> (res, tx', se_gap env 1 cache, g', [])
     | (Inr tx', g') \<Rightarrow>
         (case PinAssumption sliceUID bindPinTTL (se_now env 4) (se_gap env 1 cache) of
            (None, c1) \<Rightarrow> (HoldLost, tx', c1, g', [])
          | (Some _, c1) \<Rightarrow>
              (case bindToKubernetesAPI (se_bindSlice env) (se_bindPatch env) (se_bindStatus env) (se_now env 5) c1 node of
                 (Some e, eff) \<Rightarrow> (BindFailed e, tx', se_gap env 2 c1, g', eff)
               | (None, eff) \<Rightarrow>
                   (let (tx'', c2) = Confirm (se_now env 6) tx' (se_gap env 2 c1)
                    in (Bound node, tx'', c2, g', eff)))))"

text \<open>\<open>gateAndBind\<close> under the deferred rollback of its caller.\<close>

definition gate_and_finish ::
  "sched_config \<Rightarrow> sched_env \<Rightarrow> string \<Rightarrow> string \<Rightarrow> int \<Rightarrow> reservation_tx \<Rightarrow> sched_state
   \<Rightarrow> schedule_result \<times> sched_state \<times> api_effect list" where
  "gate_and_finish cfg env sliceUID node reqBytes tx s =
    (let (res, tx', c, g, eff) = gateAndBind cfg env sliceUID node reqBytes tx (ss_cache s) (ss_gate s)
     in (res, s\<lparr>ss_cache := RollbackIfNotConfirmed tx' c, ss_gate := g\<rparr>, eff))"

definition no_capacity ::
  "sched_config \<Rightarrow> sched_env \<Rightarrow> int \<Rightarrow> sched_state \<Rightarrow> schedule_result \<times> sched_state \<times> api_effect list" where
  "no_capacity cfg env reqBytes s =
    (if sf_preemptor cfg \<and> \<not> isGangMember (se_memberSlice env) then
       (let (r, cd, store) = tryPreemptionForSlice env (se_now env 7) reqBytes (ss_cooldown s) (ss_store s);
            s' = s\<lparr>ss_cooldown := cd, ss_store := store\<rparr>
        in (case r of Some (Plan p) \<Rightarrow> (PreemptionInProgress p, s', []) | _ \<Rightarrow> (NoNodeFits reqBytes, s', [])))
     else (NoNodeFits reqBytes, s, []))"

definition fresh_attempt ::
  "sched_config \<Rightarrow> sched_env \<Rightarrow> string \<Rightarrow> string \<Rightarrow> int \<Rightarrow> bool \<Rightarrow> sched_state
   \<Rightarrow> schedule_result \<times> sched_state \<times> api_effect list" where
  "fresh_attempt cfg env ns sliceUID reqBytes bestEffort s =
    (let c = ss_cache s;
         validNodes = filter (\<lambda>node. CanFit c node reqBytes = Fits) (ListNodes c)
     in if validNodes = [] then no_capacity cfg env reqBytes s
        else case ScoreWithTopology c validNodes reqBytes bestEffort (slicePreferredZone (se_zoneSlice env)) of
          [] \<Rightarrow> (NoScores, s, [])
        | winner # _ \<Rightarrow>
            (case Reserve reserverTTL sliceUID ns (sc_NodeName winner) reqBytes (se_now env 1) (se_gap env 0 c) of
               Inl e \<Rightarrow> (ReserveFailed e, s\<lparr>ss_cache := se_gap env 0 c\<rparr>, [])
             | Inr (tx, c') \<Rightarrow>
                 gate_and_finish cfg env sliceUID (sc_NodeName winner) reqBytes tx (s\<lparr>ss_cache := c'\<rparr>)))"

definition quota_gate :: "sched_config \<Rightarrow> sched_env \<Rightarrow> string \<Rightarrow> int \<Rightarrow> vram_cache \<Rightarrow> schedule_result option" where
  "quota_gate cfg env ns reqBytes c =
    (if \<not> sf_quota cfg then None
     else case gangQuotaContext (se_quotaSlice env) (se_quotaRsv env) reqBytes of
       None \<Rightarrow> Some QuotaContextError
     | Some (gangRef, gangTotal) \<Rightarrow>
         (case Check ns reqBytes gangRef gangTotal (se_quotas env) (se_quotaSlices env) (Some c) of
            QuotaOk \<Rightarrow> None
          | q \<Rightarrow> Some (QuotaRejected q)))"

definition Schedule ::
  "sched_config \<Rightarrow> sched_env \<Rightarrow> string \<Rightarrow> string \<Rightarrow> int \<Rightarrow> bool \<Rightarrow> sched_state
   \<Rightarrow> schedule_result \<times> sched_state \<times> api_effect list" where
  "Schedule cfg env ns sliceUID reqBytes bestEffort s =
    (if \<not> IsSeeded (ss_cache s) then (CacheNotReady, s, [])
     else case quota_gate cfg env ns reqBytes (ss_cache s) of
       Some r \<Rightarrow> (r, s, [])
     | None \<Rightarrow>
         (case PinAssumption sliceUID gangHoldTTL (se_now env 0) (ss_cache s) of
            (Some (heldNode, heldBytes), c1) \<Rightarrow>
              gate_and_finish cfg env sliceUID heldNode heldBytes
                (NewReservationTxForHeld sliceUID ns heldNode heldBytes) (s\<lparr>ss_cache := c1\<rparr>)
          | (None, c1) \<Rightarrow> fresh_attempt cfg env ns sliceUID reqBytes bestEffort (s\<lparr>ss_cache := c1\<rparr>)))"

definition SyncCacheFromSlice :: "string \<Rightarrow> string \<Rightarrow> string \<Rightarrow> int \<Rightarrow> vram_cache \<Rightarrow> vram_cache" where
  "SyncCacheFromSlice sliceUID nodeName phase allocatedBytes c =
    (if phase = ''Ready'' then snd (PromoteSliceToAllocatedOnce sliceUID nodeName allocatedBytes c)
     else if phase = ''Released'' then ReleaseSliceOnce sliceUID nodeName c
     else if phase = ''Failed'' then FailSliceOnce sliceUID nodeName c
     else c)"

end
