(* ===== verification/SchedulerProps.thy ===== *)
theory SchedulerProps
  imports SliceScheduler
begin

text \<open>
  The properties of a whole scheduling cycle: what it may write, when, and what it leaves in the
  cache. They rest on the ledger's, the reservation's and the gate's properties.
\<close>

section \<open>Holds\<close>

lemma IsAssumed_None: "IsAssumed c uid = None \<longleftrightarrow> map_of (assumedBySlice c) uid = None"
  by (simp add: IsAssumed_def)

lemma IsAssumed_after_rollback [simp]: "IsAssumed (RollbackAssumedSlice uid c) uid = None"
  by (simp add: RollbackAssumedSlice_def IsAssumed_def Let_def split: option.splits)

lemma IsAssumed_after_confirm [simp]: "IsAssumed (snd (ConfirmSliceOrRearm uid ns k b now c)) uid = None"
  by (simp add: ConfirmSliceOrRearm_def IsAssumed_def Let_def split: option.splits)

lemma register_reason:
  "fst (fst (register_member now key n slice node bytes sz g)) = GangBindDeferred \<Longrightarrow>
     \<exists>a b. snd (fst (register_member now key n slice node bytes sz g)) = HoldingMembers n a b"
  by (simp add: register_member_def Let_def split: if_splits)

lemma deferred_reason:
  assumes "fst (fst (CheckSliceWithCohort t0 now rd so node bytes g)) = GangBindDeferred"
  shows "\<exists>n a b. fst (snd (fst (CheckSliceWithCohort t0 now rd so node bytes g))) = HoldingMembers n a b"
proof (cases rule: CheckSlice_cases [of t0 now rd so node bytes g])
  case (locked slice rsv n)
  note eq = locked(5) [unfolded Let_def]
  from assms have d: "fst (fst (check_locked t0 now (cohort_key slice n) (gang_priority slice) n slice node bytes rsv g)) = GangBindDeferred"
    by (simp add: eq)
  let ?d = "decide_state t0 now (cohort_key slice n) (gang_priority slice) rsv g"
  have "fst (check_locked t0 now (cohort_key slice n) (gang_priority slice) n slice node bytes rsv g) =
      fst (register_member now (cohort_key slice n) n slice node bytes (rv_GangSize rsv) ?d)"
    using d by (auto simp: check_locked_decide Let_def split: if_splits)
  with d register_reason [of now "cohort_key slice n" n slice node bytes "rv_GangSize rsv" ?d] show ?thesis
    by (auto simp: eq)
qed (use assms in simp_all)

definition holding :: "schedule_result \<Rightarrow> bool" where
  "holding r \<longleftrightarrow> (\<exists>n a b. r = GangDeferred (HoldingMembers n a b))"

text \<open>The gate passes the transaction on unchanged, except that a deferral marks it held.\<close>

lemma gate_step_tx:
  "case fst (gate_step cfg env node b tx g) of
     Inr tx' \<Rightarrow> tx' = tx
   | Inl (r, tx') \<Rightarrow> tx' = tx \<or> (tx' = MarkHeld tx \<and> holding r)"
proof (cases "sf_gate cfg")
  case False
  then show ?thesis by (simp add: gate_step_def)
next
  case gate: True
  show ?thesis
  proof (cases "se_gateSlice env")
    case (Found slice)
    obtain res reason err g' where r: "CheckSliceWithCohort (se_now env 2) (se_now env 3) (se_gateRsv env) (Some slice) node b g
        = ((res, reason, err), g')"
      by (cases "CheckSliceWithCohort (se_now env 2) (se_now env 3) (se_gateRsv env) (Some slice) node b g") auto
    have "res = GangBindDeferred \<Longrightarrow> \<exists>n a c. reason = HoldingMembers n a c"
      using deferred_reason [of "se_now env 2" "se_now env 3" "se_gateRsv env" "Some slice" node b g] r by simp
    then show ?thesis
      using gate Found r by (cases res) (auto simp: gate_step_def holding_def)
  qed (use gate in \<open>simp_all add: gate_step_def\<close>)
qed

lemma gate_and_finish_hold:
  assumes "tx_SliceUID tx = uid" and fresh: "\<not> tx_confirmed tx" "\<not> tx_held tx" and "gate_and_finish cfg env uid node b tx s = (r, s', eff)"
  shows "IsAssumed (ss_cache s') uid = None \<or> (holding r \<and> eff = [])"
proof -
  obtain d g where d: "gate_step cfg env node b tx (ss_gate s) = (d, g)"
    by (cases "gate_step cfg env node b tx (ss_gate s)")
  note tx = gate_step_tx [where cfg = cfg and env = env and node = node and b = b and tx = tx and g = "ss_gate s",
      unfolded d fst_conv]
  show ?thesis
  proof (cases d)
    case (Inl x)
    obtain r1 tx' where x: "x = (r1, tx')" by (cases x)
    from assms(4) d Inl x have "r = r1" "eff = []" "ss_cache s' = RollbackIfNotConfirmed tx' (se_gap env 1 (ss_cache s))"
      by (auto simp: gate_and_finish_def gateAndBind_def)
    moreover have "tx' = tx \<or> holding r1" using tx Inl x by auto
    ultimately show ?thesis
      using assms(1) fresh tx Inl x by (auto simp: RollbackIfNotConfirmed_def)
  next
    case (Inr tx')
    then have tx': "tx' = tx" using tx by simp
    let ?c = "se_gap env 1 (ss_cache s)"
    obtain p c1 where p: "PinAssumption uid bindPinTTL (se_now env 4) ?c = (p, c1)"
      by (cases "PinAssumption uid bindPinTTL (se_now env 4) ?c")
    obtain e ef where e: "bindToKubernetesAPI (se_bindSlice env) (se_bindPatch env) (se_bindStatus env) (se_now env 5) c1 node = (e, ef)"
      by (cases "bindToKubernetesAPI (se_bindSlice env) (se_bindPatch env) (se_bindStatus env) (se_now env 5) c1 node")
    show ?thesis
      using assms d Inr tx' p e
      by (cases p; cases e) (auto simp: gate_and_finish_def gateAndBind_def Confirm_def RollbackIfNotConfirmed_def Let_def)
  qed
qed


lemma PinAssumption_None: "PinAssumption uid ttl now c = (None, c1) \<Longrightarrow> c1 = c \<and> IsAssumed c uid = None"
  by (auto simp: PinAssumption_def IsAssumed_def split: option.splits)

lemma PinAssumption_Some:
  "PinAssumption uid ttl now c = (Some h, c1) \<Longrightarrow> IsAssumed c uid = Some h \<and> IsAssumed c1 uid = Some h"
  using IsAssumed_Pin [of uid ttl now c] by auto

text \<open>A cycle that wrote anything went through the gate with leave to bind.\<close>

lemma gate_and_finish_writes:
  assumes "gate_and_finish cfg env uid node b tx s = (r, s', eff)" and "eff \<noteq> []"
  shows "\<exists>tx'. gate_step cfg env node b tx (ss_gate s) = (Inr tx', ss_gate s')"
proof -
  obtain d g where d: "gate_step cfg env node b tx (ss_gate s) = (d, g)"
    by (cases "gate_step cfg env node b tx (ss_gate s)")
  obtain p c1 where p: "PinAssumption uid bindPinTTL (se_now env 4) (se_gap env 1 (ss_cache s)) = (p, c1)"
    by (cases "PinAssumption uid bindPinTTL (se_now env 4) (se_gap env 1 (ss_cache s))")
  show ?thesis
    using assms d p
    by (cases d; cases p) (auto simp: gate_and_finish_def gateAndBind_def Let_def split: prod.splits option.splits)
qed

lemma Schedule_cases:
  assumes "Schedule cfg env ns uid req be s = (r, s', eff)"
  obtains (refused) "s' = s" and "eff = []" and "r = CacheNotReady \<or> (\<exists>q. r = QuotaRejected q) \<or> r = QuotaContextError"
  | (held) k b c1 where "PinAssumption uid gangHoldTTL (se_now env 0) (ss_cache s) = (Some (k, b), c1)"
      and "gate_and_finish cfg env uid k b (NewReservationTxForHeld uid ns k b) (s\<lparr>ss_cache := c1\<rparr>) = (r, s', eff)"
      and "IsSeeded (ss_cache s)" and "quota_gate cfg env ns req (ss_cache s) = None"
  | (fresh) "IsAssumed (ss_cache s) uid = None" and "fresh_attempt cfg env ns uid req be s = (r, s', eff)"
      and "IsSeeded (ss_cache s)" and "quota_gate cfg env ns req (ss_cache s) = None"
proof -
  consider "\<not> IsSeeded (ss_cache s)"
    | q where "IsSeeded (ss_cache s)" "quota_gate cfg env ns req (ss_cache s) = Some q"
    | "IsSeeded (ss_cache s)" "quota_gate cfg env ns req (ss_cache s) = None" by (cases "quota_gate cfg env ns req (ss_cache s)") auto
  then show ?thesis
  proof cases
    case 1
    with assms show ?thesis by (intro refused) (simp_all add: Schedule_def)
  next
    case 2
    moreover have "(\<exists>v. q = QuotaRejected v) \<or> q = QuotaContextError"
      using 2(2) by (auto simp: quota_gate_def split: if_splits option.splits quota_check.splits)
    ultimately show ?thesis using assms by (intro refused) (auto simp: Schedule_def)
  next
    case 3
    obtain p c1 where p: "PinAssumption uid gangHoldTTL (se_now env 0) (ss_cache s) = (p, c1)"
      by (cases "PinAssumption uid gangHoldTTL (se_now env 0) (ss_cache s)")
    show ?thesis
    proof (cases p)
      case None
      with p have "c1 = ss_cache s" "IsAssumed (ss_cache s) uid = None" by (auto dest: PinAssumption_None)
      with assms 3 p None show ?thesis by (intro fresh) (simp_all add: Schedule_def)
    next
      case (Some h)
      obtain k b where "h = (k, b)" by (cases h)
      with assms 3 p Some show ?thesis by (intro held) (simp_all add: Schedule_def)
    qed
  qed
qed

lemma fresh_attempt_cases:
  assumes "fresh_attempt cfg env ns uid req be s = (r, s', eff)"
  obtains (unplaced) "\<forall>k\<in>set (ListNodes (ss_cache s)). CanFit (ss_cache s) k req \<noteq> Fits"
      and "no_capacity cfg env req s = (r, s', eff)"
  | (stopped) "eff = []" and "r = NoScores \<and> s' = s \<or> (\<exists>e. r = ReserveFailed e) \<and> s' = s\<lparr>ss_cache := se_gap env 0 (ss_cache s)\<rparr>"
  | (reserved) k tx c' where "CanFit (ss_cache s) k req = Fits"
      and "Reserve reserverTTL uid ns k req (se_now env 1) (se_gap env 0 (ss_cache s)) = Inr (tx, c')"
      and "gate_and_finish cfg env uid k req tx (s\<lparr>ss_cache := c'\<rparr>) = (r, s', eff)"
proof -
  let ?vs = "filter (\<lambda>node. CanFit (ss_cache s) node req = Fits) (ListNodes (ss_cache s))"
  let ?z = "slicePreferredZone (se_zoneSlice env)"
  show ?thesis
  proof (cases "?vs = []")
    case True
    have "no_capacity cfg env req s = (r, s', eff)" using assms True by (simp add: fresh_attempt_def Let_def)
    with True show ?thesis by (intro unplaced) (auto simp: filter_empty_conv)
  next
    case ne: False
    show ?thesis
    proof (cases "ScoreWithTopology (ss_cache s) ?vs req be ?z")
      case Nil
      with assms ne show ?thesis by (intro stopped) (auto simp: fresh_attempt_def Let_def)
    next
      case (Cons w ws)
      have "w \<in> set (ScoreWithTopology (ss_cache s) ?vs req be ?z)" using Cons by simp
      then have "CanFit (ss_cache s) (sc_NodeName w) req = Fits"
        by (auto simp: ScoreWithTopology_def set_sort_stable score_loop_mem)
      moreover obtain x where "Reserve reserverTTL uid ns (sc_NodeName w) req (se_now env 1) (se_gap env 0 (ss_cache s)) = x"
        by simp
      ultimately show ?thesis
        using assms ne Cons
        by (cases x) (auto simp: fresh_attempt_def Let_def intro: stopped reserved)
    qed
  qed
qed

lemma no_capacity_facts:
  "no_capacity cfg env req s = (r, s', eff) \<Longrightarrow> eff = [] \<and> ss_cache s' = ss_cache s \<and> ss_gate s' = ss_gate s \<and>
     (\<forall>p. r = PreemptionInProgress p \<longrightarrow> \<not> isGangMember (se_memberSlice env))"
  by (auto simp: no_capacity_def Let_def split: if_splits prod.splits option.splits preempt_result.splits)


section \<open>Properties\<close>

text \<open>
  A refused cycle does nothing: before the cache is seeded, when the quota context cannot be
  resolved and when the quota is exceeded, the cycle writes nothing and changes no state; an
  unseeded cache always refuses.
\<close>

theorem refused_cycle_does_nothing:
  assumes "Schedule cfg env ns uid req be s = (r, s', eff)"
  shows "(\<not> IsSeeded (ss_cache s) \<longrightarrow> r = CacheNotReady) \<and>
    (r = CacheNotReady \<or> r = QuotaContextError \<or> (\<exists>q. r = QuotaRejected q) \<longrightarrow> s' = s \<and> eff = [])"
proof -
  have "\<not> IsSeeded (ss_cache s) \<longrightarrow> r = CacheNotReady" using assms by (auto simp: Schedule_def)
  moreover have "s' = s \<and> eff = []" if "r = CacheNotReady \<or> r = QuotaContextError \<or> (\<exists>q. r = QuotaRejected q)"
  proof -
    have no: "\<not> (r = CacheNotReady \<or> r = QuotaContextError \<or> (\<exists>q. r = QuotaRejected q))"
      if "gate_and_finish cfg env uid k b tx t = (r, t', e)" for k b tx t t' e
      using that
      by (auto simp: gate_and_finish_def gateAndBind_def gate_step_def Let_def
          split: prod.splits if_splits option.splits sum.splits api_read.splits gang_check_result.splits)
    from assms show ?thesis
    proof (cases rule: Schedule_cases)
      case refused
      then show ?thesis by simp
    next
      case held
      with no that show ?thesis by blast
    next
      case fresh
      from fresh(2) show ?thesis
      proof (cases rule: fresh_attempt_cases)
        case unplaced
        with that show ?thesis
          by (auto simp: no_capacity_def Let_def split: if_splits prod.splits option.splits preempt_result.splits)
      next
        case stopped
        with that show ?thesis by auto
      next
        case reserved
        with no that show ?thesis by blast
      qed
    qed
  qed
  ultimately show ?thesis by blast
qed

text \<open>
  C5. No cycle leaks a hold: whatever a cycle ends with, either the slice has no speculative hold
  left, or the cycle refused before touching the cache, or its gang holds the admission slot and
  the hold is kept on purpose.
\<close>

theorem no_leaked_hold:
  assumes "Schedule cfg env ns uid req be s = (r, s', eff)"
    and "\<forall>c. IsAssumed c uid = None \<longrightarrow> IsAssumed (se_gap env 0 c) uid = None"
  shows "IsAssumed (ss_cache s') uid = None \<or> s' = s \<or> holding r"
  using assms(1)
proof (cases rule: Schedule_cases)
  case refused
  then show ?thesis by simp
next
  case (held k b c1)
  with gate_and_finish_hold [OF _ _ _ held(2)] show ?thesis by (auto simp: NewReservationTxForHeld_def)
next
  case fresh
  from fresh(2) show ?thesis
  proof (cases rule: fresh_attempt_cases)
    case unplaced
    with no_capacity_facts [OF unplaced(2)] fresh(1) show ?thesis by simp
  next
    case stopped
    with fresh(1) assms(2) show ?thesis by auto
  next
    case (reserved k tx c')
    have "tx = NewReservationTxForHeld uid ns k req" by (rule ReserveD(2) [OF reserved(2)])
    with gate_and_finish_hold [OF _ _ _ reserved(3)] show ?thesis by (auto simp: NewReservationTxForHeld_def)
  qed
qed

text \<open>Whatever a cycle writes, it writes after the gate let it through.\<close>

lemma written_through_gate:
  assumes "Schedule cfg env ns uid req be s = (r, s', eff)" and "eff \<noteq> []"
  obtains node b tx tx' where "gate_step cfg env node b tx (ss_gate s) = (Inr tx', ss_gate s')"
  using assms(1)
proof (cases rule: Schedule_cases)
  case refused
  with assms(2) show ?thesis by simp
next
  case held
  from gate_and_finish_writes [OF held(2) assms(2)] that show ?thesis by auto
next
  case fresh
  from fresh(2) show ?thesis
  proof (cases rule: fresh_attempt_cases)
    case unplaced
    with no_capacity_facts [OF unplaced(2)] assms(2) show ?thesis by simp
  next
    case stopped
    with assms(2) show ?thesis by simp
  next
    case reserved
    from gate_and_finish_writes [OF reserved(3) assms(2)] that show ?thesis by auto
  qed
qed

text \<open>
  C3. All-or-nothing at the API: a cycle that writes anything for a gang member (a bind, complete or
  partial) does so only when the gate's cohort for its live reservation is released with at least
  the gang's size of registered members.
\<close>

theorem gang_bound_only_with_quorum:
  assumes "Schedule cfg env ns uid req be s = (r, s', eff)" and "eff \<noteq> []" and "sf_gate cfg"
    and "gate_reachable S (ss_gate s)" and "\<forall>rsv. se_gateRsv env = Found rsv \<longrightarrow> S (rv_UID rsv) = rv_GangSize rsv \<and> 0 < rv_GangSize rsv"
    and "se_gateSlice env = Found slice" and "annotation slice AnnotationReservationRef \<noteq> []"
  shows "\<exists>rsv co. se_gateRsv env = Found rsv \<and>
    map_of (cohorts (ss_gate s')) (cohort_key slice (annotation slice AnnotationReservationRef)) = Some co \<and>
    co_released co \<and> co_rsvUID co = rv_UID rsv \<and> rv_GangSize rsv \<le> int (length (co_members co))"
proof -
  obtain node b tx tx' where g: "gate_step cfg env node b tx (ss_gate s) = (Inr tx', ss_gate s')"
    by (rule written_through_gate [OF assms(1,2)])
  let ?chk = "CheckSliceWithCohort (se_now env 2) (se_now env 3) (se_gateRsv env) (Some slice) node b (ss_gate s)"
  have fin: "snd ?chk = ss_gate s'" and res: "fst (fst ?chk) \<in> {GangBindAllowed, GangNotApplicable}"
    using g assms(3,6) by (auto simp: gate_step_def Let_def split: prod.splits if_splits gang_check_result.splits)
  have "fst (fst ?chk) \<noteq> GangNotApplicable"
  proof -
    have ann: "sl_Annotations slice \<noteq> []" using assms(7) by (auto simp: annotation_def gget_def)
    have "fst (fst (check_locked t0 now k p n slice node b rsv h)) \<noteq> GangNotApplicable" for t0 now k p n rsv h
      using register_result [of now k n slice node b "rv_GangSize rsv" "decide_state t0 now k p rsv h"]
      by (auto simp: check_locked_decide Let_def)
    then show ?thesis
      using assms(5,7) ann
      by (cases "se_gateRsv env") (auto simp: CheckSliceWithCohort_def Let_def case_prod_beta annotation_def)
  qed
  with res have allowed: "fst (fst ?chk) = GangBindAllowed" by simp
  have "\<forall>rsv. se_gateRsv env = Found rsv \<longrightarrow> S (rv_UID rsv) = rv_GangSize rsv" using assms(5) by blast
  from quorum_at_bind [OF assms(4) this allowed] show ?thesis
    unfolding fin annotation_def by (elim exE conjE) (intro exI conjI; simp)
qed


lemma gate_and_finish_Bound:
  assumes "gate_and_finish cfg env uid node b tx s = (Bound k, s', eff)"
  obtains tx' g h c1 t1 t2 where "gate_step cfg env node b tx (ss_gate s) = (Inr tx', g)" and "k = node"
    and "PinAssumption uid bindPinTTL (se_now env 4) (se_gap env 1 (ss_cache s)) = (Some h, c1)"
    and "eff = [PatchSpec t1, PatchStatus t2]" and "sl_NodeName t2 = node" and "sl_Phase t2 = ''Scheduled''"
    and "ss_cache s' = snd (Confirm (se_now env 6) tx' (se_gap env 2 c1))"
proof -
  obtain d g where d: "gate_step cfg env node b tx (ss_gate s) = (d, g)"
    by (cases "gate_step cfg env node b tx (ss_gate s)")
  obtain p c1 where p: "PinAssumption uid bindPinTTL (se_now env 4) (se_gap env 1 (ss_cache s)) = (p, c1)"
    by (cases "PinAssumption uid bindPinTTL (se_now env 4) (se_gap env 1 (ss_cache s))")
  obtain e ef where e: "bindToKubernetesAPI (se_bindSlice env) (se_bindPatch env) (se_bindStatus env) (se_now env 5) c1 node = (e, ef)"
    by (cases "bindToKubernetesAPI (se_bindSlice env) (se_bindPatch env) (se_bindStatus env) (se_now env 5) c1 node")
  have no: "r \<noteq> Bound k" if "d = Inl (r, tx')" for r tx'
    using d that by (auto simp: gate_step_def Let_def split: if_splits api_read.splits prod.splits gang_check_result.splits)
  from assms d p e no obtain tx' h where f: "d = Inr tx'" "p = Some h" "e = None" "k = node" "eff = ef"
      "ss_cache s' = snd (Confirm (se_now env 6) tx' (se_gap env 2 c1))"
    by (cases d; cases p; cases e) (auto simp: gate_and_finish_def gateAndBind_def Confirm_def RollbackIfNotConfirmed_def Let_def)
  from e f(3) obtain t1 t2 where "ef = [PatchSpec t1, PatchStatus t2]" "sl_NodeName t2 = node" "sl_Phase t2 = ''Scheduled''"
    by (auto simp: bindToKubernetesAPI_def Let_def split: api_read.splits if_splits)
  with that [of tx' g h c1 t1 t2] d p f show ?thesis by simp
qed

text \<open>A cycle without interference that binds a new slice reserves, pins and confirms it.\<close>

lemma bound_path:
  assumes run: "Schedule cfg env ns uid req be s = (Bound k, s', eff)"
    and "IsAssumed (ss_cache s) uid = None" and quiet: "\<forall>i c. se_gap env i c = c"
  obtains c' t1 t2 where "AssumeSlice uid ns k req reserverTTL (se_now env 1) (ss_cache s) = Inr c'"
    and "ss_cache s' = snd (ConfirmSliceOrRearm uid ns k req (se_now env 6) (snd (PinAssumption uid bindPinTTL (se_now env 4) c')))"
    and "eff = [PatchSpec t1, PatchStatus t2]" and "sl_NodeName t2 = k" and "sl_Phase t2 = ''Scheduled''"
  using run
proof (cases rule: Schedule_cases)
  case refused
  then show ?thesis by simp
next
  case held
  with assms(2) show ?thesis by (auto dest: PinAssumption_Some)
next
  case fresh
  from fresh(2) show ?thesis
  proof (cases rule: fresh_attempt_cases)
    case unplaced
    then show ?thesis
      by (auto simp: no_capacity_def Let_def split: if_splits prod.splits option.splits preempt_result.splits)
  next
    case stopped
    then show ?thesis by auto
  next
    case (reserved m tx c')
    note r = ReserveD [OF reserved(2)]
    show ?thesis
    proof (rule gate_and_finish_Bound [OF reserved(3)])
      fix tx' g h c1 t1 t2
      assume g: "gate_step cfg env m req tx (ss_gate (s\<lparr>ss_cache := c'\<rparr>)) = (Inr tx', g)" and km: "k = m"
        and pin: "PinAssumption uid bindPinTTL (se_now env 4) (se_gap env 1 (ss_cache (s\<lparr>ss_cache := c'\<rparr>))) = (Some h, c1)"
        and eff: "eff = [PatchSpec t1, PatchStatus t2]" "sl_NodeName t2 = m" "sl_Phase t2 = ''Scheduled''"
        and fin: "ss_cache s' = snd (Confirm (se_now env 6) tx' (se_gap env 2 c1))"
      have "tx' = NewReservationTxForHeld uid ns m req"
        using gate_step_tx [where cfg = cfg and env = env and node = m and b = req and tx = tx
            and g = "ss_gate (s\<lparr>ss_cache := c'\<rparr>)"] g r(2) by simp
      then show ?thesis
        using that [of c' t1 t2] r(1) pin eff fin km quiet by (simp add: Confirm_def NewReservationTxForHeld_def)
    qed
  qed
qed

text \<open>What the three steps do to the ledger.\<close>

lemma take_pin_confirm:
  assumes re: "reachable c" and "0 < req" and asm: "AssumeSlice uid ns k req ttl now c = Inr c'"
    and final: "d = snd (ConfirmSliceOrRearm uid ns k req t (snd (PinAssumption uid ttl' now' c')))"
  shows "ghas (confirmedBySlice d) uid \<and> IsAssumed d uid = None" and "used_on d j = used_on c j + (if j = k then req else 0)"
    and "\<exists>n. map_of (nodes d) k = Some n \<and> used_on d k \<le> ns_Total n"
proof -
  have ok: "cache_ok c" by (rule reachable_ok [OF re])
  have req: "0 \<le> req" using assms(2) by simp
  let ?c1 = "snd (PinAssumption uid ttl' now' c')"
  have ok': "cache_ok c'" by (rule ledger.take_inv [OF ok req asm])
  have ok1: "cache_ok ?c1" by (rule ledger.pin_inv [OF ok'])
  have held: "IsAssumed ?c1 uid = Some (k, req)"
    using ledger.pin_held [OF ok'] ledger.take_held [OF ok req asm] by simp
  have use: "used_on d i = used_on c' i" for i
    using ledger.firm_usage [OF ok1 held] ledger.pin_usage [OF ok'] by (simp add: final)
  have nodes: "nodes d = nodes c'"
    using held by (auto simp: final ConfirmSliceOrRearm_def PinAssumption_def IsAssumed_def split: option.splits)
  show "ghas (confirmedBySlice d) uid \<and> IsAssumed d uid = None"
    using held by (auto simp: final ConfirmSliceOrRearm_def IsAssumed_def)
  show "used_on d j = used_on c j + (if j = k then req else 0)"
    using use ledger.take_usage [OF ok req asm] by simp
  show "\<exists>n. map_of (nodes d) k = Some n \<and> used_on d k \<le> ns_Total n"
    using assume_within_total [OF re assms(2) asm] use nodes by auto
qed


text \<open>
  Preemption is the last resort: a cycle starts a preemption only for a slice that is not a gang
  member, only when no node of the cache fits the request, and without writing a bind.
\<close>

theorem preemption_is_last_resort:
  assumes "Schedule cfg env ns uid req be s = (PreemptionInProgress p, s', eff)"
  shows "\<not> isGangMember (se_memberSlice env) \<and> eff = [] \<and> ss_cache s' = ss_cache s \<and>
    (\<forall>k. CanFit (ss_cache s) k req \<noteq> Fits)"
proof -
  have no: False if "gate_and_finish cfg env uid k b tx t = (PreemptionInProgress p, t', e)" for k b tx t t' e
    using that
    by (auto simp: gate_and_finish_def gateAndBind_def gate_step_def Let_def
        split: prod.splits if_splits option.splits sum.splits api_read.splits gang_check_result.splits)
  from assms show ?thesis
  proof (cases rule: Schedule_cases)
    case refused
    then show ?thesis by auto
  next
    case held
    with no show ?thesis by blast
  next
    case fresh
    from fresh(2) show ?thesis
    proof (cases rule: fresh_attempt_cases)
      case unplaced
      have "k \<in> set (ListNodes (ss_cache s))" if "CanFit (ss_cache s) k req = Fits" for k
        using that by (force simp: CanFit_def ListNodes_def dest: map_of_SomeD split: option.splits)
      with unplaced no_capacity_facts [OF unplaced(2)] show ?thesis by blast
    next
      case stopped
      then show ?thesis by auto
    next
      case reserved
      with no show ?thesis by blast
    qed
  qed
qed

section \<open>Witnesses\<close>

definition seeded_node :: vram_cache where "seeded_node = MarkSeeded one_node"

lemma reachable_seeded: "reachable seeded_node"
  unfolding seeded_node_def by (rule reach_step [OF reachable_one_node step_seed])

definition cycle_env :: "vgpu_slice \<Rightarrow> sched_env" where
  "cycle_env sl = \<lparr>se_quotaSlice = Found sl, se_quotaRsv = NotFound, se_quotas = None, se_quotaSlices = None,
     se_memberSlice = Found sl, se_preemptSlice = Found slice0, se_preemptClaim = Found (claim_n ''c''),
     se_preemptJob = Found (job_j\<lparr>jb_Priority := 200\<rparr>), se_preempt = env0, se_zoneSlice = Found sl,
     se_gateSlice = Found sl, se_gateRsv = Found (gang2 ''ra''), se_bindSlice = Found sl, se_bindPatch = WriteOk,
     se_bindStatus = WriteOk, se_now = (\<lambda>i. 1), se_gap = (\<lambda>i c. c)\<rparr>"

definition start_state :: "vram_cache \<Rightarrow> gang_gate \<Rightarrow> sched_state" where
  "start_state c g = \<lparr>ss_cache = c, ss_gate = g, ss_cooldown = [], ss_store = store_ab\<rparr>"

definition cfg_on :: sched_config where "cfg_on = \<lparr>sf_quota = True, sf_preemptor = True, sf_gate = True\<rparr>"

lemma seeded_node_eq: "seeded_node = NewVRAMCache\<lparr>seeded := True, nodes :=
    [(''n1'', \<lparr>ns_NodeName = ''n1'', ns_Total = 100, ns_Allocated = 0, ns_Reserved = 0, ns_Free = 100,
       ns_Healthy = True, ns_Zone = []\<rparr>)]\<rparr>"
  by (simp add: seeded_node_def MarkSeeded_def one_node_eq)

definition held_node :: "string \<Rightarrow> vram_cache" where
  "held_node u = seeded_node\<lparr>nodes :=
    [(''n1'', \<lparr>ns_NodeName = ''n1'', ns_Total = 100, ns_Allocated = 0, ns_Reserved = 60, ns_Free = 40,
       ns_Healthy = True, ns_Zone = []\<rparr>)],
     assumedBySlice := [(u, \<lparr>aa_SliceUID = u, aa_Namespace = ''ns'', aa_NodeName = ''n1'',
       aa_Bytes = 60, aa_ExpiresAt = 1 + reserverTTL\<rparr>)]\<rparr>"

lemma reserve_seeded: "Reserve reserverTTL u ''ns'' ''n1'' 60 1 seeded_node = Inr (NewReservationTxForHeld u ''ns'' ''n1'' 60, held_node u)"
  by (simp add: Reserve_def AssumeSlice_def seeded_node_eq NewVRAMCache_def held_node_def upd_node_def add_reserved_def
      recalculateFreeVRAM_def i64_def gput_def NewReservationTxForHeld_def)

lemma fits_seeded: "filter (\<lambda>node. CanFit seeded_node node 60 = Fits) (ListNodes seeded_node) = [''n1'']"
  by (simp add: seeded_node_eq ListNodes_def CanFit_def)

lemma score_seeded: "\<exists>w. ScoreWithTopology seeded_node [''n1''] 60 be z = [w] \<and> sc_NodeName w = ''n1''"
  by (simp add: ScoreWithTopology_def seeded_node_eq SnapshotAllNodes_def byName_def sort_stable_def)

text \<open>A cycle on the seeded node reserves and goes to the gate.\<close>

lemma cycle_seeded:
  "Schedule cfg_on (cycle_env sl) ''ns'' u 60 be (start_state seeded_node g) =
     gate_and_finish cfg_on (cycle_env sl) u ''n1'' 60 (NewReservationTxForHeld u ''ns'' ''n1'' 60)
       (start_state (held_node u) g)"
proof -
  obtain w where w: "ScoreWithTopology seeded_node [''n1''] 60 be (slicePreferredZone (se_zoneSlice (cycle_env sl))) = [w]"
      "sc_NodeName w = ''n1''" using score_seeded by blast
  have q: "quota_gate cfg_on (cycle_env sl) ''ns'' 60 seeded_node = None"
    by (simp add: quota_gate_def cfg_on_def cycle_env_def gangQuotaContext_def Check_def Let_def)
  have s: "IsSeeded seeded_node" by (simp add: IsSeeded_def seeded_node_eq)
  have p: "PinAssumption u gangHoldTTL t seeded_node = (None, seeded_node)" for t
    by (simp add: PinAssumption_def seeded_node_eq NewVRAMCache_def)
  show ?thesis
    using w reserve_seeded fits_seeded q s p
    by (simp add: Schedule_def start_state_def fresh_attempt_def) (simp add: cycle_env_def)
qed


lemma gate_solo: "gate_step cfg_on (cycle_env slice0) node b tx g = (Inr tx, g)"
  by (simp add: gate_step_def cfg_on_def cycle_env_def CheckSliceWithCohort_def) (simp add: slice0_def)

lemma solo_cycle:
  "\<exists>s' eff. Schedule cfg_on (cycle_env slice0) ''ns'' ''u'' 60 False (start_state seeded_node NewGangBindingGate)
     = (Bound ''n1'', s', eff)"
  unfolding cycle_seeded
  by (simp add: gate_and_finish_def gateAndBind_def gate_solo start_state_def)
    (simp add: cycle_env_def PinAssumption_def held_node_def bindToKubernetesAPI_def annotation_def slice0_def gget_def
      Confirm_def Let_def)

theorem refused_cycle_does_nothing_witness:
  "Schedule cfg_on (cycle_env slice0) ''ns'' ''u'' 60 False (start_state NewVRAMCache NewGangBindingGate)
     = (CacheNotReady, start_state NewVRAMCache NewGangBindingGate, [])"
proof -
  obtain r s' eff where run: "Schedule cfg_on (cycle_env slice0) ''ns'' ''u'' 60 False (start_state NewVRAMCache NewGangBindingGate)
      = (r, s', eff)" by (rule prod_cases3)
  from refused_cycle_does_nothing [OF run] show ?thesis
    by (simp add: run) (simp add: start_state_def IsSeeded_def NewVRAMCache_def)
qed

theorem no_leaked_hold_witness:
  "case Schedule cfg_on (cycle_env slice0) ''ns'' ''u'' 60 False (start_state seeded_node NewGangBindingGate) of
     (r, s', eff) \<Rightarrow> r = Bound ''n1'' \<and> (IsAssumed (ss_cache s') ''u'' = None \<or> s' = start_state seeded_node NewGangBindingGate \<or> holding r)"
proof -
  obtain s' eff where run: "Schedule cfg_on (cycle_env slice0) ''ns'' ''u'' 60 False (start_state seeded_node NewGangBindingGate)
      = (Bound ''n1'', s', eff)" using solo_cycle by blast
  have "\<forall>c. IsAssumed c ''u'' = None \<longrightarrow> IsAssumed (se_gap (cycle_env slice0) 0 c) ''u'' = None" by (simp add: cycle_env_def)
  from no_leaked_hold [OF run this] show ?thesis by (simp add: run)
qed


lemma gang_gate_allows:
  "\<exists>g'. gate_step cfg_on (cycle_env (gang_slice ''a'' ''a2'')) ''n1'' 60 tx gate_a = (Inr tx, g')"
  by (simp add: gate_step_def cfg_on_def cycle_env_def gate_a_eq CheckSliceWithCohort_def gang_slice_sel gang2_def zero_reservation_def
      check_locked_def find_cohort_def
      reapStaleCohortsLocked_def cohort_key_def gang_priority_def claim_slot_def free_stalled_slot_def
      reap_cohorts.simps gateMaxHoldAge_def gangAdmissionTimeout_def
      register_member_def add_member_def upd_cohort_def members_of_def
      ReservationPhaseFailed_def ReservationPhaseReleased_def gput_def gdel_def gget_def Let_def i32_def)

lemma gang_cycle:
  "\<exists>s' eff. Schedule cfg_on (cycle_env (gang_slice ''a'' ''a2'')) ''ns'' ''a2'' 60 False (start_state seeded_node gate_a)
     = (Bound ''n1'', s', eff) \<and> eff \<noteq> []"
proof -
  obtain g' where "gate_step cfg_on (cycle_env (gang_slice ''a'' ''a2'')) ''n1'' 60
      (NewReservationTxForHeld ''a2'' ''ns'' ''n1'' 60) gate_a = (Inr (NewReservationTxForHeld ''a2'' ''ns'' ''n1'' 60), g')"
    using gang_gate_allows by blast
  then show ?thesis
    unfolding cycle_seeded
    by (simp add: gate_and_finish_def gateAndBind_def start_state_def)
      (simp add: cycle_env_def PinAssumption_def held_node_def bindToKubernetesAPI_def Confirm_def Let_def)
qed

theorem gang_bound_only_with_quorum_witness:
  "\<exists>co :: gang_cohort. co_released co \<and> 2 \<le> int (length (co_members co))"
proof -
  let ?sl = "gang_slice ''a'' ''a2''"
  obtain s' eff where run: "Schedule cfg_on (cycle_env ?sl) ''ns'' ''a2'' 60 False (start_state seeded_node gate_a)
      = (Bound ''n1'', s', eff)" "eff \<noteq> []" using gang_cycle by blast
  have g: "gate_reachable size2 (ss_gate (start_state seeded_node gate_a))" by (simp add: start_state_def gate_a_reachable)
  have "sf_gate cfg_on" by (simp add: cfg_on_def)
  note quorum = gang_bound_only_with_quorum [OF run(1) run(2) this g]
  have "\<exists>rsv (co :: gang_cohort). se_gateRsv (cycle_env ?sl) = Found rsv \<and>
      map_of (cohorts (ss_gate s')) (cohort_key ?sl (annotation ?sl AnnotationReservationRef)) = Some co \<and>
      co_released co \<and> co_rsvUID co = rv_UID rsv \<and> rv_GangSize rsv \<le> int (length (co_members co))"
    by (rule quorum) (auto simp: cycle_env_def gang2_def zero_reservation_def size2_def annotation_def gang_slice_sel gget_def)
  then show ?thesis by (auto simp: cycle_env_def gang2_def zero_reservation_def)
qed

definition small_node :: vram_cache where "small_node = MarkSeeded (UpdateNode ''n1'' 20 0 NewVRAMCache)"

lemma small_node_eq: "small_node = NewVRAMCache\<lparr>seeded := True, nodes :=
    [(''n1'', \<lparr>ns_NodeName = ''n1'', ns_Total = 20, ns_Allocated = 0, ns_Reserved = 0, ns_Free = 20,
       ns_Healthy = True, ns_Zone = []\<rparr>)]\<rparr>"
  by (simp add: small_node_def MarkSeeded_def UpdateNode_def NewVRAMCache_def gget_def new_node_def
      recalculateFreeVRAM_def i64_def gput_def)

definition early_env :: sched_env where "early_env = (cycle_env slice0)\<lparr>se_now := (\<lambda>i. 0)\<rparr>"

lemma try_claim: "TryPreempt env0 0 slice0 200 (Some cl) 30 [] store_ab = (Plan plan_a, cd_a, store_a)"
proof -
  have "TryPreempt env0 0 slice0 200 (Some cl) 30 [] store_ab = TryPreempt env0 0 slice0 200 None 30 [] store_ab"
    by (simp add: TryPreempt_def own_ab in_cooldown_def)
  then show ?thesis by (simp only: try_a)
qed

lemma preempting_cycle:
  "\<exists>s'. Schedule cfg_on early_env ''ns'' ''u'' 30 False (start_state small_node NewGangBindingGate)
     = (PreemptionInProgress plan_a, s', [])"
proof -
  have q: "quota_gate cfg_on early_env ''ns'' 30 small_node = None"
    by (simp add: quota_gate_def cfg_on_def early_env_def cycle_env_def gangQuotaContext_def Check_def Let_def)
  have s: "IsSeeded small_node" by (simp add: IsSeeded_def small_node_eq)
  have p: "PinAssumption u gangHoldTTL t small_node = (None, small_node)" for u t
    by (simp add: PinAssumption_def small_node_eq NewVRAMCache_def)
  have f: "filter (\<lambda>node. CanFit small_node node 30 = Fits) (ListNodes small_node) = []"
    by (simp add: small_node_eq ListNodes_def CanFit_def)
  have m: "\<not> isGangMember (se_memberSlice early_env)"
    by (simp add: early_env_def cycle_env_def isGangMember_def annotation_def slice0_def gget_def)
  have t: "tryPreemptionForSlice early_env (se_now early_env 7) 30 [] store_ab = (Some (Plan plan_a), cd_a, store_a)"
    by (simp add: tryPreemptionForSlice_def early_env_def cycle_env_def try_claim Let_def)
      (simp add: slice0_def claim_n_def zero_claim_def)
  show ?thesis
    using q s p f m t
    by (simp add: Schedule_def start_state_def fresh_attempt_def no_capacity_def) (simp add: cfg_on_def)
qed

theorem preemption_is_last_resort_witness:
  "\<not> isGangMember (Found slice0) \<and> CanFit small_node ''n1'' 30 \<noteq> Fits"
proof -
  obtain s' where run: "Schedule cfg_on early_env ''ns'' ''u'' 30 False (start_state small_node NewGangBindingGate)
     = (PreemptionInProgress plan_a, s', [])" using preempting_cycle by blast
  from preemption_is_last_resort [OF run] show ?thesis by (simp add: early_env_def cycle_env_def start_state_def)
qed

end
