(* ===== verification/ApiClient.thy ===== *)
theory ApiClient
  imports ApiTypes GoText
begin

text \<open>
  How the controllers talk to the API server: the outcome of a write, the errors a caller can tell
  apart, and the read-change-write loop \<open>retry.RetryOnConflict\<close> runs. What the server answers is an
  argument of the definitions; \<open>k8s.io/client-go\<close> contributes its documented behaviour only: the body
  runs again on a version conflict, at most \<open>DefaultRetrySteps\<close> times, and the last conflict is the
  result when they are used up.
\<close>

datatype write_reply = Accepted | VersionConflict | NoSuchObject | AlreadyExists | Rejected

datatype api_error = NoObject | ReadFailed | ObjectGone | Conflicted | WriteFailed

definition isNotFound :: "api_error \<Rightarrow> bool" where
  "isNotFound e \<longleftrightarrow> e = NoObject \<or> e = ObjectGone"

definition RetryAttempts :: nat where
  "RetryAttempts = 5"

text \<open>
  \<open>net i\<close> is what attempt \<open>i\<close> reads and what its write is answered; \<open>change\<close> is the body, \<open>None\<close> when
  it decides to write nothing. The result is the error, if any, and the object that was written.
\<close>

fun get_update ::
  "nat \<Rightarrow> nat \<Rightarrow> (nat \<Rightarrow> 'a api_read \<times> write_reply) \<Rightarrow> ('a \<Rightarrow> 'a option) \<Rightarrow> api_error option \<times> 'a option" where
  "get_update 0 i net change = (Some Conflicted, None)"
| "get_update (Suc n) i net change =
    (case net i of
       (NotFound, _) \<Rightarrow> (Some NoObject, None)
     | (ReadErr, _) \<Rightarrow> (Some ReadFailed, None)
     | (Found x, reply) \<Rightarrow>
         (case change x of
            None \<Rightarrow> (None, None)
          | Some y \<Rightarrow>
              (case reply of
                 Accepted \<Rightarrow> (None, Some y)
               | VersionConflict \<Rightarrow> get_update n (Suc i) net change
               | NoSuchObject \<Rightarrow> (Some ObjectGone, None)
               | _ \<Rightarrow> (Some WriteFailed, None))))"

definition RetryOnConflict ::
  "(nat \<Rightarrow> 'a api_read \<times> write_reply) \<Rightarrow> ('a \<Rightarrow> 'a option) \<Rightarrow> api_error option \<times> 'a option" where
  "RetryOnConflict net change = get_update RetryAttempts 0 net change"

text \<open>\<open>client.IgnoreNotFound\<close> on the body's read.\<close>

definition ignoreNoObject :: "api_error option \<times> 'a option \<Rightarrow> api_error option \<times> 'a option" where
  "ignoreNoObject r = (if fst r = Some NoObject then (None, snd r) else r)"

lemma get_update_written:
  "get_update n i net change = (e, Some y) \<Longrightarrow> e = None \<and> (\<exists>j x. fst (net j) = Found x \<and> change x = Some y)"
proof (induction n i net change rule: get_update.induct)
  case (2 n i net change)
  show ?case
  proof (cases "net i")
    case (Pair rd reply)
    show ?thesis
    proof (cases rd)
      case (Found x)
      then have ex: "change x = Some y \<Longrightarrow> \<exists>j x. fst (net j) = Found x \<and> change x = Some y"
        using Pair by (metis fst_conv)
      then show ?thesis
        using 2 Pair Found ex by (cases "change x"; cases reply) auto
    qed (use 2 Pair in auto)
  qed
qed simp

lemma RetryOnConflict_written:
  assumes "snd (RetryOnConflict net change) = Some y"
  shows "\<exists>j x. fst (net j) = Found x \<and> change x = Some y"
  using get_update_written [of RetryAttempts 0 net change "fst (RetryOnConflict net change)" y] assms
  by (simp add: RetryOnConflict_def prod_eq_iff)

lemma snd_ignoreNoObject [simp]: "snd (ignoreNoObject r) = snd r"
  by (simp add: ignoreNoObject_def)

text \<open>A server that answers the first attempt.\<close>

lemma RetryOnConflict_first:
  "net 0 = (Found x, Accepted) \<Longrightarrow> change x = Some y \<Longrightarrow> RetryOnConflict net change = (None, Some y)"
  by (simp add: RetryOnConflict_def RetryAttempts_def eval_nat_numeral)

text \<open>
  What a reconcile returns: the delay of the next run in nanoseconds (0 when none is asked for), or
  \<open>Requeue: true\<close>, or an error.
\<close>

datatype reconcile_result = Requeue int | RequeueSoon | ReconcileError

definition second :: int where
  "second = 10 ^ 9"

abbreviation done_result :: reconcile_result where
  "done_result \<equiv> Requeue 0"

text \<open>
  \<open>apimeta.SetStatusCondition\<close>: replace the condition of the type in place, the transition time
  moving only when the status changes, or append it; \<open>FindStatusCondition\<close> is the first of the type.
\<close>

fun SetStatusCondition :: "int \<Rightarrow> condition list \<Rightarrow> condition \<Rightarrow> condition list" where
  "SetStatusCondition now [] c = [c\<lparr>cd_LastTransitionTime := now\<rparr>]"
| "SetStatusCondition now (d # ds) c =
    (if cd_Type d = cd_Type c
     then c\<lparr>cd_LastTransitionTime := (if cd_Status d = cd_Status c then cd_LastTransitionTime d else now)\<rparr> # ds
     else d # SetStatusCondition now ds c)"

definition FindStatusCondition :: "condition list \<Rightarrow> string \<Rightarrow> condition option" where
  "FindStatusCondition cs t = find (\<lambda>c. cd_Type c = t) cs"

lemma Find_Set_same:
  "\<exists>t'. FindStatusCondition (SetStatusCondition now cs c) (cd_Type c) = Some (c\<lparr>cd_LastTransitionTime := t'\<rparr>)"
  by (induction cs) (auto simp: FindStatusCondition_def)

lemma Find_Set_other:
  "t \<noteq> cd_Type c \<Longrightarrow> FindStatusCondition (SetStatusCondition now cs c) t = FindStatusCondition cs t"
  by (induction cs) (auto simp: FindStatusCondition_def)

end
