(* ===== verification/GangReservation.thy ===== *)
theory GangReservation
  imports ApiClient
begin

text \<open>
  The gang reservation controller, \<open>internal/controller/vgpugangreservation_reconciler.go\<close>: the tally
  of a gang's children, the phase machine, the direct confirmation of a child loss, the teardown, and
  the reconcile that puts them together. Each stage of a reconcile reads the cluster anew, so each has
  a snapshot of its own in the environment. The slot counts stay below the gang size, which admission
  bounds by 256, so they are plain \<open>int\<close>s; the metrics are left out.
\<close>

section \<open>Phases and the environment of a reconcile\<close>

definition RsvPending :: string where "RsvPending = ''Pending''"
definition RsvReserving :: string where "RsvReserving = ''Reserving''"
definition RsvReserved :: string where "RsvReserved = ''Reserved''"
definition RsvCommitted :: string where "RsvCommitted = ''Committed''"
definition RsvFailed :: string where "RsvFailed = ''Failed''"
definition RsvReleased :: string where "RsvReleased = ''Released''"

lemma rsv_phase_neq [simp]:
  "RsvPending \<noteq> []" "[] \<noteq> RsvPending"
  "RsvPending \<noteq> RsvReserving" "RsvPending \<noteq> RsvReserved" "RsvPending \<noteq> RsvCommitted" "RsvPending \<noteq> RsvFailed" "RsvPending \<noteq> RsvReleased"
  "RsvReserving \<noteq> []" "[] \<noteq> RsvReserving"
  "RsvReserving \<noteq> RsvPending" "RsvReserving \<noteq> RsvReserved" "RsvReserving \<noteq> RsvCommitted" "RsvReserving \<noteq> RsvFailed" "RsvReserving \<noteq> RsvReleased"
  "RsvReserved \<noteq> []" "[] \<noteq> RsvReserved"
  "RsvReserved \<noteq> RsvPending" "RsvReserved \<noteq> RsvReserving" "RsvReserved \<noteq> RsvCommitted" "RsvReserved \<noteq> RsvFailed" "RsvReserved \<noteq> RsvReleased"
  "RsvCommitted \<noteq> []" "[] \<noteq> RsvCommitted"
  "RsvCommitted \<noteq> RsvPending" "RsvCommitted \<noteq> RsvReserving" "RsvCommitted \<noteq> RsvReserved" "RsvCommitted \<noteq> RsvFailed" "RsvCommitted \<noteq> RsvReleased"
  "RsvFailed \<noteq> []" "[] \<noteq> RsvFailed"
  "RsvFailed \<noteq> RsvPending" "RsvFailed \<noteq> RsvReserving" "RsvFailed \<noteq> RsvReserved" "RsvFailed \<noteq> RsvCommitted" "RsvFailed \<noteq> RsvReleased"
  "RsvReleased \<noteq> []" "[] \<noteq> RsvReleased"
  "RsvReleased \<noteq> RsvPending" "RsvReleased \<noteq> RsvReserving" "RsvReleased \<noteq> RsvReserved" "RsvReleased \<noteq> RsvCommitted" "RsvReleased \<noteq> RsvFailed"
  by (simp_all add: RsvPending_def RsvReserving_def RsvReserved_def RsvCommitted_def RsvFailed_def RsvReleased_def)

record snapshot =
  at_claim :: "string \<Rightarrow> vgpu_claim api_read"
  at_slice :: "string \<Rightarrow> vgpu_slice api_read"

datatype child_object = JobObj string | ClaimObj string | SliceObj string

record teardown_view =
  td_job :: "string \<Rightarrow> vgpu_job api_read"
  td_orphans :: snapshot
  td_delete :: "child_object \<Rightarrow> write_reply"

record rsv_env =
  re_rsv :: "vgpu_gang_reservation api_read"
  re_tally :: snapshot
  re_direct :: "snapshot option"
  re_gone :: snapshot
  re_teardown :: teardown_view
  re_retally :: snapshot
  re_apply :: "nat \<Rightarrow> vgpu_gang_reservation api_read \<times> write_reply"
  re_now :: int
  re_applyNow :: int

section \<open>The tally\<close>

record sliceTally =
  reservedSlots :: int
  committedSlots :: int
  failedSlots :: int
  schedulingFailedSlots :: int
  tearingDownSlots :: int
  pendingSlots :: int
  missingSlots :: int
  perSlice :: "(string, string) gomap"

definition empty_tally :: sliceTally where
  "empty_tally = \<lparr>reservedSlots = 0, committedSlots = 0, failedSlots = 0, schedulingFailedSlots = 0,
     tearingDownSlots = 0, pendingSlots = 0, missingSlots = 0, perSlice = []\<rparr>"

definition slice_name :: "string \<Rightarrow> string" where
  "slice_name claimName = claimName @ ''-slice''"

definition note_state :: "string \<Rightarrow> string \<Rightarrow> sliceTally \<Rightarrow> sliceTally" where
  "note_state claimName what t = t\<lparr>perSlice := gput claimName what (perSlice t)\<rparr>"

definition tally_slice :: "string \<Rightarrow> vgpu_slice \<Rightarrow> sliceTally \<Rightarrow> sliceTally" where
  "tally_slice n s t =
    (if sl_DeletionTimestamp s \<noteq> None then note_state n ''SliceDeleting'' (t\<lparr>tearingDownSlots := tearingDownSlots t + 1\<rparr>)
     else let p = sl_Phase s in
       if p = ''Scheduled'' then note_state n ''Reserved'' (t\<lparr>reservedSlots := reservedSlots t + 1\<rparr>)
       else if p = ''Allocating'' then note_state n ''Allocating'' (t\<lparr>reservedSlots := reservedSlots t + 1\<rparr>)
       else if p = ''Ready'' then note_state n ''Bound''
         (t\<lparr>reservedSlots := reservedSlots t + 1, committedSlots := committedSlots t + 1\<rparr>)
       else if p = ''Failed'' then note_state n ''Failed'' (t\<lparr>schedulingFailedSlots := schedulingFailedSlots t + 1\<rparr>)
       else if p = ''Releasing'' \<or> p = ''Released'' \<or> p = ''Preempting''
         then note_state n ''Releasing'' (t\<lparr>tearingDownSlots := tearingDownSlots t + 1\<rparr>)
       else if p = ''Pending'' \<or> p = [] then note_state n ''Pending'' (t\<lparr>pendingSlots := pendingSlots t + 1\<rparr>)
       else note_state n p (t\<lparr>pendingSlots := pendingSlots t + 1\<rparr>))"

definition tally_child :: "snapshot \<Rightarrow> string \<Rightarrow> sliceTally \<Rightarrow> sliceTally option" where
  "tally_child snap n t =
    (case at_claim snap n of
       NotFound \<Rightarrow> Some (note_state n ''ClaimMissing'' (t\<lparr>missingSlots := missingSlots t + 1\<rparr>))
     | ReadErr \<Rightarrow> None
     | Found claim \<Rightarrow>
         (if cl_DeletionTimestamp claim \<noteq> None
          then Some (note_state n ''ClaimDeleting'' (t\<lparr>tearingDownSlots := tearingDownSlots t + 1\<rparr>))
          else case at_slice snap (slice_name n) of
            NotFound \<Rightarrow> Some (note_state n ''Pending'' (t\<lparr>pendingSlots := pendingSlots t + 1\<rparr>))
          | ReadErr \<Rightarrow> None
          | Found s \<Rightarrow> Some (tally_slice n s t)))"

fun tally_loop :: "snapshot \<Rightarrow> string list \<Rightarrow> sliceTally \<Rightarrow> sliceTally option" where
  "tally_loop snap [] t = Some t"
| "tally_loop snap (n # ns) t =
    (case tally_child snap n t of None \<Rightarrow> None | Some t' \<Rightarrow> tally_loop snap ns t')"

definition tallyChildSlices :: "snapshot \<Rightarrow> vgpu_gang_reservation \<Rightarrow> sliceTally option" where
  "tallyChildSlices snap rsv =
    map_option (\<lambda>t. t\<lparr>failedSlots := schedulingFailedSlots t\<rparr>) (tally_loop snap (rv_ChildClaims rsv) empty_tally)"

section \<open>The phase machine\<close>

definition lost_text :: string where
  "lost_text = ''child lost after commit''"

definition slots_text :: "int \<Rightarrow> int \<Rightarrow> string" where
  "slots_text a b = FormatInt a @ ''/'' @ FormatInt b"

definition deadline_of :: "vgpu_gang_reservation \<Rightarrow> int" where
  "deadline_of rsv = (case rv_DeadlineSeconds rsv of None \<Rightarrow> 60 | Some d \<Rightarrow> d)"

definition decideNextPhase ::
  "int \<Rightarrow> vgpu_gang_reservation \<Rightarrow> sliceTally \<Rightarrow> string \<times> string \<times> int" where
  "decideNextPhase now rsv t =
    (let cur = rv_Phase rsv; gangSize = rv_GangSize rsv in
     if schedulingFailedSlots t > 0 then
       (RsvFailed, ''slot failure: '' @ FormatInt (schedulingFailedSlots t) @ '' slot(s) could not be scheduled'', 0)
     else if committedSlots t \<ge> gangSize then (RsvCommitted, ''all slots committed'', 30 * second)
     else if reservedSlots t \<ge> gangSize \<and> cur \<noteq> RsvCommitted then (RsvReserved, ''all slots reserved'', 5 * second)
     else if cur = [] \<or> cur = RsvPending then (RsvReserving, ''reservation in progress'', 3 * second)
     else if cur = RsvReserving then
       (case rv_FirstReservingTime rsv of
          Some t0 \<Rightarrow>
            if now - t0 > deadline_of rsv * second then
              (RsvFailed, ''deadline '' @ FormatInt (deadline_of rsv) @ ''s exceeded with only ''
                 @ slots_text (reservedSlots t) gangSize @ '' slots reserved'', 0)
            else (RsvReserving, ''reserving: '' @ slots_text (reservedSlots t) gangSize @ '' slots'', 3 * second)
        | None \<Rightarrow> (RsvReserving, ''reserving: '' @ slots_text (reservedSlots t) gangSize @ '' slots'', 3 * second))
     else if cur = RsvReserved then (RsvFailed, ''slice regression after Reserved (external teardown?)'', 0)
     else if cur = RsvCommitted then
       (let lost = missingSlots t + pendingSlots t + tearingDownSlots t in
        if lost > 0 then
          (RsvFailed, lost_text @ '': '' @ slots_text lost gangSize
             @ '' slot(s) no longer hold their committed allocation ('' @ FormatInt (missingSlots t) @ '' missing, ''
             @ FormatInt (pendingSlots t) @ '' regenerated, '' @ FormatInt (tearingDownSlots t) @ '' deleting)'', 0)
        else (cur, ''committed, degraded: '' @ slots_text (committedSlots t) gangSize @ '' slots Ready'', 5 * second))
     else (cur, ''no transition'', 5 * second))"

section \<open>Direct confirmation of a loss\<close>

text \<open>\<open>Some True\<close>: the child no longer holds its allocation; \<open>None\<close>: a read failed.\<close>

definition child_lost :: "snapshot \<Rightarrow> string \<Rightarrow> bool option" where
  "child_lost snap n =
    (case at_claim snap n of
       NotFound \<Rightarrow> Some True
     | ReadErr \<Rightarrow> None
     | Found claim \<Rightarrow>
         (if cl_DeletionTimestamp claim \<noteq> None then Some True
          else case at_slice snap (slice_name n) of
            NotFound \<Rightarrow> Some True
          | ReadErr \<Rightarrow> None
          | Found s \<Rightarrow>
              if sl_DeletionTimestamp s \<noteq> None then Some True
              else Some (sl_Phase s \<notin> {''Scheduled'', ''Allocating'', ''Ready''})))"

fun lost_loop :: "snapshot \<Rightarrow> string list \<Rightarrow> bool option" where
  "lost_loop snap [] = Some False"
| "lost_loop snap (n # ns) =
    (case child_lost snap n of None \<Rightarrow> None | Some True \<Rightarrow> Some True | Some False \<Rightarrow> lost_loop snap ns)"

definition childLossConfirmedDirect :: "snapshot option \<Rightarrow> vgpu_gang_reservation \<Rightarrow> bool option" where
  "childLossConfirmedDirect reader rsv =
    (case reader of None \<Rightarrow> Some True | Some snap \<Rightarrow> lost_loop snap (rv_ChildClaims rsv))"

section \<open>Status write and teardown\<close>

definition apply_change ::
  "int \<Rightarrow> string \<Rightarrow> string \<Rightarrow> sliceTally \<Rightarrow> vgpu_gang_reservation \<Rightarrow> vgpu_gang_reservation" where
  "apply_change now nextPhase reason t fresh =
    (let f1 = (if nextPhase = RsvReserving \<and> rv_FirstReservingTime fresh = None
               then fresh\<lparr>rv_FirstReservingTime := Some now\<rparr> else fresh);
         f2 = f1\<lparr>rv_Phase := nextPhase, rv_ReservedSlots := reservedSlots t, rv_CommittedSlots := committedSlots t,
                 rv_FailedSlots := failedSlots t, rv_PerSliceState := perSlice t, rv_Message := reason\<rparr>
     in if nextPhase = RsvFailed \<and> rv_FailureReason f2 = [] then f2\<lparr>rv_FailureReason := reason\<rparr> else f2)"

definition applyPhase ::
  "(nat \<Rightarrow> vgpu_gang_reservation api_read \<times> write_reply) \<Rightarrow> int \<Rightarrow> string \<Rightarrow> string \<Rightarrow> sliceTally
   \<Rightarrow> api_error option \<times> vgpu_gang_reservation option" where
  "applyPhase net now nextPhase reason t =
    ignoreNoObject (RetryOnConflict net (\<lambda>fresh. Some (apply_change now nextPhase reason t fresh)))"

text \<open>\<open>jobName\<close>: the claim's name without its \<open>-claim\<close> suffix, when something is left.\<close>

definition job_of_claim :: "string \<Rightarrow> string" where
  "job_of_claim claimName =
    (let suffix = ''-claim''; k = length claimName - length suffix in
     if length claimName > length suffix \<and> drop k claimName = suffix then take k claimName else claimName)"

definition cleanupOrphans :: "snapshot \<Rightarrow> string \<Rightarrow> child_object list" where
  "cleanupOrphans snap n =
    (case at_claim snap n of Found c \<Rightarrow> if cl_DeletionTimestamp c = None then [ClaimObj n] else [] | _ \<Rightarrow> [])
    @ (case at_slice snap (slice_name n) of
         Found s \<Rightarrow> if sl_DeletionTimestamp s = None then [SliceObj (slice_name n)] else [] | _ \<Rightarrow> [])"

text \<open>One child's deletes, and whether its error counts.\<close>

definition teardown_child :: "teardown_view \<Rightarrow> string \<Rightarrow> bool \<times> child_object list" where
  "teardown_child v n =
    (let job = job_of_claim n in
     case td_job v job of
       NotFound \<Rightarrow> (False, cleanupOrphans (td_orphans v) n)
     | ReadErr \<Rightarrow> (True, [])
     | Found child \<Rightarrow>
         (if jb_DeletionTimestamp child \<noteq> None then (False, [])
          else (td_delete v (JobObj job) \<notin> {Accepted, NoSuchObject}, [JobObj job])))"

definition tearDownChildren :: "teardown_view \<Rightarrow> vgpu_gang_reservation \<Rightarrow> bool \<times> child_object list" where
  "tearDownChildren v rsv =
    (list_ex (\<lambda>n. fst (teardown_child v n)) (rv_ChildClaims rsv),
     concat (map (\<lambda>n. snd (teardown_child v n)) (rv_ChildClaims rsv)))"

section \<open>The reconcile\<close>

record rsv_outcome =
  ro_result :: reconcile_result
  ro_deletes :: "child_object list"
  ro_written :: "vgpu_gang_reservation option"

definition outcome :: "reconcile_result \<Rightarrow> rsv_outcome" where
  "outcome r = \<lparr>ro_result = r, ro_deletes = [], ro_written = None\<rparr>"

definition child_gone :: "snapshot \<Rightarrow> string \<Rightarrow> bool" where
  "child_gone snap n \<longleftrightarrow> at_claim snap n = NotFound \<and> at_slice snap (slice_name n) = NotFound"

definition continueTeardown :: "rsv_env \<Rightarrow> vgpu_gang_reservation \<Rightarrow> sliceTally \<Rightarrow> rsv_outcome" where
  "continueTeardown env rsv t =
    (if list_all (child_gone (re_gone env)) (rv_ChildClaims rsv) then
       (let (err, w) = applyPhase (re_apply env) (re_applyNow env) RsvReleased
                         ''teardown complete; all children verified gone'' t
        in \<lparr>ro_result = (if err \<noteq> None then Requeue (5 * second) else done_result), ro_deletes = [], ro_written = w\<rparr>)
     else
       (let (_, dels) = tearDownChildren (re_teardown env) rsv;
            (_, w) = applyPhase (re_apply env) (re_applyNow env) RsvFailed (rv_FailureReason rsv) t
        in \<lparr>ro_result = Requeue (3 * second), ro_deletes = dels, ro_written = w\<rparr>))"

definition finish_reconcile ::
  "rsv_env \<Rightarrow> vgpu_gang_reservation \<Rightarrow> sliceTally \<Rightarrow> string \<Rightarrow> string \<Rightarrow> int \<Rightarrow> rsv_outcome" where
  "finish_reconcile env rsv t nextPhase reason requeue =
    (let failing = (nextPhase = RsvFailed \<and> rv_Phase rsv \<noteq> RsvFailed);
         dels = (if failing then snd (tearDownChildren (re_teardown env) rsv) else []);
         t' = (if failing then (case tallyChildSlices (re_retally env) rsv of Some f \<Rightarrow> f | None \<Rightarrow> t) else t);
         (err, w) = applyPhase (re_apply env) (re_applyNow env) nextPhase reason t'
     in \<lparr>ro_result = (case err of None \<Rightarrow> Requeue requeue
                     | Some e \<Rightarrow> if isNotFound e then done_result else ReconcileError),
         ro_deletes = dels, ro_written = w\<rparr>)"

definition Reconcile_reservation :: "rsv_env \<Rightarrow> rsv_outcome" where
  "Reconcile_reservation env =
    (case re_rsv env of
       NotFound \<Rightarrow> outcome done_result
     | ReadErr \<Rightarrow> outcome ReconcileError
     | Found rsv \<Rightarrow>
         if rv_DeletionTimestamp rsv \<noteq> None then outcome done_result
         else if rv_Phase rsv = RsvReleased then outcome done_result
         else case tallyChildSlices (re_tally env) rsv of
           None \<Rightarrow> outcome ReconcileError
         | Some t \<Rightarrow>
             if rv_Phase rsv = RsvFailed then continueTeardown env rsv t
             else case decideNextPhase (re_now env) rsv t of (nextPhase, reason, requeue) \<Rightarrow>
               if nextPhase = RsvFailed \<and> rv_Phase rsv = RsvCommitted \<and> HasPrefix reason lost_text then
                 (case childLossConfirmedDirect (re_direct env) rsv of
                    Some True \<Rightarrow> finish_reconcile env rsv t nextPhase reason requeue
                  | _ \<Rightarrow> outcome (Requeue (3 * second)))
               else finish_reconcile env rsv t nextPhase reason requeue)"

section \<open>The tally counts every child once\<close>

definition slot_failed :: "snapshot \<Rightarrow> string \<Rightarrow> bool" where
  "slot_failed snap n \<longleftrightarrow> (\<exists>c s. at_claim snap n = Found c \<and> cl_DeletionTimestamp c = None \<and>
     at_slice snap (slice_name n) = Found s \<and> sl_DeletionTimestamp s = None \<and> sl_Phase s = ''Failed'')"

definition slots_counted :: "sliceTally \<Rightarrow> int" where
  "slots_counted t = reservedSlots t + schedulingFailedSlots t + tearingDownSlots t + pendingSlots t + missingSlots t"

definition tally_sane :: "sliceTally \<Rightarrow> bool" where
  "tally_sane t \<longleftrightarrow> 0 \<le> committedSlots t \<and> committedSlots t \<le> reservedSlots t \<and> 0 \<le> schedulingFailedSlots t \<and>
     0 \<le> tearingDownSlots t \<and> 0 \<le> pendingSlots t \<and> 0 \<le> missingSlots t"

lemma note_state_counts [simp]:
  "reservedSlots (note_state n w t) = reservedSlots t" "committedSlots (note_state n w t) = committedSlots t"
  "failedSlots (note_state n w t) = failedSlots t" "schedulingFailedSlots (note_state n w t) = schedulingFailedSlots t"
  "tearingDownSlots (note_state n w t) = tearingDownSlots t" "pendingSlots (note_state n w t) = pendingSlots t"
  "missingSlots (note_state n w t) = missingSlots t"
  by (simp_all add: note_state_def)

lemma tally_slice_counts:
  "slots_counted (tally_slice n s t) = slots_counted t + 1"
  "tally_sane t \<Longrightarrow> tally_sane (tally_slice n s t)"
  by (simp_all add: tally_slice_def slots_counted_def tally_sane_def Let_def)

lemma tally_child_counts:
  assumes "tally_child snap n t = Some t'"
  shows "slots_counted t' = slots_counted t + 1" and "tally_sane t \<Longrightarrow> tally_sane t'"
  using assms tally_slice_counts
  by (auto simp: tally_child_def slots_counted_def tally_sane_def split: api_read.splits if_splits)

lemma tally_child_failed:
  assumes "tally_child snap n t = Some t'"
  shows "schedulingFailedSlots t' = schedulingFailedSlots t + (if slot_failed snap n then 1 else 0)"
  using assms
  by (auto simp: tally_child_def slot_failed_def tally_slice_def Let_def split: api_read.splits if_splits)

lemma tally_child_lost:
  assumes "tally_child snap n t = Some t'"
    and "missingSlots t' + pendingSlots t' + tearingDownSlots t' \<noteq> missingSlots t + pendingSlots t + tearingDownSlots t"
  shows "child_lost snap n = Some True"
  using assms
  by (auto simp: tally_child_def child_lost_def tally_slice_def Let_def split: api_read.splits if_splits)

lemma tally_loop_counts:
  "tally_loop snap ns t = Some t' \<Longrightarrow>
   slots_counted t' = slots_counted t + int (length ns) \<and> (tally_sane t \<longrightarrow> tally_sane t')"
proof (induction ns arbitrary: t)
  case (Cons n ns)
  then obtain u where u: "tally_child snap n t = Some u" "tally_loop snap ns u = Some t'"
    by (auto split: option.splits)
  then show ?case using Cons.IH [OF u(2)] tally_child_counts [OF u(1)] by auto
qed simp

lemma tally_loop_failed:
  "tally_loop snap ns t = Some t' \<Longrightarrow> schedulingFailedSlots t' > schedulingFailedSlots t \<Longrightarrow> \<exists>n \<in> set ns. slot_failed snap n"
proof (induction ns arbitrary: t)
  case (Cons n ns)
  then obtain u where u: "tally_child snap n t = Some u" "tally_loop snap ns u = Some t'"
    by (auto split: option.splits)
  then show ?case
    using Cons.IH [OF u(2)] tally_child_failed [OF u(1)] Cons.prems(2) by (cases "slot_failed snap n") auto
qed simp

lemma tally_loop_lost:
  "tally_loop snap ns t = Some t' \<Longrightarrow>
   missingSlots t' + pendingSlots t' + tearingDownSlots t' \<noteq> missingSlots t + pendingSlots t + tearingDownSlots t \<Longrightarrow>
   \<exists>n \<in> set ns. child_lost snap n = Some True"
proof (induction ns arbitrary: t)
  case (Cons n ns)
  then obtain u where u: "tally_child snap n t = Some u" "tally_loop snap ns u = Some t'"
    by (auto split: option.splits)
  show ?case
  proof (cases "child_lost snap n = Some True")
    case False
    then have "missingSlots u + pendingSlots u + tearingDownSlots u = missingSlots t + pendingSlots t + tearingDownSlots t"
      using tally_child_lost [OF u(1)] by blast
    then show ?thesis using Cons.IH [OF u(2)] Cons.prems(2) by auto
  qed simp
qed simp

lemma tallyE:
  assumes "tallyChildSlices snap rsv = Some t"
  obtains u where "tally_loop snap (rv_ChildClaims rsv) empty_tally = Some u"
    and "t = u\<lparr>failedSlots := schedulingFailedSlots u\<rparr>"
  using assms by (auto simp: tallyChildSlices_def)

lemma tally_counts:
  assumes "tallyChildSlices snap rsv = Some t"
  shows "slots_counted t = int (length (rv_ChildClaims rsv))" and "tally_sane t"
    and "failedSlots t = schedulingFailedSlots t"
    and "schedulingFailedSlots t > 0 \<Longrightarrow> \<exists>n \<in> set (rv_ChildClaims rsv). slot_failed snap n"
    and "missingSlots t + pendingSlots t + tearingDownSlots t > 0 \<Longrightarrow>
      \<exists>n \<in> set (rv_ChildClaims rsv). child_lost snap n = Some True"
proof -
  obtain u where u: "tally_loop snap (rv_ChildClaims rsv) empty_tally = Some u"
    and t: "t = u\<lparr>failedSlots := schedulingFailedSlots u\<rparr>"
    using assms by (rule tallyE)
  show "slots_counted t = int (length (rv_ChildClaims rsv))" "tally_sane t"
    using tally_loop_counts [OF u] by (simp_all add: t slots_counted_def tally_sane_def empty_tally_def)
  show "failedSlots t = schedulingFailedSlots t" by (simp add: t)
  show "schedulingFailedSlots t > 0 \<Longrightarrow> \<exists>n \<in> set (rv_ChildClaims rsv). slot_failed snap n"
    using tally_loop_failed [OF u] by (simp add: t empty_tally_def)
  show "missingSlots t + pendingSlots t + tearingDownSlots t > 0 \<Longrightarrow>
      \<exists>n \<in> set (rv_ChildClaims rsv). child_lost snap n = Some True"
    using tally_loop_lost [OF u] by (simp add: t empty_tally_def)
qed

section \<open>What the phase machine and the writes do\<close>

lemma lost_loop_True: "lost_loop snap ns = Some True \<Longrightarrow> \<exists>n \<in> set ns. child_lost snap n = Some True"
  by (induction ns) (auto split: option.splits bool.splits)

lemma apply_change_phase [simp]: "rv_Phase (apply_change now p r t f) = p"
  by (simp add: apply_change_def Let_def)

lemma applyPhase_written: "snd (applyPhase net now p r t) = Some w \<Longrightarrow> \<exists>f. w = apply_change now p r t f"
  using RetryOnConflict_written [of net "\<lambda>f. Some (apply_change now p r t f)" w]
  by (auto simp: applyPhase_def)

lemma applyPhase_phase: "snd (applyPhase net now p r t) = Some w \<Longrightarrow> rv_Phase w = p"
  using applyPhase_written by fastforce

lemma finish_written:
  "ro_written (finish_reconcile env rsv t p r q) = Some w \<Longrightarrow> rv_Phase w = p"
  using applyPhase_phase by (auto simp: finish_reconcile_def Let_def split: prod.splits) (metis snd_conv)+

lemma finish_deletes:
  "ro_deletes (finish_reconcile env rsv t p r q) =
   (if p = RsvFailed \<and> rv_Phase rsv \<noteq> RsvFailed then snd (tearDownChildren (re_teardown env) rsv) else [])"
  by (simp add: finish_reconcile_def Let_def split: prod.splits)

lemma decide_Committed:
  assumes "rv_Phase rsv = RsvCommitted" and "decideNextPhase now rsv t = (p, r, q)"
  shows "p = RsvCommitted \<or> p = RsvFailed \<and> (schedulingFailedSlots t > 0 \<or>
    missingSlots t + pendingSlots t + tearingDownSlots t > 0 \<and> HasPrefix r lost_text)"
  using assms by (auto simp: decideNextPhase_def Let_def HasPrefix_iff split: if_splits)

lemma decide_not_Released:
  assumes "rv_Phase rsv \<noteq> RsvReleased" and "decideNextPhase now rsv t = (p, r, q)"
  shows "p \<noteq> RsvReleased"
  using assms by (auto simp: decideNextPhase_def Let_def split: if_splits option.splits)

lemma decide_expired:
  assumes "rv_Phase rsv = RsvReserving" and "rv_FirstReservingTime rsv = Some t0" and "now - t0 > deadline_of rsv * second"
    and "reservedSlots t < rv_GangSize rsv" and "committedSlots t < rv_GangSize rsv"
  shows "\<exists>r q. decideNextPhase now rsv t = (RsvFailed, r, q)"
  using assms by (cases "schedulingFailedSlots t > 0") (simp_all add: decideNextPhase_def)

lemma decide_regression:
  assumes "rv_Phase rsv = RsvReserved" and "reservedSlots t < rv_GangSize rsv" and "committedSlots t < rv_GangSize rsv"
  shows "\<exists>r q. decideNextPhase now rsv t = (RsvFailed, r, q)"
  using assms by (cases "schedulingFailedSlots t > 0") (simp_all add: decideNextPhase_def)

lemma teardown_deletes_live:
  assumes "n \<in> set (rv_ChildClaims rsv)" and "td_job v (job_of_claim n) = Found j" and "jb_DeletionTimestamp j = None"
  shows "JobObj (job_of_claim n) \<in> set (snd (tearDownChildren v rsv))"
proof -
  have "JobObj (job_of_claim n) \<in> set (snd (teardown_child v n))"
    using assms by (simp add: teardown_child_def Let_def)
  then show ?thesis using assms(1) by (auto simp: tearDownChildren_def)
qed

lemma reconcile_live:
  assumes "re_rsv env = Found rsv" and "rv_DeletionTimestamp rsv = None" and "rv_Phase rsv \<noteq> RsvReleased"
    and "rv_Phase rsv \<noteq> RsvFailed" and "tallyChildSlices (re_tally env) rsv = Some t"
    and "rv_Phase rsv \<noteq> RsvCommitted" and "decideNextPhase (re_now env) rsv t = (p, r, q)"
  shows "Reconcile_reservation env = finish_reconcile env rsv t p r q"
  using assms by (simp add: Reconcile_reservation_def)

section \<open>Properties\<close>

text \<open>A gang of one job \<open>g-0\<close> whose claim and slice the witnesses vary.\<close>

definition gang_rsv :: "string \<Rightarrow> vgpu_gang_reservation" where
  "gang_rsv p = zero_reservation\<lparr>rv_Name := ''g-rsv'', rv_GangSize := 1, rv_ChildClaims := [''g-0-claim''],
     rv_Phase := p, rv_FirstReservingTime := Some 0\<rparr>"

definition child_snap :: "string \<Rightarrow> snapshot" where
  "child_snap phase = \<lparr>at_claim = (\<lambda>n. Found zero_claim), at_slice = (\<lambda>n. Found (slice0\<lparr>sl_Phase := phase\<rparr>))\<rparr>"

definition empty_snap :: snapshot where
  "empty_snap = \<lparr>at_claim = (\<lambda>n. NotFound), at_slice = (\<lambda>n. NotFound)\<rparr>"

definition rsv_env0 :: "string \<Rightarrow> snapshot \<Rightarrow> snapshot option \<Rightarrow> rsv_env" where
  "rsv_env0 p tally direct = \<lparr>re_rsv = Found (gang_rsv p), re_tally = tally, re_direct = direct, re_gone = empty_snap,
     re_teardown = \<lparr>td_job = (\<lambda>n. Found zero_job), td_orphans = empty_snap, td_delete = (\<lambda>obj. Accepted)\<rparr>,
     re_retally = tally, re_apply = (\<lambda>i. (Found (gang_rsv p), Accepted)), re_now = 61 * second, re_applyNow = 61 * second\<rparr>"

lemmas rsv_witness = rsv_env0_def gang_rsv_def zero_reservation_def child_snap_def empty_snap_def slice0_def
  zero_claim_def zero_job_def Reconcile_reservation_def tallyChildSlices_def empty_tally_def tally_child_def
  tally_slice_def decideNextPhase_def childLossConfirmedDirect_def child_lost_def finish_reconcile_def
  tearDownChildren_def teardown_child_def Let_def

text \<open>
  The tally counts every child of the gang exactly once, as reserved, failed, tearing down,
  pending or missing; the committed ones are among the reserved.
\<close>

theorem tally_partitions_children:
  assumes "tallyChildSlices snap rsv = Some t"
  shows "reservedSlots t + schedulingFailedSlots t + tearingDownSlots t + pendingSlots t + missingSlots t
      = int (length (rv_ChildClaims rsv))
    \<and> 0 \<le> committedSlots t \<and> committedSlots t \<le> reservedSlots t \<and> failedSlots t = schedulingFailedSlots t"
  using tally_counts(1-3) [OF assms] by (simp add: slots_counted_def tally_sane_def)

theorem tally_partitions_children_witness:
  "\<exists>t. tallyChildSlices (child_snap ''Ready'') (gang_rsv RsvReserving) = Some t \<and>
    reservedSlots t + schedulingFailedSlots t + tearingDownSlots t + pendingSlots t + missingSlots t = 1"
proof -
  obtain t where t: "tallyChildSlices (child_snap ''Ready'') (gang_rsv RsvReserving) = Some t"
    by (simp add: rsv_witness)
  show ?thesis using t tally_partitions_children [OF t] by (simp add: gang_rsv_def)
qed

text \<open>
  C15. A committed gang is failed only for cause: a reconcile that deletes one of its children or
  writes another phase saw a child slice in phase \<open>Failed\<close>, or has a child whose loss the direct
  reader confirmed (the tally's own reads when no direct reader is wired).
\<close>

theorem committed_gang_fails_for_cause:
  assumes "re_rsv env = Found rsv" and "rv_Phase rsv = RsvCommitted"
    and "ro_deletes (Reconcile_reservation env) \<noteq> [] \<or>
      (\<exists>w. ro_written (Reconcile_reservation env) = Some w \<and> rv_Phase w \<noteq> RsvCommitted)"
  shows "(\<exists>n \<in> set (rv_ChildClaims rsv). slot_failed (re_tally env) n) \<or>
    (\<exists>n \<in> set (rv_ChildClaims rsv).
       child_lost (case re_direct env of None \<Rightarrow> re_tally env | Some snap \<Rightarrow> snap) n = Some True)"
proof -
  have quiet: "\<not> (ro_deletes (outcome r) \<noteq> [] \<or> (\<exists>w. ro_written (outcome r) = Some w \<and> rv_Phase w \<noteq> RsvCommitted))" for r
    by (simp add: outcome_def)
  have del: "rv_DeletionTimestamp rsv = None"
    using assms quiet by (auto simp: Reconcile_reservation_def split: if_splits)
  obtain t where t: "tallyChildSlices (re_tally env) rsv = Some t"
    using assms quiet by (cases "tallyChildSlices (re_tally env) rsv") (auto simp: Reconcile_reservation_def del)
  obtain p r q where d: "decideNextPhase (re_now env) rsv t = (p, r, q)"
    by (metis prod_cases3)
  show ?thesis
  proof (rule ccontr)
    assume none: "\<not> ?thesis"
    then have "schedulingFailedSlots t \<le> 0" using tally_counts(4) [OF t] by force
    then consider "p = RsvCommitted"
      | "p = RsvFailed" "missingSlots t + pendingSlots t + tearingDownSlots t > 0" "HasPrefix r lost_text"
      using decide_Committed [OF assms(2) d] by auto
    then show False
    proof cases
      case 1
      then have "Reconcile_reservation env = finish_reconcile env rsv t p r q"
        using assms(1,2) del t d by (simp add: Reconcile_reservation_def)
      then show False
        using assms(2,3) 1 finish_deletes [of env rsv t p r q] finish_written [of env rsv t p r q] by auto
    next
      case 2
      have conf: "childLossConfirmedDirect (re_direct env) rsv = Some True"
        using assms del t d 2 quiet
        by (auto simp: Reconcile_reservation_def split: option.splits bool.splits)
      show False
      proof (cases "re_direct env")
        case None
        then show False using none tally_counts(5) [OF t] 2 by auto
      next
        case (Some snap)
        then have "lost_loop snap (rv_ChildClaims rsv) = Some True"
          using conf by (simp add: childLossConfirmedDirect_def)
        then show False using none lost_loop_True Some by auto
      qed
    qed
  qed
qed

theorem committed_gang_fails_for_cause_witness:
  "\<exists>n \<in> set (rv_ChildClaims (gang_rsv RsvCommitted)). slot_failed empty_snap n \<or> child_lost empty_snap n = Some True"
proof -
  let ?env = "rsv_env0 RsvCommitted empty_snap (Some empty_snap)"
  have p: "HasPrefix (lost_text @ x) lost_text" for x by (auto simp: HasPrefix_iff)
  have "ro_deletes (Reconcile_reservation ?env) \<noteq> []"
    by (simp add: rsv_witness p split: prod.splits)
  then show ?thesis
    using committed_gang_fails_for_cause [of ?env "gang_rsv RsvCommitted"]
    by (auto simp: rsv_env0_def gang_rsv_def)
qed

text \<open>
  C25. \<open>Released\<close> is reached only from \<open>Failed\<close>, and only when the claim and the slice of every child
  were definitely absent: a failed read never counts as gone.
\<close>

theorem released_only_when_gone:
  assumes "ro_written (Reconcile_reservation env) = Some w" and "rv_Phase w = RsvReleased"
  shows "\<exists>rsv. re_rsv env = Found rsv \<and> rv_Phase rsv = RsvFailed \<and>
    (\<forall>n \<in> set (rv_ChildClaims rsv). at_claim (re_gone env) n = NotFound \<and> at_slice (re_gone env) (slice_name n) = NotFound)"
proof -
  obtain rsv where r: "re_rsv env = Found rsv"
    using assms(1) by (cases "re_rsv env") (auto simp: Reconcile_reservation_def outcome_def)
  have nr: "rv_Phase rsv \<noteq> RsvReleased" and del: "rv_DeletionTimestamp rsv = None"
    using assms(1) r by (auto simp: Reconcile_reservation_def outcome_def split: if_splits)
  obtain t where t: "tallyChildSlices (re_tally env) rsv = Some t"
    using assms(1) r nr del
    by (cases "tallyChildSlices (re_tally env) rsv") (auto simp: Reconcile_reservation_def outcome_def)
  have f: "rv_Phase rsv = RsvFailed"
  proof (rule ccontr)
    assume nf: "rv_Phase rsv \<noteq> RsvFailed"
    obtain p rs q where d: "decideNextPhase (re_now env) rsv t = (p, rs, q)"
      by (metis prod_cases3)
    have "Reconcile_reservation env = finish_reconcile env rsv t p rs q \<or> ro_written (Reconcile_reservation env) = None"
      using r nr del t nf d by (auto simp: Reconcile_reservation_def outcome_def split: option.splits bool.splits)
    then have "rv_Phase w = p" using assms(1) finish_written by auto
    then show False using decide_not_Released [OF nr d] assms(2) by simp
  qed
  have e: "Reconcile_reservation env = continueTeardown env rsv t"
    using r nr del t f by (simp add: Reconcile_reservation_def)
  have "list_all (child_gone (re_gone env)) (rv_ChildClaims rsv)"
  proof (rule ccontr)
    assume "\<not> ?thesis"
    then have "snd (applyPhase (re_apply env) (re_applyNow env) RsvFailed (rv_FailureReason rsv) t) = Some w"
      using assms(1) unfolding e continueTeardown_def by (simp split: prod.splits)
    then show False using applyPhase_phase assms(2) by fastforce
  qed
  then show ?thesis using r f by (auto simp: list_all_iff child_gone_def)
qed

theorem released_only_when_gone_witness:
  "\<exists>rsv. re_rsv (rsv_env0 RsvFailed empty_snap None) = Found rsv \<and> rv_Phase rsv = RsvFailed \<and>
    (\<forall>n \<in> set (rv_ChildClaims rsv). at_claim empty_snap n = NotFound \<and> at_slice empty_snap (slice_name n) = NotFound)"
proof -
  let ?env = "rsv_env0 RsvFailed empty_snap None"
  obtain t where "tallyChildSlices empty_snap (gang_rsv RsvFailed) = Some t"
    by (simp add: rsv_witness)
  then have "Reconcile_reservation ?env = continueTeardown ?env (gang_rsv RsvFailed) t"
    by (simp add: Reconcile_reservation_def rsv_env0_def gang_rsv_def zero_reservation_def)
  moreover have "list_all (child_gone (re_gone ?env)) (rv_ChildClaims (gang_rsv RsvFailed))"
    by (simp add: rsv_env0_def gang_rsv_def child_gone_def empty_snap_def)
  ultimately have "\<exists>w. ro_written (Reconcile_reservation ?env) = Some w \<and> rv_Phase w = RsvReleased"
    by (simp add: continueTeardown_def applyPhase_def RetryOnConflict_first [where x = "gang_rsv RsvFailed"]
        rsv_env0_def ignoreNoObject_def)
  then show ?thesis
    using released_only_when_gone [of ?env] by (auto simp: rsv_env0_def)
qed



text \<open>
  The direct confirmation guards only the committed phase: when the informer shows too few
  reserved children of a \<open>Reserved\<close> gang, the children are deleted whatever the direct reader would
  have shown, even when it sees all of them \<open>Ready\<close>.
\<close>

theorem reserved_gang_torn_down_unconfirmed:
  assumes "re_rsv env = Found rsv" and "rv_DeletionTimestamp rsv = None" and "rv_Phase rsv = RsvReserved"
    and "tallyChildSlices (re_tally env) rsv = Some t" and "reservedSlots t < rv_GangSize rsv"
    and "n \<in> set (rv_ChildClaims rsv)" and "td_job (re_teardown env) (job_of_claim n) = Found j"
    and "jb_DeletionTimestamp j = None"
  shows "JobObj (job_of_claim n) \<in> set (ro_deletes (Reconcile_reservation (env\<lparr>re_direct := direct\<rparr>)))"
proof -
  have "committedSlots t < rv_GangSize rsv"
    using tally_counts(2) [OF assms(4)] assms(5) by (simp add: tally_sane_def)
  then obtain r q where "decideNextPhase (re_now env) rsv t = (RsvFailed, r, q)"
    using decide_regression assms by blast
  then have e: "Reconcile_reservation (env\<lparr>re_direct := direct\<rparr>) = finish_reconcile (env\<lparr>re_direct := direct\<rparr>) rsv t RsvFailed r q"
    using assms by (intro reconcile_live) simp_all
  show ?thesis
    unfolding e finish_deletes using assms(3,6-8) teardown_deletes_live by auto
qed

theorem reserved_gang_torn_down_unconfirmed_witness:
  "JobObj (job_of_claim ''g-0-claim'') \<in>
    set (ro_deletes (Reconcile_reservation (rsv_env0 RsvReserved empty_snap (Some (child_snap ''Ready'')))))"
proof -
  let ?env = "rsv_env0 RsvReserved empty_snap (Some (child_snap ''Ready''))"
  obtain t where t: "tallyChildSlices (re_tally ?env) (gang_rsv RsvReserved) = Some t" "reservedSlots t = 0"
    by (simp add: rsv_witness)
  show ?thesis
    using reserved_gang_torn_down_unconfirmed [of ?env "gang_rsv RsvReserved" t "''g-0-claim''" zero_job
        "Some (child_snap ''Ready'')"] t
    by (simp add: rsv_env0_def gang_rsv_def zero_reservation_def zero_job_def)
qed

end
