(* ===== verification/GoHeap.thy ===== *)
theory GoHeap
  imports Prelude
begin

text \<open>
  Go's \<open>container/heap\<close>, as the priority queue of \<open>internal/scheduler/priorityqueue\<close> uses it:
  \<open>up\<close> and \<open>down\<close> over a heap interface given by its \<open>Less\<close> and \<open>Swap\<close> methods. The locale
  \<open>heap_interface\<close> is the contract of those methods; inside it the two loops are shown to repair a
  heap with one misplaced element, and to keep everything every swap keeps.
\<close>

section \<open>The loops of the standard library\<close>

definition parent_of :: "nat \<Rightarrow> nat" where
  "parent_of j = (j - 1) div 2"

function heap_up :: "('s \<Rightarrow> nat \<Rightarrow> nat \<Rightarrow> bool) \<Rightarrow> ('s \<Rightarrow> nat \<Rightarrow> nat \<Rightarrow> 's) \<Rightarrow> 's \<Rightarrow> nat \<Rightarrow> 's" where
  "heap_up Less Swap s j =
     (let i = parent_of j in
      if i = j \<or> \<not> Less s j i then s else heap_up Less Swap (Swap s i j) i)"
  by pat_completeness auto

termination
  by (relation "measure (\<lambda>(_, _, _, j). j)") (auto simp: parent_of_def)

text \<open>The child \<open>down\<close> compares with: the left one, or the right one when it is strictly first.\<close>

definition pick_child :: "('s \<Rightarrow> nat \<Rightarrow> nat \<Rightarrow> bool) \<Rightarrow> 's \<Rightarrow> nat \<Rightarrow> nat \<Rightarrow> nat" where
  "pick_child Less s i n =
     (let j1 = 2 * i + 1; j2 = j1 + 1 in if j2 < n \<and> Less s j2 j1 then j2 else j1)"

text \<open>The result is the heap and whether an element moved (\<open>i > i0\<close>).\<close>

function heap_down ::
  "('s \<Rightarrow> nat \<Rightarrow> nat \<Rightarrow> bool) \<Rightarrow> ('s \<Rightarrow> nat \<Rightarrow> nat \<Rightarrow> 's) \<Rightarrow> 's \<Rightarrow> nat \<Rightarrow> nat \<Rightarrow> nat \<Rightarrow> 's \<times> bool" where
  "heap_down Less Swap s i0 i n =
     (if 2 * i + 1 \<ge> n then (s, i > i0)
      else let j = pick_child Less s i n in
        if \<not> Less s j i then (s, i > i0) else heap_down Less Swap (Swap s i j) i0 j n)"
  by pat_completeness auto

termination
  by (relation "measure (\<lambda>(_, _, _, _, i, n). n - i)") (auto simp: pick_child_def Let_def)

declare heap_up.simps [simp del] heap_down.simps [simp del]

definition heap_fix ::
  "('s \<Rightarrow> nat \<Rightarrow> nat \<Rightarrow> bool) \<Rightarrow> ('s \<Rightarrow> nat \<Rightarrow> nat \<Rightarrow> 's) \<Rightarrow> ('s \<Rightarrow> nat) \<Rightarrow> 's \<Rightarrow> nat \<Rightarrow> 's" where
  "heap_fix Less Swap Len s i =
     (case heap_down Less Swap s i i (Len s) of (s', moved) \<Rightarrow>
        if moved then s' else heap_up Less Swap s' i)"

section \<open>Heap order on lists\<close>

text \<open>
  \<open>heap_ordered\<close> is the heap property of the first \<open>n\<close> elements; \<open>up_gap\<close> and \<open>down_gap\<close> are the
  two shapes of a heap with one misplaced element.
\<close>

definition heap_ordered :: "('a \<Rightarrow> 'a \<Rightarrow> bool) \<Rightarrow> 'a list \<Rightarrow> nat \<Rightarrow> bool" where
  "heap_ordered lt xs n \<longleftrightarrow> (\<forall>k < n. 0 < k \<longrightarrow> \<not> lt (xs ! k) (xs ! parent_of k))"

definition up_gap :: "('a \<Rightarrow> 'a \<Rightarrow> bool) \<Rightarrow> 'a list \<Rightarrow> nat \<Rightarrow> nat \<Rightarrow> bool" where
  "up_gap lt xs n i \<longleftrightarrow>
     (\<forall>k < n. 0 < k \<longrightarrow> k \<noteq> i \<longrightarrow> \<not> lt (xs ! k) (xs ! parent_of k)) \<and>
     (\<forall>k < n. 0 < k \<longrightarrow> 0 < i \<longrightarrow> parent_of k = i \<longrightarrow> \<not> lt (xs ! k) (xs ! parent_of i))"

definition down_gap :: "('a \<Rightarrow> 'a \<Rightarrow> bool) \<Rightarrow> 'a list \<Rightarrow> nat \<Rightarrow> nat \<Rightarrow> bool" where
  "down_gap lt xs n i \<longleftrightarrow>
     (\<forall>k < n. 0 < k \<longrightarrow> parent_of k \<noteq> i \<longrightarrow> \<not> lt (xs ! k) (xs ! parent_of k)) \<and>
     (\<forall>k < n. 0 < k \<longrightarrow> 0 < i \<longrightarrow> parent_of k = i \<longrightarrow> \<not> lt (xs ! k) (xs ! parent_of i))"

definition swap_at :: "'a list \<Rightarrow> nat \<Rightarrow> nat \<Rightarrow> 'a list" where
  "swap_at xs i j = xs[i := xs ! j, j := xs ! i]"

lemma length_swap_at [simp]: "length (swap_at xs i j) = length xs"
  by (simp add: swap_at_def)

lemma nth_swap_at:
  "i < length xs \<Longrightarrow> j < length xs \<Longrightarrow> k < length xs \<Longrightarrow>
   swap_at xs i j ! k = (if k = j then xs ! i else if k = i then xs ! j else xs ! k)"
  by (simp add: swap_at_def nth_list_update)

lemma mset_swap_at [simp]: "i < length xs \<Longrightarrow> j < length xs \<Longrightarrow> mset (swap_at xs i j) = mset xs"
  unfolding swap_at_def by (rule mset_swap)

lemma map_swap_at: "i < length xs \<Longrightarrow> j < length xs \<Longrightarrow> map f (swap_at xs i j) = swap_at (map f xs) i j"
  by (simp add: swap_at_def map_update)

lemma parent_less: "0 < k \<Longrightarrow> parent_of k < k"
  by (simp add: parent_of_def)

lemma parent_eq_self: "parent_of k = k \<longleftrightarrow> k = 0"
  by (auto simp: parent_of_def)

lemma children: "0 < k \<Longrightarrow> parent_of k = i \<longleftrightarrow> k = 2 * i + 1 \<or> k = 2 * i + 2"
  by (auto simp: parent_of_def)

lemma up_gap_0: "up_gap lt xs n 0 \<Longrightarrow> heap_ordered lt xs n"
  by (simp add: up_gap_def heap_ordered_def)

lemma down_gap_leaf:
  assumes "down_gap lt xs n i" and "n \<le> 2 * i + 1"
  shows "heap_ordered lt xs n"
  unfolding heap_ordered_def
proof (intro allI impI)
  fix k assume k: "k < n" "0 < k"
  then have "parent_of k \<noteq> i"
    using assms(2) by (simp add: children)
  then show "\<not> lt (xs ! k) (xs ! parent_of k)"
    using assms(1) k by (simp add: down_gap_def)
qed

text \<open>Removing the last place of the heap, or appending one element, leaves one gap at most.\<close>

lemma heap_ordered_le: "heap_ordered lt xs n \<Longrightarrow> m \<le> n \<Longrightarrow> heap_ordered lt xs m"
  by (simp add: heap_ordered_def)

lemma heap_ordered_cong:
  "(\<And>k. k < n \<Longrightarrow> xs ! k = ys ! k) \<Longrightarrow> heap_ordered lt xs n \<longleftrightarrow> heap_ordered lt ys n"
  unfolding heap_ordered_def by (metis order.strict_trans parent_less)

lemma up_gap_append:
  assumes "heap_ordered lt xs (length xs)"
  shows "up_gap lt (xs @ [x]) (Suc (length xs)) (length xs)"
proof -
  have a: "\<not> lt ((xs @ [x]) ! k) ((xs @ [x]) ! parent_of k)"
    if "k < Suc (length xs)" "0 < k" "k \<noteq> length xs" for k
    using that assms parent_less [of k] by (simp add: heap_ordered_def nth_append)
  have b: "parent_of k \<noteq> length xs" if "k < Suc (length xs)" "0 < k" for k
    using that parent_less [of k] by simp
  show ?thesis
    unfolding up_gap_def using a b by blast
qed

lemma down_gap_root:
  assumes "heap_ordered lt xs (Suc n)" and "n < length xs"
  shows "down_gap lt (swap_at xs 0 n) n 0"
proof -
  have "\<not> lt (swap_at xs 0 n ! k) (swap_at xs 0 n ! parent_of k)"
    if "k < n" "0 < k" "parent_of k \<noteq> 0" for k
  proof -
    have "parent_of k < n" "xs \<noteq> []" using that assms parent_less [of k] by auto
    then show ?thesis
      using that assms nth_swap_at [of 0 xs n k] nth_swap_at [of 0 xs n "parent_of k"]
      by (simp add: heap_ordered_def)
  qed
  then show ?thesis by (simp add: down_gap_def)
qed

context strict_weak
begin

lemma root_first: "heap_ordered lt xs n \<Longrightarrow> k < n \<Longrightarrow> \<not> lt (xs ! k) (xs ! 0)"
proof (induction k rule: less_induct)
  case (less k)
  show ?case
  proof (cases "k = 0")
    case True
    then show ?thesis by (simp add: irrefl)
  next
    case False
    then have p: "parent_of k < k" by (simp add: parent_less)
    have "\<not> lt (xs ! k) (xs ! parent_of k)"
      using less.prems False by (simp add: heap_ordered_def)
    moreover have "\<not> lt (xs ! parent_of k) (xs ! 0)"
      using less.IH [OF p less.prems(1)] p less.prems(2) by linarith
    ultimately show ?thesis by (rule neg_trans)
  qed
qed

lemma up_gap_step:
  assumes g: "up_gap lt xs n j" and j: "0 < j" "j < n" "n \<le> length xs"
    and l: "lt (xs ! j) (xs ! parent_of j)"
  shows "up_gap lt (swap_at xs (parent_of j) j) n (parent_of j)"
proof -
  let ?p = "parent_of j" and ?ys = "swap_at xs (parent_of j) j"
  have pj: "?p < j" using j by (simp add: parent_less)
  have nth: "?ys ! k = (if k = j then xs ! ?p else if k = ?p then xs ! j else xs ! k)" if "k < n" for k
    using that j pj by (simp add: nth_swap_at)
  have g1: "\<not> lt (xs ! k) (xs ! parent_of k)" if "k < n" "0 < k" "k \<noteq> j" for k
    using g that by (simp add: up_gap_def)
  have g2: "\<not> lt (xs ! k) (xs ! ?p)" if "k < n" "0 < k" "parent_of k = j" for k
    using g that j by (simp add: up_gap_def)
  have sib: "\<not> lt (xs ! k) (xs ! j)" if "k < n" "0 < k" "parent_of k = ?p" "k \<noteq> j" for k
    using g1 [OF that(1,2,4)] that(3) asym [OF l] neg_trans by metis
  have first: "\<not> lt (?ys ! k) (?ys ! parent_of k)" if k: "k < n" "0 < k" "k \<noteq> ?p" for k
  proof -
    have q: "parent_of k < k" using k by (simp add: parent_less)
    consider "k = j" | "k \<noteq> j" "parent_of k = j" | "k \<noteq> j" "parent_of k = ?p"
      | "k \<noteq> j" "parent_of k \<noteq> j" "parent_of k \<noteq> ?p" by blast
    then show ?thesis
      using k q pj j asym [OF l] g1 [of k] g2 [of k] sib [of k] nth [of k] nth [of "parent_of k"]
      by cases simp_all
  qed
  have second: "\<not> lt (?ys ! k) (?ys ! parent_of ?p)"
    if k: "k < n" "0 < k" "0 < ?p" "parent_of k = ?p" for k
  proof -
    have q: "parent_of ?p < ?p" using k by (simp add: parent_less)
    have up: "\<not> lt (xs ! ?p) (xs ! parent_of ?p)" using g1 [of ?p] k pj j by simp
    show ?thesis
    proof (cases "k = j")
      case True
      then show ?thesis using up q pj j k nth [of k] nth [of "parent_of ?p"] by simp
    next
      case False
      have "\<not> lt (xs ! k) (xs ! ?p)" using g1 [of k] k False by simp
      then have "\<not> lt (xs ! k) (xs ! parent_of ?p)" using up neg_trans by blast
      moreover have "k \<noteq> ?p" using k parent_less [of k] by auto
      ultimately show ?thesis using q pj j k False nth [of k] nth [of "parent_of ?p"] by simp
    qed
  qed
  show ?thesis
    unfolding up_gap_def using first second by blast
qed

lemma down_gap_step:
  assumes g: "down_gap lt xs n i" and j: "0 < j" "j < n" "n \<le> length xs" "parent_of j = i"
    and l: "lt (xs ! j) (xs ! i)"
    and best: "\<And>k. k < n \<Longrightarrow> 0 < k \<Longrightarrow> parent_of k = i \<Longrightarrow> \<not> lt (xs ! k) (xs ! j)"
  shows "down_gap lt (swap_at xs i j) n j"
proof -
  let ?ys = "swap_at xs i j"
  have ij: "i < j" using j parent_less [of j] by simp
  have nth: "?ys ! k = (if k = j then xs ! i else if k = i then xs ! j else xs ! k)" if "k < n" for k
    using that j ij by (simp add: nth_swap_at)
  have g1: "\<not> lt (xs ! k) (xs ! parent_of k)" if "k < n" "0 < k" "parent_of k \<noteq> i" for k
    using g that by (simp add: down_gap_def)
  have g2: "\<not> lt (xs ! j) (xs ! parent_of i)" if "0 < i"
    using g that j by (simp add: down_gap_def)
  have first: "\<not> lt (?ys ! k) (?ys ! parent_of k)" if k: "k < n" "0 < k" "parent_of k \<noteq> j" for k
  proof -
    have q: "parent_of k < k" using k by (simp add: parent_less)
    consider "k = j" | "k \<noteq> j" "parent_of k = i" | "k = i" "k \<noteq> j" "parent_of k \<noteq> i"
      | "k \<noteq> j" "k \<noteq> i" "parent_of k \<noteq> i" by blast
    then show ?thesis
      using k q ij j asym [OF l] g1 [of k] g2 best [of k] nth [of k] nth [of "parent_of k"]
      by cases simp_all
  qed
  have second: "\<not> lt (?ys ! k) (?ys ! parent_of j)" if k: "k < n" "0 < k" "parent_of k = j" for k
  proof -
    have "k \<noteq> j" "k \<noteq> i" using k ij parent_less [of k] by auto
    then show ?thesis using g1 [of k] k ij j nth [of k] nth [of i] by simp
  qed
  show ?thesis
    unfolding down_gap_def using first second by blast
qed

end

section \<open>The contract of a heap interface\<close>

locale heap_interface = strict_weak lt
  for lt :: "'a \<Rightarrow> 'a \<Rightarrow> bool" +
  fixes arr :: "'s \<Rightarrow> 'a list" and Less :: "'s \<Rightarrow> nat \<Rightarrow> nat \<Rightarrow> bool" and Swap :: "'s \<Rightarrow> nat \<Rightarrow> nat \<Rightarrow> 's"
  assumes Less_lt: "i < length (arr s) \<Longrightarrow> j < length (arr s) \<Longrightarrow> Less s i j = lt (arr s ! i) (arr s ! j)"
    and arr_Swap: "i < length (arr s) \<Longrightarrow> j < length (arr s) \<Longrightarrow> arr (Swap s i j) = swap_at (arr s) i j"
begin

lemma up_keeps:
  assumes "P s" and "j < length (arr s)"
    and "\<forall>s i j. P s \<longrightarrow> i < length (arr s) \<longrightarrow> j < length (arr s) \<longrightarrow> P (Swap s i j)"
  shows "P (heap_up Less Swap s j)"
  using assms(1,2)
proof (induction j arbitrary: s rule: less_induct)
  case (less j)
  show ?case
  proof (cases "parent_of j = j \<or> \<not> Less s j (parent_of j)")
    case True
    then show ?thesis using less.prems by (subst heap_up.simps) (simp add: Let_def)
  next
    case False
    then have "0 < j" using parent_eq_self [of j] by simp
    then have p: "parent_of j < j" by (rule parent_less)
    have "P (heap_up Less Swap (Swap s (parent_of j) j) (parent_of j))"
      using less.IH [OF p] less.prems assms(3) p by (simp add: arr_Swap)
    then show ?thesis using False by (subst heap_up.simps) (simp add: Let_def)
  qed
qed

lemma up_mset: "j < length (arr s) \<Longrightarrow> mset (arr (heap_up Less Swap s j)) = mset (arr s)"
  using up_keeps [where P = "\<lambda>t. mset (arr t) = mset (arr s)" and s = s and j = j]
  by (simp add: arr_Swap)

lemma up_heap:
  assumes "up_gap lt (arr s) (length (arr s)) j" and "j < length (arr s)"
  shows "heap_ordered lt (arr (heap_up Less Swap s j)) (length (arr s))"
  using assms
proof (induction j arbitrary: s rule: less_induct)
  case (less j)
  have step: "heap_up Less Swap s j = (if parent_of j = j \<or> \<not> Less s j (parent_of j) then s
      else heap_up Less Swap (Swap s (parent_of j) j) (parent_of j))"
    by (subst heap_up.simps) (simp add: Let_def)
  show ?case
  proof (cases "j = 0")
    case True
    then show ?thesis using less.prems step by (simp add: up_gap_0 parent_of_def)
  next
    case False
    then have p: "parent_of j < j" by (simp add: parent_less)
    then have Lj: "Less s j (parent_of j) = lt (arr s ! j) (arr s ! parent_of j)"
      using less.prems by (simp add: Less_lt)
    show ?thesis
    proof (cases "lt (arr s ! j) (arr s ! parent_of j)")
      case True
      let ?s = "Swap s (parent_of j) j"
      have a: "arr ?s = swap_at (arr s) (parent_of j) j"
        using less.prems p by (simp add: arr_Swap)
      have "up_gap lt (arr ?s) (length (arr ?s)) (parent_of j)"
        using up_gap_step [OF less.prems(1)] False less.prems True a by simp
      then show ?thesis
        using less.IH [OF p, of ?s] step True Lj p less.prems a by simp
    next
      case no: False
      have "heap_ordered lt (arr s) (length (arr s))"
        using less.prems(1) no by (auto simp: up_gap_def heap_ordered_def)
      then show ?thesis using step no Lj by simp
    qed
  qed
qed

lemma pick_child_in:
  assumes "2 * i + 1 < n"
  shows "pick_child Less s i n < n" and "0 < pick_child Less s i n"
    and "parent_of (pick_child Less s i n) = i"
  using assms by (auto simp: pick_child_def Let_def children)

lemma pick_child_best:
  assumes "n \<le> length (arr s)" and "2 * i + 1 < n"
    and "k < n" "0 < k" "parent_of k = i"
  shows "\<not> lt (arr s ! k) (arr s ! pick_child Less s i n)"
proof -
  have "k = 2 * i + 1 \<or> k = 2 * i + 2"
    using assms(4,5) by (simp add: children)
  then show ?thesis
    using assms(1-3) asym irrefl
    by (auto simp: pick_child_def Let_def Less_lt)
qed

lemma down_keeps:
  assumes "P s" and "n \<le> length (arr s)" and "i < n"
    and "\<forall>s i j. P s \<longrightarrow> i < n \<longrightarrow> j < n \<longrightarrow> n \<le> length (arr s) \<longrightarrow> P (Swap s i j)"
  shows "P (fst (heap_down Less Swap s i0 i n)) \<and> length (arr (fst (heap_down Less Swap s i0 i n))) = length (arr s)"
  using assms(1-3)
proof (induction "n - i" arbitrary: s i rule: less_induct)
  case less
  let ?j = "pick_child Less s i n"
  show ?case
  proof (cases "2 * i + 1 \<ge> n \<or> \<not> Less s ?j i")
    case True
    then show ?thesis using less.prems by (subst (1 2) heap_down.simps) (auto simp: Let_def)
  next
    case False
    then have j: "?j < n" "0 < ?j" "parent_of ?j = i" using pick_child_in [of i n s] by simp_all
    then have "i < ?j" using parent_less by metis
    then have d: "n - ?j < n - i" using j by simp
    have s: "P (Swap s i ?j)" "length (arr (Swap s i ?j)) = length (arr s)"
      using less.prems assms(4) j by (simp_all add: arr_Swap)
    show ?thesis
      using less.hyps [OF d s(1)] s(2) less.prems j False
      by (subst (1 2) heap_down.simps) (simp add: Let_def)
  qed
qed

lemma down_heap:
  assumes "down_gap lt (arr s) n i" and "n \<le> length (arr s)"
  shows "heap_ordered lt (arr (fst (heap_down Less Swap s i0 i n))) n"
  using assms
proof (induction "n - i" arbitrary: s i rule: less_induct)
  case less
  let ?j = "pick_child Less s i n"
  show ?case
  proof (cases "n \<le> 2 * i + 1")
    case True
    then show ?thesis
      using down_gap_leaf [OF less.prems(1)] by (subst heap_down.simps) simp
  next
    case False
    then have j: "?j < n" "0 < ?j" "parent_of ?j = i" using pick_child_in [of i n s] by simp_all
    then have ij: "i < ?j" using parent_less by metis
    have L: "Less s ?j i = lt (arr s ! ?j) (arr s ! i)"
      using j ij less.prems(2) by (simp add: Less_lt)
    have best: "\<not> lt (arr s ! k) (arr s ! ?j)" if "k < n" "0 < k" "parent_of k = i" for k
      using pick_child_best [OF less.prems(2)] False that by simp
    show ?thesis
    proof (cases "lt (arr s ! ?j) (arr s ! i)")
      case True
      have a: "arr (Swap s i ?j) = swap_at (arr s) i ?j"
        using j ij less.prems(2) by (simp add: arr_Swap)
      have "down_gap lt (arr (Swap s i ?j)) n ?j"
        unfolding a by (rule down_gap_step [OF less.prems(1) j(2,1) less.prems(2) j(3) True best])
      then show ?thesis
        using less.hyps [of ?j "Swap s i ?j"] ij j less.prems(2) L True False a
        by (subst heap_down.simps) (simp add: Let_def)
    next
      case no: False
      have "\<not> lt (arr s ! k) (arr s ! i)" if "k < n" "0 < k" "parent_of k = i" for k
        using best [OF that] no neg_trans by blast
      then have "heap_ordered lt (arr s) n"
        using less.prems(1) unfolding down_gap_def heap_ordered_def by metis
      then show ?thesis
        using no L False by (subst heap_down.simps) (simp add: Let_def)
    qed
  qed
qed

text \<open>
  \<open>heap.Fix\<close> after an element moved forward in the order: \<open>down\<close> finds nothing to do, and \<open>up\<close>
  repairs the heap.
\<close>

lemma fix_is_up:
  assumes "\<And>k. k < Len s \<Longrightarrow> 0 < k \<Longrightarrow> parent_of k = i \<Longrightarrow> \<not> lt (arr s ! k) (arr s ! i)"
    and "Len s = length (arr s)" and "i < length (arr s)"
  shows "heap_fix Less Swap Len s i = heap_up Less Swap s i"
proof -
  let ?n = "length (arr s)"
  have "heap_down Less Swap s i i ?n = (s, False)"
  proof (cases "?n \<le> 2 * i + 1")
    case True
    then show ?thesis by (subst heap_down.simps) simp
  next
    case False
    let ?j = "pick_child Less s i ?n"
    have j: "?j < ?n" "0 < ?j" "parent_of ?j = i" using False pick_child_in [of i ?n s] by simp_all
    then have "\<not> Less s ?j i" using assms by (simp add: Less_lt)
    then show ?thesis using False by (subst heap_down.simps) (simp add: Let_def)
  qed
  then show ?thesis using assms(2) by (simp add: heap_fix_def)
qed

end

end
