(* ===== verification/PriorityQueue.thy ===== *)
theory PriorityQueue
  imports GoHeap
begin

text \<open>
  The tier-aware workqueue of \<open>internal/scheduler/priorityqueue/priorityqueue.go\<close>. The heap holds
  pointers: an item lives in the store \<open>objs\<close>, the heap and the \<open>dirty\<close> map hold references to it,
  so that \<open>heap.Fix\<close> finds the item's place through its own \<open>heapIndex\<close>. The mutex makes every
  method one step; a \<open>Get\<close> on an empty, running queue waits, which is the result \<open>Blocks\<close>. Logging
  and the condition variable's signals are left out.
\<close>

section \<open>Items and the heap interface\<close>

record 'r item =
  request :: 'r
  priority :: int
  enqueued :: int
  heapIndex :: int

record 'r Queue =
  objs :: "nat \<Rightarrow> 'r item"
  nextRef :: nat
  heap :: "nat list"
  dirty :: "('r, nat) gomap"
  processing :: "('r, unit) gomap"
  dirtyAfterProcessing :: "('r, int) gomap"
  shuttingDown :: bool

definition PriorityBestEffort :: int where
  "PriorityBestEffort = 10"

definition PriorityGuaranteed :: int where
  "PriorityGuaranteed = 100"

definition heap_Len :: "'r Queue \<Rightarrow> nat" where
  "heap_Len q = length (heap q)"

definition heap_Less :: "'r Queue \<Rightarrow> nat \<Rightarrow> nat \<Rightarrow> bool" where
  "heap_Less q i j =
     (let a = objs q (heap q ! i); b = objs q (heap q ! j) in
      if priority a \<noteq> priority b then priority a > priority b else enqueued a < enqueued b)"

definition set_index :: "nat \<Rightarrow> int \<Rightarrow> 'r Queue \<Rightarrow> 'r Queue" where
  "set_index p i q = q\<lparr>objs := (objs q)(p := (objs q p)\<lparr>heapIndex := i\<rparr>)\<rparr>"

definition heap_Swap :: "'r Queue \<Rightarrow> nat \<Rightarrow> nat \<Rightarrow> 'r Queue" where
  "heap_Swap q i j =
     (let h = swap_at (heap q) i j in
      set_index (h ! j) (int j) (set_index (h ! i) (int i) (q\<lparr>heap := h\<rparr>)))"

definition heap_Push :: "nat \<Rightarrow> 'r Queue \<Rightarrow> 'r Queue" where
  "heap_Push p q = (set_index p (int (length (heap q))) q)\<lparr>heap := heap q @ [p]\<rparr>"

definition heap_Pop :: "'r Queue \<Rightarrow> nat \<times> 'r Queue" where
  "heap_Pop q = (let p = last (heap q) in (p, (set_index p (-1) q)\<lparr>heap := butlast (heap q)\<rparr>))"

text \<open>\<open>heap.Push\<close>, \<open>heap.Pop\<close> and \<open>heap.Fix\<close> of the standard library over these methods.\<close>

definition push_item :: "nat \<Rightarrow> 'r Queue \<Rightarrow> 'r Queue" where
  "push_item p q = (let q1 = heap_Push p q in heap_up heap_Less heap_Swap q1 (heap_Len q1 - 1))"

definition pop_item :: "'r Queue \<Rightarrow> nat \<times> 'r Queue" where
  "pop_item q =
     (let n = heap_Len q - 1;
          q1 = heap_Swap q 0 n;
          q2 = fst (heap_down heap_Less heap_Swap q1 0 0 n)
      in heap_Pop q2)"

definition fix_item :: "nat \<Rightarrow> 'r Queue \<Rightarrow> 'r Queue" where
  "fix_item i q = heap_fix heap_Less heap_Swap heap_Len q i"

section \<open>The methods of the queue\<close>

definition New :: "'r Queue" where
  "New = \<lparr>objs = (\<lambda>_. undefined), nextRef = 0, heap = [], dirty = [], processing = [],
          dirtyAfterProcessing = [], shuttingDown = False\<rparr>"

text \<open>\<open>&item{...}\<close> pushed on the heap and entered in \<open>dirty\<close>, as \<open>Add\<close> and \<open>Done\<close> do.\<close>

definition enqueue :: "int \<Rightarrow> int \<Rightarrow> 'r \<Rightarrow> 'r Queue \<Rightarrow> 'r Queue" where
  "enqueue now prio req q =
     (let p = nextRef q;
          it = \<lparr>request = req, priority = prio, enqueued = now, heapIndex = 0\<rparr>;
          q1 = push_item p (q\<lparr>objs := (objs q)(p := it), nextRef := Suc p\<rparr>)
      in q1\<lparr>dirty := gput req p (dirty q1)\<rparr>)"

definition raise_priority :: "nat \<Rightarrow> int \<Rightarrow> 'r Queue \<Rightarrow> 'r Queue" where
  "raise_priority p prio q =
     (let q1 = q\<lparr>objs := (objs q)(p := (objs q p)\<lparr>priority := prio\<rparr>)\<rparr>
      in fix_item (nat (heapIndex (objs q1 p))) q1)"

definition Add :: "('r \<Rightarrow> int) \<Rightarrow> int \<Rightarrow> 'r \<Rightarrow> 'r Queue \<Rightarrow> 'r Queue" where
  "Add priorityFn now req q =
     (if shuttingDown q then q
      else let prio = priorityFn req in
        if ghas (processing q) req
        then q\<lparr>dirtyAfterProcessing := gput req prio (dirtyAfterProcessing q)\<rparr>
        else case map_of (dirty q) req of
          Some p \<Rightarrow> if prio > priority (objs q p) then raise_priority p prio q else q
        | None \<Rightarrow> enqueue now prio req q)"

datatype 'r got = Blocks | ShutDownSeen | Got 'r

definition Get :: "'r Queue \<Rightarrow> 'r got \<times> 'r Queue" where
  "Get q =
     (if heap_Len q = 0 then (if shuttingDown q then ShutDownSeen else Blocks, q)
      else case pop_item q of (p, q1) \<Rightarrow>
        let req = request (objs q1 p) in
        (Got req, q1\<lparr>dirty := gdel req (dirty q1), processing := gput req () (processing q1)\<rparr>))"

definition Done :: "int \<Rightarrow> 'r \<Rightarrow> 'r Queue \<Rightarrow> 'r Queue" where
  "Done now req q =
     (let q1 = q\<lparr>processing := gdel req (processing q)\<rparr> in
      case map_of (dirtyAfterProcessing q1) req of
        None \<Rightarrow> q1
      | Some prio \<Rightarrow>
          enqueue now prio req (q1\<lparr>dirtyAfterProcessing := gdel req (dirtyAfterProcessing q1)\<rparr>))"

definition Len :: "'r Queue \<Rightarrow> nat" where
  "Len q = heap_Len q"

definition ShutDown :: "'r Queue \<Rightarrow> 'r Queue" where
  "ShutDown q = q\<lparr>shuttingDown := True\<rparr>"

definition ShuttingDown :: "'r Queue \<Rightarrow> bool" where
  "ShuttingDown q = shuttingDown q"

text \<open>The test of one round of \<open>ShutDownWithDrain\<close>: nothing queued and nothing in flight.\<close>

definition drained :: "'r Queue \<Rightarrow> bool" where
  "drained q \<longleftrightarrow> heap_Len q = 0 \<and> processing q = []"

text \<open>
  \<open>AddAfter\<close> adds at once for a delay that is not positive; otherwise a timer adds the request at
  the returned time. The rate limiter's \<open>When\<close> is a parameter.
\<close>

definition AddAfter :: "('r \<Rightarrow> int) \<Rightarrow> int \<Rightarrow> int \<Rightarrow> 'r \<Rightarrow> 'r Queue \<Rightarrow> 'r Queue \<times> (int \<times> 'r) option" where
  "AddAfter priorityFn now after req q =
     (if after \<le> 0 then (Add priorityFn now req q, None) else (q, Some (now + after, req)))"

definition AddRateLimited ::
  "('r \<Rightarrow> int) \<Rightarrow> ('r \<Rightarrow> int) \<Rightarrow> int \<Rightarrow> 'r \<Rightarrow> 'r Queue \<Rightarrow> 'r Queue \<times> (int \<times> 'r) option" where
  "AddRateLimited When priorityFn now req q = AddAfter priorityFn now (When req) req q"

section \<open>The item heap meets the contract\<close>

definition entry :: "'r item \<Rightarrow> 'r \<times> int \<times> int" where
  "entry it = (request it, priority it, enqueued it)"

definition entries :: "'r Queue \<Rightarrow> ('r \<times> int \<times> int) list" where
  "entries q = map (\<lambda>p. entry (objs q p)) (heap q)"

text \<open>
  The rank by which requests are served: the higher priority first, then the earlier arrival. It is a
  linear order, so the heap's comparison is the library's.
\<close>

datatype rank = Rank (rk_priority: int) (rk_enqueued: int)

instantiation rank :: linorder
begin

definition less_eq_rank :: "rank \<Rightarrow> rank \<Rightarrow> bool" where
  "less_eq_rank a b \<longleftrightarrow> rk_priority b < rk_priority a \<or> rk_priority a = rk_priority b \<and> rk_enqueued a \<le> rk_enqueued b"

definition less_rank :: "rank \<Rightarrow> rank \<Rightarrow> bool" where
  "less_rank a b \<longleftrightarrow> rk_priority b < rk_priority a \<or> rk_priority a = rk_priority b \<and> rk_enqueued a < rk_enqueued b"

instance
  by standard (auto simp: less_eq_rank_def less_rank_def rank.expand)

end

definition rank_of :: "'r \<times> int \<times> int \<Rightarrow> rank" where
  "rank_of a = (case a of (_, p, t) \<Rightarrow> Rank p t)"

definition before :: "'r \<times> int \<times> int \<Rightarrow> 'r \<times> int \<times> int \<Rightarrow> bool" where
  "before a b \<longleftrightarrow> rank_of a < rank_of b"

lemma before_alt: "before a b \<longleftrightarrow> (case (a, b) of ((_, p, t), (_, p', t')) \<Rightarrow> p > p' \<or> p = p' \<and> t < t')"
  by (simp add: before_def rank_of_def less_rank_def split: prod.split)

lemma entries_length [simp]: "length (entries q) = length (heap q)"
  by (simp add: entries_def)

lemma entry_heapIndex [simp]: "entry (it\<lparr>heapIndex := i\<rparr>) = entry it"
  by (simp add: entry_def)

interpretation item_heap: heap_interface before entries heap_Less heap_Swap
proof unfold_locales
  show "\<not> before y x" if "before x y" for x y :: "'a \<times> int \<times> int"
    using that by (simp add: before_def)
  show "\<not> before x z" if "\<not> before x y" "\<not> before y z" for x y z :: "'a \<times> int \<times> int"
    using that by (simp add: before_def)
  show "heap_Less q i j = before (entries q ! i) (entries q ! j)"
    if "i < length (entries q)" "j < length (entries q)" for i j and q :: "'a Queue"
    using that by (auto simp: heap_Less_def before_alt entries_def entry_def Let_def)
  show "entries (heap_Swap q i j) = swap_at (entries q) i j"
    if "i < length (entries q)" "j < length (entries q)" for i j and q :: "'a Queue"
  proof -
    have "entries (heap_Swap q i j) = map (\<lambda>p. entry (objs q p)) (swap_at (heap q) i j)"
      by (auto simp: entries_def heap_Swap_def set_index_def Let_def)
    then show ?thesis using that by (simp add: map_swap_at entries_def)
  qed
qed

section \<open>What the heap methods keep\<close>

text \<open>
  \<open>index_ok\<close>: every item is in the heap once and knows its place. \<open>same_items\<close>: the second queue
  holds the same items with the same entries; only places differ.
\<close>

definition index_ok :: "'r Queue \<Rightarrow> bool" where
  "index_ok q \<longleftrightarrow> distinct (heap q) \<and> (\<forall>i < length (heap q). heapIndex (objs q (heap q ! i)) = int i) \<and>
     (\<forall>p \<in> set (heap q). p < nextRef q)"

definition same_items :: "'r Queue \<Rightarrow> 'r Queue \<Rightarrow> bool" where
  "same_items q q' \<longleftrightarrow> mset (heap q') = mset (heap q) \<and> nextRef q' = nextRef q \<and>
     (\<forall>p. entry (objs q' p) = entry (objs q p)) \<and> dirty q' = dirty q \<and>
     processing q' = processing q \<and> dirtyAfterProcessing q' = dirtyAfterProcessing q \<and>
     shuttingDown q' = shuttingDown q"

lemma same_items_refl [simp]: "same_items q q"
  by (simp add: same_items_def)

lemma same_items_trans: "same_items q q' \<Longrightarrow> same_items q' q'' \<Longrightarrow> same_items q q''"
  by (simp add: same_items_def)

lemma same_items_set: "same_items q q' \<Longrightarrow> set (heap q') = set (heap q)"
  unfolding same_items_def by (metis set_mset_mset)

lemma same_items_length: "same_items q q' \<Longrightarrow> length (heap q') = length (heap q)"
  unfolding same_items_def by (metis size_mset)

lemma Swap_keeps:
  assumes "index_ok q" and "i < length (heap q)" and "j < length (heap q)"
  shows "index_ok (heap_Swap q i j)" and "same_items q (heap_Swap q i j)"
proof -
  let ?h = "swap_at (heap q) i j"
  have d: "distinct ?h"
    using assms by (simp add: index_ok_def swap_at_def distinct_swap)
  have s: "set ?h = set (heap q)"
    using assms by (metis mset_swap_at set_mset_mset)
  have h: "heap (heap_Swap q i j) = ?h"
    by (simp add: heap_Swap_def set_index_def Let_def)
  have idx: "heapIndex (objs (heap_Swap q i j) (?h ! k)) = int k" if k: "k < length (heap q)" for k
  proof -
    have "?h ! k = ?h ! i \<longleftrightarrow> k = i" "?h ! k = ?h ! j \<longleftrightarrow> k = j" "?h ! i = ?h ! j \<longleftrightarrow> i = j"
      using d k assms by (simp_all add: nth_eq_iff_index_eq)
    then show ?thesis
      using k assms by (auto simp: heap_Swap_def set_index_def Let_def index_ok_def nth_swap_at)
  qed
  show "index_ok (heap_Swap q i j)"
    unfolding index_ok_def h
    using d s idx assms(1) by (simp add: index_ok_def heap_Swap_def set_index_def Let_def)
  show "same_items q (heap_Swap q i j)"
    unfolding same_items_def h
    using assms by (auto simp: heap_Swap_def set_index_def Let_def)
qed

lemma Swap_same_items:
  "same_items q t \<Longrightarrow> index_ok t \<Longrightarrow> i < length (heap t) \<Longrightarrow> j < length (heap t) \<Longrightarrow>
   same_items q (heap_Swap t i j)"
  using Swap_keeps(2) same_items_trans by blast

lemma up_keeps_items:
  assumes "index_ok q" and "j < length (heap q)"
  shows "index_ok (heap_up heap_Less heap_Swap q j) \<and> same_items q (heap_up heap_Less heap_Swap q j)"
  by (rule item_heap.up_keeps [where P = "\<lambda>t. index_ok t \<and> same_items q t"])
    (use assms in \<open>simp_all add: Swap_keeps(1) Swap_same_items\<close>)

lemma down_keeps_items:
  assumes "index_ok q" and "n \<le> length (heap q)" and "i < n"
    and "q' = fst (heap_down heap_Less heap_Swap q i0 i n)"
  shows "index_ok q' \<and> same_items q q' \<and> drop n (heap q') = drop n (heap q)"
proof -
  have swap: "drop n (heap (heap_Swap t a b)) = drop n (heap t)" if "a < n" "b < n" for t :: "'a Queue" and a b
    using that by (simp add: heap_Swap_def set_index_def Let_def swap_at_def)
  have "(\<lambda>t. index_ok t \<and> same_items q t \<and> drop n (heap t) = drop n (heap q)) q'"
    unfolding assms(4)
    by (rule item_heap.down_keeps [THEN conjunct1])
      (use assms in \<open>simp_all add: Swap_keeps(1) Swap_same_items swap\<close>)
  then show ?thesis .
qed

text \<open>\<open>heap.Push\<close>: one more item, wherever it ends.\<close>

lemma push_item_spec:
  assumes "index_ok q" and "p < nextRef q" and "p \<notin> set (heap q)"
    and "heap_ordered before (entries q) (length (heap q))"
  shows "index_ok (push_item p q)"
    and "heap_ordered before (entries (push_item p q)) (length (heap (push_item p q)))"
    and "mset (heap (push_item p q)) = {#p#} + mset (heap q)"
    and "same_items (q\<lparr>heap := heap q @ [p]\<rparr>) (push_item p q)"
proof -
  let ?q = "heap_Push p q"
  have h: "heap ?q = heap q @ [p]" by (simp add: heap_Push_def)
  have i: "index_ok ?q"
    using assms by (auto simp: index_ok_def heap_Push_def set_index_def nth_append less_Suc_eq)
  have s: "same_items (q\<lparr>heap := heap q @ [p]\<rparr>) ?q"
    by (simp add: same_items_def heap_Push_def set_index_def)
  have e: "entries ?q = entries q @ [entry (objs q p)]"
    by (auto simp: entries_def heap_Push_def set_index_def)
  have "up_gap before (entries ?q) (length (entries ?q)) (length (heap q))"
    unfolding e using up_gap_append assms(4) by (metis entries_length length_append_singleton)
  then have o: "heap_ordered before (entries (push_item p q)) (Suc (length (heap q)))"
    using item_heap.up_heap [of ?q "length (heap q)"]
    by (simp add: push_item_def heap_Len_def h)
  have u: "index_ok (push_item p q) \<and> same_items ?q (push_item p q)"
    using up_keeps_items [OF i, of "length (heap q)"] by (simp add: push_item_def heap_Len_def h)
  then show "index_ok (push_item p q)" by simp
  show st: "same_items (q\<lparr>heap := heap q @ [p]\<rparr>) (push_item p q)"
    using s u same_items_trans by blast
  show "heap_ordered before (entries (push_item p q)) (length (heap (push_item p q)))"
    using o same_items_length [OF st] by simp
  show "mset (heap (push_item p q)) = {#p#} + mset (heap q)"
    using st by (simp add: same_items_def)
qed

text \<open>\<open>heap.Pop\<close>: the root leaves, the rest stays a heap.\<close>

lemma pop_item_spec:
  assumes "index_ok q" and "heap q \<noteq> []"
    and "heap_ordered before (entries q) (length (heap q))"
    and "pop_item q = (p, q1)"
  shows "p = hd (heap q)" and "index_ok q1"
    and "heap_ordered before (entries q1) (length (heap q1))"
    and "set (heap q1) = set (heap q) - {p}"
    and "same_items (q\<lparr>heap := heap q1\<rparr>) q1"
proof -
  define n where "n = length (heap q) - 1"
  have len: "length (heap q) = Suc n" using assms(2) by (simp add: n_def)
  define qs where "qs = heap_Swap q 0 n"
  define qd where "qd = fst (heap_down heap_Less heap_Swap qs 0 0 n)"
  have hs: "heap qs = swap_at (heap q) 0 n"
    by (simp add: qs_def heap_Swap_def set_index_def Let_def)
  have qs: "index_ok qs" "same_items q qs"
    using Swap_keeps [OF assms(1), of 0 n] len by (simp_all add: qs_def)
  have es: "entries qs = swap_at (entries q) 0 n"
    unfolding qs_def using len by (simp add: item_heap.arr_Swap)
  have d: "index_ok qd \<and> same_items qs qd \<and> drop n (heap qd) = drop n (heap qs)"
  proof (cases "n = 0")
    case True
    then have "qd = qs" unfolding qd_def by (subst heap_down.simps) simp
    then show ?thesis using qs by simp
  next
    case False
    then show ?thesis
      using down_keeps_items [OF qs(1), of n 0 qd] same_items_length [OF qs(2)] len qd_def by simp
  qed
  have lend: "length (heap qd) = Suc n"
    using same_items_length [OF qs(2)] d same_items_length [of qs qd] len by simp
  have lastd: "last (heap qd) = hd (heap q)"
  proof -
    have "last (heap qd) = last (drop n (heap qd))" using lend by (simp add: last_drop)
    also have "\<dots> = last (heap qs)" using d len hs by (simp add: last_drop)
    also have "\<dots> = hd (heap q)"
      using len assms(2) hs last_conv_nth [of "heap qs"] nth_swap_at [of 0 "heap q" n n] hd_conv_nth [of "heap q"]
      by (metis One_nat_def diff_Suc_1 length_greater_0_conv length_swap_at lessI)
    finally show ?thesis .
  qed
  have pq: "p = last (heap qd)" "q1 = (set_index p (-1) qd)\<lparr>heap := butlast (heap qd)\<rparr>"
    using assms(4) by (auto simp: pop_item_def heap_Len_def heap_Pop_def Let_def qs_def qd_def n_def)
  show ph: "p = hd (heap q)" using pq lastd by simp
  have split: "heap qd = butlast (heap qd) @ [p]"
    using lend pq(1) by (metis append_butlast_last_id length_0_conv nat.distinct(1))
  have dist: "p \<notin> set (butlast (heap qd))"
    using d split unfolding index_ok_def by (metis distinct_append disjoint_iff list.set_intros(1))
  have h1: "heap q1 = butlast (heap qd)" using pq(2) by simp
  have nth1: "heap q1 ! k = heap qd ! k" "heap q1 ! k \<noteq> p" if "k < n" for k
    using that lend dist h1 by (simp_all add: nth_butlast) (metis h1 length_butlast lend diff_Suc_1 nth_mem nth_butlast)
  show "index_ok q1"
    unfolding index_ok_def
  proof (intro conjI allI impI ballI)
    show "distinct (heap q1)" using d h1 by (simp add: index_ok_def distinct_butlast)
    show "heapIndex (objs q1 (heap q1 ! k)) = int k" if "k < length (heap q1)" for k
    proof -
      have "k < n" using that h1 lend by simp
      then show ?thesis
        using d nth1 [of k] lend pq(2) by (simp add: index_ok_def set_index_def)
    qed
    show "x < nextRef q1" if "x \<in> set (heap q1)" for x
      using that d pq(2) in_set_butlastD by (fastforce simp: index_ok_def set_index_def)
  qed
  have same: "same_items q qd" using qs d same_items_trans by blast
  show "set (heap q1) = set (heap q) - {p}"
    using same_items_set [OF same] split dist h1 by (metis Diff_insert_absorb Un_insert_right insert_is_Un set_append list.set(1,2) sup_bot.right_neutral Un_commute)
  show "same_items (q\<lparr>heap := heap q1\<rparr>) q1"
    using same pq(2) by (auto simp: same_items_def set_index_def)
  have "heap_ordered before (entries qd) n"
    unfolding qd_def
    using item_heap.down_heap [of qs n 0 0] es down_gap_root [of before "entries q" n] assms(3) len
    by simp
  moreover have "entries q1 ! k = entries qd ! k" if "k < n" for k
    using that nth1 [of k] lend h1 pq(2) by (simp add: entries_def set_index_def)
  ultimately show "heap_ordered before (entries q1) (length (heap q1))"
    using heap_ordered_cong [of n "entries q1" "entries qd" before] h1 lend by simp
qed

section \<open>The queue invariant\<close>

text \<open>
  \<open>dirty\<close> names exactly the items of the heap, by request; a request is never both queued and in
  flight; only requests in flight wait for their re-add.
\<close>

definition dirty_ok :: "'r Queue \<Rightarrow> bool" where
  "dirty_ok q \<longleftrightarrow> (\<forall>r p. map_of (dirty q) r = Some p \<longleftrightarrow> p \<in> set (heap q) \<and> request (objs q p) = r)"

definition apart :: "'r Queue \<Rightarrow> bool" where
  "apart q \<longleftrightarrow> (\<forall>r. ghas (dirty q) r \<longrightarrow> \<not> ghas (processing q) r) \<and>
     (\<forall>r. ghas (dirtyAfterProcessing q) r \<longrightarrow> ghas (processing q) r)"

definition queue_ok :: "'r Queue \<Rightarrow> bool" where
  "queue_ok q \<longleftrightarrow> index_ok q \<and> heap_ordered before (entries q) (length (heap q)) \<and> dirty_ok q \<and> apart q"

text \<open>What a client of the queue sees: the queued requests with priority and arrival time.\<close>

definition queued :: "'r Queue \<Rightarrow> 'r \<Rightarrow> (int \<times> int) option" where
  "queued q r = map_option (\<lambda>p. (priority (objs q p), enqueued (objs q p))) (map_of (dirty q) r)"

lemma New_ok: "queue_ok New"
  by (simp add: queue_ok_def New_def index_ok_def heap_ordered_def dirty_ok_def apart_def)

lemma entry_eq: "entry a = entry b \<longleftrightarrow> request a = request b \<and> priority a = priority b \<and> enqueued a = enqueued b"
  by (auto simp: entry_def)

lemma same_items_fields:
  assumes "same_items q q'"
  shows "request (objs q' p) = request (objs q p)" "priority (objs q' p) = priority (objs q p)"
    "enqueued (objs q' p) = enqueued (objs q p)" "dirty q' = dirty q" "processing q' = processing q"
    "dirtyAfterProcessing q' = dirtyAfterProcessing q" "shuttingDown q' = shuttingDown q"
    "nextRef q' = nextRef q"
  using assms by (simp_all add: same_items_def entry_eq)

lemma enqueue_spec:
  assumes ok: "index_ok q" "heap_ordered before (entries q) (length (heap q))" "dirty_ok q"
    and new: "map_of (dirty q) req = None"
  shows "index_ok (enqueue now prio req q)"
    and "heap_ordered before (entries (enqueue now prio req q)) (length (heap (enqueue now prio req q)))"
    and "dirty_ok (enqueue now prio req q)"
    and "queued (enqueue now prio req q) = (queued q)(req \<mapsto> (prio, now))"
    and "processing (enqueue now prio req q) = processing q"
    and "dirtyAfterProcessing (enqueue now prio req q) = dirtyAfterProcessing q"
    and "shuttingDown (enqueue now prio req q) = shuttingDown q"
    and "ghas (dirty (enqueue now prio req q)) r \<longleftrightarrow> r = req \<or> ghas (dirty q) r"
proof -
  let ?p = "nextRef q"
  let ?q0 = "q\<lparr>objs := (objs q)(?p := \<lparr>request = req, priority = prio, enqueued = now, heapIndex = 0\<rparr>),
               nextRef := Suc ?p\<rparr>"
  let ?q1 = "push_item ?p ?q0"
  have e: "enqueue now prio req q = ?q1\<lparr>dirty := gput req ?p (dirty ?q1)\<rparr>"
    by (simp add: enqueue_def Let_def)
  have fresh: "p \<noteq> ?p" if "p \<in> set (heap q)" for p
    using that ok(1) by (auto simp: index_ok_def)
  have i0: "index_ok ?q0"
    using ok(1) fresh by (auto simp: index_ok_def less_Suc_eq)
  have "entries ?q0 = entries q"
    using fresh by (simp add: entries_def)
  then have o0: "heap_ordered before (entries ?q0) (length (heap ?q0))"
    using ok(2) by simp
  have f0: "?p < nextRef ?q0" "?p \<notin> set (heap ?q0)"
    using fresh by auto
  note push = push_item_spec [OF i0 f0 o0]
  note same = same_items_fields [OF push(4)]
  have heap1: "set (heap ?q1) = insert ?p (set (heap q))"
    using arg_cong [OF push(3), of set_mset] by simp
  show "index_ok (enqueue now prio req q)"
    using push(1) unfolding e by (simp add: index_ok_def)
  show "heap_ordered before (entries (enqueue now prio req q)) (length (heap (enqueue now prio req q)))"
    using push(2) unfolding e by (simp add: entries_def)
  show "dirty_ok (enqueue now prio req q)"
  proof -
    have "request (objs q p) \<noteq> req" if "p \<in> set (heap q)" for p
      using that ok(3) new unfolding dirty_ok_def by (metis option.distinct(1))
    then show ?thesis
      unfolding e dirty_ok_def using ok(3) fresh by (auto simp: heap1 same dirty_ok_def)
  qed
  have mem: "p \<noteq> ?p" if "map_of (dirty q) r = Some p" for r p
    using that ok(3) fresh by (simp add: dirty_ok_def)
  show "queued (enqueue now prio req q) = (queued q)(req \<mapsto> (prio, now))"
  proof
    fix r
    show "queued (enqueue now prio req q) r = ((queued q)(req \<mapsto> (prio, now))) r"
      using mem by (cases "map_of (dirty q) r") (auto simp: queued_def e same)
  qed
  show "processing (enqueue now prio req q) = processing q"
    "dirtyAfterProcessing (enqueue now prio req q) = dirtyAfterProcessing q"
    "shuttingDown (enqueue now prio req q) = shuttingDown q"
    "ghas (dirty (enqueue now prio req q)) r \<longleftrightarrow> r = req \<or> ghas (dirty q) r"
    by (simp_all add: e same)
qed

lemma raise_spec:
  assumes ok: "queue_ok q" and p: "map_of (dirty q) req = Some p" and up: "prio > priority (objs q p)"
  shows "queue_ok (raise_priority p prio q)"
    and "queued (raise_priority p prio q) = (queued q)(req \<mapsto> (prio, enqueued (objs q p)))"
    and "processing (raise_priority p prio q) = processing q"
    and "dirtyAfterProcessing (raise_priority p prio q) = dirtyAfterProcessing q"
    and "shuttingDown (raise_priority p prio q) = shuttingDown q"
proof -
  let ?q1 = "q\<lparr>objs := (objs q)(p := (objs q p)\<lparr>priority := prio\<rparr>)\<rparr>"
  have mem: "p \<in> set (heap q)" "request (objs q p) = req"
    using ok p by (simp_all add: queue_ok_def dirty_ok_def)
  then obtain i where i: "i < length (heap q)" "heap q ! i = p"
    by (metis in_set_conv_nth)
  have iok: "index_ok q" and ho: "heap_ordered before (entries q) (length (heap q))"
    using ok by (simp_all add: queue_ok_def)
  have idx: "nat (heapIndex (objs ?q1 p)) = i"
    using iok i by (auto simp: index_ok_def)
  have i1: "index_ok ?q1"
    using iok by (auto simp: index_ok_def)
  have other: "entries ?q1 ! k = entries q ! k" if "k < length (heap q)" "k \<noteq> i" for k
  proof -
    have "heap q ! k \<noteq> p" using that i iok by (auto simp: index_ok_def nth_eq_iff_index_eq)
    then show ?thesis using that by (simp add: entries_def)
  qed
  have here: "entries ?q1 ! i = (req, prio, enqueued (objs q p))"
    "entries q ! i = (req, priority (objs q p), enqueued (objs q p))"
    using i mem by (simp_all add: entries_def entry_def)
  have b: "before (entries ?q1 ! i) (entries q ! i)"
    using up by (simp add: here before_alt)
  have notb: "\<not> before x (entries ?q1 ! i)" if "\<not> before x (entries q ! i)" for x
    using item_heap.neg_trans [OF that] item_heap.asym [OF b] by blast
  have nh: "\<not> before (entries q ! k) (entries q ! parent_of k)" if "k < length (heap q)" "0 < k" for k
    using ho that by (simp add: heap_ordered_def)
  have kids: "\<not> before (entries ?q1 ! k) (entries ?q1 ! i)"
    if "k < length (heap q)" "0 < k" "parent_of k = i" for k
    using nh [OF that(1,2)] notb that other [of k] parent_less [of k] by auto
  have gap: "up_gap before (entries ?q1) (length (entries ?q1)) i"
  proof -
    have a: "\<not> before (entries ?q1 ! k) (entries ?q1 ! parent_of k)"
      if "k < length (heap q)" "0 < k" "k \<noteq> i" for k
    proof (cases "parent_of k = i")
      case True
      then show ?thesis using kids that by simp
    next
      case False
      then show ?thesis
        using nh [OF that(1,2)] other [of k] other [of "parent_of k"] that parent_less [of k] by simp
    qed
    have c: "\<not> before (entries ?q1 ! k) (entries ?q1 ! parent_of i)"
      if "k < length (heap q)" "0 < k" "0 < i" "parent_of k = i" for k
    proof -
      have "\<not> before (entries q ! k) (entries q ! parent_of i)"
        using item_heap.neg_trans [OF nh [OF that(1,2)], of "entries q ! parent_of i"] nh [of i] that i by simp
      moreover have "parent_of i \<noteq> i" "k \<noteq> i" "parent_of i < length (heap q)"
        using that parent_less [of i] parent_less [of k] i by auto
      ultimately show ?thesis using other [of k] other [of "parent_of i"] that by simp
    qed
    show ?thesis unfolding up_gap_def using a c by simp
  qed
  let ?q2 = "heap_up heap_Less heap_Swap ?q1 i"
  have "heap_fix heap_Less heap_Swap heap_Len ?q1 i = ?q2"
    by (rule item_heap.fix_is_up) (use kids i in \<open>simp_all add: heap_Len_def\<close>)
  then have e: "raise_priority p prio q = ?q2"
    using idx by (simp add: raise_priority_def fix_item_def)
  have u: "index_ok ?q2 \<and> same_items ?q1 ?q2"
    using up_keeps_items [OF i1, of i] i by simp
  note same = same_items_fields [OF conjunct2 [OF u]]
  have o: "heap_ordered before (entries ?q2) (length (heap ?q2))"
    using item_heap.up_heap [OF gap] i same_items_length [OF conjunct2 [OF u]] by simp
  have "dirty_ok ?q2"
    using ok same_items_set [OF conjunct2 [OF u]] by (auto simp: queue_ok_def dirty_ok_def same)
  moreover have "apart ?q2"
    using ok by (simp add: queue_ok_def apart_def same)
  ultimately show "queue_ok (raise_priority p prio q)"
    unfolding e queue_ok_def using u o by simp
  show "queued (raise_priority p prio q) = (queued q)(req \<mapsto> (prio, enqueued (objs q p)))"
  proof
    fix r
    have "r = req" if "map_of (dirty q) r = Some p"
      using that ok mem by (simp add: queue_ok_def dirty_ok_def)
    then show "queued (raise_priority p prio q) r = ((queued q)(req \<mapsto> (prio, enqueued (objs q p)))) r"
      using p by (cases "map_of (dirty q) r") (auto simp: queued_def e same)
  qed
  show "processing (raise_priority p prio q) = processing q"
    "dirtyAfterProcessing (raise_priority p prio q) = dirtyAfterProcessing q"
    "shuttingDown (raise_priority p prio q) = shuttingDown q"
    by (simp_all add: e same)
qed

section \<open>The queue refines its specification\<close>

text \<open>
  The specification: a partial map of the waiting requests, the requests in flight, those to be
  queued again, and the shutdown flag. \<open>queue_view\<close> is the abstraction.
\<close>

record 'r workqueue =
  waiting :: "'r \<Rightarrow> (int \<times> int) option"
  running :: "'r \<Rightarrow> bool"
  again :: "'r \<Rightarrow> int option"
  stopped :: bool

definition queue_view :: "'r Queue \<Rightarrow> 'r workqueue" where
  "queue_view q = \<lparr>waiting = queued q, running = ghas (processing q),
     again = map_of (dirtyAfterProcessing q), stopped = shuttingDown q\<rparr>"

definition spec_Add :: "('r \<Rightarrow> int) \<Rightarrow> int \<Rightarrow> 'r \<Rightarrow> 'r workqueue \<Rightarrow> 'r workqueue" where
  "spec_Add f now r w =
     (if stopped w then w
      else if running w r then w\<lparr>again := (again w)(r \<mapsto> f r)\<rparr>
      else w\<lparr>waiting := (waiting w)(r \<mapsto> (case waiting w r of None \<Rightarrow> (f r, now)
                                     | Some (p, t) \<Rightarrow> (max p (f r), t)))\<rparr>)"

definition spec_take :: "'r \<Rightarrow> 'r workqueue \<Rightarrow> 'r workqueue" where
  "spec_take r w = w\<lparr>waiting := (waiting w)(r := None), running := (running w)(r := True)\<rparr>"

definition spec_Done :: "int \<Rightarrow> 'r \<Rightarrow> 'r workqueue \<Rightarrow> 'r workqueue" where
  "spec_Done now r w =
     (case again w r of
        None \<Rightarrow> w\<lparr>running := (running w)(r := False)\<rparr>
      | Some p \<Rightarrow> w\<lparr>running := (running w)(r := False), again := (again w)(r := None),
                    waiting := (waiting w)(r \<mapsto> (p, now))\<rparr>)"

lemma queued_None: "queued q r = None \<longleftrightarrow> map_of (dirty q) r = None"
  by (simp add: queued_def)

lemma queued_SomeD:
  "queued q r = Some (a, t) \<Longrightarrow> \<exists>p. map_of (dirty q) r = Some p \<and> priority (objs q p) = a \<and> enqueued (objs q p) = t"
  by (auto simp: queued_def)

lemma ghas_fun_upd: "ghas (gput r v m) = (ghas m)(r := True)" "ghas (gdel r m) = (ghas m)(r := False)"
  by (simp_all add: fun_eq_iff)

lemma enqueue_ok:
  assumes "queue_ok q" and "map_of (dirty q) req = None"
    and "\<not> ghas (processing q) req"
  shows "queue_ok (enqueue now prio req q)"
proof -
  have q: "index_ok q" "heap_ordered before (entries q) (length (heap q))" "dirty_ok q" "apart q"
    using assms(1) by (simp_all add: queue_ok_def)
  note e = enqueue_spec [OF q(1,2,3) assms(2)]
  show ?thesis
    using e(1-3) q(4) assms(3) by (auto simp: queue_ok_def apart_def e(5,6,8))
qed

lemma Add_view:
  assumes "queue_ok q"
  shows "queue_ok (Add f now r q)" and "queue_view (Add f now r q) = spec_Add f now r (queue_view q)"
proof -
  have q: "index_ok q" "heap_ordered before (entries q) (length (heap q))" "dirty_ok q" "apart q"
    using assms by (simp_all add: queue_ok_def)
  consider (stop) "shuttingDown q" | (busy) "\<not> shuttingDown q" "ghas (processing q) r"
    | (new) "\<not> shuttingDown q" "\<not> ghas (processing q) r" "map_of (dirty q) r = None"
    | (old) p where "\<not> shuttingDown q" "\<not> ghas (processing q) r" "map_of (dirty q) r = Some p"
    by (cases "map_of (dirty q) r") auto
  then have "queue_ok (Add f now r q) \<and> queue_view (Add f now r q) = spec_Add f now r (queue_view q)"
  proof cases
    case stop
    then show ?thesis using assms by (simp add: Add_def spec_Add_def queue_view_def)
  next
    case busy
    then have a: "Add f now r q = q\<lparr>dirtyAfterProcessing := gput r (f r) (dirtyAfterProcessing q)\<rparr>"
      by (simp add: Add_def)
    have "queue_ok (Add f now r q)"
      unfolding a using q busy
      by (simp add: queue_ok_def index_ok_def entries_def dirty_ok_def apart_def)
    moreover have "queued (Add f now r q) = queued q"
      unfolding a by (simp add: queued_def fun_eq_iff)
    ultimately show ?thesis
      using busy by (simp add: a spec_Add_def queue_view_def)
  next
    case new
    then have a: "Add f now r q = enqueue now (f r) r q" by (simp add: Add_def)
    show ?thesis
      using new enqueue_ok [OF assms new(3,2)] enqueue_spec(4-7) [OF q(1,2,3) new(3)]
      by (simp add: a spec_Add_def queue_view_def queued_def)
  next
    case old
    then have w: "queued q r = Some (priority (objs q p), enqueued (objs q p))"
      by (simp add: queued_def)
    show ?thesis
    proof (cases "f r > priority (objs q p)")
      case True
      then have a: "Add f now r q = raise_priority p (f r) q" using old by (simp add: Add_def)
      show ?thesis
        using old True w raise_spec [OF assms old(3) True]
        by (simp add: a spec_Add_def queue_view_def)
    next
      case False
      then have "Add f now r q = q" using old by (simp add: Add_def)
      then show ?thesis
        using old False w assms by (simp add: spec_Add_def queue_view_def fun_upd_idem max_def)
    qed
  qed
  then show "queue_ok (Add f now r q)" "queue_view (Add f now r q) = spec_Add f now r (queue_view q)"
    by simp_all
qed

lemma Done_view:
  assumes "queue_ok q"
  shows "queue_ok (Done now r q)" and "queue_view (Done now r q) = spec_Done now r (queue_view q)"
proof -
  have q: "index_ok q" "heap_ordered before (entries q) (length (heap q))" "dirty_ok q" "apart q"
    using assms by (simp_all add: queue_ok_def)
  have "queue_ok (Done now r q) \<and> queue_view (Done now r q) = spec_Done now r (queue_view q)"
  proof (cases "map_of (dirtyAfterProcessing q) r")
    case None
    then have d: "Done now r q = q\<lparr>processing := gdel r (processing q)\<rparr>" by (simp add: Done_def)
    have "\<not> ghas (dirtyAfterProcessing q) r" using None by (simp add: not_ghas)
    then have "queue_ok (Done now r q)"
      unfolding d using q by (auto simp: queue_ok_def index_ok_def entries_def dirty_ok_def apart_def)
    moreover have "queued (Done now r q) = queued q"
      unfolding d by (simp add: queued_def fun_eq_iff)
    ultimately show ?thesis
      using None by (simp add: d spec_Done_def queue_view_def ghas_fun_upd)
  next
    case (Some prio)
    let ?q = "q\<lparr>processing := gdel r (processing q), dirtyAfterProcessing := gdel r (dirtyAfterProcessing q)\<rparr>"
    have d: "Done now r q = enqueue now prio r ?q" using Some by (simp add: Done_def Let_def)
    have "ghas (processing q) r"
      using q(4) Some by (auto simp: apart_def map_of_SomeD_ghas)
    then have n: "map_of (dirty ?q) r = None"
      using q(4) by (auto simp: apart_def not_ghas [symmetric])
    have ok: "queue_ok ?q"
      using q by (auto simp: queue_ok_def index_ok_def entries_def dirty_ok_def apart_def)
    then have ok': "index_ok ?q" "heap_ordered before (entries ?q) (length (heap ?q))" "dirty_ok ?q"
      by (simp_all add: queue_ok_def)
    have v: "queued ?q = queued q" by (simp add: queued_def fun_eq_iff)
    show ?thesis
      using Some enqueue_ok [OF ok n] enqueue_spec(4-7) [OF ok' n] v
      by (simp add: d spec_Done_def queue_view_def ghas_fun_upd)
  qed
  then show "queue_ok (Done now r q)" "queue_view (Done now r q) = spec_Done now r (queue_view q)"
    by simp_all
qed

lemma Get_view:
  assumes "queue_ok q" and "Get q = (Got r, q')"
  shows "queue_ok q'" and "queue_view q' = spec_take r (queue_view q)"
    and "\<exists>p t. queued q r = Some (p, t) \<and>
          (\<forall>s p' t'. queued q s = Some (p', t') \<longrightarrow> p' < p \<or> p' = p \<and> t \<le> t')"
    and "\<not> ghas (processing q) r"
proof -
  have q: "index_ok q" "heap_ordered before (entries q) (length (heap q))" "dirty_ok q" "apart q"
    using assms(1) by (simp_all add: queue_ok_def)
  have ne: "heap q \<noteq> []" using assms(2) by (auto simp: Get_def heap_Len_def split: if_splits)
  obtain p q1 where pop: "pop_item q = (p, q1)" by fastforce
  note P = pop_item_spec [OF q(1) ne q(2) pop]
  note same = same_items_fields [OF P(5)]
  have r: "r = request (objs q p)" and q': "q' = q1\<lparr>dirty := gdel r (dirty q1), processing := gput r () (processing q1)\<rparr>"
    using assms(2) ne same(1) by (auto simp: Get_def pop heap_Len_def Let_def)
  have mem: "p \<in> set (heap q)" using P(1) ne by simp
  then have dp: "map_of (dirty q) r = Some p" using q(3) r by (simp add: dirty_ok_def)
  have uniq: "p' = p" if "p' \<in> set (heap q)" "request (objs q p') = r" for p'
    using that q(3) dp unfolding dirty_ok_def by (metis option.inject)
  have "index_ok q'" using P(2) by (simp add: q' index_ok_def)
  moreover have "heap_ordered before (entries q') (length (heap q'))"
    using P(3) by (simp add: q' entries_def)
  moreover have "dirty_ok q'"
    using q(3) uniq dp by (auto simp: dirty_ok_def q' P(4) same)
  moreover have "apart q'"
    using q(4) by (auto simp: apart_def q' same)
  ultimately show "queue_ok q'" by (simp add: queue_ok_def)
  have "queued q' = (queued q)(r := None)"
    by (auto simp: queued_def q' same fun_eq_iff)
  then show "queue_view q' = spec_take r (queue_view q)"
    by (simp add: queue_view_def spec_take_def q' same ghas_fun_upd)
  show "\<not> ghas (processing q) r"
    using q(4) dp by (auto simp: apart_def map_of_SomeD_ghas)
  show "\<exists>p t. queued q r = Some (p, t) \<and>
      (\<forall>s p' t'. queued q s = Some (p', t') \<longrightarrow> p' < p \<or> p' = p \<and> t \<le> t')"
  proof (intro exI conjI allI impI)
    show "queued q r = Some (priority (objs q p), enqueued (objs q p))"
      using dp by (simp add: queued_def)
    fix s p' t' assume "queued q s = Some (p', t')"
    then obtain x where x: "map_of (dirty q) s = Some x" "priority (objs q x) = p'" "enqueued (objs q x) = t'"
      using queued_SomeD by fastforce
    then obtain k where k: "k < length (heap q)" "heap q ! k = x"
      using q(3) unfolding dirty_ok_def by (metis in_set_conv_nth)
    have "\<not> before (entries q ! k) (entries q ! 0)"
      using item_heap.root_first [OF q(2)] k by simp
    moreover have "heap q ! 0 = p" using P(1) ne by (simp add: hd_conv_nth)
    ultimately show "p' < priority (objs q p) \<or> p' = priority (objs q p) \<and> enqueued (objs q p) \<le> t'"
      using k x ne by (auto simp: before_alt entries_def entry_def)
  qed
qed

section \<open>Reachable queues and the properties\<close>

inductive queue_step :: "('r \<Rightarrow> int) \<Rightarrow> 'r Queue \<Rightarrow> 'r Queue \<Rightarrow> bool" for f where
  step_Add: "queue_step f q (Add f now r q)"
| step_Get: "Get q = (res, q') \<Longrightarrow> queue_step f q q'"
| step_Done: "queue_step f q (Done now r q)"
| step_ShutDown: "queue_step f q (ShutDown q)"

inductive queue_reachable :: "('r \<Rightarrow> int) \<Rightarrow> 'r Queue \<Rightarrow> bool" for f where
  reach_New: "queue_reachable f New"
| reach_step: "queue_reachable f q \<Longrightarrow> queue_step f q q' \<Longrightarrow> queue_reachable f q'"

lemma Get_not_got: "Get q = (res, q') \<Longrightarrow> (\<And>r. res \<noteq> Got r) \<Longrightarrow> q' = q"
  by (auto simp: Get_def Let_def split: if_splits prod.splits)

lemma Get_got: "heap_Len q \<noteq> 0 \<Longrightarrow> \<exists>r q'. Get q = (Got r, q')"
  by (cases "pop_item q") (simp add: Get_def Let_def)

lemma step_ok: "queue_step f q q' \<Longrightarrow> queue_ok q \<Longrightarrow> queue_ok q'"
proof (induction rule: queue_step.induct)
  case (step_Get q res q')
  show ?case
  proof (cases "\<exists>r. res = Got r")
    case True
    then obtain r where "Get q = (Got r, q')" using step_Get(1) by blast
    then show ?thesis by (rule Get_view(1) [OF step_Get(2)])
  next
    case False
    then have "res \<noteq> Got r" for r by blast
    then have "q' = q" by (rule Get_not_got [OF step_Get(1)])
    then show ?thesis using step_Get(2) by simp
  qed
next
  case (step_ShutDown q)
  then show ?case by (simp add: ShutDown_def queue_ok_def index_ok_def entries_def dirty_ok_def apart_def)
qed (auto intro: Add_view Done_view)

lemma reachable_queue_ok: "queue_reachable f q \<Longrightarrow> queue_ok q"
  by (induction rule: queue_reachable.induct) (auto simp: New_ok step_ok)

text \<open>A queue for the witnesses: a best-effort request, then a guaranteed one.\<close>

definition tier :: "string \<Rightarrow> int" where
  "tier r = (if r = ''gold'' then PriorityGuaranteed else PriorityBestEffort)"

definition two_queued :: "string Queue" where
  "two_queued = Add tier 2 ''gold'' (Add tier 1 ''free'' New)"

lemma two_queued_reachable: "queue_reachable tier two_queued"
  unfolding two_queued_def by (intro reach_step [OF reach_step [OF reach_New step_Add] step_Add])

lemma two_queued_view: "queued two_queued = [''free'' \<mapsto> (10, 1), ''gold'' \<mapsto> (100, 2)]"
proof -
  let ?q = "Add tier 1 ''free'' New"
  have v: "queued (Add f now r q) = waiting (spec_Add f now r (queue_view q))" if "queue_ok q"
    for f now and r :: string and q
    using Add_view(2) [OF that, of f now r] by (metis queue_view_def workqueue.select_convs(1))
  have n: "queue_view (New :: string Queue) = \<lparr>waiting = Map.empty, running = (\<lambda>_. False), again = Map.empty, stopped = False\<rparr>"
    by (simp add: queue_view_def New_def queued_def fun_eq_iff)
  have "queue_view ?q = \<lparr>waiting = [''free'' \<mapsto> (10, 1)], running = (\<lambda>_. False), again = Map.empty, stopped = False\<rparr>"
    by (simp add: Add_view(2) [OF New_ok] n spec_Add_def tier_def PriorityBestEffort_def)
  then show ?thesis
    unfolding two_queued_def v [OF Add_view(1) [OF New_ok]]
    by (simp add: spec_Add_def tier_def PriorityGuaranteed_def)
qed

lemma two_queued_Get: "fst (Get two_queued) = Got ''gold''"
proof -
  have ne: "heap_Len two_queued \<noteq> 0"
  proof
    assume "heap_Len two_queued = 0"
    then have "map_of (dirty two_queued) ''gold'' = None"
      using reachable_queue_ok [OF two_queued_reachable]
      by (cases "map_of (dirty two_queued) ''gold''") (auto simp: queue_ok_def dirty_ok_def heap_Len_def)
    then show False
      using fun_cong [OF two_queued_view, of "''gold''"] by (simp add: queued_def)
  qed
  obtain r q' where g: "Get two_queued = (Got r, q')"
    using Get_got [OF ne] by blast
  obtain p t where pt: "queued two_queued r = Some (p, t)"
    and best: "\<forall>s p' t'. queued two_queued s = Some (p', t') \<longrightarrow> p' < p \<or> p' = p \<and> t \<le> t'"
    using Get_view(3) [OF reachable_queue_ok [OF two_queued_reachable] g] by blast
  have "queued two_queued ''gold'' = Some (100, 2)" by (simp add: two_queued_view)
  then have "100 \<le> p" using best by fastforce
  then have "r = ''gold''" using pt by (simp add: two_queued_view split: if_splits)
  then show ?thesis using g by simp
qed

text \<open>
  The queue hands out the best request: in every reachable queue, what \<open>Get\<close> returns was waiting,
  no waiting request has a higher priority, none of the same priority arrived earlier, and no worker
  is processing it already.
\<close>

theorem queue_serves_best:
  assumes "queue_reachable f q" and "Get q = (Got r, q')"
  shows "\<exists>p t. queued q r = Some (p, t) \<and> \<not> ghas (processing q) r \<and>
    (\<forall>s p' t'. queued q s = Some (p', t') \<longrightarrow> p' < p \<or> p' = p \<and> t \<le> t')"
  using Get_view(3,4) [OF reachable_queue_ok [OF assms(1)] assms(2)] by blast

theorem queue_serves_best_witness:
  "fst (Get two_queued) = Got ''gold'' \<and> queued two_queued ''free'' = Some (10, 1) \<and>
    (\<exists>p t. queued two_queued ''gold'' = Some (p, t) \<and> \<not> ghas (processing two_queued) ''gold'' \<and> 10 < p)"
proof -
  obtain q' where "Get two_queued = (Got ''gold'', q')" using two_queued_Get by (cases "Get two_queued") simp
  from queue_serves_best [OF two_queued_reachable this]
  obtain p t where "queued two_queued ''gold'' = Some (p, t)" "\<not> ghas (processing two_queued) ''gold''"
    and best: "\<forall>s p' t'. queued two_queued s = Some (p', t') \<longrightarrow> p' < p \<or> p' = p \<and> t \<le> t'" by blast
  moreover have free: "queued two_queued ''free'' = Some (10, 1)" by (simp add: two_queued_view)
  moreover have "10 < p" using calculation(1) by (simp add: two_queued_view)
  ultimately show ?thesis using two_queued_Get by blast
qed



text \<open>
  No request is lost: after an \<open>Add\<close> to a running queue the request waits with at least the
  priority asked for, or it is in flight and its \<open>Done\<close> queues it with that priority.
\<close>

theorem queue_never_loses:
  assumes "queue_reachable f q" and "\<not> shuttingDown q"
  shows "(\<exists>p t. queued (Add f now r q) r = Some (p, t) \<and> f r \<le> p)
    \<or> ghas (processing (Add f now r q)) r \<and> queued (Done later r (Add f now r q)) r = Some (f r, later)"
proof -
  have ok: "queue_ok q" using assms by (rule_tac reachable_queue_ok)
  have a: "queued (Add f now r q) = waiting (spec_Add f now r (queue_view q))"
    "ghas (processing (Add f now r q)) = running (spec_Add f now r (queue_view q))"
    using Add_view(2) [OF ok, of f now r] by (metis queue_view_def workqueue.select_convs(1,2))+
  have d: "queued (Done later r (Add f now r q)) = waiting (spec_Done later r (spec_Add f now r (queue_view q)))"
    using Done_view(2) [OF Add_view(1) [OF ok], of later r f now r] Add_view(2) [OF ok, of f now r]
    by (metis queue_view_def workqueue.select_convs(1))
  show ?thesis
    unfolding a d using assms(2)
    by (auto simp: spec_Add_def spec_Done_def queue_view_def split: option.splits)
qed

theorem queue_never_loses_witness:
  "(\<exists>p t. queued (Add tier 3 ''new'' two_queued) ''new'' = Some (p, t) \<and> tier ''new'' \<le> p)
    \<or> ghas (processing (Add tier 3 ''new'' two_queued)) ''new'' \<and>
      queued (Done 4 ''new'' (Add tier 3 ''new'' two_queued)) ''new'' = Some (tier ''new'', 4)"
proof (rule queue_never_loses [OF two_queued_reachable])
  have "stopped (queue_view (New :: string Queue)) = False" by (simp add: queue_view_def New_def)
  then have "stopped (queue_view two_queued) = False"
    unfolding two_queued_def
    by (simp add: Add_view New_ok spec_Add_def)
  then show "\<not> shuttingDown two_queued" by (simp add: queue_view_def)
qed

end
