(* ===== verification/SchedulerProcess.thy ===== *)
theory SchedulerProcess
  imports SchedulerProps ApiClient GangReservation PriorityQueue
begin

text \<open>
  The scheduler process, \<open>cmd/scheduler/main.go\<close>: the seeding of the cache at startup, the reconcilers
  that feed the cache from nodes and slices and call \<open>Schedule\<close>, the janitor's sweep, and the priority
  that a slice has in the work queue. The runnables' tickers only repeat these bodies; the metrics
  collector, metrics and log lines are left out; \<open>gap\<close> stands for what other goroutines do to the cache
  between two of its locked sections.
\<close>

section \<open>Nodes\<close>

record k8s_node =
  kn_Name :: string
  kn_Capacity :: "int option"
  kn_Allocatable :: "int option"
  kn_Conditions :: "(string \<times> string) list"
  kn_Labels :: "(string, string) gomap"

definition TopologyZoneLabel :: string where
  "TopologyZoneLabel = ''topology.vgpu.pranav2910.com/zone''"

definition nodeIsReady :: "k8s_node \<Rightarrow> bool" where
  "nodeIsReady node = (case find (\<lambda>c. fst c = ''Ready'') (kn_Conditions node) of None \<Rightarrow> False | Some c \<Rightarrow> snd c = ''True'')"

definition consumedVRAMOnNode :: "k8s_node \<Rightarrow> int" where
  "consumedVRAMOnNode node =
    (let value = (\<lambda>q. case q of None \<Rightarrow> 0 | Some v \<Rightarrow> v);
         consumed = i64 (value (kn_Capacity node) - value (kn_Allocatable node))
     in if consumed < 0 then 0 else consumed)"

definition set_zone_if_any :: "k8s_node \<Rightarrow> vram_cache \<Rightarrow> vram_cache" where
  "set_zone_if_any node c =
    (let zone = gget [] (kn_Labels node) TopologyZoneLabel
     in if zone \<noteq> [] then SetNodeZone (kn_Name node) zone c else c)"

section \<open>Seeding\<close>

definition seed_node :: "k8s_node \<Rightarrow> vram_cache \<Rightarrow> vram_cache" where
  "seed_node node c =
    (case kn_Capacity node of
       None \<Rightarrow> c
     | Some total_bytes \<Rightarrow> set_zone_if_any node (UpdateNode (kn_Name node) total_bytes (consumedVRAMOnNode node) c))"

definition seed_bytes :: "vgpu_slice \<Rightarrow> int" where
  "seed_bytes sl = (if sl_AllocatedBytes sl \<le> 0 then sl_RequestedVRAMBytes sl else sl_AllocatedBytes sl)"

definition seeds :: "vgpu_slice \<Rightarrow> bool" where
  "seeds sl \<longleftrightarrow> sl_NodeName sl \<noteq> [] \<and> sl_Phase sl \<in> {''Scheduled'', ''Allocating'', ''Ready''}"

definition seed_slice :: "vgpu_slice \<Rightarrow> vram_cache \<Rightarrow> vram_cache" where
  "seed_slice sl c =
    (if seeds sl then snd (PromoteSliceToAllocatedOnce (sl_UID sl) (sl_NodeName sl) (seed_bytes sl) c) else c)"

text \<open>Whether the node list was read, and the cache; \<open>MarkSeeded\<close> is deferred.\<close>

definition seedCacheFromNodes ::
  "k8s_node list option \<Rightarrow> vgpu_slice list option \<Rightarrow> vram_cache \<Rightarrow> bool \<times> vram_cache" where
  "seedCacheFromNodes nodeList sliceList c =
    (case nodeList of
       None \<Rightarrow> (False, c)
     | Some ns \<Rightarrow>
         (let c1 = fold seed_node ns c;
              c2 = (case sliceList of None \<Rightarrow> c1 | Some sls \<Rightarrow> fold seed_slice sls c1)
          in (True, MarkSeeded c2)))"

text \<open>
  The retry loop of \<open>seedRunnable\<close>: what the API answers to each attempt, ended by the cancellation of
  the context; and the wait after a failed attempt.
\<close>

fun seed_until :: "(k8s_node list option \<times> vgpu_slice list option) list \<Rightarrow> vram_cache \<Rightarrow> vram_cache" where
  "seed_until [] c = c"
| "seed_until ((ns, sls) # attempts) c =
    (let (ok, c') = seedCacheFromNodes ns sls c in if ok then c' else seed_until attempts c')"

definition seed_wait :: "int \<Rightarrow> int" where
  "seed_wait attempt = (let w = attempt * second in if w > 10 * second then 10 * second else w)"

definition readyz :: "bool \<Rightarrow> vram_cache \<Rightarrow> bool" where
  "readyz elected c \<longleftrightarrow> (elected \<longrightarrow> IsSeeded c)"

section \<open>The node reconciler\<close>

definition recharges :: "string \<Rightarrow> vgpu_slice \<Rightarrow> bool" where
  "recharges nodeName sl \<longleftrightarrow> \<not> (sl_NodeName sl \<noteq> nodeName \<or> sl_Phase sl \<noteq> ''Ready'' \<or> sl_AllocatedBytes sl \<le> 0)"

definition recharge_slice :: "string \<Rightarrow> vgpu_slice \<Rightarrow> vram_cache \<Rightarrow> vram_cache" where
  "recharge_slice nodeName sl c =
    (if recharges nodeName sl then snd (PromoteSliceToAllocatedOnce (sl_UID sl) nodeName (sl_AllocatedBytes sl) c) else c)"

definition Reconcile_node ::
  "string \<Rightarrow> k8s_node api_read \<Rightarrow> vgpu_slice list option \<Rightarrow> vram_cache \<Rightarrow> reconcile_result \<times> vram_cache" where
  "Reconcile_node reqName rd sliceList c =
    (case rd of
       NotFound \<Rightarrow> (done_result, RemoveNode reqName c)
     | ReadErr \<Rightarrow> (ReconcileError, c)
     | Found node \<Rightarrow>
         (case kn_Capacity node of
            None \<Rightarrow> (done_result, c)
          | Some total_bytes \<Rightarrow>
              (let isNew = \<not> HasNode c (kn_Name node);
                   c1 = UpdateNode (kn_Name node) total_bytes (consumedVRAMOnNode node) c
               in if isNew \<and> sliceList = None then (ReconcileError, c1)
                  else (done_result,
                        set_zone_if_any node (SetNodeHealth (kn_Name node) (nodeIsReady node)
                          (if isNew then fold (recharge_slice (kn_Name node)) (the sliceList) c1 else c1))))))"

section \<open>The janitor\<close>

definition janitor_forget :: "string list \<Rightarrow> (string, string) gomap \<Rightarrow> vram_cache \<Rightarrow> vram_cache" where
  "janitor_forget live tracked c =
    fold (\<lambda>(uid, node) c. if uid \<in> set live then c else ForgetSlice uid node c) tracked c"

definition janitor_sweep :: "vgpu_slice list option \<Rightarrow> (vram_cache \<Rightarrow> vram_cache) \<Rightarrow> vram_cache \<Rightarrow> vram_cache" where
  "janitor_sweep listed gap c =
    (let tracked = TrackedSliceUIDs c in
     if tracked = [] then c
     else case listed of
       None \<Rightarrow> gap c
     | Some sls \<Rightarrow> janitor_forget (map sl_UID sls) tracked (gap c))"

section \<open>The slice reconciler\<close>

record tracked_slice =
  tk_uid :: string
  tk_node :: string
  tk_phase :: string

record process_state =
  pr_sched :: sched_state
  pr_tracked :: "(string \<times> string, tracked_slice) gomap"

definition forget_in :: "string \<Rightarrow> string \<Rightarrow> process_state \<Rightarrow> process_state" where
  "forget_in uid node p = p\<lparr>pr_sched := (pr_sched p)\<lparr>ss_cache := ForgetSlice uid node (ss_cache (pr_sched p))\<rparr>\<rparr>"

definition recordSlice :: "string \<times> string \<Rightarrow> string \<Rightarrow> string \<Rightarrow> string \<Rightarrow> process_state \<Rightarrow> process_state" where
  "recordSlice nn uid node phase p =
    (let p1 = (case map_of (pr_tracked p) nn of
                 None \<Rightarrow> p
               | Some prev \<Rightarrow> if tk_uid prev \<noteq> [] \<and> tk_uid prev \<noteq> uid then forget_in (tk_uid prev) (tk_node prev) p else p)
     in p1\<lparr>pr_tracked := gput nn \<lparr>tk_uid = uid, tk_node = node, tk_phase = phase\<rparr> (pr_tracked p1)\<rparr>)"

definition releaseOnDelete :: "string \<times> string \<Rightarrow> process_state \<Rightarrow> process_state" where
  "releaseOnDelete nn p =
    (let p1 = p\<lparr>pr_tracked := gdel nn (pr_tracked p)\<rparr> in
     case map_of (pr_tracked p) nn of
       None \<Rightarrow> p1
     | Some t \<Rightarrow> if tk_uid t \<noteq> [] then forget_in (tk_uid t) (tk_node t) p1 else p1)"

record process_env =
  pe_slice :: "vgpu_slice api_read"
  pe_rsv :: "vgpu_gang_reservation api_read"
  pe_failWrite :: write_reply
  pe_claim :: "vgpu_claim api_read"
  pe_now :: int
  pe_cfg :: sched_config
  pe_sched :: sched_env

definition holdback :: int where "holdback = 2 * second"

definition requeue_of :: "schedule_result \<Rightarrow> reconcile_result" where
  "requeue_of r =
    (case r of
       Bound _ \<Rightarrow> done_result
     | GangDeferred _ \<Rightarrow> Requeue (500 * 10 ^ 6)
     | CacheNotReady \<Rightarrow> Requeue second
     | _ \<Rightarrow> Requeue (30 * second))"

definition dead_gang :: "process_env \<Rightarrow> vgpu_slice \<Rightarrow> bool" where
  "dead_gang env slice \<longleftrightarrow> annotation slice AnnotationReservationRef \<noteq> [] \<and>
     (case pe_rsv env of Found rsv \<Rightarrow> rv_Phase rsv = RsvFailed \<or> rv_Phase rsv = RsvReleased | _ \<Rightarrow> False)"

definition is_best_effort :: "process_env \<Rightarrow> vgpu_slice \<Rightarrow> bool" where
  "is_best_effort env slice \<longleftrightarrow> sl_ClaimRef slice \<noteq> [] \<and>
     (case pe_claim env of Found claim \<Rightarrow> cl_ServiceTier claim = ServiceTierBestEffort | _ \<Rightarrow> False)"

definition sync_in :: "vgpu_slice \<Rightarrow> process_state \<Rightarrow> process_state" where
  "sync_in slice p =
    (if sl_NodeName slice \<noteq> [] \<and> (sl_Phase slice = ''Ready'' \<or> sl_Phase slice = ''Released'' \<or> sl_Phase slice = ''Failed'')
     then p\<lparr>pr_sched := (pr_sched p)\<lparr>ss_cache := SyncCacheFromSlice (sl_UID slice) (sl_NodeName slice) (sl_Phase slice)
             (sl_AllocatedBytes slice) (ss_cache (pr_sched p))\<rparr>\<rparr>
     else p)"

text \<open>The result, the state, the slice written as failed, and what the cycle wrote.\<close>

definition schedule_pending ::
  "process_env \<Rightarrow> vgpu_slice \<Rightarrow> process_state \<Rightarrow> reconcile_result \<times> process_state \<times> vgpu_slice option \<times> api_effect list" where
  "schedule_pending env slice p =
    (if dead_gang env slice then
       (if pe_failWrite env = Accepted
        then (done_result, p, Some (slice\<lparr>sl_Phase := ''Failed'',
                sl_LastError := ''gang reservation failed; this slot was orphaned''\<rparr>), [])
        else (Requeue (5 * second), p, None, []))
     else
       (let be = is_best_effort env slice; age = pe_now env - sl_CreationTimestamp slice in
        if be \<and> age < holdback then (Requeue (holdback - age), p, None, [])
        else (let (r, s, eff) = Schedule (pe_cfg env) (pe_sched env) (sl_Namespace slice) (sl_UID slice)
                    (sl_RequestedVRAMBytes slice) be (pr_sched p)
              in (requeue_of r, p\<lparr>pr_sched := s\<rparr>, None, eff))))"

definition Reconcile_pending ::
  "process_env \<Rightarrow> string \<times> string \<Rightarrow> process_state \<Rightarrow> reconcile_result \<times> process_state \<times> vgpu_slice option \<times> api_effect list" where
  "Reconcile_pending env nn p =
    (case pe_slice env of
       NotFound \<Rightarrow> (done_result, releaseOnDelete nn p, None, [])
     | ReadErr \<Rightarrow> (ReconcileError, p, None, [])
     | Found slice \<Rightarrow>
         (let p1 = sync_in slice (recordSlice nn (sl_UID slice) (sl_NodeName slice) (sl_Phase slice) p) in
          if sl_Phase slice \<noteq> [] \<and> sl_Phase slice \<noteq> ''Pending'' then (done_result, p1, None, [])
          else if sl_NodeName slice \<noteq> [] then (done_result, p1, None, [])
          else schedule_pending env slice p1))"

section \<open>The priority of a slice\<close>

definition aging :: "int \<Rightarrow> int" where
  "aging age = (let bonus = go_div age (30 * second) in if bonus > 50 then 50 else bonus)"

definition priority_of ::
  "vgpu_slice api_read \<Rightarrow> vgpu_claim api_read \<Rightarrow> vgpu_job api_read \<Rightarrow> int \<Rightarrow> int" where
  "priority_of sliceRead claimRead jobRead now =
    (case sliceRead of
       Found slice \<Rightarrow>
         (if sl_ClaimRef slice = [] then PriorityBestEffort
          else case claimRead of
            Found claim \<Rightarrow>
              (let base = (if cl_ServiceTier claim = ServiceTierGuaranteed then PriorityGuaranteed else PriorityBestEffort);
                   aged = base + aging (now - sl_CreationTimestamp slice)
               in if cl_JobRef claim = [] then aged
                  else case jobRead of Found job \<Rightarrow> if jb_Priority job > base then jb_Priority job else aged | _ \<Rightarrow> aged)
          | _ \<Rightarrow> PriorityBestEffort)
     | _ \<Rightarrow> PriorityBestEffort)"


section \<open>Charging a list of bound slices\<close>

definition bytes_at :: "string \<Rightarrow> (string \<times> string \<times> int) list \<Rightarrow> int" where
  "bytes_at k xs = (\<Sum>x\<leftarrow>xs. if fst (snd x) = k then snd (snd x) else 0)"

lemma bytes_at_simps [simp]:
  "bytes_at k [] = 0" "bytes_at k ((u, n, b) # xs) = (if n = k then b else 0) + bytes_at k xs"
  by (simp_all add: bytes_at_def)

lemma bytes_at_nonneg: "\<forall>x\<in>set xs. 0 \<le> snd (snd x) \<Longrightarrow> 0 \<le> bytes_at k xs"
  by (induction xs) auto

definition promote_list :: "(string \<times> string \<times> int) list \<Rightarrow> vram_cache \<Rightarrow> vram_cache" where
  "promote_list xs c = fold (\<lambda>(u, n, b) c. snd (PromoteSliceToAllocatedOnce u n b c)) xs c"

text \<open>A slice nothing of which is in the ledger.\<close>

definition unrecorded :: "vram_cache \<Rightarrow> string \<Rightarrow> bool" where
  "unrecorded c u \<longleftrightarrow> gget [] (syncedPhaseBySlice c) u \<noteq> ''Ready'' \<and> map_of (confirmedBySlice c) u = None"

lemma recalculate_idem [simp]: "recalculateFreeVRAM (recalculateFreeVRAM n) = recalculateFreeVRAM n"
  by (simp add: recalculateFreeVRAM_def Let_def)

lemma recalculate_sel [simp]:
  "ns_Allocated (recalculateFreeVRAM n) = ns_Allocated n" "ns_Total (recalculateFreeVRAM n) = ns_Total n"
  "ns_Reserved (recalculateFreeVRAM n) = ns_Reserved n" "ns_Zone (recalculateFreeVRAM n) = ns_Zone n"
  "ns_Healthy (recalculateFreeVRAM n) = ns_Healthy n"
  by (simp_all add: recalculateFreeVRAM_def Let_def)

lemma recalculate_alloc [simp]:
  "recalculateFreeVRAM (recalculateFreeVRAM n\<lparr>ns_Allocated := a\<rparr>) = recalculateFreeVRAM (n\<lparr>ns_Allocated := a\<rparr>)"
  by (simp add: recalculateFreeVRAM_def Let_def)

lemma promote_unrecorded:
  assumes "unrecorded c u"
  shows "nodes (snd (PromoteSliceToAllocatedOnce u n b c)) = nodes (upd_node n (add_allocated b) c)"
    and "unrecorded (snd (PromoteSliceToAllocatedOnce u n b c)) v \<longleftrightarrow> unrecorded c v \<and> v \<noteq> u"
  using assms by (auto simp: PromoteSliceToAllocatedOnce_def promoteConfirmedToAllocatedLocked_def unrecorded_def
      upd_node_def split: option.splits)

lemma promote_list_nodes:
  assumes "distinct (map fst xs)" and "\<forall>x\<in>set xs. unrecorded c (fst x) \<and> 0 \<le> snd (snd x)"
    and "map_of (nodes c) k = Some n" and "recalculateFreeVRAM n = n" and "0 \<le> ns_Allocated n"
    and "ns_Allocated n + bytes_at k xs < 2 ^ 63"
  shows "map_of (nodes (promote_list xs c)) k = Some (recalculateFreeVRAM (n\<lparr>ns_Allocated := ns_Allocated n + bytes_at k xs\<rparr>))"
  using assms
proof (induction xs arbitrary: c n)
  case (Cons x xs)
  obtain u m b where x: "x = (u, m, b)" by (cases x)
  let ?c = "snd (PromoteSliceToAllocatedOnce u m b c)"
  have un: "unrecorded c u" "0 \<le> b" using Cons.prems(2) by (auto simp: x)
  have pos: "0 \<le> bytes_at k xs" using Cons.prems(2) by (intro bytes_at_nonneg) auto
  let ?n = "if m = k then add_allocated b n else n"
  have a: "m = k \<Longrightarrow> add_allocated b n = recalculateFreeVRAM (n\<lparr>ns_Allocated := ns_Allocated n + b\<rparr>)"
    using Cons.prems(5,6) un(2) pos by (simp add: add_allocated_def i64_id x)
  have rest: "map_of (nodes (promote_list xs ?c)) k
      = Some (recalculateFreeVRAM (?n\<lparr>ns_Allocated := ns_Allocated ?n + bytes_at k xs\<rparr>))"
  proof (rule Cons.IH)
    show "distinct (map fst xs)" using Cons.prems(1) by (simp add: x)
    show "\<forall>y\<in>set xs. unrecorded ?c (fst y) \<and> 0 \<le> snd (snd y)"
      using Cons.prems(1,2) by (auto simp: promote_unrecorded(2) [OF un(1)] x image_iff)
    show "map_of (nodes ?c) k = Some ?n"
      using Cons.prems(3) by (simp add: promote_unrecorded(1) [OF un(1)] upd_node_def split: option.splits)
    show "recalculateFreeVRAM ?n = ?n" "0 \<le> ns_Allocated ?n" "ns_Allocated ?n + bytes_at k xs < 2 ^ 63"
      using a Cons.prems(4-6) un(2) by (auto simp: x)
  qed
  have "promote_list (x # xs) c = promote_list xs ?c" by (simp add: promote_list_def x)
  then show ?case
    using rest a Cons.prems(4) by (cases "m = k") (simp_all add: x add.assoc)
qed (simp add: promote_list_def)

lemma promote_list_other: "map_of (nodes c) k = None \<Longrightarrow> map_of (nodes (promote_list xs c)) k = None"
proof (induction xs arbitrary: c)
  case (Cons x xs)
  obtain u m b where x: "x = (u, m, b)" by (cases x)
  have "map_of (nodes (snd (PromoteSliceToAllocatedOnce u m b c))) k = None"
    using Cons.prems by (auto simp: PromoteSliceToAllocatedOnce_def promoteConfirmedToAllocatedLocked_def upd_node_def Let_def
        split: option.splits)
  then show ?case using Cons.IH by (simp add: promote_list_def x)
qed (simp add: promote_list_def)

definition seed_list :: "vgpu_slice list \<Rightarrow> (string \<times> string \<times> int) list" where
  "seed_list sls = map (\<lambda>sl. (sl_UID sl, sl_NodeName sl, seed_bytes sl)) (filter seeds sls)"

definition recharge_list :: "string \<Rightarrow> vgpu_slice list \<Rightarrow> (string \<times> string \<times> int) list" where
  "recharge_list k sls = map (\<lambda>sl. (sl_UID sl, k, sl_AllocatedBytes sl)) (filter (recharges k) sls)"

lemma seed_fold: "fold seed_slice sls c = promote_list (seed_list sls) c"
  by (induction sls arbitrary: c) (simp_all add: seed_slice_def seed_list_def promote_list_def)

lemma recharge_fold: "fold (recharge_slice k) sls c = promote_list (recharge_list k sls) c"
  by (induction sls arbitrary: c) (simp_all add: recharge_slice_def recharge_list_def promote_list_def)

lemma distinct_filter_map: "distinct (map f xs) \<Longrightarrow> distinct (map f (filter P xs))"
  by (induction xs) auto

section \<open>Seeding the nodes\<close>

definition fresh_node :: "k8s_node \<Rightarrow> node_state \<Rightarrow> bool" where
  "fresh_node node n \<longleftrightarrow> recalculateFreeVRAM n = n \<and> kn_Capacity node = Some (ns_Total n) \<and>
     ns_Allocated n = consumedVRAMOnNode node \<and> ns_Reserved n = 0"

lemma consumed_nonneg: "0 \<le> consumedVRAMOnNode node"
  by (simp add: consumedVRAMOnNode_def Let_def)

lemma node_refreshed:
  assumes "kn_Capacity node = Some total_bytes" and "map_of (nodes c) (kn_Name node) = None"
  shows "map_of (nodes (UpdateNode (kn_Name node) total_bytes (consumedVRAMOnNode node) c)) (kn_Name node)
    = Some (recalculateFreeVRAM ((new_node (kn_Name node))\<lparr>ns_Total := total_bytes, ns_Allocated := consumedVRAMOnNode node\<rparr>))"
  using assms(2) consumed_nonneg [of node]
  by (auto simp: UpdateNode_def Let_def gget_None new_node_def)

lemma seed_node_other:
  "k \<noteq> kn_Name node \<Longrightarrow> map_of (nodes (seed_node node c)) k = map_of (nodes c) k"
  "unrecorded (seed_node node c) u = unrecorded c u"
  by (cases "kn_Capacity node"; simp add: seed_node_def set_zone_if_any_def SetNodeZone_def UpdateNode_def unrecorded_def Let_def)+

lemma seed_node_fresh:
  assumes "map_of (nodes c) (kn_Name node) = None" and "kn_Capacity node \<noteq> None"
  shows "\<exists>n. map_of (nodes (seed_node node c)) (kn_Name node) = Some n \<and> fresh_node node n"
proof -
  obtain t where t: "kn_Capacity node = Some t" using assms(2) by blast
  let ?n = "recalculateFreeVRAM ((new_node (kn_Name node))\<lparr>ns_Total := t, ns_Allocated := consumedVRAMOnNode node\<rparr>)"
  have n: "map_of (nodes (UpdateNode (kn_Name node) t (consumedVRAMOnNode node) c)) (kn_Name node) = Some ?n"
    by (rule node_refreshed [OF t assms(1)])
  have f: "fresh_node node ?n" "fresh_node node (?n\<lparr>ns_Zone := z\<rparr>)" for z
    using t by (simp_all add: fresh_node_def new_node_def) (simp_all add: recalculateFreeVRAM_def Let_def)
  show ?thesis
    using n f by (simp add: seed_node_def t set_zone_if_any_def SetNodeZone_def Let_def)
qed

lemma seed_nodes:
  assumes "distinct (map kn_Name ns)" and "\<forall>node\<in>set ns. map_of (nodes c) (kn_Name node) = None"
    and "node \<in> set ns" and "kn_Capacity node \<noteq> None"
  shows "\<exists>n. map_of (nodes (fold seed_node ns c)) (kn_Name node) = Some n \<and> fresh_node node n"
  using assms
proof (induction ns arbitrary: c)
  case (Cons a ns)
  have keep: "k \<notin> kn_Name ` set ms \<Longrightarrow> map_of (nodes (fold seed_node ms d)) k = map_of (nodes d) k" for k ms d
    by (induction ms arbitrary: d) (simp_all add: seed_node_other)
  show ?case
  proof (cases "node = a")
    case True
    then show ?thesis
      using Cons.prems seed_node_fresh [of c a] keep [of "kn_Name a" ns "seed_node a c"] by auto
  next
    case False
    have "map_of (nodes (seed_node a c)) (kn_Name m) = None" if "m \<in> set ns" for m
    proof -
      have "kn_Name m \<noteq> kn_Name a" using Cons.prems(1) that by (auto simp: image_iff)
      then show ?thesis using Cons.prems(2) that by (simp add: seed_node_other(1))
    qed
    then show ?thesis using Cons.IH [of "seed_node a c"] Cons.prems False by simp
  qed
qed simp

lemma seed_nodes_unrecorded: "unrecorded (fold seed_node ns c) u = unrecorded c u"
  by (induction ns arbitrary: c) (simp_all add: seed_node_other)

section \<open>Forgetting slices\<close>

text \<open>Everything the ledger records of a slice.\<close>

definition entries_of :: "vram_cache \<Rightarrow> string \<Rightarrow>
    assumed_allocation option \<times> assumed_allocation option \<times> int option \<times> string option" where
  "entries_of c u = (map_of (assumedBySlice c) u, map_of (confirmedBySlice c) u,
     map_of (allocatedBytesBySlice c) u, map_of (allocatedNodeBySlice c) u)"

lemma entries_forget: "v \<noteq> u \<Longrightarrow> entries_of (ForgetSlice u k c) v = entries_of c v"
proof -
  assume ne: "v \<noteq> u"
  have "entries_of (RollbackAssumedSlice u d) v = entries_of d v" for d
    using ne by (cases "map_of (assumedBySlice d) u") (simp_all add: entries_of_def RollbackAssumedSlice_def Let_def)
  moreover have "entries_of (ReleaseConfirmedSlice u d) v = entries_of d v" for d
    using ne by (cases "map_of (confirmedBySlice d) u") (simp_all add: entries_of_def ReleaseConfirmedSlice_def Let_def)
  moreover have "entries_of (ReleaseSliceOnce u k d) v = entries_of d v" for d
    using ne by (simp add: entries_of_def ReleaseSliceOnce_def ReleaseAllocated_def Let_def)
  moreover have "entries_of (d\<lparr>syncedPhaseBySlice := m\<rparr>) v = entries_of d v" for d m
    by (simp add: entries_of_def)
  ultimately show ?thesis by (simp add: ForgetSlice_def Let_def)
qed

lemma agrees_entries: "entries_of c v = entries_of d v \<Longrightarrow> node_agrees c v k \<longleftrightarrow> node_agrees d v k"
  by (simp add: entries_of_def node_agrees_def)

lemma tracked_entries: "entries_of c v = entries_of d v \<Longrightarrow> ghas (TrackedSliceUIDs c) v \<longleftrightarrow> ghas (TrackedSliceUIDs d) v"
  by (simp only: tracked_iff) (simp add: entries_of_def ghas_def)

lemma forget_loop:
  assumes "reachable c" and "distinct (map fst xs)" and "\<forall>(u, k)\<in>set xs. k \<noteq> [] \<and> node_agrees c u k"
  shows "reachable (janitor_forget live xs c) \<and>
    (\<forall>v. v \<in> set live \<or> v \<notin> fst ` set xs \<longrightarrow> entries_of (janitor_forget live xs c) v = entries_of c v) \<and>
    (\<forall>v. v \<in> fst ` set xs \<and> v \<notin> set live \<longrightarrow> \<not> ghas (TrackedSliceUIDs (janitor_forget live xs c)) v)"
  using assms
proof (induction xs arbitrary: c)
  case (Cons x xs)
  obtain u k where x: "x = (u, k)" by (cases x)
  let ?c = "if u \<in> set live then c else ForgetSlice u k c"
  have step: "janitor_forget live (x # xs) c = janitor_forget live xs ?c"
    by (simp add: janitor_forget_def x)
  have k: "k \<noteq> []" "node_agrees c u k" using Cons.prems(3) by (auto simp: x)
  have u: "u \<notin> fst ` set xs" using Cons.prems(2) by (simp add: x)
  have same: "entries_of ?c v = entries_of c v" if "v \<noteq> u \<or> v \<in> set live" for v
    using that entries_forget by auto
  have r: "reachable ?c"
    using Cons.prems(1) k reachable.reach_step [OF Cons.prems(1) step_forget [of c u k]] by simp
  have IH: "reachable (janitor_forget live xs ?c) \<and>
    (\<forall>v. v \<in> set live \<or> v \<notin> fst ` set xs \<longrightarrow> entries_of (janitor_forget live xs ?c) v = entries_of ?c v) \<and>
    (\<forall>v. v \<in> fst ` set xs \<and> v \<notin> set live \<longrightarrow> \<not> ghas (TrackedSliceUIDs (janitor_forget live xs ?c)) v)"
  proof (rule Cons.IH [OF r])
    show "distinct (map fst xs)" using Cons.prems(2) by simp
    have "node_agrees ?c v m" if "(v, m) \<in> set xs" for v m
    proof -
      have "v \<noteq> u" using u that by force
      then have "entries_of ?c v = entries_of c v" using same by blast
      from agrees_entries [OF this] show ?thesis using Cons.prems(3) that by (auto simp: x)
    qed
    then show "\<forall>(v, m)\<in>set xs. m \<noteq> [] \<and> node_agrees ?c v m" using Cons.prems(3) by auto
  qed
  have gone: "\<not> ghas (TrackedSliceUIDs (janitor_forget live xs ?c)) u" if "u \<notin> set live"
  proof -
    have "entries_of (janitor_forget live xs ?c) u = entries_of ?c u" using IH u by blast
    from tracked_entries [OF this] show ?thesis
      using forget_untracks [OF Cons.prems(1) k(2,1)] that by simp
  qed
  show ?case
    unfolding step
  proof (intro conjI allI impI)
    show "reachable (janitor_forget live xs ?c)" using IH by blast
  next
    fix v assume v: "v \<in> set live \<or> v \<notin> fst ` set (x # xs)"
    then have "v \<noteq> u \<or> v \<in> set live" "v \<in> set live \<or> v \<notin> fst ` set xs" by (auto simp: x)
    then show "entries_of (janitor_forget live xs ?c) v = entries_of c v" using IH same [of v] by metis
  next
    fix v assume "v \<in> fst ` set (x # xs) \<and> v \<notin> set live"
    then show "\<not> ghas (TrackedSliceUIDs (janitor_forget live xs ?c)) v"
      using IH gone by (cases "v = u") (auto simp: x)
  qed
qed (simp add: janitor_forget_def)

lemma map_of_fold_gput:
  "gmap_ok m \<Longrightarrow> map_of (fold (\<lambda>(u, a) out. gput u (f a) out) m out) v
    = (case map_of m v of Some a \<Rightarrow> Some (f a) | None \<Rightarrow> map_of out v)"
proof (induction m arbitrary: out)
  case (Cons x m)
  obtain u a where x: "x = (u, a)" by (cases x)
  have "gmap_ok m" "map_of m u = None" using Cons.prems by (auto simp: gmap_ok_def x map_of_eq_None_iff)
  then show ?case using Cons.IH by (simp add: x split: option.splits)
qed simp

lemma gmap_ok_fold_gput: "gmap_ok out \<Longrightarrow> gmap_ok (fold (\<lambda>(u, a) out. gput u (f a) out) m out)"
  by (induction m arbitrary: out) auto

lemma tracked_node:
  assumes "cache_ok c" and "map_of (TrackedSliceUIDs c) u = Some k"
  shows "node_agrees c u k \<and> ghas (nodes c) k"
proof -
  note parts = cache_okD [OF assms(1)]
  have m: "gmap_ok (assumedBySlice c)" "gmap_ok (confirmedBySlice c)" "gmap_ok (allocatedNodeBySlice c)"
    using parts(1) by (simp_all add: maps_ok_def)
  have "map_of (TrackedSliceUIDs c) u = (case map_of (allocatedNodeBySlice c) u of Some n \<Rightarrow> Some n
     | None \<Rightarrow> (case map_of (confirmedBySlice c) u of Some a \<Rightarrow> Some (aa_NodeName a)
     | None \<Rightarrow> map_option aa_NodeName (map_of (assumedBySlice c) u)))"
    unfolding TrackedSliceUIDs_def
    by (simp add: map_of_fold_gput [OF m(1)] map_of_fold_gput [OF m(2)] map_of_fold_gput [OF m(3), where f = "\<lambda>n. n"]
        split: option.splits)
  then show ?thesis
    using assms(2) parts(3)
    by (cases "map_of (assumedBySlice c) u") (auto simp: node_agrees_def entries_ok_def split: option.splits)
qed

lemma gmap_ok_Tracked: "gmap_ok (TrackedSliceUIDs c)"
  unfolding TrackedSliceUIDs_def
  using gmap_ok_fold_gput [where f = "\<lambda>n. n"] by (intro gmap_ok_fold_gput [where f = "\<lambda>n. n"] gmap_ok_fold_gput) simp

section \<open>Properties\<close>


definition node_a :: k8s_node where
  "node_a = \<lparr>kn_Name = ''n1'', kn_Capacity = Some 100, kn_Allocatable = Some 90, kn_Conditions = [], kn_Labels = []\<rparr>"

definition bound_slice :: vgpu_slice where
  "bound_slice = slice0\<lparr>sl_NodeName := ''n1'', sl_Phase := ''Scheduled''\<rparr>"


lemma UpdateNode_ledger [simp]: "unrecorded (UpdateNode k t a c) u = unrecorded c u"
  by (simp add: UpdateNode_def unrecorded_def Let_def)

lemma node_flags_nodes:
  "map_of (nodes (set_zone_if_any node (SetNodeHealth k h c))) (kn_Name node) = Some m \<Longrightarrow>
    map_of (nodes c) (kn_Name node) = Some n \<Longrightarrow> k = kn_Name node \<Longrightarrow>
    ns_Allocated m = ns_Allocated n \<and> ns_Total m = ns_Total n \<and> ns_Free m = ns_Free n \<and> ns_Healthy m = h"
  by (auto simp: set_zone_if_any_def SetNodeZone_def SetNodeHealth_def upd_node_def Let_def split: if_splits)

lemma node_flags_has:
  "map_of (nodes c) (kn_Name node) = Some n \<Longrightarrow>
    \<exists>m. map_of (nodes (set_zone_if_any node (SetNodeHealth (kn_Name node) h c))) (kn_Name node) = Some m"
  by (auto simp: set_zone_if_any_def SetNodeZone_def SetNodeHealth_def upd_node_def Let_def)

text \<open>
  A node that comes back is charged again at once: when a node that the cache does not know is
  reconciled and the slice list is read, every \<open>Ready\<close> slice on it is charged before the node is offered,
  and the node's health is what its condition says.
\<close>

theorem returning_node_is_recharged:
  assumes "kn_Capacity node = Some total_bytes" and "map_of (nodes c) (kn_Name node) = None"
    and "distinct (map sl_UID sls)" and "\<forall>sl\<in>set sls. recharges (kn_Name node) sl \<longrightarrow> unrecorded c (sl_UID sl)"
    and "consumedVRAMOnNode node + bytes_at (kn_Name node) (recharge_list (kn_Name node) sls) < 2 ^ 63"
  shows "\<exists>m. map_of (nodes (snd (Reconcile_node reqName (Found node) (Some sls) c))) (kn_Name node) = Some m \<and>
    ns_Allocated m = consumedVRAMOnNode node + bytes_at (kn_Name node) (recharge_list (kn_Name node) sls) \<and>
    ns_Total m = total_bytes \<and> ns_Healthy m = nodeIsReady node"
proof -
  let ?k = "kn_Name node" and ?xs = "recharge_list (kn_Name node) sls"
  let ?c1 = "UpdateNode ?k total_bytes (consumedVRAMOnNode node) c"
  let ?n = "recalculateFreeVRAM ((new_node ?k)\<lparr>ns_Total := total_bytes, ns_Allocated := consumedVRAMOnNode node\<rparr>)"
  let ?n2 = "recalculateFreeVRAM (?n\<lparr>ns_Allocated := ns_Allocated ?n + bytes_at ?k ?xs\<rparr>)"
  have d: "distinct (map fst ?xs)"
    using distinct_filter_map [OF assms(3), of "recharges ?k"] by (simp add: recharge_list_def comp_def)
  have x: "\<forall>x\<in>set ?xs. unrecorded ?c1 (fst x) \<and> 0 \<le> snd (snd x)"
    using assms(4) by (auto simp: recharge_list_def recharges_def)
  have m: "map_of (nodes (promote_list ?xs ?c1)) ?k = Some ?n2"
    using assms(5) consumed_nonneg [of node]
    by (intro promote_list_nodes [OF d x node_refreshed [OF assms(1,2)]]) simp_all
  have r: "snd (Reconcile_node reqName (Found node) (Some sls) c)
      = set_zone_if_any node (SetNodeHealth ?k (nodeIsReady node) (promote_list ?xs ?c1))"
    using assms(1,2) by (simp add: Reconcile_node_def HasNode_def not_ghas recharge_fold Let_def)
  obtain m where f: "map_of (nodes (set_zone_if_any node (SetNodeHealth ?k (nodeIsReady node) (promote_list ?xs ?c1)))) ?k = Some m"
    using node_flags_has [OF m] by blast
  show ?thesis using node_flags_nodes [OF f m refl] f by (auto simp: r)
qed

definition ready_slice :: vgpu_slice where
  "ready_slice = slice0\<lparr>sl_NodeName := ''n1'', sl_Phase := ''Ready'', sl_AllocatedBytes := 30\<rparr>"

theorem returning_node_is_recharged_witness:
  "\<exists>m. map_of (nodes (snd (Reconcile_node ''n1'' (Found node_a) (Some [ready_slice]) NewVRAMCache))) ''n1'' = Some m \<and>
     ns_Allocated m = 40"
proof -
  have c: "consumedVRAMOnNode node_a = 10" by (simp add: consumedVRAMOnNode_def node_a_def i64_id)
  have b: "bytes_at ''n1'' (recharge_list ''n1'' [ready_slice]) = 30"
    by (simp add: recharge_list_def recharges_def ready_slice_def)
  show ?thesis
    using returning_node_is_recharged [of node_a 100 NewVRAMCache "[ready_slice]" "''n1''"] c b
    by (auto simp: node_a_def NewVRAMCache_def unrecorded_def gget_def)
qed

text \<open>
  A failed recharge is not retried: when the slice list cannot be read on the node's registration the
  reconcile fails with the node already registered, so the retry no longer takes it for new and, whatever
  slices are \<open>Ready\<close> there, offers the node with only its pods' consumption charged.
\<close>

theorem failed_recharge_is_lost:
  assumes "kn_Capacity node = Some total_bytes" and "map_of (nodes c) (kn_Name node) = None"
  shows "let c1 = snd (Reconcile_node reqName (Found node) None c) in
    fst (Reconcile_node reqName (Found node) None c) = ReconcileError \<and>
    (\<exists>m. map_of (nodes (snd (Reconcile_node reqName (Found node) (Some sls) c1))) (kn_Name node) = Some m \<and>
      ns_Allocated m = consumedVRAMOnNode node)"
proof -
  let ?k = "kn_Name node"
  let ?c1 = "UpdateNode ?k total_bytes (consumedVRAMOnNode node) c"
  let ?n = "recalculateFreeVRAM ((new_node ?k)\<lparr>ns_Total := total_bytes, ns_Allocated := consumedVRAMOnNode node\<rparr>)"
  have n: "map_of (nodes ?c1) ?k = Some ?n" by (rule node_refreshed [OF assms])
  have r1: "Reconcile_node reqName (Found node) None c = (ReconcileError, ?c1)"
    using assms by (simp add: Reconcile_node_def HasNode_def not_ghas Let_def)
  let ?c2 = "UpdateNode ?k total_bytes (consumedVRAMOnNode node) ?c1"
  have n2: "map_of (nodes ?c2) ?k = Some ?n"
    using n by (simp add: UpdateNode_def [of _ _ _ ?c1] Let_def) (simp add: recalculateFreeVRAM_def Let_def)
  have "ghas (nodes ?c1) ?k" using n by (rule map_of_SomeD_ghas)
  then have r2: "snd (Reconcile_node reqName (Found node) (Some sls) ?c1)
      = set_zone_if_any node (SetNodeHealth ?k (nodeIsReady node) ?c2)"
    using assms(1) by (simp add: Reconcile_node_def HasNode_def Let_def)
  obtain m where f: "map_of (nodes (set_zone_if_any node (SetNodeHealth ?k (nodeIsReady node) ?c2))) ?k = Some m"
    using node_flags_has [OF n2] by blast
  show ?thesis using node_flags_nodes [OF f n2 refl] f by (simp add: r1 r2 Let_def)
qed

theorem failed_recharge_is_lost_witness:
  "\<exists>m. map_of (nodes (snd (Reconcile_node ''n1'' (Found node_a) (Some [ready_slice])
      (snd (Reconcile_node ''n1'' (Found node_a) None NewVRAMCache))))) ''n1'' = Some m \<and> ns_Allocated m = 10"
proof -
  have c: "consumedVRAMOnNode node_a = 10" by (simp add: consumedVRAMOnNode_def node_a_def i64_id)
  have a: "kn_Capacity node_a = Some 100" "kn_Name node_a = ''n1''" by (simp_all add: node_a_def)
  show ?thesis
    using failed_recharge_is_lost [OF a(1), of NewVRAMCache "''n1''" "[ready_slice]"]
    by (simp add: a(2) c Let_def) (simp add: NewVRAMCache_def)
qed

lemma aging_mono: "a \<le> b \<Longrightarrow> 0 \<le> a \<Longrightarrow> aging a \<le> aging b"
  by (auto simp: aging_def Let_def go_div_nonneg second_def zdiv_mono1)

lemma aging_bounds: "0 \<le> a \<Longrightarrow> 0 \<le> aging a \<and> aging a \<le> 50"
  by (simp add: aging_def Let_def go_div_nonneg second_def pos_imp_zdiv_nonneg_iff)

text \<open>
  Waiting raises a slice's priority, within its tier: the priority of a slice without a job never
  falls as it waits, grows by one per thirty seconds up to fifty, and a best-effort slice never reaches a
  guaranteed one.
\<close>

theorem waiting_raises_priority:
  assumes "cl_JobRef claim = []" and "sl_ClaimRef slice \<noteq> []" and "sl_CreationTimestamp slice \<le> t" and "t \<le> t'"
  shows "priority_of (Found slice) (Found claim) jr t \<le> priority_of (Found slice) (Found claim) jr t' \<and>
    priority_of (Found slice) (Found claim) jr t
      = (if cl_ServiceTier claim = ServiceTierGuaranteed then 100 else 10)
        + min 50 ((t - sl_CreationTimestamp slice) div (30 * second)) \<and>
    (cl_ServiceTier claim \<noteq> ServiceTierGuaranteed \<longrightarrow> priority_of (Found slice) (Found claim) jr t' < PriorityGuaranteed)"
proof -
  have a: "aging (t - sl_CreationTimestamp slice) = min 50 ((t - sl_CreationTimestamp slice) div (30 * second))"
    using assms(3) by (simp add: aging_def Let_def go_div_nonneg second_def min_def)
  show ?thesis
    using aging_mono [of "t - sl_CreationTimestamp slice" "t' - sl_CreationTimestamp slice"]
      aging_bounds [of "t' - sl_CreationTimestamp slice"] assms
    by (simp add: priority_of_def Let_def a PriorityBestEffort_def PriorityGuaranteed_def)
qed

theorem waiting_raises_priority_witness:
  "priority_of (Found slice0) (Found zero_claim) NotFound (60 * second) = 12"
  using waiting_raises_priority [of zero_claim slice0 "60 * second" "60 * second" NotFound]
  by (simp add: slice0_def zero_claim_def ServiceTierGuaranteed_def second_def)

text \<open>
  A job's own priority stops its aging: a slice whose job has a priority just above its tier's base
  keeps it for ever, so after twenty-five minutes an older job of lower priority is served before it.
\<close>

theorem job_priority_stops_aging:
  assumes "cl_JobRef claim \<noteq> []" and "cl_ServiceTier claim \<noteq> ServiceTierGuaranteed" and "sl_ClaimRef slice \<noteq> []"
    and "jb_Priority low = 10" and "jb_Priority high = 11" and "sl_CreationTimestamp slice + 1500 * second \<le> t"
  shows "priority_of (Found slice) (Found claim) (Found high) t = 11 \<and>
    priority_of (Found slice) (Found claim) (Found low) t = 60"
proof -
  have "50 \<le> (t - sl_CreationTimestamp slice) div (30 * second)"
    using assms(6) zdiv_mono1 [of "1500 * second" "t - sl_CreationTimestamp slice" "30 * second"]
    by (simp add: second_def)
  then have "aging (t - sl_CreationTimestamp slice) = 50"
    using assms(6) by (simp add: aging_def Let_def go_div_nonneg second_def)
  then show ?thesis
    using assms(1-5) by (simp add: priority_of_def PriorityBestEffort_def PriorityGuaranteed_def)
qed

theorem job_priority_stops_aging_witness:
  "priority_of (Found slice0) (Found (zero_claim\<lparr>cl_JobRef := ''j''\<rparr>)) (Found (zero_job\<lparr>jb_Priority := 11\<rparr>)) (1500 * second) = 11"
  using job_priority_stops_aging [of "zero_claim\<lparr>cl_JobRef := ''j''\<rparr>" slice0 "zero_job\<lparr>jb_Priority := 10\<rparr>" "zero_job\<lparr>jb_Priority := 11\<rparr>" "1500 * second"]
  by (simp add: slice0_def zero_claim_def ServiceTierGuaranteed_def)

text \<open>
  C32. The janitor removes exactly the ghosts: after a sweep over a quiet cache every slice the ledger
  still tracks is one the API server lists, the records of every listed slice are untouched, and the
  ledger is exact.
\<close>

theorem janitor_removes_exactly_ghosts:
  assumes "reachable c" and "\<not> ghas (nodes c) []"
  shows "let d = janitor_sweep (Some sls) (\<lambda>c. c) c in reachable d \<and>
    (\<forall>u. ghas (TrackedSliceUIDs d) u \<longrightarrow> u \<in> sl_UID ` set sls) \<and>
    (\<forall>sl\<in>set sls. entries_of d (sl_UID sl) = entries_of c (sl_UID sl))"
proof -
  let ?t = "TrackedSliceUIDs c" and ?live = "map sl_UID sls"
  have ok: "cache_ok c" by (rule reachable_ok [OF assms(1)])
  have d: "distinct (map fst ?t)" using gmap_ok_Tracked by (simp add: gmap_ok_def)
  have n: "\<forall>(u, k)\<in>set ?t. k \<noteq> [] \<and> node_agrees c u k"
    using tracked_node [OF ok] assms(2) by (auto simp: map_of_SomeD_ok [OF gmap_ok_Tracked])
  have dom: "ghas ?t u \<longleftrightarrow> u \<in> fst ` set ?t" for u
    by (simp add: ghas_def map_of_eq_None_iff)
  note f = forget_loop [OF assms(1) d n, of ?live]
  have s: "janitor_sweep (Some sls) (\<lambda>c. c) c = janitor_forget ?live ?t c"
    by (simp add: janitor_sweep_def janitor_forget_def Let_def)
  have "u \<in> sl_UID ` set sls" if "ghas (TrackedSliceUIDs (janitor_forget ?live ?t c)) u" for u
  proof (rule ccontr)
    assume no: "u \<notin> sl_UID ` set sls"
    show False
    proof (cases "u \<in> fst ` set ?t")
      case True
      then show False using f no that by simp
    next
      case False
      then have "entries_of (janitor_forget ?live ?t c) u = entries_of c u" using f by blast
      from tracked_entries [OF this] show False using that dom False by blast
    qed
  qed
  then show ?thesis using f by (simp add: s Let_def)
qed

theorem janitor_removes_exactly_ghosts_witness:
  "\<not> ghas (TrackedSliceUIDs (janitor_sweep (Some []) (\<lambda>c. c) one_hold)) ''s1''"
proof -
  have "\<not> ghas (nodes one_hold) []" by (simp add: one_hold_def one_node_eq NewVRAMCache_def ghas_def)
  from janitor_removes_exactly_ghosts [OF reachable_one_hold this, of "[]"] show ?thesis by (simp add: Let_def)
qed

text \<open>
  A deleted slice leaves nothing behind: when the reconcile of a slice that was observed on its node
  finds it gone, or finds another object under its name, the ledger has no entry of the old one.
\<close>

theorem deleted_slice_is_forgotten:
  assumes "map_of (pr_tracked p) nn = Some t" and "tk_uid t \<noteq> []" and "tk_node t \<noteq> []"
    and "reachable (ss_cache (pr_sched p))" and "node_agrees (ss_cache (pr_sched p)) (tk_uid t) (tk_node t)"
  shows "\<not> ghas (TrackedSliceUIDs (ss_cache (pr_sched (releaseOnDelete nn p)))) (tk_uid t) \<and>
    map_of (pr_tracked (releaseOnDelete nn p)) nn = None \<and>
    (uid \<noteq> tk_uid t \<longrightarrow> \<not> ghas (TrackedSliceUIDs (ss_cache (pr_sched (recordSlice nn uid node phase p)))) (tk_uid t))"
  using forget_untracks [OF assms(4,5,3)] assms(1,2)
  by (simp add: releaseOnDelete_def recordSlice_def forget_in_def Let_def)

definition tracking :: process_state where
  "tracking = \<lparr>pr_sched = start_state one_hold NewGangBindingGate,
     pr_tracked = [((''ns'', ''s''), \<lparr>tk_uid = ''s1'', tk_node = ''n1'', tk_phase = ''Scheduled''\<rparr>)]\<rparr>"

theorem deleted_slice_is_forgotten_witness:
  "\<not> ghas (TrackedSliceUIDs (ss_cache (pr_sched (releaseOnDelete (''ns'', ''s'') tracking)))) ''s1''"
proof -
  have c: "ss_cache (pr_sched tracking) = one_hold" by (simp add: tracking_def start_state_def)
  have a: "node_agrees one_hold ''s1'' ''n1''" by (simp add: node_agrees_def one_hold_def one_node_eq NewVRAMCache_def)
  show ?thesis
    using deleted_slice_is_forgotten [of tracking "(''ns'', ''s'')" "\<lparr>tk_uid = ''s1'', tk_node = ''n1'', tk_phase = ''Scheduled''\<rparr>" "''s1''"]
    by (simp add: c a reachable_one_hold) (simp add: tracking_def)
qed

lemma unseeded_schedule: "\<not> IsSeeded (ss_cache s) \<Longrightarrow> Schedule cfg env ns uid req be s = (CacheNotReady, s, [])"
  by (simp add: Schedule_def)



end
