(* ===== verification/GangJob.thy ===== *)
theory GangJob
  imports GangReservation
begin

text \<open>
  The gang controller, \<open>internal/controller/vgpugangjob_reconciler.go\<close>, and the annotations that tie
  a gang's objects together, \<open>internal/controller/gang_annotations.go\<close>: one \<open>VGPUJob\<close> per slot, the
  reservation over their claims once all of them exist, and the mirrored status.
\<close>

section \<open>Names and annotations\<close>

definition reservationNameForGang :: "string \<Rightarrow> string" where
  "reservationNameForGang gangName = gangName @ ''-rsv''"

definition childJobName :: "string \<Rightarrow> int \<Rightarrow> string" where
  "childJobName gangName idx = gangName @ ''-'' @ FormatInt idx"

definition claimNameForJob :: "string \<Rightarrow> string" where
  "claimNameForJob jobName = jobName @ ''-claim''"

definition propagatedAnnotationPrefixes :: "string list" where
  "propagatedAnnotationPrefixes = [''gang.vgpu.pranav2910.com/'', ''topology.vgpu.pranav2910.com/'']"

definition FilterGangAnnotations :: "(string, string) gomap \<Rightarrow> (string, string) gomap" where
  "FilterGangAnnotations src =
    filter (\<lambda>(k, v). list_ex (\<lambda>prefix. HasPrefix k prefix) propagatedAnnotationPrefixes) src"

definition LabelGangParent :: string where
  "LabelGangParent = ''gang.vgpu.pranav2910.com/parent''"

definition LabelGangIndex :: string where
  "LabelGangIndex = ''gang.vgpu.pranav2910.com/index''"

text \<open>Entries of the second map whose key the first does not have are added to it.\<close>

definition merge_missing :: "(string, string) gomap \<Rightarrow> (string, string) gomap \<Rightarrow> (string, string) gomap" where
  "merge_missing src into = fold (\<lambda>(k, v) m. if ghas m k then m else gput k v m) src into"

definition childAnnotations :: "vgpu_gang_job \<Rightarrow> (string, string) gomap" where
  "childAnnotations gang =
    merge_missing (FilterGangAnnotations (gj_Annotations gang))
      (gput AnnotationGangPriority (FormatInt (gj_Priority gang))
        (gput AnnotationReservationRef (reservationNameForGang (gj_Name gang))
          (gput AnnotationGangRef (gj_Name gang) [])))"

section \<open>Children and the reservation\<close>

definition child_job :: "vgpu_gang_job \<Rightarrow> int \<Rightarrow> vgpu_job" where
  "child_job gang i = zero_job
    \<lparr>jb_Name := childJobName (gj_Name gang) i, jb_Namespace := gj_Namespace gang,
     jb_Labels := gput LabelGangIndex (FormatInt i) (gput LabelGangParent (gj_Name gang) []),
     jb_Annotations := childAnnotations gang, jb_Priority := gj_Priority gang,
     jb_WorkloadClass := gj_WorkloadClass gang, jb_Preemptible := gj_Preemptible gang,
     jb_PreemptionGraceSeconds := gj_PreemptionGraceSeconds gang, jb_ClaimTemplate := gj_PodTemplate gang\<rparr>"

record gang_env =
  ga_gang :: "vgpu_gang_job api_read"
  ga_rsvFirst :: "vgpu_gang_reservation api_read"
  ga_job :: "string \<Rightarrow> vgpu_job api_read"
  ga_ownerRef :: "int \<Rightarrow> bool"
  ga_createJob :: "int \<Rightarrow> write_reply"
  ga_rsv :: "vgpu_gang_reservation api_read"
  ga_rsvOwnerRef :: bool
  ga_createRsv :: write_reply
  ga_update :: "nat \<Rightarrow> vgpu_gang_job api_read \<times> write_reply"

text \<open>
  The loop of \<open>ensureChildren\<close> from slot \<open>i\<close> on, over \<open>n\<close> slots: whether an error ended it, the jobs
  created, and how many children exist.
\<close>

fun ensure_loop :: "gang_env \<Rightarrow> vgpu_gang_job \<Rightarrow> nat \<Rightarrow> int \<Rightarrow> vgpu_job list \<Rightarrow> int \<Rightarrow> bool \<times> vgpu_job list \<times> int" where
  "ensure_loop env gang 0 i created existing = (False, created, existing)"
| "ensure_loop env gang (Suc n) i created existing =
    (case ga_job env (childJobName (gj_Name gang) i) of
       Found _ \<Rightarrow> ensure_loop env gang n (i + 1) created (existing + 1)
     | ReadErr \<Rightarrow> (True, created, existing)
     | NotFound \<Rightarrow>
         if \<not> ga_ownerRef env i then (True, created, existing)
         else case ga_createJob env i of
           Accepted \<Rightarrow> ensure_loop env gang n (i + 1) (created @ [child_job gang i]) (existing + 1)
         | AlreadyExists \<Rightarrow> ensure_loop env gang n (i + 1) created (existing + 1)
         | _ \<Rightarrow> (True, created, existing))"

definition ensureChildren :: "gang_env \<Rightarrow> vgpu_gang_job \<Rightarrow> bool \<times> vgpu_job list \<times> int" where
  "ensureChildren env gang = ensure_loop env gang (nat (gj_GangSize gang)) 0 [] 0"

definition gang_reservation :: "vgpu_gang_job \<Rightarrow> vgpu_gang_reservation" where
  "gang_reservation gang = zero_reservation
    \<lparr>rv_Name := reservationNameForGang (gj_Name gang), rv_Namespace := gj_Namespace gang,
     rv_GangRef := gj_Name gang, rv_GangSize := gj_GangSize gang,
     rv_ChildClaims := map (\<lambda>i. claimNameForJob (childJobName (gj_Name gang) (int i))) [0..<nat (gj_GangSize gang)],
     rv_DeadlineSeconds := Some (case gj_ReservationTimeoutSeconds gang of None \<Rightarrow> 60 | Some t \<Rightarrow> t)\<rparr>"

definition createReservation :: "gang_env \<Rightarrow> vgpu_gang_job \<Rightarrow> vgpu_gang_reservation option" where
  "createReservation env gang =
    (if ga_rsvOwnerRef env \<and> ga_createRsv env = Accepted then Some (gang_reservation gang) else None)"

section \<open>Status\<close>

definition GangMaterializing :: string where "GangMaterializing = ''Materializing''"
definition GangReserving :: string where "GangReserving = ''Reserving''"
definition GangRunning :: string where "GangRunning = ''Running''"
definition GangFailed :: string where "GangFailed = ''Failed''"
definition GangCompleted :: string where "GangCompleted = ''Completed''"

definition derivePhaseFromReservation :: "vgpu_gang_reservation \<Rightarrow> string \<times> string" where
  "derivePhaseFromReservation rsv =
    (let p = rv_Phase rsv in
     if p = RsvPending \<or> p = RsvReserving \<or> p = [] then
       (GangReserving, ''Reserving slots: '' @ FormatInt (rv_ReservedSlots rsv) @ '' reserved, ''
          @ FormatInt (rv_FailedSlots rsv) @ '' failed of '' @ FormatInt (rv_GangSize rsv))
     else if p = RsvReserved then (GangReserving, ''All slots reserved; binding'')
     else if p = RsvCommitted then (GangRunning, ''All children running'')
     else if p = RsvFailed then (GangFailed, rv_FailureReason rsv)
     else if p = RsvReleased then (GangCompleted, ''Released'')
     else (GangReserving, ''Unknown reservation phase: '' @ p))"

definition gang_status :: "string \<Rightarrow> string \<Rightarrow> int \<Rightarrow> int \<Rightarrow> vgpu_gang_job \<Rightarrow> vgpu_gang_job" where
  "gang_status phase msg created running fresh = fresh
    \<lparr>gj_Phase := phase, gj_Message := msg, gj_ChildrenCreated := created, gj_ChildrenRunning := running,
     gj_ReservationRef := reservationNameForGang (gj_Name fresh)\<rparr>"

record gang_outcome =
  go_result :: reconcile_result
  go_jobs :: "vgpu_job list"
  go_reservation :: "vgpu_gang_reservation option"
  go_written :: "vgpu_gang_job option"

definition gang_done :: "reconcile_result \<Rightarrow> vgpu_job list \<Rightarrow> gang_outcome" where
  "gang_done r jobs = \<lparr>go_result = r, go_jobs = jobs, go_reservation = None, go_written = None\<rparr>"

definition gang_updatePhase ::
  "gang_env \<Rightarrow> string \<Rightarrow> string \<Rightarrow> int \<Rightarrow> int \<Rightarrow> vgpu_job list \<Rightarrow> vgpu_gang_reservation option \<Rightarrow> gang_outcome" where
  "gang_updatePhase env phase msg created running jobs rsv =
    (let (err, w) = RetryOnConflict (ga_update env) (\<lambda>fresh. Some (gang_status phase msg created running fresh))
     in \<lparr>go_result = (if err = None then done_result else ReconcileError), go_jobs = jobs, go_reservation = rsv,
         go_written = w\<rparr>)"

definition gang_materialize :: "gang_env \<Rightarrow> vgpu_gang_job \<Rightarrow> gang_outcome" where
  "gang_materialize env gang =
    (case ensureChildren env gang of
       (True, jobs, _) \<Rightarrow> gang_done ReconcileError jobs
     | (False, jobs, existing) \<Rightarrow>
         if existing \<noteq> gj_GangSize gang then
           gang_updatePhase env GangMaterializing
             (''Created '' @ FormatInt existing @ ''/'' @ FormatInt (gj_GangSize gang) @ '' children'') existing 0 jobs None
         else case ga_rsv env of
           NotFound \<Rightarrow>
             (case createReservation env gang of
                None \<Rightarrow> gang_done ReconcileError jobs
              | Some r \<Rightarrow> gang_updatePhase env GangReserving ''Reservation created; awaiting scheduler''
                           (gj_GangSize gang) 0 jobs (Some r))
         | ReadErr \<Rightarrow> gang_done ReconcileError jobs
         | Found rsv \<Rightarrow>
             (case derivePhaseFromReservation rsv of (p, msg) \<Rightarrow>
                gang_updatePhase env p msg (gj_GangSize gang) (rv_CommittedSlots rsv) jobs None))"

definition Reconcile_gang :: "gang_env \<Rightarrow> gang_outcome" where
  "Reconcile_gang env =
    (case ga_gang env of
       NotFound \<Rightarrow> gang_done done_result []
     | ReadErr \<Rightarrow> gang_done ReconcileError []
     | Found gang \<Rightarrow>
         if gj_DeletionTimestamp gang \<noteq> None then gang_done done_result []
         else case ga_rsvFirst env of
           Found rsv \<Rightarrow>
             (if rv_Phase rsv = RsvFailed \<or> rv_Phase rsv = RsvReleased then
                gang_updatePhase env GangFailed ''reservation terminated; no further child materialization''
                  (gj_GangSize gang) 0 [] None
              else gang_materialize env gang)
         | _ \<Rightarrow> gang_materialize env gang)"

section \<open>Lookups and names\<close>

definition propagated :: "string \<Rightarrow> bool" where
  "propagated k \<longleftrightarrow> list_ex (\<lambda>prefix. HasPrefix k prefix) propagatedAnnotationPrefixes"

lemma map_of_Filter: "map_of (FilterGangAnnotations m) k = (if propagated k then map_of m k else None)"
  by (induction m) (auto simp: FilterGangAnnotations_def propagated_def)

lemma Filter_idem: "FilterGangAnnotations (FilterGangAnnotations m) = FilterGangAnnotations m"
  by (simp add: FilterGangAnnotations_def)

lemma map_of_merge_missing:
  "map_of (merge_missing src into) k = (case map_of into k of Some v \<Rightarrow> Some v | None \<Rightarrow> map_of src k)"
proof (induction src arbitrary: into)
  case Nil
  then show ?case by (simp add: merge_missing_def split: option.splits)
next
  case (Cons e src)
  obtain a v where e: "e = (a, v)" by (cases e)
  have step: "merge_missing (e # src) into = merge_missing src (if ghas into a then into else gput a v into)"
    by (simp add: merge_missing_def e)
  show ?case
    unfolding step Cons.IH
    by (auto simp: e not_ghas split: option.splits elim: ghasE)
qed

lemma gang_keys_propagated [simp]:
  "propagated AnnotationReservationRef" "propagated AnnotationGangRef" "propagated AnnotationGangPriority"
  by (simp_all add: propagated_def propagatedAnnotationPrefixes_def AnnotationReservationRef_def
      AnnotationGangRef_def AnnotationGangPriority_def)

lemma childAnnotations_keys:
  "map_of (childAnnotations gang) AnnotationReservationRef = Some (reservationNameForGang (gj_Name gang))"
  "map_of (childAnnotations gang) AnnotationGangRef = Some (gj_Name gang)"
  "map_of (childAnnotations gang) AnnotationGangPriority = Some (FormatInt (gj_Priority gang))"
  by (simp_all add: childAnnotations_def map_of_merge_missing)

lemma job_of_claimNameForJob: "n \<noteq> [] \<Longrightarrow> job_of_claim (claimNameForJob n) = n"
  by (simp add: job_of_claim_def claimNameForJob_def Let_def)

lemma childJobName_inj:
  assumes "childJobName g i = childJobName g j" and "in_i64 i" and "in_i64 j"
  shows "i = j"
proof -
  have "FormatInt i = FormatInt j" using assms(1) by (simp add: childJobName_def)
  then have "ParseInt64 (FormatInt i) = ParseInt64 (FormatInt j)" by simp
  then show ?thesis using assms(2,3) by (simp add: ParseInt64_FormatInt)
qed

section \<open>What a reconcile creates\<close>

definition child_exists :: "gang_env \<Rightarrow> vgpu_gang_job \<Rightarrow> vgpu_job list \<Rightarrow> int \<Rightarrow> bool" where
  "child_exists env gang jobs i \<longleftrightarrow> (\<exists>j. ga_job env (childJobName (gj_Name gang) i) = Found j) \<or>
     ga_createJob env i = AlreadyExists \<or> child_job gang i \<in> set jobs"

lemma ensure_loop_existing:
  "ensure_loop env gang n i created existing = (False, jobs, ex) \<Longrightarrow>
   ex = existing + int n \<and> set created \<subseteq> set jobs \<and> (\<forall>k. i \<le> k \<and> k < i + int n \<longrightarrow> child_exists env gang jobs k)"
proof (induction n arbitrary: i created existing)
  case (Suc n)
  have range: "i \<le> k \<and> k < i + int (Suc n) \<longleftrightarrow> k = i \<or> i + 1 \<le> k \<and> k < i + 1 + int n" for k by auto
  consider (found) j where "ga_job env (childJobName (gj_Name gang) i) = Found j"
      "ensure_loop env gang n (i + 1) created (existing + 1) = (False, jobs, ex)"
    | (new) "ensure_loop env gang n (i + 1) (created @ [child_job gang i]) (existing + 1) = (False, jobs, ex)"
    | (race) "ga_createJob env i = AlreadyExists" "ensure_loop env gang n (i + 1) created (existing + 1) = (False, jobs, ex)"
    using Suc.prems by (auto split: api_read.splits write_reply.splits if_splits)
  then show ?case
  proof cases
    case found
    then show ?thesis using Suc.IH [OF found(2)] unfolding range by (auto simp: child_exists_def)
  next
    case new
    then show ?thesis using Suc.IH [OF new] unfolding range by (auto simp: child_exists_def)
  next
    case race
    then show ?thesis using Suc.IH [OF race(2)] unfolding range by (auto simp: child_exists_def)
  qed
qed auto

lemma gang_updatePhase_fields [simp]:
  "go_jobs (gang_updatePhase env p m c r jobs rsv) = jobs"
  "go_reservation (gang_updatePhase env p m c r jobs rsv) = rsv"
  by (simp_all add: gang_updatePhase_def split: prod.splits)

lemma gang_updatePhase_phase:
  assumes "go_written (gang_updatePhase env p m c r jobs rsv) = Some w"
  shows "gj_Phase w = p"
proof -
  have "snd (RetryOnConflict (ga_update env) (\<lambda>fresh. Some (gang_status p m c r fresh))) = Some w"
    using assms by (simp add: gang_updatePhase_def split: prod.splits)
  then show ?thesis using RetryOnConflict_written by (fastforce simp: gang_status_def)
qed

lemma materialize_reservation:
  assumes "go_reservation (gang_materialize env gang) = Some r"
  shows "r = gang_reservation gang" and "ga_rsv env = NotFound"
    and "\<forall>i. 0 \<le> i \<and> i < gj_GangSize gang \<longrightarrow> child_exists env gang (go_jobs (gang_materialize env gang)) i"
proof -
  obtain err jobs ex where e: "ensureChildren env gang = (err, jobs, ex)" by (metis prod_cases3)
  have ok: "\<not> err" "ex = gj_GangSize gang" "ga_rsv env = NotFound" "createReservation env gang = Some r"
    using assms by (auto simp: gang_materialize_def e gang_done_def split: bool.splits if_splits api_read.splits option.splits prod.splits)
  show "r = gang_reservation gang" using ok(4) by (simp add: createReservation_def split: if_splits)
  show "ga_rsv env = NotFound" by (rule ok(3))
  have j: "go_jobs (gang_materialize env gang) = jobs"
    using ok by (simp add: gang_materialize_def e)
  show "\<forall>i. 0 \<le> i \<and> i < gj_GangSize gang \<longrightarrow> child_exists env gang (go_jobs (gang_materialize env gang)) i"
    using ensure_loop_existing [of env gang "nat (gj_GangSize gang)" 0 "[]" 0 jobs ex] e ok(1,2)
    by (simp add: j ensureChildren_def)
qed

section \<open>Properties\<close>

definition gang_g :: vgpu_gang_job where
  "gang_g = \<lparr>gj_Name = ''g'', gj_Namespace = ''ns'', gj_Annotations = [(AnnotationReservationRef, ''other'')],
     gj_DeletionTimestamp = None, gj_Priority = 7, gj_WorkloadClass = [], gj_Preemptible = False,
     gj_PreemptionGraceSeconds = None, gj_GangSize = 2, gj_MinAvailable = 2, gj_ReservationTimeoutSeconds = None,
     gj_PodTemplate = zero_claim, gj_Phase = [], gj_Message = [], gj_ChildrenCreated = 0, gj_ChildrenRunning = 0,
     gj_ReservationRef = []\<rparr>"

definition gang_env0 :: "vgpu_gang_reservation api_read \<Rightarrow> gang_env" where
  "gang_env0 rsv = \<lparr>ga_gang = Found gang_g, ga_rsvFirst = rsv, ga_job = (\<lambda>n. NotFound), ga_ownerRef = (\<lambda>i. True),
     ga_createJob = (\<lambda>i. Accepted), ga_rsv = rsv, ga_rsvOwnerRef = True, ga_createRsv = Accepted,
     ga_update = (\<lambda>i. (Found gang_g, Accepted))\<rparr>"

text \<open>
  A reservation covers its gang: it is created only when every child job exists, its claims are
  distinct, one per slot, and the teardown of the reservation controller recovers from each claim name
  exactly the job of that slot.
\<close>

theorem reservation_covers_the_gang:
  assumes "ga_gang env = Found gang" and "go_reservation (Reconcile_gang env) = Some r" and "in_i32 (gj_GangSize gang)"
  shows "rv_GangSize r = gj_GangSize gang
    \<and> map job_of_claim (rv_ChildClaims r) = map (\<lambda>i. childJobName (gj_Name gang) (int i)) [0..<nat (gj_GangSize gang)]
    \<and> distinct (rv_ChildClaims r)
    \<and> (\<forall>i. 0 \<le> i \<and> i < gj_GangSize gang \<longrightarrow> child_exists env gang (go_jobs (Reconcile_gang env)) i)"
proof -
  have e: "Reconcile_gang env = gang_materialize env gang"
    using assms(1,2) by (auto simp: Reconcile_gang_def gang_done_def split: if_splits api_read.splits)
  have r: "r = gang_reservation gang" using assms(2) unfolding e by (rule materialize_reservation)
  have names: "childJobName g i \<noteq> []" for g i by (simp add: childJobName_def)
  have "inj_on (\<lambda>i. claimNameForJob (childJobName (gj_Name gang) (int i))) {0..<nat (gj_GangSize gang)}"
  proof (rule inj_onI)
    fix i j assume ij: "i \<in> {0..<nat (gj_GangSize gang)}" "j \<in> {0..<nat (gj_GangSize gang)}"
      and eq: "claimNameForJob (childJobName (gj_Name gang) (int i)) = claimNameForJob (childJobName (gj_Name gang) (int j))"
    have "in_i64 (int i)" "in_i64 (int j)" using ij assms(3) by (auto simp: in_i32_def in_i64_def)
    then show "i = j"
      using eq childJobName_inj [of "gj_Name gang" "int i" "int j"] by (simp add: claimNameForJob_def)
  qed
  then have "distinct (rv_ChildClaims r)" by (simp add: r gang_reservation_def distinct_map)
  moreover have "map job_of_claim (rv_ChildClaims r) = map (\<lambda>i. childJobName (gj_Name gang) (int i)) [0..<nat (gj_GangSize gang)]"
    by (simp add: r gang_reservation_def job_of_claimNameForJob names)
  ultimately show ?thesis
    using materialize_reservation(3) [of env gang r] assms(2) by (simp add: e r gang_reservation_def)
qed

theorem reservation_covers_the_gang_witness:
  "\<exists>r. go_reservation (Reconcile_gang (gang_env0 NotFound)) = Some r \<and> distinct (rv_ChildClaims r) \<and>
    map job_of_claim (rv_ChildClaims r) = [childJobName ''g'' 0, childJobName ''g'' 1]"
proof -
  let ?env = "gang_env0 NotFound"
  have env: "ga_gang ?env = Found gang_g" by (simp add: gang_env0_def)
  obtain r where r: "go_reservation (Reconcile_gang ?env) = Some r"
    by (simp add: Reconcile_gang_def gang_materialize_def ensureChildren_def gang_env0_def gang_g_def
        createReservation_def eval_nat_numeral)
  have "in_i32 (gj_GangSize gang_g)" by (simp add: gang_g_def in_i32_def)
  then show ?thesis
    using r reservation_covers_the_gang [OF env r] by (simp add: gang_g_def upt_rec)
qed

text \<open>
  A dead reservation stops the gang: while its phase reads \<open>Failed\<close> or \<open>Released\<close> no child and no
  reservation is created, and the status written is \<open>Failed\<close>, so that the teardown's deletes are not
  undone.
\<close>

theorem no_children_after_teardown:
  assumes "ga_rsvFirst env = Found rsv" and "rv_Phase rsv = RsvFailed \<or> rv_Phase rsv = RsvReleased"
  shows "go_jobs (Reconcile_gang env) = [] \<and> go_reservation (Reconcile_gang env) = None \<and>
    (\<forall>w. go_written (Reconcile_gang env) = Some w \<longrightarrow> gj_Phase w = GangFailed)"
  using assms by (auto simp: Reconcile_gang_def gang_done_def gang_updatePhase_phase split: api_read.splits)

theorem no_children_after_teardown_witness:
  "go_jobs (Reconcile_gang (gang_env0 (Found (gang_rsv RsvFailed)))) = []"
  using no_children_after_teardown [of "gang_env0 (Found (gang_rsv RsvFailed))" "gang_rsv RsvFailed"]
  by (simp add: gang_env0_def gang_rsv_def)

text \<open>
  A gang is never reported completed: as long as the two reads of the reservation in one reconcile
  agree, \<open>Completed\<close> is not written, because the terminal guard maps \<open>Released\<close> to \<open>Failed\<close> before the
  mapping of \<open>Released\<close> to \<open>Completed\<close> can apply.
\<close>

theorem gang_never_completed:
  assumes "ga_rsvFirst env = ga_rsv env" and "go_written (Reconcile_gang env) = Some w"
  shows "gj_Phase w \<noteq> GangCompleted"
proof -
  have neq: "GangFailed \<noteq> GangCompleted" "GangMaterializing \<noteq> GangCompleted" "GangReserving \<noteq> GangCompleted"
    "GangRunning \<noteq> GangCompleted"
    by (simp_all add: GangFailed_def GangCompleted_def GangMaterializing_def GangReserving_def GangRunning_def)
  obtain gang where g: "ga_gang env = Found gang" "gj_DeletionTimestamp gang = None"
    using assms(2) by (auto simp: Reconcile_gang_def gang_done_def split: api_read.splits if_splits)
  show ?thesis
  proof (cases "\<exists>rsv. ga_rsvFirst env = Found rsv \<and> (rv_Phase rsv = RsvFailed \<or> rv_Phase rsv = RsvReleased)")
    case True
    then have "gj_Phase w = GangFailed"
      using assms(2) g by (auto simp: Reconcile_gang_def gang_updatePhase_phase)
    then show ?thesis using neq by simp
  next
    case False
    then have w: "go_written (gang_materialize env gang) = Some w"
      using assms(2) g by (auto simp: Reconcile_gang_def split: api_read.splits if_splits)
    obtain err jobs ex where e: "ensureChildren env gang = (err, jobs, ex)" by (metis prod_cases3)
    have d: "fst (derivePhaseFromReservation rsv) \<noteq> GangCompleted" if "ga_rsv env = Found rsv" for rsv
      using that False assms(1) neq by (auto simp: derivePhaseFromReservation_def Let_def)
    show ?thesis
      using w neq d gang_updatePhase_phase
      by (auto simp: gang_materialize_def e gang_done_def split: bool.splits if_splits api_read.splits option.splits prod.splits)
  qed
qed

theorem gang_never_completed_witness:
  "\<exists>w. go_written (Reconcile_gang (gang_env0 (Found (gang_rsv RsvReleased)))) = Some w \<and> gj_Phase w \<noteq> GangCompleted"
proof -
  let ?env = "gang_env0 (Found (gang_rsv RsvReleased))"
  obtain w where w: "go_written (Reconcile_gang ?env) = Some w"
    by (simp add: Reconcile_gang_def gang_updatePhase_def gang_env0_def RetryOnConflict_first [where x = gang_g]
        gang_rsv_def gang_g_def)
  then show ?thesis
    using gang_never_completed [of ?env w] by (simp add: gang_env0_def)
qed

end
