(* ===== verification/Recommendation.thy ===== *)
theory Recommendation
  imports ApiClient
begin

text \<open>
  The right-sizing policy: \<open>internal/recommendation/policy.go\<close>, the recommendation and confidence
  of \<open>api/v1alpha1/vgpuworkloadprofile_types.go\<close>, and the profile controller that learns them,
  \<open>internal/controller/vgpuworkloadprofile_reconciler.go\<close>. Byte counts are \<open>int64\<close>, with the
  wrap-around written out. Metrics and log lines are left out.
\<close>

section \<open>The policy\<close>

datatype mode = RecommendOnly | Warn | RequireOverride | AutoResize

definition OverrideAnnotation :: string where
  "OverrideAnnotation = ''infrastructure.pranav2910.com/override-recommendation''"

definition OriginalVRAMAnnotation :: string where
  "OriginalVRAMAnnotation = ''infrastructure.pranav2910.com/original-vram-bytes''"

definition AutoResizedVRAMAnnotation :: string where
  "AutoResizedVRAMAnnotation = ''infrastructure.pranav2910.com/autoresized-vram-bytes''"

definition AutoResizedAnnotation :: string where
  "AutoResizedAnnotation = ''infrastructure.pranav2910.com/autoresized''"

definition AutoResizeCappedAnnotation :: string where
  "AutoResizeCappedAnnotation = ''infrastructure.pranav2910.com/autoresize-capped''"

definition TolerancePercent :: int where
  "TolerancePercent = 10"

definition FleetMaxBytes :: int where
  "FleetMaxBytes = 85899345920"

definition ParseMode :: "string \<Rightarrow> mode" where
  "ParseMode s =
    (if s = ''recommendOnly'' then RecommendOnly
     else if s = ''warn'' then Warn
     else if s = ''requireOverride'' then RequireOverride
     else if s = ''autoResize'' then AutoResize
     else RecommendOnly)"

definition ConfidenceLow :: string where "ConfidenceLow = ''Low''"
definition ConfidenceMedium :: string where "ConfidenceMedium = ''Medium''"
definition ConfidenceHigh :: string where "ConfidenceHigh = ''High''"

lemma confidence_neq [simp]:
  "ConfidenceLow \<noteq> ConfidenceMedium" "ConfidenceLow \<noteq> ConfidenceHigh" "ConfidenceMedium \<noteq> ConfidenceHigh"
  "ConfidenceMedium \<noteq> ConfidenceLow" "ConfidenceHigh \<noteq> ConfidenceLow" "ConfidenceHigh \<noteq> ConfidenceMedium"
  by (simp_all add: ConfidenceLow_def ConfidenceMedium_def ConfidenceHigh_def)

definition ConfidentEnough :: "string \<Rightarrow> bool" where
  "ConfidentEnough c \<longleftrightarrow> c = ConfidenceMedium \<or> c = ConfidenceHigh"

definition Undersized :: "int \<Rightarrow> int \<Rightarrow> bool" where
  "Undersized requested recommended =
    (if requested \<le> 0 \<or> recommended \<le> 0 then False
     else requested < i64 (recommended - go_div (i64 (recommended * TolerancePercent)) 100))"

definition EmitsEvent :: "mode \<Rightarrow> bool" where
  "EmitsEvent m \<longleftrightarrow> m = Warn \<or> m = RequireOverride"

definition Blocks :: "mode \<Rightarrow> int \<Rightarrow> int \<Rightarrow> string \<Rightarrow> bool \<Rightarrow> bool" where
  "Blocks m requested recommended conf hasOverride \<longleftrightarrow>
     m = RequireOverride \<and> ConfidentEnough conf \<and> Undersized requested recommended \<and> \<not> hasOverride"

text \<open>The new request, whether it was raised, and whether the recommendation was capped.\<close>

definition ResizeTarget :: "int \<Rightarrow> int \<Rightarrow> int \<Rightarrow> string \<Rightarrow> bool \<Rightarrow> int \<times> bool \<times> bool" where
  "ResizeTarget requested recommended fleetMax conf hasOverride =
    (if hasOverride \<or> \<not> ConfidentEnough conf \<or> \<not> Undersized requested recommended then (requested, False, False)
     else let capped = (fleetMax > 0 \<and> recommended > fleetMax);
              target = (if capped then fleetMax else recommended)
          in if target \<le> requested then (requested, False, False) else (target, True, capped))"

section \<open>Learning a profile\<close>

definition ProfileHeadroomPercent :: int where
  "ProfileHeadroomPercent = 15"

definition RecommendedVRAMBytes :: "int \<Rightarrow> int" where
  "RecommendedVRAMBytes peakBytes =
    (if peakBytes \<le> 0 then 0 else i64 (peakBytes + go_div (i64 (peakBytes * ProfileHeadroomPercent)) 100))"

definition Confidence :: "int \<Rightarrow> bool \<Rightarrow> string" where
  "Confidence observations peakStable =
    (if observations < 20 then ConfidenceLow
     else if observations < 100 then ConfidenceMedium
     else if \<not> peakStable then ConfidenceMedium
     else ConfidenceHigh)"

text \<open>The node agent's counters on a slice's status, and the learned part of a profile's status.\<close>

record observed_slice = vgpu_slice +
  os_Peak :: int
  os_Avg :: int
  os_Observations :: int
  os_ViolationCount :: int
  os_SoftWarnCount :: int
  os_EvictionCount :: int

record learned_profile = vgpu_workload_profile +
  lp_Requested :: int
  lp_Peak :: int
  lp_Avg :: int
  lp_Observations :: int
  lp_ViolationCount :: int
  lp_SoftWarnCount :: int
  lp_EvictionCount :: int
  lp_Conditions :: "condition list"

record profileAgg =
  ag_requested :: int
  ag_peak :: int
  ag_avg :: int
  ag_observations :: int
  ag_violations :: int
  ag_softWarns :: int
  ag_evictions :: int
  ag_slices :: int

definition max64 :: "int \<Rightarrow> int \<Rightarrow> int" where
  "max64 a b = (if a > b then a else b)"

definition agg_slice :: "observed_slice \<Rightarrow> profileAgg \<Rightarrow> profileAgg" where
  "agg_slice s g = g
    \<lparr>ag_slices := ag_slices g + 1, ag_requested := max64 (ag_requested g) (sl_RequestedVRAMBytes s),
     ag_peak := max64 (ag_peak g) (os_Peak s), ag_avg := max64 (ag_avg g) (os_Avg s),
     ag_observations := max64 (ag_observations g) (os_Observations s),
     ag_violations := i64 (ag_violations g + os_ViolationCount s),
     ag_softWarns := i64 (ag_softWarns g + os_SoftWarnCount s),
     ag_evictions := i64 (ag_evictions g + os_EvictionCount s)\<rparr>"

definition agg0 :: profileAgg where
  "agg0 = \<lparr>ag_requested = 0, ag_peak = 0, ag_avg = 0, ag_observations = 0, ag_violations = 0, ag_softWarns = 0,
     ag_evictions = 0, ag_slices = 0\<rparr>"

text \<open>
  \<open>Inl\<close>: a list call failed; \<open>Inr None\<close>: no observable slice; the lists are those of the job's
  namespace.
\<close>

definition aggregate ::
  "vgpu_claim list option \<Rightarrow> observed_slice list option \<Rightarrow> string \<Rightarrow> unit + profileAgg option" where
  "aggregate claims slices jobName =
    (case claims of
       None \<Rightarrow> Inl ()
     | Some cs \<Rightarrow>
         let claimSet = map cl_Name (filter (\<lambda>c. cl_JobRef c = jobName) cs) in
         if claimSet = [] then Inr None
         else case slices of
           None \<Rightarrow> Inl ()
         | Some ss \<Rightarrow>
             (let g = fold agg_slice (filter (\<lambda>s. sl_ClaimRef s \<in> set claimSet) ss) agg0
              in if ag_slices g = 0 then Inr None else Inr (Some g)))"

text \<open>The verdict the profile's \<open>Underprovisioned\<close> condition carries: its status and reason.\<close>

definition profile_verdict :: "int \<Rightarrow> int \<Rightarrow> string \<Rightarrow> string \<times> string" where
  "profile_verdict requested recommended conf =
    (let rawUnder = (recommended > requested \<and> requested > 0);
         under = (rawUnder \<and> ConfidentEnough conf \<and> Undersized requested recommended)
     in if under then (''True'', ''BelowRecommendation'')
        else if rawUnder \<and> \<not> ConfidentEnough conf then (''False'', ''InsufficientConfidence'')
        else if rawUnder then (''False'', ''WithinTolerance'')
        else (''False'', ''WithinRecommendation''))"

definition mib :: "int \<Rightarrow> int" where
  "mib b = b div 2 ^ 20"

definition verdict_message :: "int \<Rightarrow> int \<Rightarrow> string \<Rightarrow> string \<Rightarrow> string" where
  "verdict_message requested recommended conf reason =
    (if reason = ''BelowRecommendation'' then
       ''Requested '' @ FormatInt (mib requested) @ '' MiB but observed peak recommends ''
         @ FormatInt (mib recommended) @ '' MiB (confidence '' @ conf @ '').''
     else if reason = ''InsufficientConfidence'' then
       ''Requested '' @ FormatInt (mib requested) @ '' MiB is below the current estimate (''
         @ FormatInt (mib recommended) @ '' MiB), but confidence is '' @ conf @ '' -- not advising yet.''
     else if reason = ''WithinTolerance'' then
       ''Requested '' @ FormatInt (mib requested) @ '' MiB is within '' @ FormatInt TolerancePercent
         @ ''% of the recommendation ('' @ FormatInt (mib recommended) @ '' MiB) -- adequately sized.''
     else ''Requested VRAM covers the observed peak (with headroom).'')"

definition upsert_status :: "int \<Rightarrow> profileAgg \<Rightarrow> learned_profile \<Rightarrow> learned_profile" where
  "upsert_status now g p =
    (let peakStable = (ag_peak g \<le> lp_Peak p);
         peak = max64 (lp_Peak p) (ag_peak g);
         obs = max64 (lp_Observations p) (ag_observations g);
         recommended = RecommendedVRAMBytes peak;
         conf = Confidence obs peakStable;
         (status, reason) = profile_verdict (ag_requested g) recommended conf;
         cond = \<lparr>cd_Type = ''Underprovisioned'', cd_Status = status, cd_Reason = reason,
                  cd_Message = verdict_message (ag_requested g) recommended conf reason, cd_LastTransitionTime = now\<rparr>
     in p\<lparr>pf_RecommendedVRAMBytes := recommended, pf_Confidence := conf, lp_Requested := ag_requested g,
          lp_Peak := peak, lp_Avg := ag_avg g, lp_Observations := obs,
          lp_ViolationCount := max64 (lp_ViolationCount p) (ag_violations g),
          lp_SoftWarnCount := max64 (lp_SoftWarnCount p) (ag_softWarns g),
          lp_EvictionCount := max64 (lp_EvictionCount p) (ag_evictions g),
          lp_Conditions := SetStatusCondition now (lp_Conditions p) cond\<rparr>)"

definition zero_profile :: learned_profile where
  "zero_profile = \<lparr>pf_RecommendedVRAMBytes = 0, pf_Confidence = [], lp_Requested = 0, lp_Peak = 0, lp_Avg = 0,
     lp_Observations = 0, lp_ViolationCount = 0, lp_SoftWarnCount = 0, lp_EvictionCount = 0, lp_Conditions = []\<rparr>"

record profile_env =
  pv_claims :: "vgpu_claim list option"
  pv_slices :: "observed_slice list option"
  pv_profile :: "learned_profile api_read"
  pv_create :: write_reply
  pv_reread :: "learned_profile api_read"
  pv_update :: write_reply
  pv_now :: int

text \<open>\<open>upsert\<close>: the profile to update, read, created, or read again after a lost creation race.\<close>

definition profile_base :: "profile_env \<Rightarrow> learned_profile option" where
  "profile_base env =
    (case pv_profile env of
       Found p \<Rightarrow> Some p
     | ReadErr \<Rightarrow> None
     | NotFound \<Rightarrow>
         (case pv_create env of
            Accepted \<Rightarrow> Some zero_profile
          | AlreadyExists \<Rightarrow> (case pv_reread env of Found p \<Rightarrow> Some p | _ \<Rightarrow> None)
          | _ \<Rightarrow> None))"

definition upsert :: "profile_env \<Rightarrow> profileAgg \<Rightarrow> reconcile_result \<times> learned_profile option" where
  "upsert env g =
    (case profile_base env of
       None \<Rightarrow> (ReconcileError, None)
     | Some p \<Rightarrow>
         if pv_update env = Accepted then (done_result, Some (upsert_status (pv_now env) g p))
         else (ReconcileError, None))"

definition Reconcile_profile :: "profile_env \<Rightarrow> string \<Rightarrow> reconcile_result \<times> learned_profile option" where
  "Reconcile_profile env jobName =
    (case aggregate (pv_claims env) (pv_slices env) jobName of
       Inl _ \<Rightarrow> (ReconcileError, None)
     | Inr None \<Rightarrow> (done_result, None)
     | Inr (Some g) \<Rightarrow> upsert env g)"

text \<open>The watch handler: which profile a slice's change re-evaluates.\<close>

definition sliceToProfile :: "vgpu_slice \<Rightarrow> vgpu_claim api_read \<Rightarrow> (string \<times> string) option" where
  "sliceToProfile slice claimRead =
    (if sl_ClaimRef slice = [] then None
     else case claimRead of
       Found c \<Rightarrow> if cl_JobRef c = [] then None else Some (sl_Namespace slice, cl_JobRef c)
     | _ \<Rightarrow> None)"

section \<open>Arithmetic of the policy\<close>

text \<open>Peaks and recommendations below \<open>2 ^ 58\<close> bytes, 2,000 times the fleet's largest card, do not overflow.\<close>

lemma headroom: "0 \<le> (p :: int) \<Longrightarrow> 0 \<le> p * 15 div 100" "0 \<le> (p :: int) \<Longrightarrow> p * 15 div 100 \<le> p"
  using zdiv_mono1 [of "p * 15" "p * 100" 100] by (simp_all add: pos_imp_zdiv_nonneg_iff)

lemma tenth: "0 \<le> (r :: int) \<Longrightarrow> 0 \<le> r div 10" "0 \<le> (r :: int) \<Longrightarrow> r div 10 \<le> r"
  using zdiv_mono1 [of r "r * 10" 10] by (simp_all add: pos_imp_zdiv_nonneg_iff)

lemma threshold_eq:
  assumes "0 < r" "r \<le> 2 ^ 59"
  shows "i64 (r - go_div (i64 (r * TolerancePercent)) 100) = r - r div 10"
proof -
  have m: "i64 (r * 10) = r * 10" using assms by (intro i64_id) simp_all
  have d: "go_div (r * 10) 100 = r div 10"
    using assms by (simp add: go_div_nonneg)
  have "0 \<le> r div 10" "r div 10 \<le> r" using assms tenth [of r] by simp_all
  then show ?thesis
    unfolding TolerancePercent_def m d using assms by (simp add: i64_id)
qed

lemma Undersized_eq:
  assumes "r \<le> 2 ^ 59"
  shows "Undersized q r \<longleftrightarrow> 0 < q \<and> 0 < r \<and> q < r - r div 10"
  using threshold_eq [of r] assms by (auto simp: Undersized_def)

lemma Undersized_less: "r \<le> 2 ^ 59 \<Longrightarrow> Undersized q r \<Longrightarrow> q < r"
  using tenth(1) [of r] by (simp add: Undersized_eq)

lemma Recommended_eq:
  assumes "0 < p" "p \<le> 2 ^ 58"
  shows "RecommendedVRAMBytes p = p + p * 15 div 100"
proof -
  have m: "i64 (p * 15) = p * 15" using assms by (intro i64_id) simp_all
  have d: "go_div (p * 15) 100 = p * 15 div 100" using assms by (simp add: go_div_nonneg)
  have "0 \<le> p * 15 div 100" "p * 15 div 100 \<le> p" using assms headroom [of p] by simp_all
  then show ?thesis
    unfolding RecommendedVRAMBytes_def ProfileHeadroomPercent_def m d using assms
    by (simp add: i64_id)
qed

lemma Recommended_bounds:
  assumes "0 \<le> p" "p \<le> 2 ^ 58"
  shows "p \<le> RecommendedVRAMBytes p" and "RecommendedVRAMBytes p \<le> 2 * p"
proof -
  have "p * 15 div 100 \<le> p" "0 \<le> p * 15 div 100" using assms(1) headroom [of p] by simp_all
  then show "p \<le> RecommendedVRAMBytes p" "RecommendedVRAMBytes p \<le> 2 * p"
    using assms Recommended_eq [of p] by (cases "p = 0"; simp add: RecommendedVRAMBytes_def)+
qed

lemma Recommended_mono:
  assumes "a \<le> b" "b \<le> 2 ^ 58"
  shows "RecommendedVRAMBytes a \<le> RecommendedVRAMBytes b"
proof (cases "a \<le> 0")
  case True
  then show ?thesis
    using Recommended_bounds(1) [of b] assms by (cases "b \<le> 0") (simp_all add: RecommendedVRAMBytes_def)
next
  case False
  then have "a * 15 div 100 \<le> b * 15 div 100" using assms by (intro zdiv_mono1) simp_all
  then show ?thesis using False assms by (simp add: Recommended_eq)
qed

lemma verdict_True:
  assumes "r \<le> 2 ^ 59"
  shows "fst (profile_verdict q r c) = ''True'' \<longleftrightarrow> ConfidentEnough c \<and> Undersized q r"
proof -
  have "r > q \<and> q > 0" if "Undersized q r"
    using that Undersized_less [OF assms that] assms by (simp add: Undersized_eq)
  then show ?thesis
    unfolding profile_verdict_def Let_def by (cases "ConfidentEnough c"; cases "Undersized q r") simp_all
qed

section \<open>Properties\<close>

lemma ResizeTarget_settles:
  assumes "ResizeTarget q r fleetMax conf ov = (q', True, capped)" and "r \<le> 2 ^ 59"
  shows "q < q' \<and> q' \<le> r \<and> (0 < fleetMax \<longrightarrow> q' \<le> fleetMax) \<and> (capped \<longrightarrow> q' = fleetMax \<and> fleetMax < r)
    \<and> ResizeTarget q' r fleetMax conf ov = (q', False, False)"
proof -
  have 1: "\<not> ov" "ConfidentEnough conf" "Undersized q r" "capped \<longleftrightarrow> fleetMax > 0 \<and> r > fleetMax"
    "q' = (if capped then fleetMax else r)" "q < q'"
    using assms(1) by (auto simp: ResizeTarget_def Let_def split: if_splits)
  have self: "\<not> Undersized r r" using Undersized_less [OF assms(2), of r] by blast
  show ?thesis
  proof (cases capped)
    case True
    then show ?thesis using 1 by (auto simp: ResizeTarget_def Let_def)
  next
    case False
    then show ?thesis using 1 self by (auto simp: ResizeTarget_def)
  qed
qed

text \<open>
  One raise settles a job: a raise takes the request up, not beyond the recommendation or the
  fleet's largest card, and the policy leaves the raised request alone afterwards, capped or not.
\<close>

theorem resize_settles:
  assumes "ResizeTarget q r fleetMax conf ov = (q', True, capped)" and "r \<le> 2 ^ 59"
  shows "q < q' \<and> q' \<le> r \<and> (0 < fleetMax \<longrightarrow> q' \<le> fleetMax) \<and> (capped \<longrightarrow> q' = fleetMax \<and> fleetMax < r)
    \<and> ResizeTarget q' r fleetMax conf ov = (q', False, False)"
  using assms by (rule ResizeTarget_settles)

theorem resize_settles_witness:
  "ResizeTarget 80 100 FleetMaxBytes ConfidenceHigh False = (100, True, False)
    \<and> ResizeTarget 100 100 FleetMaxBytes ConfidenceHigh False = (100, False, False)"
proof -
  have r: "ResizeTarget 80 100 FleetMaxBytes ConfidenceHigh False = (100, True, False)"
    by (simp add: ResizeTarget_def ConfidentEnough_def Undersized_eq FleetMaxBytes_def)
  then show ?thesis using resize_settles [OF r] by simp
qed

text \<open>
  The learned profile only grows: an update never lowers the peak, the sample count, the violation
  counters or the recommendation; the recommendation covers the peak, and the verdict it shows is
  \<open>True\<close> exactly when \<open>requireOverride\<close> would block the request.
\<close>

theorem profile_grows_and_agrees:
  assumes "p' = upsert_status now g p" and "pf_RecommendedVRAMBytes p = RecommendedVRAMBytes (lp_Peak p)"
    and "0 \<le> lp_Peak p" and "lp_Peak p \<le> 2 ^ 58" and "ag_peak g \<le> 2 ^ 58"
  shows "lp_Peak p \<le> lp_Peak p' \<and> lp_Observations p \<le> lp_Observations p' \<and> lp_ViolationCount p \<le> lp_ViolationCount p'
    \<and> pf_RecommendedVRAMBytes p \<le> pf_RecommendedVRAMBytes p' \<and> lp_Peak p' \<le> pf_RecommendedVRAMBytes p'
    \<and> (\<exists>c. FindStatusCondition (lp_Conditions p') ''Underprovisioned'' = Some c \<and>
          (cd_Status c = ''True'' \<longleftrightarrow>
           Blocks RequireOverride (lp_Requested p') (pf_RecommendedVRAMBytes p') (pf_Confidence p') False))"
proof -
  let ?peak = "max64 (lp_Peak p) (ag_peak g)"
  let ?conf = "Confidence (max64 (lp_Observations p) (ag_observations g)) (ag_peak g \<le> lp_Peak p)"
  have peak: "lp_Peak p \<le> ?peak" "0 \<le> ?peak" "?peak \<le> 2 ^ 58" using assms by (auto simp: max64_def)
  have rec: "?peak \<le> RecommendedVRAMBytes ?peak" "RecommendedVRAMBytes ?peak \<le> 2 ^ 59"
    using Recommended_bounds [OF peak(2,3)] peak(3) by simp_all
  obtain st rs where v: "profile_verdict (ag_requested g) (RecommendedVRAMBytes ?peak) ?conf = (st, rs)"
    by fastforce
  define cond where "cond = \<lparr>cd_Type = ''Underprovisioned'', cd_Status = st, cd_Reason = rs,
    cd_Message = verdict_message (ag_requested g) (RecommendedVRAMBytes ?peak) ?conf rs, cd_LastTransitionTime = now\<rparr>"
  have p': "lp_Peak p' = ?peak" "pf_RecommendedVRAMBytes p' = RecommendedVRAMBytes ?peak" "pf_Confidence p' = ?conf"
    "lp_Requested p' = ag_requested g" "lp_Conditions p' = SetStatusCondition now (lp_Conditions p) cond"
    "lp_Observations p' = max64 (lp_Observations p) (ag_observations g)"
    "lp_ViolationCount p' = max64 (lp_ViolationCount p) (ag_violations g)"
    by (simp_all add: assms(1) upsert_status_def v cond_def Let_def)
  obtain t where t: "FindStatusCondition (lp_Conditions p') ''Underprovisioned'' = Some (cond\<lparr>cd_LastTransitionTime := t\<rparr>)"
    using Find_Set_same [of now "lp_Conditions p" cond] by (auto simp: p'(5) cond_def)
  have "st = ''True'' \<longleftrightarrow> ConfidentEnough ?conf \<and> Undersized (ag_requested g) (RecommendedVRAMBytes ?peak)"
    using verdict_True [OF rec(2), of "ag_requested g" ?conf] v by simp
  then have "cd_Status (cond\<lparr>cd_LastTransitionTime := t\<rparr>) = ''True'' \<longleftrightarrow>
      Blocks RequireOverride (lp_Requested p') (pf_RecommendedVRAMBytes p') (pf_Confidence p') False"
    by (simp add: Blocks_def p' cond_def)
  moreover have "pf_RecommendedVRAMBytes p \<le> pf_RecommendedVRAMBytes p'"
    using Recommended_mono [OF peak(1,3)] assms(2) p' by simp
  ultimately show ?thesis using t rec peak p' by (auto simp: max64_def)
qed

theorem profile_grows_and_agrees_witness:
  "lp_Peak zero_profile \<le> lp_Peak (upsert_status 1 (agg0\<lparr>ag_peak := 100, ag_requested := 50, ag_observations := 200\<rparr>) zero_profile)"
  using profile_grows_and_agrees [OF refl, of zero_profile "agg0\<lparr>ag_peak := 100, ag_requested := 50, ag_observations := 200\<rparr>" 1]
  by (simp add: zero_profile_def agg0_def RecommendedVRAMBytes_def)

end
