(* ===== verification/JobController.thy ===== *)
theory JobController
  imports GangJob Recommendation
begin

text \<open>
  The job controller, \<open>internal/controller/vgpujob_reconciler.go\<close>, with its right-sizing advisory,
  \<open>internal/controller/vgpujob_advisory.go\<close>: the claim of a job, the phase derived from it, the
  workload pod of a job that owns one, and the release of a finished job's grant. Each API call of a
  reconcile is answered by its own field of the environment; metrics and log lines are left out.
  Typographic dashes of the messages are written in ASCII.
\<close>

section \<open>Phases and conditions\<close>

definition JobPending :: string where "JobPending = ''Pending''"
definition JobClaimCreated :: string where "JobClaimCreated = ''ClaimCreated''"
definition JobScheduled :: string where "JobScheduled = ''Scheduled''"
definition JobPodCreating :: string where "JobPodCreating = ''PodCreating''"
definition JobRunning :: string where "JobRunning = ''Running''"
definition JobSucceeded :: string where "JobSucceeded = ''Succeeded''"
definition JobFailed :: string where "JobFailed = ''Failed''"
definition JobCompleted :: string where "JobCompleted = ''Completed''"

lemma job_phase_neq [simp]:
  "JobPending \<noteq> []" "[] \<noteq> JobPending" "JobPending \<noteq> JobClaimCreated" "JobPending \<noteq> JobScheduled" "JobPending \<noteq> JobPodCreating" "JobPending \<noteq> JobRunning" "JobPending \<noteq> JobSucceeded" "JobPending \<noteq> JobFailed" "JobPending \<noteq> JobCompleted"
  "JobClaimCreated \<noteq> []" "[] \<noteq> JobClaimCreated" "JobClaimCreated \<noteq> JobPending" "JobClaimCreated \<noteq> JobScheduled" "JobClaimCreated \<noteq> JobPodCreating" "JobClaimCreated \<noteq> JobRunning" "JobClaimCreated \<noteq> JobSucceeded" "JobClaimCreated \<noteq> JobFailed" "JobClaimCreated \<noteq> JobCompleted"
  "JobScheduled \<noteq> []" "[] \<noteq> JobScheduled" "JobScheduled \<noteq> JobPending" "JobScheduled \<noteq> JobClaimCreated" "JobScheduled \<noteq> JobPodCreating" "JobScheduled \<noteq> JobRunning" "JobScheduled \<noteq> JobSucceeded" "JobScheduled \<noteq> JobFailed" "JobScheduled \<noteq> JobCompleted"
  "JobPodCreating \<noteq> []" "[] \<noteq> JobPodCreating" "JobPodCreating \<noteq> JobPending" "JobPodCreating \<noteq> JobClaimCreated" "JobPodCreating \<noteq> JobScheduled" "JobPodCreating \<noteq> JobRunning" "JobPodCreating \<noteq> JobSucceeded" "JobPodCreating \<noteq> JobFailed" "JobPodCreating \<noteq> JobCompleted"
  "JobRunning \<noteq> []" "[] \<noteq> JobRunning" "JobRunning \<noteq> JobPending" "JobRunning \<noteq> JobClaimCreated" "JobRunning \<noteq> JobScheduled" "JobRunning \<noteq> JobPodCreating" "JobRunning \<noteq> JobSucceeded" "JobRunning \<noteq> JobFailed" "JobRunning \<noteq> JobCompleted"
  "JobSucceeded \<noteq> []" "[] \<noteq> JobSucceeded" "JobSucceeded \<noteq> JobPending" "JobSucceeded \<noteq> JobClaimCreated" "JobSucceeded \<noteq> JobScheduled" "JobSucceeded \<noteq> JobPodCreating" "JobSucceeded \<noteq> JobRunning" "JobSucceeded \<noteq> JobFailed" "JobSucceeded \<noteq> JobCompleted"
  "JobFailed \<noteq> []" "[] \<noteq> JobFailed" "JobFailed \<noteq> JobPending" "JobFailed \<noteq> JobClaimCreated" "JobFailed \<noteq> JobScheduled" "JobFailed \<noteq> JobPodCreating" "JobFailed \<noteq> JobRunning" "JobFailed \<noteq> JobSucceeded" "JobFailed \<noteq> JobCompleted"
  "JobCompleted \<noteq> []" "[] \<noteq> JobCompleted" "JobCompleted \<noteq> JobPending" "JobCompleted \<noteq> JobClaimCreated" "JobCompleted \<noteq> JobScheduled" "JobCompleted \<noteq> JobPodCreating" "JobCompleted \<noteq> JobRunning" "JobCompleted \<noteq> JobSucceeded" "JobCompleted \<noteq> JobFailed"
  by (simp_all add: JobPending_def JobClaimCreated_def JobScheduled_def JobPodCreating_def JobRunning_def
      JobSucceeded_def JobFailed_def JobCompleted_def)

definition vgpuClaimLabel :: string where "vgpuClaimLabel = ''vgpu-claim''"
definition vgpuClaimAnnotation :: string where "vgpuClaimAnnotation = ''infrastructure.pranav2910.com/claim-ref''"
definition condTypeWaitingForSlice :: string where "condTypeWaitingForSlice = ''WaitingForSlice''"
definition condTypePodCreated :: string where "condTypePodCreated = ''PodCreated''"
definition enforcementConditionType :: string where "enforcementConditionType = ''MemoryEnforcement''"
definition enforcementEvictedReason :: string where "enforcementEvictedReason = ''ChildSliceEvicted''"
definition preemptedConditionType :: string where "preemptedConditionType = ''Preempted''"
definition preemptedReason :: string where "preemptedReason = ''PreemptedForHigherPriority''"
definition ConditionTrue :: string where "ConditionTrue = ''True''"
definition ConditionFalse :: string where "ConditionFalse = ''False''"

definition workloadPodName :: "string \<Rightarrow> string" where
  "workloadPodName jobName = jobName @ ''-workload''"

definition mk_condition :: "string \<Rightarrow> string \<Rightarrow> string \<Rightarrow> string \<Rightarrow> condition" where
  "mk_condition t status reason msg =
    \<lparr>cd_Type = t, cd_Status = status, cd_Reason = reason, cd_Message = msg, cd_LastTransitionTime = 0\<rparr>"

definition condWaitingForSlice :: "bool \<Rightarrow> condition" where
  "condWaitingForSlice waiting =
    (if waiting then mk_condition condTypeWaitingForSlice ConditionTrue ''SliceNotReady''
        ''Waiting for VGPUSlice allocation before creating the workload pod.''
     else mk_condition condTypeWaitingForSlice ConditionFalse ''SliceAllocated''
        ''Slice allocated; the workload pod can be created.'')"

definition condPodCreated :: "bool \<Rightarrow> string \<Rightarrow> condition" where
  "condPodCreated created podName =
    (if created then mk_condition condTypePodCreated ConditionTrue ''WorkloadPodCreated''
        (''Workload pod '' @ podName @ '' created and owned by this VGPUJob.'')
     else mk_condition condTypePodCreated ConditionFalse ''PodNotCreated''
        ''Workload pod not created yet (awaiting slice allocation).'')"

definition jobEnforcementEvicted :: "vgpu_job \<Rightarrow> bool" where
  "jobEnforcementEvicted job =
    (case FindStatusCondition (jb_Conditions job) enforcementConditionType of
       None \<Rightarrow> False
     | Some c \<Rightarrow> cd_Status c = ConditionTrue \<and> cd_Reason c = enforcementEvictedReason)"

definition jobPreempted :: "vgpu_job \<Rightarrow> bool" where
  "jobPreempted job =
    (case FindStatusCondition (jb_Conditions job) preemptedConditionType of
       None \<Rightarrow> False
     | Some c \<Rightarrow> cd_Status c = ConditionTrue)"

definition IsStatusConditionTrue :: "condition list \<Rightarrow> string \<Rightarrow> bool" where
  "IsStatusConditionTrue cs t =
    (case FindStatusCondition cs t of None \<Rightarrow> False | Some c \<Rightarrow> cd_Status c = ConditionTrue)"

section \<open>The phase derived from the claim and the pod\<close>

definition jobPhaseRank :: "string \<Rightarrow> int" where
  "jobPhaseRank p =
    (if p = JobPending \<or> p = [] then 0
     else if p = JobClaimCreated then 1
     else if p = JobScheduled then 2
     else if p = JobPodCreating then 3
     else if p = JobRunning then 4
     else if p = JobSucceeded \<or> p = JobFailed \<or> p = JobCompleted then 5
     else 0)"

definition no_downgrade :: "string \<Rightarrow> string \<Rightarrow> string \<Rightarrow> string \<times> string" where
  "no_downgrade current desired msg =
    (if jobPhaseRank desired < jobPhaseRank current then (current, msg) else (desired, msg))"

definition derivePhaseFromClaim :: "vgpu_claim \<Rightarrow> string \<Rightarrow> string \<times> string" where
  "derivePhaseFromClaim claim current =
    (let p = cl_Phase claim in
     if p = ''Bound'' then no_downgrade current JobScheduled ''Slice scheduled and ready''
     else if p = ''Scheduled'' then no_downgrade current JobScheduled ''Slice scheduled; awaiting allocation''
     else if p = ''Pending'' \<or> p = [] then no_downgrade current JobClaimCreated ''Awaiting scheduler''
     else if p = ''Failed'' then no_downgrade current JobFailed ''Claim entered Failed phase''
     else (current, ''Claim in phase '' @ p))"

definition derivePhaseFromPod :: "pod \<Rightarrow> string \<times> string" where
  "derivePhaseFromPod pod =
    (let p = pd_Phase pod in
     if p = ''Running'' then (JobRunning, ''Workload pod is running on the shared GPU.'')
     else if p = ''Succeeded'' then (JobSucceeded, ''Workload pod completed successfully (exit 0).'')
     else if p = ''Failed'' then (JobFailed, ''Workload pod failed.'')
     else if p = ''Pending'' then (JobPodCreating, ''Workload pod pending (scheduling / image pull).'')
     else (JobPodCreating, ''Workload pod created.''))"

section \<open>Objects the controller creates\<close>

definition job_claim :: "vgpu_job \<Rightarrow> vgpu_claim" where
  "job_claim job = (jb_ClaimTemplate job)
    \<lparr>cl_Name := claimNameForJob (jb_Name job), cl_Namespace := jb_Namespace job,
     cl_Annotations := FilterGangAnnotations (jb_Annotations job), cl_DeletionTimestamp := None,
     cl_Finalizers := [], cl_Phase := [], cl_BoundSliceName := [], cl_FailureReason := [],
     cl_JobRef := jb_Name job\<rparr>"

definition buildWorkloadPod :: "vgpu_job \<Rightarrow> pod \<Rightarrow> string \<Rightarrow> string \<Rightarrow> pod" where
  "buildWorkloadPod job tmpl claimRef nodeName = tmpl
    \<lparr>pd_Name := workloadPodName (jb_Name job), pd_Namespace := jb_Namespace job,
     pd_Labels := gput vgpuClaimLabel claimRef (pd_Labels tmpl),
     pd_Annotations := gput vgpuClaimAnnotation claimRef (pd_Annotations tmpl),
     pd_DeletionTimestamp := None, pd_Phase := [], pd_NodeName := nodeName,
     pd_RestartPolicy := (if pd_RestartPolicy tmpl = [] then ''Never'' else pd_RestartPolicy tmpl)\<rparr>"

section \<open>Status writes\<close>

definition phase_change :: "string \<Rightarrow> string \<Rightarrow> vgpu_job \<Rightarrow> vgpu_job" where
  "phase_change phase msg fresh =
    fresh\<lparr>jb_Phase := phase, jb_Message := msg, jb_ClaimRef := claimNameForJob (jb_Name fresh)\<rparr>"

definition same_condition :: "condition \<Rightarrow> condition \<Rightarrow> bool" where
  "same_condition a b \<longleftrightarrow> cd_Status a = cd_Status b \<and> cd_Reason a = cd_Reason b \<and> cd_Message a = cd_Message b"

definition condition_current :: "condition list \<Rightarrow> condition \<Rightarrow> bool" where
  "condition_current cs c =
    (case FindStatusCondition cs (cd_Type c) of None \<Rightarrow> False | Some e \<Rightarrow> same_condition e c)"

fun set_conditions :: "int \<Rightarrow> condition list \<Rightarrow> condition list \<Rightarrow> condition list" where
  "set_conditions now cs [] = cs"
| "set_conditions now cs (c # rest) =
    set_conditions now (if condition_current cs c then cs else SetStatusCondition now cs c) rest"

fun conditions_changed :: "int \<Rightarrow> condition list \<Rightarrow> condition list \<Rightarrow> bool" where
  "conditions_changed now cs [] = False"
| "conditions_changed now cs (c # rest) =
    (\<not> condition_current cs c \<or>
     conditions_changed now (if condition_current cs c then cs else SetStatusCondition now cs c) rest)"

definition set_str :: "string \<Rightarrow> string \<Rightarrow> string" where
  "set_str dst val = (if val \<noteq> [] \<and> dst \<noteq> val then val else dst)"

record status_request =
  sr_phase :: string
  sr_message :: string
  sr_claimRef :: string
  sr_podRef :: string
  sr_node :: string
  sr_uuid :: string
  sr_conds :: "condition list"

text \<open>The body of \<open>jobStatusUpdate\<close>: \<open>None\<close> when nothing changed.\<close>

definition status_change :: "int \<Rightarrow> status_request \<Rightarrow> vgpu_job \<Rightarrow> vgpu_job option" where
  "status_change now r j =
    (let j' = j\<lparr>jb_Phase := sr_phase r, jb_Message := sr_message r, jb_ClaimRef := set_str (jb_ClaimRef j) (sr_claimRef r),
                jb_PodRef := set_str (jb_PodRef j) (sr_podRef r), jb_NodeName := set_str (jb_NodeName j) (sr_node r),
                jb_DeviceUUID := set_str (jb_DeviceUUID j) (sr_uuid r),
                jb_Conditions := set_conditions now (jb_Conditions j) (sr_conds r)\<rparr>;
         changed = (jb_Phase j \<noteq> sr_phase r \<or> jb_Message j \<noteq> sr_message r \<or>
            jb_ClaimRef j \<noteq> set_str (jb_ClaimRef j) (sr_claimRef r) \<or> jb_PodRef j \<noteq> set_str (jb_PodRef j) (sr_podRef r) \<or>
            jb_NodeName j \<noteq> set_str (jb_NodeName j) (sr_node r) \<or>
            jb_DeviceUUID j \<noteq> set_str (jb_DeviceUUID j) (sr_uuid r) \<or>
            conditions_changed now (jb_Conditions j) (sr_conds r))
     in if changed then Some j' else None)"

section \<open>The advisory\<close>

definition advisoryConditionType :: string where "advisoryConditionType = ''Underprovisioned''"
definition recommendedVRAMAnnotation :: string where
  "recommendedVRAMAnnotation = ''infrastructure.pranav2910.com/recommended-vram-bytes''"

type_synonym job_net = "nat \<Rightarrow> vgpu_job api_read \<times> write_reply"

record job_env =
  je_job :: "vgpu_job api_read"
  je_mode :: mode
  je_now :: int
  je_claim :: "vgpu_claim api_read"
  je_claimOwnerRef :: bool
  je_createClaim :: write_reply
  je_grant :: "vgpu_claim api_read"
  je_deleteClaim :: write_reply
  je_phase :: job_net
  je_pod :: "pod api_read"
  je_slice :: "vgpu_slice api_read"
  je_podOwnerRef :: bool
  je_createPod :: write_reply
  je_status :: job_net
  je_profile :: "vgpu_workload_profile api_read"
  je_annotation :: job_net
  je_condition :: job_net
  je_resized :: job_net
  je_capped :: job_net

text \<open>A write of the job that also decides whether an event is due on the attempt that lands.\<close>

definition flagged :: "job_net \<Rightarrow> nat \<Rightarrow> (vgpu_job \<times> bool) api_read \<times> write_reply" where
  "flagged net i =
    (case net i of
       (Found j, r) \<Rightarrow> (Found (j, False), r)
     | (NotFound, r) \<Rightarrow> (NotFound, r)
     | (ReadErr, r) \<Rightarrow> (ReadErr, r))"

definition put_condition ::
  "job_net \<Rightarrow> int \<Rightarrow> condition \<Rightarrow> (bool \<Rightarrow> bool) \<Rightarrow> api_error option \<times> (vgpu_job \<times> bool) option" where
  "put_condition net now cond due =
    ignoreNoObject (RetryOnConflict (flagged net) (\<lambda>(j, _).
      if condition_current (jb_Conditions j) cond then None
      else Some (j\<lparr>jb_Conditions := SetStatusCondition now (jb_Conditions j) cond\<rparr>,
                 due (IsStatusConditionTrue (jb_Conditions j) (cd_Type cond)))))"

definition annotation_change :: "bool \<Rightarrow> int \<Rightarrow> vgpu_job \<Rightarrow> vgpu_job option" where
  "annotation_change advise recommended j =
    (let want = (if advise then FormatInt recommended else []) in
     if gget [] (jb_Annotations j) recommendedVRAMAnnotation = want then None
     else Some (j\<lparr>jb_Annotations := (if want = [] then gdel recommendedVRAMAnnotation (jb_Annotations j)
                                    else gput recommendedVRAMAnnotation want (jb_Annotations j))\<rparr>))"

definition setAdvisoryAnnotation :: "job_net \<Rightarrow> bool \<Rightarrow> int \<Rightarrow> api_error option \<times> vgpu_job option" where
  "setAdvisoryAnnotation net advise recommended =
    ignoreNoObject (RetryOnConflict net (annotation_change advise recommended))"

definition advisory_condition :: "bool \<Rightarrow> bool \<Rightarrow> int \<Rightarrow> int \<Rightarrow> string \<Rightarrow> condition" where
  "advisory_condition advise overridden requested recommended conf =
    (if \<not> advise then mk_condition advisoryConditionType ConditionFalse ''RequestCoversRecommendation''
        ''Requested VRAM covers the workload's observed peak (with headroom), or no confident profile yet.''
     else if overridden then mk_condition advisoryConditionType ConditionTrue ''RequestBelowRecommendationOverridden''
        (''Requested '' @ FormatInt (mib requested) @ '' MiB below the recommended '' @ FormatInt (mib recommended)
           @ '' MiB (confidence '' @ conf @ '') -- admitted by override annotation (running undersized intentionally).'')
     else mk_condition advisoryConditionType ConditionTrue ''RequestBelowRecommendation''
        (''Requested '' @ FormatInt (mib requested) @ '' MiB but the workload profile recommends ''
           @ FormatInt (mib recommended) @ '' MiB (confidence '' @ conf
           @ '') from observed peak -- advisory only, not blocked.''))"

definition setAdvisoryCondition ::
  "job_env \<Rightarrow> bool \<Rightarrow> bool \<Rightarrow> int \<Rightarrow> int \<Rightarrow> string \<Rightarrow> api_error option \<times> (vgpu_job \<times> bool) option" where
  "setAdvisoryCondition env advise overridden requested recommended conf =
    put_condition (je_condition env) (je_now env) (advisory_condition advise overridden requested recommended conf)
      (\<lambda>was. advise \<and> \<not> was \<and> \<not> overridden \<and> EmitsEvent (je_mode env))"

definition miB :: "string \<Rightarrow> int" where
  "miB s = (case ParseInt64 s of None \<Rightarrow> 0 | Some n \<Rightarrow> mib n)"

definition setBoolCondition ::
  "job_net \<Rightarrow> int \<Rightarrow> string \<Rightarrow> string \<Rightarrow> string \<Rightarrow> api_error option \<times> (vgpu_job \<times> bool) option" where
  "setBoolCondition net now condType reason msg =
    put_condition net now (mk_condition condType ConditionTrue reason msg) (\<lambda>was. \<not> was)"

text \<open>Writes and events of one step, and whether it failed.\<close>

record steps =
  st_failed :: bool
  st_writes :: "vgpu_job list"
  st_events :: "string list"

definition no_steps :: steps where
  "no_steps = \<lparr>st_failed = False, st_writes = [], st_events = []\<rparr>"

definition of_write :: "api_error option \<times> vgpu_job option \<Rightarrow> steps" where
  "of_write r = \<lparr>st_failed = (fst r \<noteq> None), st_writes = (case snd r of None \<Rightarrow> [] | Some w \<Rightarrow> [w]), st_events = []\<rparr>"

definition of_flagged :: "string \<Rightarrow> api_error option \<times> (vgpu_job \<times> bool) option \<Rightarrow> steps" where
  "of_flagged event r = \<lparr>st_failed = (fst r \<noteq> None),
     st_writes = (case snd r of None \<Rightarrow> [] | Some (w, _) \<Rightarrow> [w]),
     st_events = (case snd r of Some (_, True) \<Rightarrow> [event] | _ \<Rightarrow> [])\<rparr>"

text \<open>The next step runs only when the one before it did not fail.\<close>

definition then_step :: "steps \<Rightarrow> steps \<Rightarrow> steps" where
  "then_step a b = (if st_failed a then a
     else \<lparr>st_failed = st_failed b, st_writes = st_writes a @ st_writes b, st_events = st_events a @ st_events b\<rparr>)"

definition reconcileAutoResizeAudit :: "job_env \<Rightarrow> vgpu_job \<Rightarrow> steps" where
  "reconcileAutoResizeAudit env job =
    (let ann = gget [] (jb_Annotations job) in
     if ann AutoResizedAnnotation \<noteq> ''true'' then no_steps
     else let newMiB = miB (ann AutoResizedVRAMAnnotation);
              resized = of_flagged ''VRAMAutoResized''
                (setBoolCondition (je_resized env) (je_now env) ''AutoResized'' ''RaisedToRecommendation''
                  (''Auto-resized VRAM request '' @ FormatInt (miB (ann OriginalVRAMAnnotation)) @ '' MiB -> ''
                     @ FormatInt newMiB @ '' MiB to match the workload's learned recommendation.''));
              cappedRaw = ann AutoResizeCappedAnnotation
          in if cappedRaw = [] then resized
             else then_step resized (of_flagged ''AutoResizeCapped''
                (setBoolCondition (je_capped env) (je_now env) ''AutoResizeCapped'' ''ExceedsFleetMax''
                  (''Profile recommended '' @ FormatInt (miB cappedRaw) @ '' MiB, capped to fleet max ''
                     @ FormatInt newMiB @ '' MiB -- this workload may need a larger GPU class or model parallelism.''))))"

definition reconcileAdvisory :: "job_env \<Rightarrow> vgpu_job \<Rightarrow> steps" where
  "reconcileAdvisory env job = then_step (reconcileAutoResizeAudit env job)
    (let requested = cl_RequestedVRAMBytes (jb_ClaimTemplate job) in
     case je_profile env of
       ReadErr \<Rightarrow> no_steps\<lparr>st_failed := True\<rparr>
     | rd \<Rightarrow>
         (let prof = (case rd of Found p \<Rightarrow> p | _ \<Rightarrow> \<lparr>pf_RecommendedVRAMBytes = 0, pf_Confidence = []\<rparr>);
              advise = (rd \<noteq> NotFound \<and> ConfidentEnough (pf_Confidence prof) \<and>
                        Undersized requested (pf_RecommendedVRAMBytes prof));
              recommended = (if advise then pf_RecommendedVRAMBytes prof else 0);
              overridden = (gget [] (jb_Annotations job) OverrideAnnotation = ''true'')
          in then_step (of_write (setAdvisoryAnnotation (je_annotation env) advise recommended))
               (of_flagged ''UnderprovisionedRequest''
                  (setAdvisoryCondition env advise overridden requested recommended (pf_Confidence prof)))))"

section \<open>The workload pod\<close>

record job_outcome =
  jo_result :: reconcile_result
  jo_claim :: "vgpu_claim option"
  jo_claimDeleted :: bool
  jo_pod :: "pod option"
  jo_steps :: steps

definition job_done :: "reconcile_result \<Rightarrow> job_outcome" where
  "job_done r = \<lparr>jo_result = r, jo_claim = None, jo_claimDeleted = False, jo_pod = None, jo_steps = no_steps\<rparr>"

text \<open>The slice bound to the claim, and whether it is allocated; \<open>None\<close> when the read failed.\<close>

definition resolveAllocatedSlice :: "vgpu_slice api_read \<Rightarrow> vgpu_claim \<Rightarrow> (vgpu_slice option \<times> bool) option" where
  "resolveAllocatedSlice rd claim =
    (if cl_BoundSliceName claim = [] then Some (None, False)
     else case rd of
       Found s \<Rightarrow> Some (Some s, sl_AllocationID s \<noteq> [])
     | NotFound \<Rightarrow> Some (None, False)
     | ReadErr \<Rightarrow> None)"

definition job_terminal :: "string \<Rightarrow> bool" where
  "job_terminal p \<longleftrightarrow> p = JobSucceeded \<or> p = JobFailed \<or> p = JobCompleted"

definition jobStatusUpdate :: "job_env \<Rightarrow> status_request \<Rightarrow> steps" where
  "jobStatusUpdate env r = of_write (ignoreNoObject (RetryOnConflict (je_status env) (status_change (je_now env) r)))"

definition status_only :: "reconcile_result \<Rightarrow> steps \<Rightarrow> pod option \<Rightarrow> job_outcome" where
  "status_only r st created = \<lparr>jo_result = (if st_failed st then ReconcileError else r), jo_claim = None,
     jo_claimDeleted = False, jo_pod = created, jo_steps = st\<rparr>"

definition create_pod :: "job_env \<Rightarrow> vgpu_job \<Rightarrow> pod \<Rightarrow> string \<Rightarrow> string \<Rightarrow> job_outcome" where
  "create_pod env job tmpl node uuid =
    (let claimRef = claimNameForJob (jb_Name job); podName = workloadPodName (jb_Name job) in
     if \<not> je_podOwnerRef env then job_done ReconcileError
     else if je_createPod env \<notin> {Accepted, AlreadyExists} then job_done ReconcileError
     else
       let st = jobStatusUpdate env \<lparr>sr_phase = JobPodCreating,
                  sr_message = ''Slice allocated; workload pod created (GPU injected by the webhook).'',
                  sr_claimRef = claimRef, sr_podRef = podName, sr_node = node, sr_uuid = uuid,
                  sr_conds = [condWaitingForSlice False, condPodCreated True podName]\<rparr>
       in status_only done_result (st\<lparr>st_events := ''WorkloadPodCreated'' # st_events st\<rparr>)
            (if je_createPod env = Accepted then Some (buildWorkloadPod job tmpl claimRef node) else None))"

definition reconcileWorkloadPod ::
  "job_env \<Rightarrow> vgpu_job \<Rightarrow> pod \<Rightarrow> vgpu_claim \<Rightarrow> string \<Rightarrow> string \<Rightarrow> job_outcome" where
  "reconcileWorkloadPod env job tmpl claim claimPhase claimMsg =
    (let claimRef = claimNameForJob (jb_Name job);
         podName = workloadPodName (jb_Name job);
         terminal = (jb_Phase job = JobSucceeded \<or> jb_Phase job = JobFailed)
     in if je_pod env = ReadErr then job_done ReconcileError
        else case resolveAllocatedSlice (je_slice env) claim of
          None \<Rightarrow> job_done ReconcileError
        | Some (slice, allocated) \<Rightarrow>
            (let node = (case slice of Some s \<Rightarrow> if allocated then sl_NodeName s else [] | None \<Rightarrow> []);
                 uuid = (case slice of Some s \<Rightarrow> if allocated then sl_DeviceUUID s else [] | None \<Rightarrow> [])
             in case je_pod env of
                  Found pod \<Rightarrow>
                    (if pd_DeletionTimestamp pod \<noteq> None then job_done done_result
                     else status_only done_result
                       (jobStatusUpdate env \<lparr>sr_phase = fst (derivePhaseFromPod pod),
                          sr_message = snd (derivePhaseFromPod pod), sr_claimRef = claimRef, sr_podRef = podName,
                          sr_node = (if node = [] then pd_NodeName pod else node), sr_uuid = uuid,
                          sr_conds = [condWaitingForSlice False, condPodCreated True podName]\<rparr>) None)
                | _ \<Rightarrow>
                    (if terminal then job_done done_result
                     else if jobEnforcementEvicted job then status_only done_result
                       (jobStatusUpdate env \<lparr>sr_phase = JobFailed,
                          sr_message = ''Workload pod evicted for sustained GPU memory over-use (policy=evict); not recreated.'',
                          sr_claimRef = claimRef, sr_podRef = [], sr_node = [], sr_uuid = [], sr_conds = []\<rparr>) None
                     else if jobPreempted job then status_only done_result
                       (jobStatusUpdate env \<lparr>sr_phase = JobFailed,
                          sr_message = ''Workload preempted for higher-priority work; not recreated.'',
                          sr_claimRef = claimRef, sr_podRef = [], sr_node = [], sr_uuid = [], sr_conds = []\<rparr>) None
                     else if \<not> allocated then status_only (Requeue (3 * second))
                       (jobStatusUpdate env \<lparr>sr_phase = claimPhase, sr_message = claimMsg, sr_claimRef = claimRef,
                          sr_podRef = [], sr_node = [], sr_uuid = [],
                          sr_conds = [condWaitingForSlice True, condPodCreated False podName]\<rparr>) None
                     else create_pod env job tmpl node uuid)))"

section \<open>The reconcile\<close>

definition releaseTerminalGrant :: "job_env \<Rightarrow> job_outcome" where
  "releaseTerminalGrant env =
    (case je_grant env of
       NotFound \<Rightarrow> job_done done_result
     | ReadErr \<Rightarrow> job_done ReconcileError
     | Found claim \<Rightarrow>
         if cl_DeletionTimestamp claim \<noteq> None then job_done done_result
         else (job_done (if je_deleteClaim env \<in> {Accepted, NoSuchObject} then done_result else ReconcileError))
                \<lparr>jo_claimDeleted := True\<rparr>)"

definition updatePhase :: "job_env \<Rightarrow> string \<Rightarrow> string \<Rightarrow> steps" where
  "updatePhase env phase msg = of_write (RetryOnConflict (je_phase env) (\<lambda>j. Some (phase_change phase msg j)))"

definition with_advisory :: "job_env \<Rightarrow> vgpu_job \<Rightarrow> job_outcome \<Rightarrow> job_outcome" where
  "with_advisory env job out =
    (if jo_result out = ReconcileError then out
     else let st = then_step (jo_steps out) (reconcileAdvisory env job)
          in out\<lparr>jo_result := (if st_failed st then ReconcileError else jo_result out), jo_steps := st\<rparr>)"

definition Reconcile_job :: "job_env \<Rightarrow> job_outcome" where
  "Reconcile_job env =
    (case je_job env of
       NotFound \<Rightarrow> job_done done_result
     | ReadErr \<Rightarrow> job_done ReconcileError
     | Found job \<Rightarrow>
         if jb_DeletionTimestamp job \<noteq> None then job_done done_result
         else if job_terminal (jb_Phase job) then releaseTerminalGrant env
         else case je_claim env of
           NotFound \<Rightarrow>
             (if \<not> je_claimOwnerRef env \<or> je_createClaim env \<noteq> Accepted then job_done ReconcileError
              else (status_only done_result (updatePhase env JobClaimCreated ''VGPUClaim materialized from template'') None)
                     \<lparr>jo_claim := Some (job_claim job)\<rparr>)
         | ReadErr \<Rightarrow> job_done ReconcileError
         | Found claim \<Rightarrow>
             (case derivePhaseFromClaim claim (jb_Phase job) of (desired, msg) \<Rightarrow>
                case jb_PodTemplate job of
                  Some tmpl \<Rightarrow> with_advisory env job (reconcileWorkloadPod env job tmpl claim desired msg)
                | None \<Rightarrow>
                    if jobPreempted job then
                      status_only done_result
                        (if jb_Phase job \<noteq> JobFailed then updatePhase env JobFailed ''Preempted for higher-priority work.''
                         else no_steps) None
                    else with_advisory env job (status_only done_result
                        (if jb_Phase job \<noteq> desired \<or> jb_ClaimRef job \<noteq> claimNameForJob (jb_Name job)
                         then updatePhase env desired msg else no_steps) None)))"

section \<open>Lemmas\<close>

lemma status_only_fields [simp]:
  "jo_claim (status_only r st p) = None" "jo_pod (status_only r st p) = p" "jo_steps (status_only r st p) = st"
  "jo_claimDeleted (status_only r st p) = False"
  by (simp_all add: status_only_def)

lemma job_done_fields [simp]:
  "jo_claim (job_done r) = None" "jo_pod (job_done r) = None" "jo_steps (job_done r) = no_steps"
  "jo_claimDeleted (job_done r) = False" "jo_result (job_done r) = r"
  by (simp_all add: job_done_def)

lemma no_steps_fields [simp]: "st_failed no_steps = False" "st_writes no_steps = []" "st_events no_steps = []"
  by (simp_all add: no_steps_def)

lemma with_advisory_fields [simp]:
  "jo_claim (with_advisory env job out) = jo_claim out" "jo_pod (with_advisory env job out) = jo_pod out"
  by (simp_all add: with_advisory_def Let_def)

lemma create_pod_creates:
  "je_podOwnerRef env \<Longrightarrow> je_createPod env = Accepted \<Longrightarrow>
   jo_pod (create_pod env job tmpl node uuid) = Some (buildWorkloadPod job tmpl (claimNameForJob (jb_Name job)) node)"
  by (simp add: create_pod_def Let_def)

lemma create_pod_pod:
  "jo_pod (create_pod env job tmpl node uuid) = Some p \<Longrightarrow> p = buildWorkloadPod job tmpl (claimNameForJob (jb_Name job)) node"
  by (auto simp: create_pod_def Let_def split: if_splits)

lemma workload_pod_created:
  assumes "jo_pod (reconcileWorkloadPod env job tmpl claim ph msg) = Some p"
  shows "je_pod env = NotFound \<and> \<not> jobPreempted job \<and> \<not> jobEnforcementEvicted job \<and>
    (\<exists>s. je_slice env = Found s \<and> cl_BoundSliceName claim \<noteq> [] \<and> sl_AllocationID s \<noteq> [] \<and>
       p = buildWorkloadPod job tmpl (claimNameForJob (jb_Name job)) (sl_NodeName s))"
proof -
  have pod: "je_pod env = NotFound"
    using assms by (cases "je_pod env") (auto simp: reconcileWorkloadPod_def Let_def split: option.splits prod.splits if_splits)
  obtain sl al where r: "resolveAllocatedSlice (je_slice env) claim = Some (sl, al)"
    using assms by (cases "resolveAllocatedSlice (je_slice env) claim") (auto simp: reconcileWorkloadPod_def Let_def pod)
  have al: "al"
    using assms by (auto simp: reconcileWorkloadPod_def Let_def pod r split: if_splits)
  obtain s where s: "je_slice env = Found s" "sl = Some s" "sl_AllocationID s \<noteq> []" "cl_BoundSliceName claim \<noteq> []"
    using r al by (auto simp: resolveAllocatedSlice_def split: if_splits api_read.splits)
  have c: "al" "\<not> jobPreempted job" "\<not> jobEnforcementEvicted job"
    "jo_pod (create_pod env job tmpl (sl_NodeName s) (sl_DeviceUUID s)) = Some p"
    using assms by (auto simp: reconcileWorkloadPod_def Let_def pod r s(2) al split: if_splits)
  show ?thesis using pod c s create_pod_pod [OF c(4)] by simp
qed

lemma condition_current_set: "condition_current (SetStatusCondition now cs c) c"
  using Find_Set_same [of now cs c] by (auto simp: condition_current_def same_condition_def)

lemma condition_current_other:
  "cd_Type d \<noteq> cd_Type c \<Longrightarrow> condition_current (SetStatusCondition now cs c) d = condition_current cs d"
  by (simp add: condition_current_def Find_Set_other)

lemma set_conditions_keep:
  "condition_current cs d \<Longrightarrow> cd_Type d \<notin> set (map cd_Type rs) \<Longrightarrow> condition_current (set_conditions now cs rs) d"
  by (induction rs arbitrary: cs) (auto simp: condition_current_other)

lemma set_conditions_current:
  "distinct (map cd_Type rs) \<Longrightarrow> c \<in> set rs \<Longrightarrow> condition_current (set_conditions now cs rs) c"
proof (induction rs arbitrary: cs)
  case (Cons r rs)
  then show ?case
    using set_conditions_keep [of _ r rs now] condition_current_set [of now cs r]
    by (cases "c = r") auto
qed simp

lemma conditions_unchanged: "\<forall>c \<in> set rs. condition_current cs c \<Longrightarrow> \<not> conditions_changed now cs rs"
  by (induction rs) auto

lemma set_str_twice [simp]: "set_str (set_str a b) b = set_str a b"
  by (simp add: set_str_def)

lemma rank_no_downgrade: "jobPhaseRank cur \<le> jobPhaseRank (fst (no_downgrade cur d m))"
  by (simp add: no_downgrade_def)

section \<open>Properties\<close>

definition wjob :: vgpu_job where
  "wjob = zero_job\<lparr>jb_Name := ''j'', jb_Namespace := ''ns'', jb_Phase := JobScheduled,
     jb_PodTemplate := Some \<lparr>pd_Name = [], pd_Namespace = [], pd_Labels = [], pd_Annotations = [],
       pd_DeletionTimestamp = None, pd_NodeName = ''elsewhere'', pd_RestartPolicy = [], pd_HostIPC = False,
       pd_HostPID = False, pd_HostNetwork = False, pd_Containers = [], pd_InitContainers = [],
       pd_HostPathVolumes = [], pd_Phase = []\<rparr>\<rparr>"

definition job_env0 :: "vgpu_job \<Rightarrow> job_env" where
  "job_env0 j = \<lparr>je_job = Found j, je_mode = Warn, je_now = 5,
     je_claim = Found (zero_claim\<lparr>cl_Phase := ''Bound'', cl_BoundSliceName := ''s''\<rparr>), je_claimOwnerRef = True,
     je_createClaim = Accepted, je_grant = NotFound, je_deleteClaim = Accepted, je_phase = (\<lambda>i. (Found j, Accepted)),
     je_pod = NotFound, je_slice = Found (slice0\<lparr>sl_AllocationID := ''a1'', sl_NodeName := ''n1''\<rparr>), je_podOwnerRef = True,
     je_createPod = Accepted, je_status = (\<lambda>i. (Found j, Accepted)), je_profile = NotFound,
     je_annotation = (\<lambda>i. (Found j, Accepted)), je_condition = (\<lambda>i. (Found j, Accepted)),
     je_resized = (\<lambda>i. (Found j, Accepted)), je_capped = (\<lambda>i. (Found j, Accepted))\<rparr>"

text \<open>
  The phase derived from a claim never moves a job backwards, whatever the claim's phase is.
\<close>

theorem job_phase_never_regresses:
  "jobPhaseRank current \<le> jobPhaseRank (fst (derivePhaseFromClaim claim current))"
  unfolding derivePhaseFromClaim_def Let_def using rank_no_downgrade by simp

text \<open>
  A finished job stays finished: a reconcile of a \<open>Succeeded\<close>, \<open>Failed\<close> or \<open>Completed\<close> job creates
  no claim and no pod and writes nothing to the job; at most it deletes the claim that still holds the
  job's memory, which it does whenever that claim is there and not being deleted.
\<close>

theorem finished_job_stays_finished:
  assumes "je_job env = Found job" and "job_terminal (jb_Phase job)"
  shows "jo_claim (Reconcile_job env) = None \<and> jo_pod (Reconcile_job env) = None
    \<and> st_writes (jo_steps (Reconcile_job env)) = []
    \<and> (jo_claimDeleted (Reconcile_job env) \<longleftrightarrow>
        jb_DeletionTimestamp job = None \<and> (\<exists>c. je_grant env = Found c \<and> cl_DeletionTimestamp c = None))"
  using assms by (auto simp: Reconcile_job_def releaseTerminalGrant_def split: api_read.splits)

theorem finished_job_stays_finished_witness:
  "jo_pod (Reconcile_job (job_env0 (wjob\<lparr>jb_Phase := JobFailed\<rparr>))) = None"
  using finished_job_stays_finished [of "job_env0 (wjob\<lparr>jb_Phase := JobFailed\<rparr>)" "wjob\<lparr>jb_Phase := JobFailed\<rparr>"]
  by (simp add: job_env0_def job_terminal_def)

text \<open>
  C33. A workload pod is created only for an allocated slice, on the slice's node, tied to the job's own
  claim by label and annotation whatever the template says, and never for a job that is finished,
  preempted or evicted, so that a reclaimed workload does not come back.
\<close>

theorem created_pod_is_bound:
  assumes "jo_pod (Reconcile_job env) = Some p"
  shows "\<exists>job s. je_job env = Found job \<and> \<not> job_terminal (jb_Phase job) \<and> \<not> jobPreempted job
    \<and> \<not> jobEnforcementEvicted job \<and> je_pod env = NotFound \<and> je_slice env = Found s \<and> sl_AllocationID s \<noteq> []
    \<and> pd_NodeName p = sl_NodeName s
    \<and> map_of (pd_Labels p) vgpuClaimLabel = Some (claimNameForJob (jb_Name job))
    \<and> map_of (pd_Annotations p) vgpuClaimAnnotation = Some (claimNameForJob (jb_Name job))
    \<and> pd_RestartPolicy p \<noteq> []"
proof -
  obtain job where j: "je_job env = Found job"
    using assms by (cases "je_job env") (auto simp: Reconcile_job_def)
  have t: "jb_DeletionTimestamp job = None" "\<not> job_terminal (jb_Phase job)"
    using assms j by (auto simp: Reconcile_job_def releaseTerminalGrant_def split: if_splits api_read.splits)
  obtain claim where c: "je_claim env = Found claim"
    using assms j t by (cases "je_claim env") (auto simp: Reconcile_job_def split: if_splits)
  obtain d m where dm: "derivePhaseFromClaim claim (jb_Phase job) = (d, m)" by fastforce
  obtain tmpl where tm: "jb_PodTemplate job = Some tmpl"
    using assms j t c dm by (cases "jb_PodTemplate job") (auto simp: Reconcile_job_def split: if_splits)
  have "jo_pod (reconcileWorkloadPod env job tmpl claim d m) = Some p"
    using assms j t c dm tm by (simp add: Reconcile_job_def)
  from workload_pod_created [OF this] show ?thesis
    using j t by (auto simp: buildWorkloadPod_def)
qed

theorem created_pod_is_bound_witness:
  "\<exists>p. jo_pod (Reconcile_job (job_env0 wjob)) = Some p \<and> pd_NodeName p = ''n1''"
proof -
  let ?c = "zero_claim\<lparr>cl_Phase := ''Bound'', cl_BoundSliceName := ''s''\<rparr>"
  obtain tmpl where j: "jb_DeletionTimestamp wjob = None" "jb_Phase wjob = JobScheduled" "jb_Conditions wjob = []"
    "jb_PodTemplate wjob = Some tmpl"
    by (simp add: wjob_def zero_job_def)
  have e: "je_job (job_env0 wjob) = Found wjob" "je_claim (job_env0 wjob) = Found ?c" "je_pod (job_env0 wjob) = NotFound"
    "je_slice (job_env0 wjob) = Found (slice0\<lparr>sl_AllocationID := ''a1'', sl_NodeName := ''n1''\<rparr>)"
    "je_podOwnerRef (job_env0 wjob)" "je_createPod (job_env0 wjob) = Accepted"
    by (simp_all add: job_env0_def)
  have ok: "\<not> jobEnforcementEvicted wjob" "\<not> jobPreempted wjob" "\<not> job_terminal (jb_Phase wjob)"
    by (simp_all add: jobEnforcementEvicted_def jobPreempted_def job_terminal_def FindStatusCondition_def j)
  have r: "resolveAllocatedSlice (Found (slice0\<lparr>sl_AllocationID := ''a1'', sl_NodeName := ''n1''\<rparr>)) ?c
      = Some (Some (slice0\<lparr>sl_AllocationID := ''a1'', sl_NodeName := ''n1''\<rparr>), True)"
    by (simp add: resolveAllocatedSlice_def)
  obtain d m where dm: "derivePhaseFromClaim ?c (jb_Phase wjob) = (d, m)" by fastforce
  have "\<exists>p. jo_pod (reconcileWorkloadPod (job_env0 wjob) wjob tmpl ?c d m) = Some p"
    by (simp add: reconcileWorkloadPod_def Let_def r e ok j create_pod_creates)
  then obtain p where p: "jo_pod (Reconcile_job (job_env0 wjob)) = Some p"
    using e ok j dm by (auto simp: Reconcile_job_def)
  then show ?thesis
    using created_pod_is_bound [OF p] by (auto simp: job_env0_def slice0_def)
qed

text \<open>
  C36. The status writer settles: the object a status update writes needs no further write of the same
  request, so that its own write does not start the controller again and again.
\<close>

theorem status_update_settles:
  assumes "status_change now r j = Some j'" and "distinct (map cd_Type (sr_conds r))"
  shows "status_change later r j' = None"
proof -
  have j': "jb_Phase j' = sr_phase r" "jb_Message j' = sr_message r"
    "jb_ClaimRef j' = set_str (jb_ClaimRef j) (sr_claimRef r)" "jb_PodRef j' = set_str (jb_PodRef j) (sr_podRef r)"
    "jb_NodeName j' = set_str (jb_NodeName j) (sr_node r)" "jb_DeviceUUID j' = set_str (jb_DeviceUUID j) (sr_uuid r)"
    "jb_Conditions j' = set_conditions now (jb_Conditions j) (sr_conds r)"
    using assms(1) by (auto simp: status_change_def Let_def split: if_splits)
  have "\<not> conditions_changed later (jb_Conditions j') (sr_conds r)"
    by (rule conditions_unchanged) (use assms(2) set_conditions_current j'(7) in auto)
  then show ?thesis by (simp add: status_change_def j'(1-6) Let_def)
qed

theorem status_update_settles_witness:
  "\<exists>j'. status_change 1 \<lparr>sr_phase = JobRunning, sr_message = [], sr_claimRef = [], sr_podRef = [], sr_node = [],
      sr_uuid = [], sr_conds = [condWaitingForSlice False]\<rparr> wjob = Some j' \<and>
    status_change 2 \<lparr>sr_phase = JobRunning, sr_message = [], sr_claimRef = [], sr_podRef = [], sr_node = [],
      sr_uuid = [], sr_conds = [condWaitingForSlice False]\<rparr> j' = None"
proof -
  let ?r = "\<lparr>sr_phase = JobRunning, sr_message = [], sr_claimRef = [], sr_podRef = [], sr_node = [],
      sr_uuid = [], sr_conds = [condWaitingForSlice False]\<rparr>"
  have "jb_Phase wjob \<noteq> sr_phase ?r" by (simp add: wjob_def)
  then obtain j' where j': "status_change 1 ?r wjob = Some j'" by (simp add: status_change_def Let_def)
  then show ?thesis using status_update_settles [OF j', of 2] by simp
qed

text \<open>
  The advisory only advises: none of its writes changes a job's phase, message or requested memory,
  whatever the profile says.
\<close>

lemma flagged_Found: "fst (flagged net i) = Found (j, b) \<Longrightarrow> fst (net i) = Found j"
  by (auto simp: flagged_def split: prod.splits api_read.splits)

definition advice_of :: "job_net \<Rightarrow> vgpu_job \<Rightarrow> bool" where
  "advice_of net w \<longleftrightarrow> (\<exists>i j. fst (net i) = Found j \<and> jb_Phase w = jb_Phase j \<and> jb_Message w = jb_Message j \<and>
     jb_ClaimTemplate w = jb_ClaimTemplate j)"

lemma advice_ofI:
  "fst (net i) = Found j \<Longrightarrow> jb_Phase w = jb_Phase j \<Longrightarrow> jb_Message w = jb_Message j \<Longrightarrow>
   jb_ClaimTemplate w = jb_ClaimTemplate j \<Longrightarrow> advice_of net w"
  unfolding advice_of_def by blast

lemma put_condition_advice:
  assumes "w \<in> set (st_writes (of_flagged ev (put_condition net now cond due)))"
  shows "advice_of net w"
proof -
  obtain b where b: "snd (put_condition net now cond due) = Some (w, b)"
    using assms by (cases "snd (put_condition net now cond due)") (auto simp: of_flagged_def)
  let ?ch = "\<lambda>(j, _ :: bool). if condition_current (jb_Conditions j) cond then None
      else Some (j\<lparr>jb_Conditions := SetStatusCondition now (jb_Conditions j) cond\<rparr>,
                 due (IsStatusConditionTrue (jb_Conditions j) (cd_Type cond)))"
  obtain i x where "fst (flagged net i) = Found x" "?ch x = Some (w, b)"
    using RetryOnConflict_written [of "flagged net" ?ch "(w, b)"] b by (auto simp: put_condition_def)
  then show ?thesis
    using flagged_Found [of net i "fst x" "snd x"]
    by (cases x) (auto intro: advice_ofI split: if_splits)
qed

lemma annotation_advice:
  assumes "w \<in> set (st_writes (of_write (setAdvisoryAnnotation net adv r)))"
  shows "advice_of net w"
proof -
  have "snd (setAdvisoryAnnotation net adv r) = Some w"
    using assms by (auto simp: of_write_def split: option.splits)
  then obtain i j where "fst (net i) = Found j" "annotation_change adv r j = Some w"
    using RetryOnConflict_written [of net "annotation_change adv r" w] by (auto simp: setAdvisoryAnnotation_def)
  then show ?thesis by (auto intro: advice_ofI simp: annotation_change_def Let_def split: if_splits)
qed

lemma then_step_writes: "w \<in> set (st_writes (then_step a b)) \<Longrightarrow> w \<in> set (st_writes a) \<or> w \<in> set (st_writes b)"
  by (auto simp: then_step_def split: if_splits)

theorem advisory_only_advises:
  assumes "w \<in> set (st_writes (reconcileAdvisory env job))"
  shows "\<exists>net \<in> {je_annotation env, je_condition env, je_resized env, je_capped env}. advice_of net w"
proof -
  have audit: "advice_of (je_resized env) w \<or> advice_of (je_capped env) w"
    if "w \<in> set (st_writes (reconcileAutoResizeAudit env job))"
    using that put_condition_advice then_step_writes
    unfolding reconcileAutoResizeAudit_def Let_def setBoolCondition_def
    by (auto split: if_splits) blast+
  show ?thesis
    using then_step_writes [OF assms [unfolded reconcileAdvisory_def]] audit
      then_step_writes put_condition_advice annotation_advice
    unfolding setAdvisoryCondition_def Let_def
    by (auto split: api_read.splits) blast+
qed

theorem advisory_only_advises_witness:
  "\<exists>w. w \<in> set (st_writes (reconcileAdvisory
      ((job_env0 wjob)\<lparr>je_profile := Found \<lparr>pf_RecommendedVRAMBytes = 100, pf_Confidence = ConfidenceHigh\<rparr>\<rparr>)
      (wjob\<lparr>jb_ClaimTemplate := zero_claim\<lparr>cl_RequestedVRAMBytes := 10\<rparr>\<rparr>))) \<and>
    jb_Phase w = JobScheduled"
proof -
  let ?env = "(job_env0 wjob)\<lparr>je_profile := Found \<lparr>pf_RecommendedVRAMBytes = 100, pf_Confidence = ConfidenceHigh\<rparr>\<rparr>"
  let ?job = "wjob\<lparr>jb_ClaimTemplate := zero_claim\<lparr>cl_RequestedVRAMBytes := 10\<rparr>\<rparr>"
  have ann: "jb_Annotations wjob = []" "jb_Phase wjob = JobScheduled" by (simp_all add: wjob_def zero_job_def)
  have net: "je_annotation ?env = (\<lambda>i. (Found wjob, Accepted))" "je_condition ?env = (\<lambda>i. (Found wjob, Accepted))"
    "je_resized ?env = (\<lambda>i. (Found wjob, Accepted))" "je_capped ?env = (\<lambda>i. (Found wjob, Accepted))"
    by (simp_all add: job_env0_def)
  have fmt: "FormatInt 100 \<noteq> []" using show_nat_head [of 100] by (auto simp: FormatInt_def)
  then obtain w where w: "annotation_change True 100 wjob = Some w"
    by (simp add: annotation_change_def ann gget_def)
  have "setAdvisoryAnnotation (je_annotation ?env) True 100 = (None, Some w)"
    unfolding net setAdvisoryAnnotation_def
    by (subst RetryOnConflict_first [where x = wjob and y = w]) (simp_all add: w ignoreNoObject_def)
  moreover have "reconcileAutoResizeAudit ?env ?job = no_steps"
    by (simp add: reconcileAutoResizeAudit_def ann gget_def)
  moreover have "Undersized 10 100" "ConfidentEnough ConfidenceHigh" by (simp_all add: Undersized_eq ConfidentEnough_def)
  ultimately have m: "w \<in> set (st_writes (reconcileAdvisory ?env ?job))"
    by (simp add: reconcileAdvisory_def Let_def then_step_def of_write_def)
  have "jb_Phase w = jb_Phase wjob"
    using advisory_only_advises [OF m] unfolding advice_of_def net by auto
  then show ?thesis using m ann by auto
qed

end
