(* ===== verification/Webhooks.thy ===== *)
theory Webhooks
  imports JobController
begin

text \<open>
  The admission webhooks of \<open>internal/webhook\<close> with the pod policy of \<open>internal/security/policy.go\<close>:
  the validators of claims, gangs and jobs, the automatic resize of a job, and the pod mutator that binds
  a workload pod to its slice's card. Decoding a request may fail, so its objects are optional; a patch
  response carries the mutated object. Metrics and log lines are left out, and a denial keeps the values
  its message is formatted from.
\<close>

section \<open>Requests and responses\<close>

record 'o admission_request =
  rq_Operation :: string
  rq_Object :: "'o option"
  rq_OldObject :: "'o option"

datatype denial =
    VRAMNotPositive
  | VRAMTooLarge int
  | UnsupportedTier string
  | VRAMChanged
  | GangSizeOutOfRange int
  | ElasticGang int int
  | TimeoutOutOfRange int
  | GangSizeChanged
  | MinAvailableChanged
  | ClaimTemplateChanged string
  | BelowRecommendation int int string

datatype 'o admission_response = Allowed string | Denied denial | Errored int | Patched 'o

definition admissionCreate :: string where "admissionCreate = ''CREATE''"
definition admissionUpdate :: string where "admissionUpdate = ''UPDATE''"

lemma operations_differ [simp]: "admissionCreate \<noteq> admissionUpdate" "admissionUpdate \<noteq> admissionCreate"
  by (simp_all add: admissionCreate_def admissionUpdate_def)

definition maxVRAMBytes :: int where
  "maxVRAMBytes = 85899345920"

definition tier_supported :: "string \<Rightarrow> bool" where
  "tier_supported t \<longleftrightarrow> \<not> (t \<noteq> [] \<and> t \<noteq> ServiceTierGuaranteed \<and> t \<noteq> ServiceTierBestEffort)"

section \<open>Claims\<close>

definition ValidateVGPUClaim :: "vgpu_claim \<Rightarrow> denial option" where
  "ValidateVGPUClaim claim =
    (if cl_RequestedVRAMBytes claim \<le> 0 then Some VRAMNotPositive
     else if cl_RequestedVRAMBytes claim > maxVRAMBytes then Some (VRAMTooLarge (cl_RequestedVRAMBytes claim))
     else if \<not> tier_supported (cl_ServiceTier claim) then Some (UnsupportedTier (cl_ServiceTier claim))
     else None)"

definition ValidateClaimUpdate :: "vgpu_claim \<Rightarrow> vgpu_claim \<Rightarrow> denial option" where
  "ValidateClaimUpdate oldClaim newClaim =
    (if cl_RequestedVRAMBytes oldClaim \<noteq> cl_RequestedVRAMBytes newClaim then Some VRAMChanged else None)"

text \<open>The shape the claim and gang validators share: create, update, or an unexpected operation.\<close>

definition validating ::
  "('o \<Rightarrow> denial option) \<Rightarrow> ('o \<Rightarrow> 'o \<Rightarrow> denial option) \<Rightarrow> 'o admission_request \<Rightarrow> 'o admission_response" where
  "validating check check_update req =
    (case rq_Object req of
       None \<Rightarrow> Errored 400
     | Some new \<Rightarrow>
         if rq_Operation req = admissionCreate then
           (case check new of Some d \<Rightarrow> Denied d | None \<Rightarrow> Allowed [])
         else if rq_Operation req = admissionUpdate then
           (case rq_OldObject req of
              None \<Rightarrow> Errored 400
            | Some old \<Rightarrow>
                (case check new of
                   Some d \<Rightarrow> Denied d
                 | None \<Rightarrow> (case check_update old new of Some d \<Rightarrow> Denied d | None \<Rightarrow> Allowed [])))
         else Errored 400)"

definition Claim_Handle :: "vgpu_claim admission_request \<Rightarrow> vgpu_claim admission_response" where
  "Claim_Handle req = validating ValidateVGPUClaim ValidateClaimUpdate req"

section \<open>Gangs\<close>

definition ValidateVGPUGangJob :: "vgpu_gang_job \<Rightarrow> denial option" where
  "ValidateVGPUGangJob gang =
    (let vram = cl_RequestedVRAMBytes (gj_PodTemplate gang); tier = cl_ServiceTier (gj_PodTemplate gang) in
     if gj_GangSize gang < 2 \<or> gj_GangSize gang > 256 then Some (GangSizeOutOfRange (gj_GangSize gang))
     else if gj_MinAvailable gang \<noteq> gj_GangSize gang then Some (ElasticGang (gj_MinAvailable gang) (gj_GangSize gang))
     else case gj_ReservationTimeoutSeconds gang of
       Some t \<Rightarrow>
         if t < 10 \<or> t > 600 then Some (TimeoutOutOfRange t)
         else if vram \<le> 0 then Some VRAMNotPositive
         else if vram > maxVRAMBytes then Some (VRAMTooLarge vram)
         else if \<not> tier_supported tier then Some (UnsupportedTier tier) else None
     | None \<Rightarrow>
         if vram \<le> 0 then Some VRAMNotPositive
         else if vram > maxVRAMBytes then Some (VRAMTooLarge vram)
         else if \<not> tier_supported tier then Some (UnsupportedTier tier) else None)"

definition ValidateGangJobUpdate :: "vgpu_gang_job \<Rightarrow> vgpu_gang_job \<Rightarrow> denial option" where
  "ValidateGangJobUpdate oldGang newGang =
    (if gj_GangSize oldGang \<noteq> gj_GangSize newGang then Some GangSizeChanged
     else if gj_MinAvailable oldGang \<noteq> gj_MinAvailable newGang then Some MinAvailableChanged
     else if cl_RequestedVRAMBytes (gj_PodTemplate oldGang) \<noteq> cl_RequestedVRAMBytes (gj_PodTemplate newGang)
     then Some VRAMChanged
     else None)"

definition GangJob_Handle :: "vgpu_gang_job admission_request \<Rightarrow> vgpu_gang_job admission_response" where
  "GangJob_Handle req = validating ValidateVGPUGangJob ValidateGangJobUpdate req"

section \<open>Jobs: the recommendation validator and the automatic resize\<close>

definition ValidateJobUpdate :: "vgpu_job \<Rightarrow> vgpu_job \<Rightarrow> denial option" where
  "ValidateJobUpdate oldJob newJob =
    (if jb_ClaimTemplate oldJob \<noteq> jb_ClaimTemplate newJob then Some (ClaimTemplateChanged (jb_Name oldJob)) else None)"

definition job_overrides :: "vgpu_job \<Rightarrow> bool" where
  "job_overrides job \<longleftrightarrow> gget [] (jb_Annotations job) OverrideAnnotation = ''true''"

definition JobRecommendation_Handle ::
  "mode \<Rightarrow> vgpu_workload_profile api_read \<Rightarrow> vgpu_job admission_request \<Rightarrow> vgpu_job admission_response" where
  "JobRecommendation_Handle m prof req =
    (if rq_Operation req = admissionUpdate then
       (case rq_Object req of
          None \<Rightarrow> Errored 400
        | Some new \<Rightarrow>
            (case rq_OldObject req of
               None \<Rightarrow> Errored 400
             | Some old \<Rightarrow> (case ValidateJobUpdate old new of Some d \<Rightarrow> Denied d | None \<Rightarrow> Allowed [])))
     else if m \<noteq> RequireOverride \<or> rq_Operation req \<noteq> admissionCreate then Allowed []
     else case rq_Object req of
       None \<Rightarrow> Errored 400
     | Some job \<Rightarrow>
         (let requested = cl_RequestedVRAMBytes (jb_ClaimTemplate job) in
          if requested \<le> 0 then Allowed []
          else case prof of
            NotFound \<Rightarrow> Allowed []
          | ReadErr \<Rightarrow> Allowed ''recommendation profile unavailable; admitted (fail-open)''
          | Found p \<Rightarrow>
              (let recommended = pf_RecommendedVRAMBytes p in
               if Blocks m requested recommended (pf_Confidence p) (job_overrides job)
               then Denied (BelowRecommendation (requested div 2 ^ 20) (recommended div 2 ^ 20) (pf_Confidence p))
               else if job_overrides job \<and> ConfidentEnough (pf_Confidence p) \<and> Undersized requested recommended
               then Allowed ''under-provisioned request admitted by override annotation''
               else Allowed [])))"

definition resize_job :: "int \<Rightarrow> int \<Rightarrow> bool \<Rightarrow> vgpu_job \<Rightarrow> vgpu_job" where
  "resize_job newReq recommended capped job =
    (let requested = cl_RequestedVRAMBytes (jb_ClaimTemplate job);
         a = gput AutoResizedAnnotation ''true''
               (gput AutoResizedVRAMAnnotation (FormatInt newReq)
                 (gput OriginalVRAMAnnotation (FormatInt requested) (jb_Annotations job)))
     in job\<lparr>jb_ClaimTemplate := (jb_ClaimTemplate job)\<lparr>cl_RequestedVRAMBytes := newReq\<rparr>,
            jb_Annotations := (if capped then gput AutoResizeCappedAnnotation (FormatInt recommended) a else a)\<rparr>)"

definition JobAutoResize_Handle ::
  "mode \<Rightarrow> vgpu_workload_profile api_read \<Rightarrow> vgpu_job admission_request \<Rightarrow> vgpu_job admission_response" where
  "JobAutoResize_Handle m prof req =
    (if m \<noteq> AutoResize \<or> rq_Operation req \<noteq> admissionCreate then Allowed []
     else case rq_Object req of
       None \<Rightarrow> Errored 400
     | Some job \<Rightarrow>
         (let requested = cl_RequestedVRAMBytes (jb_ClaimTemplate job) in
          if requested \<le> 0 then Allowed []
          else case prof of
            NotFound \<Rightarrow> Allowed []
          | ReadErr \<Rightarrow> Allowed ''recommendation profile unavailable; admitted unchanged (fail-open)''
          | Found p \<Rightarrow>
              (case ResizeTarget requested (pf_RecommendedVRAMBytes p) FleetMaxBytes (pf_Confidence p) (job_overrides job) of
                 (newReq, resized, capped) \<Rightarrow>
                   if \<not> resized then Allowed []
                   else Patched (resize_job newReq (pf_RecommendedVRAMBytes p) capped job))))"

section \<open>Pods: the security policy\<close>

definition dangerousCapabilities :: "string list" where
  "dangerousCapabilities =
    [''SYS_ADMIN'', ''SYS_PTRACE'', ''SYS_MODULE'', ''SYS_RAWIO'', ''DAC_READ_SEARCH'', ''BPF'', ''ALL'']"

datatype pod_violation =
    HostNamespaces
  | RunsPrivileged string
  | EscalatesPrivileges string
  | WindowsHostProcess string
  | UnmaskedProcMount string string
  | DangerousCapability string string
  | HostPathVolume

definition context_violation :: "string \<Rightarrow> security_context \<Rightarrow> pod_violation option" where
  "context_violation n sc =
    (if sx_Privileged sc = Some True then Some (RunsPrivileged n)
     else if sx_AllowPrivilegeEscalation sc = Some True then Some (EscalatesPrivileges n)
     else if sx_HostProcess sc = Some True then Some (WindowsHostProcess n)
     else case sx_ProcMount sc of
       Some pm \<Rightarrow>
         if pm \<noteq> ''Default'' then Some (UnmaskedProcMount n pm)
         else map_option (DangerousCapability n) (find (\<lambda>k. k \<in> set dangerousCapabilities) (sx_AddCapabilities sc))
     | None \<Rightarrow> map_option (DangerousCapability n) (find (\<lambda>k. k \<in> set dangerousCapabilities) (sx_AddCapabilities sc)))"

definition container_violation :: "container \<Rightarrow> pod_violation option" where
  "container_violation c =
    (case co_SecurityContext c of None \<Rightarrow> None | Some sc \<Rightarrow> context_violation (co_Name c) sc)"

fun containers_violation :: "container list \<Rightarrow> pod_violation option" where
  "containers_violation [] = None"
| "containers_violation (c # cs) =
    (case container_violation c of Some v \<Rightarrow> Some v | None \<Rightarrow> containers_violation cs)"

definition ValidatePodSecurity :: "pod \<Rightarrow> pod_violation option" where
  "ValidatePodSecurity p =
    (if pd_HostIPC p \<or> pd_HostPID p \<or> pd_HostNetwork p then Some HostNamespaces
     else case containers_violation (pd_Containers p @ pd_InitContainers p) of
       Some v \<Rightarrow> Some v
     | None \<Rightarrow> if True \<in> set (pd_HostPathVolumes p) then Some HostPathVolume else None)"

section \<open>Pods: the binding to a slice\<close>

definition VGPUClaimAnnotation :: string where "VGPUClaimAnnotation = ''infrastructure.pranav2910.com/claim-ref''"
definition VGPUClaimLabel :: string where "VGPUClaimLabel = ''vgpu-claim''"
definition CDIAnnotationKey :: string where "CDIAnnotationKey = ''cdi.k8s.io/vgpu-pranav2910-com''"
definition AllocationInfoKey :: string where "AllocationInfoKey = ''infrastructure.pranav2910.com/allocation-info''"
definition RequestedBytesKey :: string where "RequestedBytesKey = ''infrastructure.pranav2910.com/requested-vram-bytes''"
definition VisibleDevices :: string where "VisibleDevices = ''NVIDIA_VISIBLE_DEVICES''"

text \<open>The string encoding of \<open>encoding/json\<close>; bytes of multi-byte characters pass through.\<close>

definition json_char :: "char \<Rightarrow> string" where
  "json_char c =
    (let n = (of_char c :: nat); hex = ''0123456789abcdef'' in
     if c = CHR 0x22 then [CHR 0x5C, CHR 0x22]
     else if c = CHR 0x5C then [CHR 0x5C, CHR 0x5C]
     else if n = 8 then [CHR 0x5C, CHR ''b'']
     else if n = 9 then [CHR 0x5C, CHR ''t'']
     else if n = 10 then [CHR 0x5C, CHR ''n'']
     else if n = 12 then [CHR 0x5C, CHR ''f'']
     else if n = 13 then [CHR 0x5C, CHR ''r'']
     else if n < 32 \<or> c = CHR ''<'' \<or> c = CHR ''>'' \<or> c = CHR ''&''
     then [CHR 0x5C, CHR ''u'', CHR ''0'', CHR ''0'', hex ! (n div 16), hex ! (n mod 16)]
     else [c])"

definition json_string :: "string \<Rightarrow> string" where
  "json_string s = [CHR 0x22] @ concat (map json_char s) @ [CHR 0x22]"

definition allocation_info :: "vgpu_slice \<Rightarrow> string" where
  "allocation_info s =
    ''{'' @ json_string ''allocationId'' @ '':'' @ json_string (sl_AllocationID s) @ '',''
      @ json_string ''deviceUuid'' @ '':'' @ json_string (sl_DeviceUUID s) @ '',''
      @ json_string ''sliceName'' @ '':'' @ json_string (sl_Name s) @ ''}''"

fun upsert_env :: "string \<Rightarrow> string \<Rightarrow> env_var list \<Rightarrow> env_var list" where
  "upsert_env n v [] = [\<lparr>ev_Name = n, ev_Value = v, ev_FromSource = False\<rparr>]"
| "upsert_env n v (e # es) =
    (if ev_Name e = n then e\<lparr>ev_Value := v, ev_FromSource := False\<rparr> # es else e # upsert_env n v es)"

definition pin_container :: "string \<Rightarrow> string \<Rightarrow> container \<Rightarrow> container" where
  "pin_container n v c = c\<lparr>co_Env := upsert_env n v (co_Env c)\<rparr>"

definition pinEnv :: "string \<Rightarrow> string \<Rightarrow> pod \<Rightarrow> pod" where
  "pinEnv n v p = p\<lparr>pd_Containers := map (pin_container n v) (pd_Containers p),
                     pd_InitContainers := map (pin_container n v) (pd_InitContainers p)\<rparr>"

definition claim_of_pod :: "pod \<Rightarrow> string" where
  "claim_of_pod p =
    (case map_of (pd_Annotations p) VGPUClaimAnnotation of
       Some c \<Rightarrow> c
     | None \<Rightarrow> gget [] (pd_Labels p) VGPUClaimLabel)"

datatype mutate_error = Insecure pod_violation | NotWired | SliceUnresolved string | NotYetAllocated string

definition cdi_device :: "vgpu_slice \<Rightarrow> string" where
  "cdi_device s = ''infrastructure.pranav2910.com/vgpu='' @ sl_AllocationID s"

definition cdi_annotation :: "pod \<Rightarrow> vgpu_slice \<Rightarrow> string" where
  "cdi_annotation p s =
    (let existing = gget [] (pd_Annotations p) CDIAnnotationKey in
     if existing \<noteq> [] then existing @ '','' @ cdi_device s else cdi_device s)"

definition bind_pod :: "vgpu_slice \<Rightarrow> pod \<Rightarrow> pod" where
  "bind_pod s p =
    (let p1 = p\<lparr>pd_Annotations := gput CDIAnnotationKey (cdi_annotation p s) (pd_Annotations p)\<rparr>;
         p2 = (if sl_DeviceUUID s \<noteq> [] then pinEnv VisibleDevices (sl_DeviceUUID s) p1 else p1)
     in p2\<lparr>pd_Annotations := gput RequestedBytesKey (FormatInt (sl_RequestedVRAMBytes s))
                               (gput AllocationInfoKey (allocation_info s) (pd_Annotations p2))\<rparr>)"

definition MutatePod :: "(string \<Rightarrow> string \<Rightarrow> vgpu_slice api_read) option \<Rightarrow> pod \<Rightarrow> mutate_error + pod" where
  "MutatePod client p =
    (let claimName = claim_of_pod p in
     if claimName = [] then Inr p
     else case ValidatePodSecurity p of
       Some v \<Rightarrow> Inl (Insecure v)
     | None \<Rightarrow>
         (case client of
            None \<Rightarrow> Inl NotWired
          | Some get \<Rightarrow>
              (case get (pd_Namespace p) (slice_name claimName) of
                 Found s \<Rightarrow> if sl_AllocationID s = [] then Inl (NotYetAllocated (sl_Phase s)) else Inr (bind_pod s p)
               | _ \<Rightarrow> Inl (SliceUnresolved (slice_name claimName)))))"

definition PodMutator_Handle ::
  "(string \<Rightarrow> string \<Rightarrow> vgpu_slice api_read) option \<Rightarrow> pod admission_request \<Rightarrow> pod admission_response" where
  "PodMutator_Handle client req =
    (case rq_Object req of
       None \<Rightarrow> Errored 400
     | Some p \<Rightarrow> (case MutatePod client p of Inl _ \<Rightarrow> Errored 500 | Inr p' \<Rightarrow> Patched p'))"


section \<open>Lemmas\<close>

lemma annotation_keys_apart [simp]:
  "CDIAnnotationKey \<noteq> RequestedBytesKey" "CDIAnnotationKey \<noteq> AllocationInfoKey"
  "AllocationInfoKey \<noteq> RequestedBytesKey" "RequestedBytesKey \<noteq> AllocationInfoKey"
  "VGPUClaimAnnotation \<noteq> CDIAnnotationKey"
  by (simp_all add: CDIAnnotationKey_def RequestedBytesKey_def AllocationInfoKey_def VGPUClaimAnnotation_def)

lemma audit_keys_apart [simp]:
  "OriginalVRAMAnnotation \<noteq> AutoResizedVRAMAnnotation" "OriginalVRAMAnnotation \<noteq> AutoResizedAnnotation"
  "OriginalVRAMAnnotation \<noteq> AutoResizeCappedAnnotation" "AutoResizedVRAMAnnotation \<noteq> AutoResizedAnnotation"
  "AutoResizedVRAMAnnotation \<noteq> AutoResizeCappedAnnotation" "AutoResizedAnnotation \<noteq> AutoResizeCappedAnnotation"
  "OverrideAnnotation \<noteq> OriginalVRAMAnnotation" "OverrideAnnotation \<noteq> AutoResizedVRAMAnnotation"
  "OverrideAnnotation \<noteq> AutoResizedAnnotation" "OverrideAnnotation \<noteq> AutoResizeCappedAnnotation"
  by (simp_all add: OriginalVRAMAnnotation_def AutoResizedVRAMAnnotation_def AutoResizedAnnotation_def
      AutoResizeCappedAnnotation_def OverrideAnnotation_def)

lemma validating_allowed:
  assumes "validating check check_update req = Allowed a"
  obtains new where "rq_Object req = Some new" "check new = None"
    "rq_Operation req = admissionUpdate \<Longrightarrow> \<exists>old. rq_OldObject req = Some old \<and> check_update old new = None"
  using assms by (auto simp: validating_def split: option.splits if_splits)

lemma ValidateVGPUClaim_None:
  "ValidateVGPUClaim c = None \<longleftrightarrow>
    0 < cl_RequestedVRAMBytes c \<and> cl_RequestedVRAMBytes c \<le> maxVRAMBytes \<and> tier_supported (cl_ServiceTier c)"
  by (auto simp: ValidateVGPUClaim_def)

lemma ValidateVGPUGangJob_None:
  "ValidateVGPUGangJob g = None \<longleftrightarrow>
    2 \<le> gj_GangSize g \<and> gj_GangSize g \<le> 256 \<and> gj_MinAvailable g = gj_GangSize g \<and>
    (\<forall>t. gj_ReservationTimeoutSeconds g = Some t \<longrightarrow> 10 \<le> t \<and> t \<le> 600) \<and>
    ValidateVGPUClaim (gj_PodTemplate g) = None"
  by (auto simp: ValidateVGPUGangJob_def ValidateVGPUClaim_None Let_def split: option.splits)

lemma job_claim_spec [simp]:
  "cl_RequestedVRAMBytes (job_claim j) = cl_RequestedVRAMBytes (jb_ClaimTemplate j)"
  "cl_ServiceTier (job_claim j) = cl_ServiceTier (jb_ClaimTemplate j)"
  by (simp_all add: job_claim_def)

lemma child_template [simp]: "jb_ClaimTemplate (child_job g i) = gj_PodTemplate g"
  by (simp add: child_job_def)

text \<open>The kubelet starts a container with the last of several entries of one name.\<close>

definition container_sees :: "string \<Rightarrow> container \<Rightarrow> string option" where
  "container_sees n c = map_option ev_Value (find (\<lambda>e. ev_Name e = n) (rev (co_Env c)))"

lemma find_rev_value:
  assumes "\<exists>e\<in>set es. P e" and "\<forall>x\<in>set es. P x \<longrightarrow> f x = v"
  shows "map_option f (find P (rev es)) = Some v"
proof -
  have "find P (rev es) \<noteq> None" using assms(1) by (auto simp: find_None_iff)
  then obtain y where y: "find P (rev es) = Some y" by blast
  then obtain i where "i < length (rev es)" "P y" "y = rev es ! i" by (auto simp: find_Some_iff)
  then have "y \<in> set (rev es)" "P y" using nth_mem by blast+
  then show ?thesis using y assms(2) by simp
qed

lemma upsert_env_has: "\<exists>e\<in>set (upsert_env n v es). ev_Name e = n"
  by (induction es) auto

lemma upsert_env_all:
  assumes "distinct (map ev_Name es)" and "x \<in> set (upsert_env n v es)" and "ev_Name x = n"
  shows "ev_Value x = v"
  using assms
proof (induction es)
  case (Cons a es)
  show ?case
  proof (cases "ev_Name a = n")
    case True
    then have "n \<notin> ev_Name ` set es" using Cons.prems(1) by auto
    then show ?thesis using True Cons.prems(2,3) by (auto simp: image_iff)
  next
    case False
    then show ?thesis using Cons by auto
  qed
qed simp

lemma pinned_container_sees:
  assumes "distinct (map ev_Name (co_Env c))"
  shows "container_sees n (pin_container n v c) = Some v"
  unfolding container_sees_def
  by (rule find_rev_value)
    (use upsert_env_has upsert_env_all [OF assms] in \<open>auto simp: pin_container_def\<close>)

lemma container_violation_pin [simp]: "container_violation (pin_container n v c) = container_violation c"
  by (simp add: container_violation_def pin_container_def split: option.splits)

lemma containers_violation_pin [simp]:
  "containers_violation (map (pin_container n v) cs @ map (pin_container n v) ds) = containers_violation (cs @ ds)"
proof -
  have "containers_violation (map (pin_container n v) xs) = containers_violation xs" for xs
    by (induction xs) (simp_all split: option.splits)
  from this [of "cs @ ds"] show ?thesis by simp
qed

lemma ValidatePodSecurity_bind [simp]: "ValidatePodSecurity (bind_pod s p) = ValidatePodSecurity p"
  by (simp add: ValidatePodSecurity_def bind_pod_def pinEnv_def Let_def)

lemma bind_pod_fields:
  "map_of (pd_Annotations (bind_pod s p)) CDIAnnotationKey = Some (cdi_annotation p s)"
  "map_of (pd_Annotations (bind_pod s p)) RequestedBytesKey = Some (FormatInt (sl_RequestedVRAMBytes s))"
  "pd_NodeName (bind_pod s p) = pd_NodeName p"
  "sl_DeviceUUID s \<noteq> [] \<Longrightarrow> pd_Containers (bind_pod s p) = map (pin_container VisibleDevices (sl_DeviceUUID s)) (pd_Containers p)"
  "sl_DeviceUUID s \<noteq> [] \<Longrightarrow> pd_InitContainers (bind_pod s p) = map (pin_container VisibleDevices (sl_DeviceUUID s)) (pd_InitContainers p)"
  by (simp_all add: bind_pod_def pinEnv_def Let_def)

lemma claim_of_built_pod: "claim_of_pod (buildWorkloadPod job tmpl c node) = c"
  by (simp add: claim_of_pod_def buildWorkloadPod_def vgpuClaimAnnotation_def VGPUClaimAnnotation_def)

lemma MutatePod_bound:
  assumes "MutatePod client p = Inr p'" and "claim_of_pod p \<noteq> []"
  obtains s rd where "client = Some rd" "rd (pd_Namespace p) (slice_name (claim_of_pod p)) = Found s"
    "sl_AllocationID s \<noteq> []" "p' = bind_pod s p" "ValidatePodSecurity p = None"
  using assms by (auto simp: MutatePod_def Let_def split: option.splits api_read.splits if_splits)

section \<open>Properties\<close>


definition pod_template :: pod where
  "pod_template = \<lparr>pd_Name = [], pd_Namespace = [], pd_Labels = [], pd_Annotations = [], pd_DeletionTimestamp = None,
     pd_NodeName = [], pd_RestartPolicy = [], pd_HostIPC = False, pd_HostPID = False, pd_HostNetwork = False,
     pd_Containers = [\<lparr>co_Name = ''main'', co_Env = [], co_SecurityContext = None\<rparr>], pd_InitContainers = [],
     pd_HostPathVolumes = [], pd_Phase = []\<rparr>"

definition granted_slice :: vgpu_slice where
  "granted_slice = slice0\<lparr>sl_AllocationID := ''alloc-u'', sl_DeviceUUID := ''GPU-1''\<rparr>"

lemma granted_pod:
  "MutatePod (Some (\<lambda>ns n. Found granted_slice)) (buildWorkloadPod job pod_template ''c'' node)
    = Inr (bind_pod granted_slice (buildWorkloadPod job pod_template ''c'' node))"
proof -
  have "ValidatePodSecurity (buildWorkloadPod job pod_template ''c'' node) = None"
    by (simp add: ValidatePodSecurity_def buildWorkloadPod_def pod_template_def container_violation_def)
  then show ?thesis by (simp add: MutatePod_def claim_of_built_pod granted_slice_def)
qed


text \<open>
  The pin rewrites the first entry of the name only: a container that names the variable twice keeps the
  second value, and that is the one it starts with.
\<close>

theorem duplicate_entry_escapes_pin:
  "container_sees VisibleDevices (pin_container VisibleDevices uuid
     \<lparr>co_Name = n, co_Env = [\<lparr>ev_Name = VisibleDevices, ev_Value = [], ev_FromSource = False\<rparr>,
                             \<lparr>ev_Name = VisibleDevices, ev_Value = ''all'', ev_FromSource = False\<rparr>],
      co_SecurityContext = None\<rparr>) = Some ''all''"
  by (simp add: container_sees_def pin_container_def)

text \<open>
  An automatic resize is safe: a job that the resizer patches asks for more than before and at most
  one card, its claim passes the claim validator, both sizes can be read back from the audit annotations,
  nothing else of the job changes, and resizing the result again does nothing.
\<close>

theorem resized_job_is_valid:
  assumes "JobAutoResize_Handle m prof req = Patched job'" and "rq_Object req = Some job"
    and "tier_supported (cl_ServiceTier (jb_ClaimTemplate job))"
    and "\<forall>p. prof = Found p \<longrightarrow> pf_RecommendedVRAMBytes p \<le> 2 ^ 59"
  shows "cl_RequestedVRAMBytes (jb_ClaimTemplate job) < cl_RequestedVRAMBytes (jb_ClaimTemplate job') \<and>
    ValidateVGPUClaim (job_claim job') = None \<and>
    ParseInt64 (gget [] (jb_Annotations job') OriginalVRAMAnnotation)
      = Some (cl_RequestedVRAMBytes (jb_ClaimTemplate job)) \<and>
    ParseInt64 (gget [] (jb_Annotations job') AutoResizedVRAMAnnotation)
      = Some (cl_RequestedVRAMBytes (jb_ClaimTemplate job')) \<and>
    job'\<lparr>jb_ClaimTemplate := jb_ClaimTemplate job, jb_Annotations := jb_Annotations job\<rparr> = job \<and>
    JobAutoResize_Handle m prof (req\<lparr>rq_Object := Some job'\<rparr>) = Allowed []"
proof -
  let ?q = "cl_RequestedVRAMBytes (jb_ClaimTemplate job)"
  obtain p newReq capped where h: "m = AutoResize" "rq_Operation req = admissionCreate" "0 < ?q" "prof = Found p"
    "ResizeTarget ?q (pf_RecommendedVRAMBytes p) FleetMaxBytes (pf_Confidence p) (job_overrides job) = (newReq, True, capped)"
    "job' = resize_job newReq (pf_RecommendedVRAMBytes p) capped job"
    using assms(1,2) by (auto simp: JobAutoResize_Handle_def Let_def split: if_splits api_read.splits prod.splits)
  have r: "?q < newReq" "newReq \<le> FleetMaxBytes"
    "ResizeTarget newReq (pf_RecommendedVRAMBytes p) FleetMaxBytes (pf_Confidence p) (job_overrides job) = (newReq, False, False)"
    using ResizeTarget_settles [OF h(5)] assms(4) h(4) by (simp_all add: FleetMaxBytes_def)
  have f: "cl_RequestedVRAMBytes (jb_ClaimTemplate job') = newReq" "cl_ServiceTier (jb_ClaimTemplate job') = cl_ServiceTier (jb_ClaimTemplate job)"
    "gget [] (jb_Annotations job') OriginalVRAMAnnotation = FormatInt ?q"
    "gget [] (jb_Annotations job') AutoResizedVRAMAnnotation = FormatInt newReq"
    "job_overrides job' = job_overrides job"
    "job'\<lparr>jb_ClaimTemplate := jb_ClaimTemplate job, jb_Annotations := jb_Annotations job\<rparr> = job"
    by (simp_all add: h(6) resize_job_def Let_def job_overrides_def)
  have i: "in_i64 ?q" "in_i64 newReq"
    using h(3) r(1,2) by (simp_all add: in_i64_def FleetMaxBytes_def)
  have again: "JobAutoResize_Handle m prof (req\<lparr>rq_Object := Some job'\<rparr>) = Allowed []"
    using h(1-3) r by (simp add: JobAutoResize_Handle_def f h(4))
  have claim: "ValidateVGPUClaim (job_claim job') = None"
    using h(3) r(1,2) assms(3) by (simp add: ValidateVGPUClaim_None f maxVRAMBytes_def FleetMaxBytes_def)
  show ?thesis
    using r(1) claim again by (simp add: f ParseInt64_FormatInt i)
qed

definition small_job :: vgpu_job where
  "small_job = zero_job\<lparr>jb_ClaimTemplate := zero_claim\<lparr>cl_RequestedVRAMBytes := 80\<rparr>\<rparr>"

definition learned :: vgpu_workload_profile where
  "learned = \<lparr>pf_RecommendedVRAMBytes = 100, pf_Confidence = ConfidenceHigh\<rparr>"

definition create_request :: "'o \<Rightarrow> 'o admission_request" where
  "create_request x = \<lparr>rq_Operation = admissionCreate, rq_Object = Some x, rq_OldObject = None\<rparr>"

lemma small_job_fields:
  "cl_RequestedVRAMBytes (jb_ClaimTemplate small_job) = 80" "cl_ServiceTier (jb_ClaimTemplate small_job) = []"
  "job_overrides small_job = False"
  by (simp_all add: small_job_def zero_job_def zero_claim_def job_overrides_def gget_def)

theorem resized_job_is_valid_witness:
  "\<exists>job'. JobAutoResize_Handle AutoResize (Found learned) (create_request small_job) = Patched job' \<and>
    80 < cl_RequestedVRAMBytes (jb_ClaimTemplate job')"
proof -
  have "ResizeTarget 80 100 FleetMaxBytes ConfidenceHigh False = (100, True, False)"
    by (simp add: ResizeTarget_def ConfidentEnough_def Undersized_eq FleetMaxBytes_def)
  then have p: "JobAutoResize_Handle AutoResize (Found learned) (create_request small_job)
      = Patched (resize_job 100 100 False small_job)"
    by (simp add: JobAutoResize_Handle_def create_request_def small_job_fields learned_def)
  show ?thesis
    using resized_job_is_valid [OF p, of small_job] p
    by (simp add: create_request_def small_job_fields tier_supported_def learned_def)
qed

text \<open>
  The recommendation policy fails open: the creation of a job is denied exactly when the mode is
  \<open>requireOverride\<close>, the job asks for some memory, its profile was read, and the profile is confident, the
  request short of it and not overridden; a missing or unreadable profile never denies it.
\<close>

theorem recommendation_fails_open:
  assumes "rq_Operation req = admissionCreate" and "rq_Object req = Some job"
  shows "(\<exists>d. JobRecommendation_Handle m prof req = Denied d) \<longleftrightarrow>
    m = RequireOverride \<and> 0 < cl_RequestedVRAMBytes (jb_ClaimTemplate job) \<and>
    (\<exists>p. prof = Found p \<and> ConfidentEnough (pf_Confidence p) \<and> \<not> job_overrides job \<and>
      Undersized (cl_RequestedVRAMBytes (jb_ClaimTemplate job)) (pf_RecommendedVRAMBytes p))"
  using assms by (cases prof) (auto simp: JobRecommendation_Handle_def Blocks_def Let_def)

theorem recommendation_fails_open_witness:
  "\<not> (\<exists>d. JobRecommendation_Handle RequireOverride ReadErr (create_request small_job) = Denied d)"
  using recommendation_fails_open [of "create_request small_job" small_job RequireOverride ReadErr]
  by (simp add: create_request_def)

text \<open>
  C35. An admitted gang is one the controllers can carry: its reservation covers between 2 and 256
  children, its deadline is between 10 and 600 seconds, and the claim of every child passes the claim
  validator; an admitted update leaves the reservation's size and claims as they were.
\<close>

theorem admitted_gang_is_sound:
  assumes "GangJob_Handle req = Allowed a" and "rq_Object req = Some gang"
  shows "length (rv_ChildClaims (gang_reservation gang)) = nat (gj_GangSize gang) \<and>
    rv_GangSize (gang_reservation gang) \<in> {2..256} \<and> deadline_of (gang_reservation gang) \<in> {10..600} \<and>
    ValidateVGPUClaim (job_claim (child_job gang i)) = None \<and>
    (\<forall>old. rq_Operation req = admissionUpdate \<longrightarrow> rq_OldObject req = Some old \<longrightarrow> gj_Name old = gj_Name gang \<longrightarrow>
      rv_ChildClaims (gang_reservation old) = rv_ChildClaims (gang_reservation gang) \<and>
      cl_RequestedVRAMBytes (job_claim (child_job old i)) = cl_RequestedVRAMBytes (job_claim (child_job gang i)))"
proof -
  have ok: "ValidateVGPUGangJob gang = None"
    "rq_Operation req = admissionUpdate \<Longrightarrow> \<exists>old. rq_OldObject req = Some old \<and> ValidateGangJobUpdate old gang = None"
    using validating_allowed [OF assms(1) [unfolded GangJob_Handle_def]] assms(2) by auto
  have g: "2 \<le> gj_GangSize gang" "gj_GangSize gang \<le> 256" "ValidateVGPUClaim (gj_PodTemplate gang) = None"
    "\<forall>t. gj_ReservationTimeoutSeconds gang = Some t \<longrightarrow> 10 \<le> t \<and> t \<le> 600"
    using ok(1) by (simp_all add: ValidateVGPUGangJob_None)
  have r: "rv_GangSize (gang_reservation gang) = gj_GangSize gang"
    "length (rv_ChildClaims (gang_reservation gang)) = nat (gj_GangSize gang)"
    "deadline_of (gang_reservation gang) = (case gj_ReservationTimeoutSeconds gang of None \<Rightarrow> 60 | Some t \<Rightarrow> t)"
    by (simp_all add: gang_reservation_def deadline_of_def)
  have u: "rv_ChildClaims (gang_reservation old) = rv_ChildClaims (gang_reservation gang) \<and>
      cl_RequestedVRAMBytes (gj_PodTemplate old) = cl_RequestedVRAMBytes (gj_PodTemplate gang)"
    if "rq_Operation req = admissionUpdate" "rq_OldObject req = Some old" "gj_Name old = gj_Name gang" for old
    using ok(2) [OF that(1)] that(2,3)
    by (auto simp: ValidateGangJobUpdate_def gang_reservation_def split: if_splits)
  show ?thesis
    using g u by (auto simp: r ValidateVGPUClaim_None split: option.splits)
qed

definition good_gang :: vgpu_gang_job where
  "good_gang = gang_g\<lparr>gj_GangSize := 4, gj_MinAvailable := 4, gj_ReservationTimeoutSeconds := Some 30,
     gj_PodTemplate := zero_claim\<lparr>cl_RequestedVRAMBytes := 1024\<rparr>\<rparr>"

theorem admitted_gang_is_sound_witness:
  "deadline_of (gang_reservation good_gang) \<in> {10..600} \<and> length (rv_ChildClaims (gang_reservation good_gang)) = 4"
proof -
  have "ValidateVGPUGangJob good_gang = None"
    by (simp add: ValidateVGPUGangJob_None ValidateVGPUClaim_None good_gang_def zero_claim_def maxVRAMBytes_def tier_supported_def)
  then have a: "GangJob_Handle (create_request good_gang) = Allowed []"
    by (simp add: GangJob_Handle_def validating_def create_request_def)
  show ?thesis
    using admitted_gang_is_sound [OF a, of good_gang] by (simp add: create_request_def good_gang_def)
qed

end
