(* ===== verification/OveruseDetector.thy ===== *)
theory OveruseDetector
  imports ApiClient
begin

text \<open>
  The node's over-use detector, \<open>internal/nodeagent/violation.go\<close>, with the evaluation it shares in form
  with the per-slice detector of \<open>slice_violation.go\<close>: tolerance and hysteresis per card or slice, the
  grants of a node summed per card, and one detection cycle. Byte counts are \<open>int64\<close>; gauges, events and
  log lines are left out, and a cycle returns the cards whose violation begins.
\<close>

section \<open>Evaluation\<close>

definition overuseToleranceBytes :: int where "overuseToleranceBytes = 256 * 2 ^ 20"
definition overuseStreakThreshold :: int where "overuseStreakThreshold = 3"

record hysteresis =
  hy_streak :: "(string, int) gomap"
  hy_active :: "(string, bool) gomap"

record verdict =
  vd_onset :: bool
  vd_cleared :: bool
  vd_excess :: int
  vd_violating :: bool

definition evaluate :: "string \<Rightarrow> int \<Rightarrow> int \<Rightarrow> hysteresis \<Rightarrow> verdict \<times> hysteresis" where
  "evaluate key used granted h =
    (let excess = (if used > granted then i64 (used - granted) else 0);
         streak = (if i64 (used - granted) > overuseToleranceBytes then gget 0 (hy_streak h) key + 1 else 0);
         violating = (streak \<ge> overuseStreakThreshold);
         was = gget False (hy_active h) key
     in (\<lparr>vd_onset = (violating \<and> \<not> was), vd_cleared = (\<not> violating \<and> was), vd_excess = excess, vd_violating = violating\<rparr>,
         \<lparr>hy_streak = gput key streak (hy_streak h), hy_active = gput key violating (hy_active h)\<rparr>))"

section \<open>A cycle of the node's detector\<close>

definition holds_capacity :: "string \<Rightarrow> vgpu_slice \<Rightarrow> bool" where
  "holds_capacity nodeName s \<longleftrightarrow> \<not> (sl_NodeName s \<noteq> nodeName \<or> sl_Phase s \<in> {[], ''Pending'', ''Released'', ''Failed''})"

fun granted_loop :: "string \<Rightarrow> vgpu_slice list \<Rightarrow> (string, int) gomap \<Rightarrow> (string, int) gomap" where
  "granted_loop nodeName [] m = m"
| "granted_loop nodeName (s # ss) m =
    granted_loop nodeName ss
      (if holds_capacity nodeName s \<and> sl_DeviceUUID s \<noteq> []
       then gput (sl_DeviceUUID s) (i64 (gget 0 m (sl_DeviceUUID s) + sl_RequestedVRAMBytes s)) m else m)"

definition grantedBytesByCard :: "string \<Rightarrow> vgpu_slice list option \<Rightarrow> (string, int) gomap option" where
  "grantedBytesByCard nodeName listed = map_option (\<lambda>ss. granted_loop nodeName ss []) listed"

record observed_device =
  od_UUID :: string
  od_Used :: int
  od_Healthy :: bool

fun card_loop :: "(string, int) gomap \<Rightarrow> observed_device list \<Rightarrow> hysteresis \<Rightarrow> string list \<times> hysteresis" where
  "card_loop granted [] h = ([], h)"
| "card_loop granted (d # ds) h =
    (if \<not> od_Healthy d then card_loop granted ds h
     else let (v, h1) = evaluate (od_UUID d) (od_Used d) (gget 0 granted (od_UUID d)) h;
              (onsets, h2) = card_loop granted ds h1
          in (if vd_onset v then od_UUID d # onsets else onsets, h2))"

definition snapshot_stale :: "int \<Rightarrow> int \<Rightarrow> observed_device list \<Rightarrow> int \<Rightarrow> string \<Rightarrow> bool" where
  "snapshot_stale now interval devices observedAt errStr \<longleftrightarrow>
     errStr \<noteq> [] \<or> devices = [] \<or> now - observedAt > 3 * interval"

text \<open>\<open>None\<close> when the slices cannot be listed.\<close>

definition detect_cards ::
  "string \<Rightarrow> int \<Rightarrow> int \<Rightarrow> observed_device list \<Rightarrow> int \<Rightarrow> string \<Rightarrow> vgpu_slice list option \<Rightarrow> hysteresis
   \<Rightarrow> string list option \<times> hysteresis" where
  "detect_cards nodeName now interval devices observedAt errStr listed h =
    (if snapshot_stale now interval devices observedAt errStr then (Some [], h)
     else case grantedBytesByCard nodeName listed of
       None \<Rightarrow> (None, h)
     | Some granted \<Rightarrow> (case card_loop granted devices h of (onsets, h') \<Rightarrow> (Some onsets, h')))"

section \<open>Lemmas\<close>

text \<open>A sample is a pair of used and granted bytes; the reference: the last three samples were all over.\<close>

definition over :: "int \<times> int \<Rightarrow> bool" where
  "over s \<longleftrightarrow> i64 (fst s - snd s) > overuseToleranceBytes"

fun run_samples :: "string \<Rightarrow> (int \<times> int) list \<Rightarrow> hysteresis \<Rightarrow> hysteresis" where
  "run_samples key [] h = h"
| "run_samples key (s # ss) h = run_samples key ss (snd (evaluate key (fst s) (snd s) h))"

definition no_hysteresis :: hysteresis where
  "no_hysteresis = \<lparr>hy_streak = [], hy_active = []\<rparr>"

definition sustained :: "(int \<times> int) list \<Rightarrow> bool" where
  "sustained ss \<longleftrightarrow> 3 \<le> length ss \<and> list_all over (take 3 (rev ss))"

lemma run_samples_snoc: "run_samples key (ss @ [s]) h = snd (evaluate key (fst s) (snd s) (run_samples key ss h))"
  by (induction ss arbitrary: h) simp_all

lemma evaluate_streak:
  "gget 0 (hy_streak (snd (evaluate key u g h))) key = (if over (u, g) then gget 0 (hy_streak h) key + 1 else 0)"
  "gget False (hy_active (snd (evaluate key u g h))) key = vd_violating (fst (evaluate key u g h))"
  "vd_violating (fst (evaluate key u g h)) \<longleftrightarrow> 3 \<le> gget 0 (hy_streak (snd (evaluate key u g h))) key"
  by (simp_all add: evaluate_def over_def overuseStreakThreshold_def Let_def)

lemma evaluate_other: "key \<noteq> k \<Longrightarrow> gget z (hy_streak (snd (evaluate k u g h))) key = gget z (hy_streak h) key"
  "key \<noteq> k \<Longrightarrow> gget b (hy_active (snd (evaluate k u g h))) key = gget b (hy_active h) key"
  by (simp_all add: evaluate_def Let_def)

text \<open>The streak is the number of over-budget samples at the end of the run.\<close>

lemma streak_counts:
  "gget 0 (hy_streak (run_samples key ss no_hysteresis)) key = int (length (takeWhile over (rev ss)))"
proof (induction ss rule: rev_induct)
  case (snoc s ss)
  then show ?case by (simp add: run_samples_snoc evaluate_streak)
qed (simp add: no_hysteresis_def gget_def)

lemma takeWhile_three: "3 \<le> length (takeWhile P xs) \<longleftrightarrow> 3 \<le> length xs \<and> list_all P (take 3 xs)"
proof -
  have "n \<le> length (takeWhile P xs) \<longleftrightarrow> n \<le> length xs \<and> list_all P (take n xs)" for n
  proof (induction xs arbitrary: n)
    case (Cons x xs)
    then show ?case by (cases n) simp_all
  qed simp
  then show ?thesis .
qed

lemma active_is_sustained:
  "gget False (hy_active (run_samples key ss no_hysteresis)) key \<longleftrightarrow> sustained ss"
proof (cases ss rule: rev_cases)
  case (snoc xs s)
  have "3 \<le> int (length (takeWhile over (rev ss))) \<longleftrightarrow> 3 \<le> length (takeWhile over (rev ss))" by linarith
  then show ?thesis
    using streak_counts [of key ss] takeWhile_three [of over "rev ss"]
    by (simp add: snoc run_samples_snoc evaluate_streak(2,3) sustained_def)
qed (simp add: no_hysteresis_def gget_def sustained_def)

section \<open>Properties\<close>

text \<open>
  C40. Only sustained over-use is flagged, and it is flagged once: after any run of samples the last one
  is a violation exactly when it and the two before it were all over the tolerance, and it is an onset
  exactly when the run before it was not already a violation.
\<close>

theorem flagged_iff_sustained:
  "let (v, h) = evaluate key (fst s) (snd s) (run_samples key ss no_hysteresis) in
     (vd_violating v \<longleftrightarrow> sustained (ss @ [s])) \<and>
     (vd_onset v \<longleftrightarrow> sustained (ss @ [s]) \<and> \<not> sustained ss) \<and>
     (vd_cleared v \<longleftrightarrow> \<not> sustained (ss @ [s]) \<and> sustained ss)"
proof -
  let ?r = "evaluate key (fst s) (snd s) (run_samples key ss no_hysteresis)"
  have v: "vd_violating (fst ?r) \<longleftrightarrow> sustained (ss @ [s])"
    using active_is_sustained [of key "ss @ [s]"] by (simp add: run_samples_snoc evaluate_streak(2))
  moreover have "vd_onset (fst ?r) \<longleftrightarrow> vd_violating (fst ?r) \<and> \<not> sustained ss"
    "vd_cleared (fst ?r) \<longleftrightarrow> \<not> vd_violating (fst ?r) \<and> sustained ss"
    using active_is_sustained [of key ss] by (simp_all add: evaluate_def Let_def)
  ultimately show ?thesis by (simp add: case_prod_beta)
qed

lemma gget_granted:
  "in_i64 (gget 0 m u) \<Longrightarrow> in_i64 (gget 0 (granted_loop n ss m) u) \<and> gget 0 (granted_loop n ss m) u =
    i64 (gget 0 m u + (\<Sum>s\<leftarrow>filter (\<lambda>s. holds_capacity n s \<and> sl_DeviceUUID s = u \<and> u \<noteq> []) ss. sl_RequestedVRAMBytes s))"
proof (induction ss arbitrary: m)
  case (Cons s ss)
  show ?case
  proof (cases "holds_capacity n s \<and> sl_DeviceUUID s \<noteq> []")
    case True
    let ?m = "gput (sl_DeviceUUID s) (i64 (gget 0 m (sl_DeviceUUID s) + sl_RequestedVRAMBytes s)) m"
    have "in_i64 (gget 0 ?m u)" using Cons.prems by simp
    from Cons.IH [OF this] True show ?thesis
      by (auto simp: i64_add_left add.assoc)
  next
    case False
    then show ?thesis using Cons by auto
  qed
qed (simp add: i64_in)

text \<open>
  A card is measured against its own grants: unless the snapshot is stale, a cycle flags the onset of
  a healthy card exactly by its own samples against the bytes of the slices placed on that card of this
  node, whatever the other cards hold; a stale snapshot changes no streak.
\<close>

theorem card_against_its_grants:
  assumes "distinct (map od_UUID devices)" and "d \<in> set devices" and "od_Healthy d" and "od_UUID d \<noteq> []"
    and "detect_cards nodeName now interval devices observedAt errStr (Some ss) h = (Some onsets, h')"
  shows "if snapshot_stale now interval devices observedAt errStr then onsets = [] \<and> h' = h
    else let grant = i64 (\<Sum>s\<leftarrow>filter (\<lambda>s. holds_capacity nodeName s \<and> sl_DeviceUUID s = od_UUID d) ss. sl_RequestedVRAMBytes s);
             (v, hv) = evaluate (od_UUID d) (od_Used d) grant h
         in (od_UUID d \<in> set onsets \<longleftrightarrow> vd_onset v) \<and>
            gget 0 (hy_streak h') (od_UUID d) = gget 0 (hy_streak hv) (od_UUID d) \<and>
            gget False (hy_active h') (od_UUID d) = vd_violating v"
proof -
  let ?u = "od_UUID d"
  have loop: "(?u \<in> set (fst (card_loop g ds k)) \<longleftrightarrow> vd_onset (fst (evaluate ?u (od_Used d) (gget 0 g ?u) k))) \<and>
      gget 0 (hy_streak (snd (card_loop g ds k))) ?u = gget 0 (hy_streak (snd (evaluate ?u (od_Used d) (gget 0 g ?u) k))) ?u \<and>
      gget False (hy_active (snd (card_loop g ds k))) ?u = vd_violating (fst (evaluate ?u (od_Used d) (gget 0 g ?u) k))"
    if "distinct (map od_UUID ds)" "d \<in> set ds" for g ds k
    using that
  proof (induction ds arbitrary: k)
    case (Cons a ds)
    have keep: "?u \<notin> set (fst (card_loop g es q)) \<and> gget 0 (hy_streak (snd (card_loop g es q))) ?u = gget 0 (hy_streak q) ?u \<and>
        gget False (hy_active (snd (card_loop g es q))) ?u = gget False (hy_active q) ?u"
      if "?u \<notin> od_UUID ` set es" for es q
      using that by (induction es arbitrary: q) (auto simp: case_prod_beta Let_def evaluate_other)
    show ?case
    proof (cases "a = d")
      case True
      then have "?u \<notin> od_UUID ` set ds" using Cons.prems(1) by simp
      from keep [OF this] show ?thesis
        using True assms(3) by (simp add: case_prod_beta Let_def evaluate_streak(2))
    next
      case False
      then have d: "d \<in> set ds" "od_UUID a \<noteq> ?u" using Cons.prems by (auto simp: image_iff)
      let ?k = "snd (evaluate (od_UUID a) (od_Used a) (gget 0 g (od_UUID a)) k)"
      have ev: "fst (evaluate ?u x y ?k) = fst (evaluate ?u x y k)"
        "gget 0 (hy_streak (snd (evaluate ?u x y ?k))) ?u = gget 0 (hy_streak (snd (evaluate ?u x y k))) ?u" for x y
        using d(2) evaluate_other [of ?u "od_UUID a"] by (simp_all add: evaluate_def [of ?u] Let_def)
      show ?thesis
      proof (cases "od_Healthy a")
        case True
        then show ?thesis using Cons.IH [of ?k] Cons.prems(1) d by (simp add: case_prod_beta Let_def ev)
      next
        case False
        then show ?thesis using Cons.IH [of k] Cons.prems(1) d by simp
      qed
    qed
  qed simp
  have z: "in_i64 (gget 0 ([] :: (string, int) gomap) ?u)" by (simp add: gget_def in_i64_def)
  have g: "gget 0 (granted_loop nodeName ss []) ?u
      = i64 (\<Sum>s\<leftarrow>filter (\<lambda>s. holds_capacity nodeName s \<and> sl_DeviceUUID s = ?u) ss. sl_RequestedVRAMBytes s)"
    using gget_granted [OF z, of nodeName ss] assms(4) by (simp add: gget_def [of 0 "[]"])
  show ?thesis
    using assms(5) loop [OF assms(1,2), of "granted_loop nodeName ss []" h]
    by (auto simp: detect_cards_def grantedBytesByCard_def case_prod_beta g Let_def split: if_splits)
qed

definition card_a :: observed_device where
  "card_a = \<lparr>od_UUID = ''A'', od_Used = 2 ^ 30, od_Healthy = True\<rparr>"

theorem card_against_its_grants_witness:
  "\<exists>h'. detect_cards ''n'' 0 1 [card_a] 0 [] (Some []) no_hysteresis = (Some [], h') \<and> gget 0 (hy_streak h') ''A'' = 1"
proof -
  have fresh: "\<not> snapshot_stale 0 1 [card_a] 0 []" by (simp add: snapshot_stale_def)
  obtain os h' where r: "detect_cards ''n'' 0 1 [card_a] 0 [] (Some []) no_hysteresis = (Some os, h')"
    using fresh by (cases "card_loop [] [card_a] no_hysteresis") (simp add: detect_cards_def grantedBytesByCard_def)
  have u: "od_UUID card_a = ''A''" "od_Healthy card_a" "od_Used card_a = 2 ^ 30" by (simp_all add: card_a_def)
  have o: "os = []" using r
    by (auto simp: detect_cards_def grantedBytesByCard_def u snapshot_stale_def evaluate_def Let_def overuseStreakThreshold_def
        no_hysteresis_def gget_def split: if_splits)
  have "gget 0 (hy_streak h') ''A'' = 1"
    using card_against_its_grants [OF _ _ u(2) _ r] fresh u evaluate_streak(1) [of "''A''" "2 ^ 30" 0 no_hysteresis]
    by (simp add: case_prod_beta Let_def over_def overuseToleranceBytes_def i64_id no_hysteresis_def gget_def)
  then show ?thesis using r o by simp
qed

end
