(* ===== verification/Attribution.thy ===== *)
theory Attribution
  imports OveruseDetector Recommendation
begin

text \<open>
  Which slice a GPU process belongs to: the pod UID in a process's cgroup, \<open>internal/nodeagent/cgroup.go\<close>,
  and \<open>attribute\<close> of \<open>internal/nodeagent/slice_violation.go\<close>. The two maps of \<open>attribute\<close> share the
  usage records they point to, so the records live in a store and a pointer is an index into it. The
  snapshots of NVML, the cgroup files and the two lists of the API server are arguments.
\<close>

section \<open>Pod UIDs in cgroup paths\<close>

text \<open>\<open>strings.Split\<close> at one character, and what follows the last one (\<open>strings.LastIndex\<close>).\<close>

fun split_at :: "char \<Rightarrow> string \<Rightarrow> string \<Rightarrow> string list" where
  "split_at sep [] acc = [rev acc]"
| "split_at sep (c # cs) acc = (if c = sep then rev acc # split_at sep cs [] else split_at sep cs (c # acc))"

definition after_last :: "char \<Rightarrow> string \<Rightarrow> string" where
  "after_last sep s = rev (takeWhile (\<lambda>c. c \<noteq> sep) (rev s))"

definition is_hex :: "char \<Rightarrow> bool" where
  "is_hex c \<longleftrightarrow> (let k = of_char c :: nat in (48 \<le> k \<and> k \<le> 57) \<or> (97 \<le> k \<and> k \<le> 102) \<or> (65 \<le> k \<and> k \<le> 70))"

definition is_dash :: "char \<Rightarrow> bool" where
  "is_dash c \<longleftrightarrow> c = CHR ''-'' \<or> c = CHR ''_''"

text \<open>The 36 places of \<open>podUIDRe\<close> after \<open>pod\<close>: a hexadecimal digit or a separator.\<close>

definition uid_pattern :: "(char \<Rightarrow> bool) list" where
  "uid_pattern = replicate 8 is_hex @ is_dash # replicate 4 is_hex @ is_dash # replicate 4 is_hex @ is_dash #
     replicate 4 is_hex @ is_dash # replicate 12 is_hex"

definition uid_here :: "string \<Rightarrow> bool" where
  "uid_here s \<longleftrightarrow> take 3 s = ''pod'' \<and> list_all2 (\<lambda>p c. p c) uid_pattern (take 36 (drop 3 s))"

fun find_uid :: "string \<Rightarrow> string option" where
  "find_uid [] = None"
| "find_uid (c # cs) = (if uid_here (c # cs) then Some (take 36 (drop 3 (c # cs))) else find_uid cs)"

fun first_uid :: "string list \<Rightarrow> string" where
  "first_uid [] = []"
| "first_uid (l # ls) =
    (case find_uid (after_last (CHR '':'') l) of
       Some m \<Rightarrow> map (\<lambda>c. if c = CHR ''_'' then CHR ''-'' else c) m
     | None \<Rightarrow> first_uid ls)"

definition newline :: char where
  "newline = CHR 0x0A"

definition parsePodUIDFromCgroup :: "string \<Rightarrow> string" where
  "parsePodUIDFromCgroup content = first_uid (split_at newline content [])"

text \<open>The file of a process, \<open>None\<close> when it cannot be read.\<close>

definition podUIDForPID :: "(int \<Rightarrow> string option) \<Rightarrow> int \<Rightarrow> string option" where
  "podUIDForPID cgroupFile pid = map_option parsePodUIDFromCgroup (cgroupFile pid)"

section \<open>Attribution\<close>

record gpu_process =
  gp_PID :: int
  gp_DeviceUUID :: string
  gp_UsedMemoryBytes :: int

record live_pod = pod +
  lv_UID :: string

record slice_usage =
  su_namespace :: string
  su_name :: string
  su_grant :: int
  su_used :: int
  su_pods :: "(string \<times> string) list"

record pod_ref =
  pr_namespace :: string
  pr_name :: string
  pr_claim :: string

definition claimRefAnnotation :: string where
  "claimRefAnnotation = ''infrastructure.pranav2910.com/claim-ref''"

definition slash :: "string \<Rightarrow> string \<Rightarrow> string" where
  "slash ns name = ns @ ''/'' @ name"

definition addPod :: "string \<times> string \<Rightarrow> slice_usage \<Rightarrow> slice_usage" where
  "addPod nn u = (if nn \<in> set (su_pods u) then u else u\<lparr>su_pods := su_pods u @ [nn]\<rparr>)"

text \<open>The maps \<open>byKey\<close> and \<open>byClaim\<close> to pointers, and the store.\<close>

record usage_index =
  ui_byKey :: "(string, nat) gomap"
  ui_byClaim :: "(string, nat) gomap"
  ui_store :: "slice_usage list"

definition no_usage :: usage_index where
  "no_usage = \<lparr>ui_byKey = [], ui_byClaim = [], ui_store = []\<rparr>"

definition index_slice :: "vgpu_slice \<Rightarrow> usage_index \<Rightarrow> usage_index" where
  "index_slice s ix =
    (let p = length (ui_store ix) in
     \<lparr>ui_byKey = gput (slash (sl_Namespace s) (sl_Name s)) p (ui_byKey ix),
      ui_byClaim = (if sl_ClaimRef s \<noteq> [] then gput (slash (sl_Namespace s) (sl_ClaimRef s)) p (ui_byClaim ix) else ui_byClaim ix),
      ui_store = ui_store ix @ [\<lparr>su_namespace = sl_Namespace s, su_name = sl_Name s,
                                 su_grant = sl_RequestedVRAMBytes s, su_used = 0, su_pods = []\<rparr>]\<rparr>)"

fun index_slices :: "string \<Rightarrow> vgpu_slice list \<Rightarrow> usage_index \<Rightarrow> usage_index" where
  "index_slices nodeName [] ix = ix"
| "index_slices nodeName (s # ss) ix =
    index_slices nodeName ss (if holds_capacity nodeName s then index_slice s ix else ix)"

fun index_pods :: "live_pod list \<Rightarrow> (string, pod_ref) gomap \<Rightarrow> (string, pod_ref) gomap" where
  "index_pods [] m = m"
| "index_pods (p # ps) m =
    (let claim = gget [] (pd_Annotations p) claimRefAnnotation in
     index_pods ps
       (if claim = [] then m
        else gput (lv_UID p) \<lparr>pr_namespace = pd_Namespace p, pr_name = pd_Name p, pr_claim = claim\<rparr> m))"

fun resolve_procs ::
  "(int \<Rightarrow> string option) \<Rightarrow> gpu_process list \<Rightarrow> (int \<times> string, string) gomap \<Rightarrow> (int \<times> string, string) gomap" where
  "resolve_procs cgroupFile [] m = m"
| "resolve_procs cgroupFile (p # ps) m =
    resolve_procs cgroupFile ps
      (case podUIDForPID cgroupFile (gp_PID p) of
         None \<Rightarrow> m
       | Some uid \<Rightarrow> if uid = [] then m else gput (gp_PID p, gp_DeviceUUID p) uid m)"

text \<open>The pod and the usage pointer a process of the second snapshot is charged to.\<close>

definition charged_to ::
  "(int \<times> string, string) gomap \<Rightarrow> (string, pod_ref) gomap \<Rightarrow> (string, nat) gomap \<Rightarrow> gpu_process
   \<Rightarrow> ((string \<times> string) \<times> nat) option" where
  "charged_to resolved byPodUID byClaim p =
    (case map_of resolved (gp_PID p, gp_DeviceUUID p) of
       None \<Rightarrow> None
     | Some uid \<Rightarrow>
         (case map_of byPodUID uid of
            None \<Rightarrow> None
          | Some r \<Rightarrow>
              (case map_of byClaim (slash (pr_namespace r) (pr_claim r)) of
                 None \<Rightarrow> None
               | Some u \<Rightarrow> Some ((pr_namespace r, pr_name r), u))))"

definition charge :: "string \<times> string \<Rightarrow> int \<Rightarrow> slice_usage \<Rightarrow> slice_usage" where
  "charge nn bytes u = addPod nn (u\<lparr>su_used := i64 (su_used u + bytes)\<rparr>)"

fun charge_procs ::
  "(gpu_process \<Rightarrow> ((string \<times> string) \<times> nat) option) \<Rightarrow> gpu_process list \<Rightarrow> slice_usage list \<Rightarrow> slice_usage list" where
  "charge_procs owner [] st = st"
| "charge_procs owner (p # ps) st =
    charge_procs owner ps
      (case owner p of None \<Rightarrow> st | Some (nn, u) \<Rightarrow> st[u := charge nn (gp_UsedMemoryBytes p) (st ! u)])"

text \<open>\<open>None\<close> when a list or the second snapshot fails; else the usage per slice.\<close>

definition attribute ::
  "string \<Rightarrow> vgpu_slice list option \<Rightarrow> live_pod list option \<Rightarrow> (int \<Rightarrow> string option)
   \<Rightarrow> gpu_process list \<Rightarrow> gpu_process list option \<Rightarrow> (string, slice_usage) gomap option" where
  "attribute nodeName slices pods cgroupFile procs procs2 =
    (case slices of
       None \<Rightarrow> None
     | Some ss \<Rightarrow>
         (case pods of
            None \<Rightarrow> None
          | Some ps \<Rightarrow>
              (case procs2 of
                 None \<Rightarrow> None
               | Some qs \<Rightarrow>
                   (let ix = index_slices nodeName ss no_usage;
                        owner = charged_to (resolve_procs cgroupFile procs []) (index_pods ps []) (ui_byClaim ix);
                        st = charge_procs owner qs (ui_store ix)
                    in Some (map (\<lambda>(k, p). (k, st ! p)) (ui_byKey ix))))))"

section \<open>Lemmas\<close>

definition usage0 :: "vgpu_slice \<Rightarrow> slice_usage" where
  "usage0 s = \<lparr>su_namespace = sl_Namespace s, su_name = sl_Name s, su_grant = sl_RequestedVRAMBytes s,
               su_used = 0, su_pods = []\<rparr>"

abbreviation slice_key :: "vgpu_slice \<Rightarrow> string" where
  "slice_key s \<equiv> slash (sl_Namespace s) (sl_Name s)"

abbreviation claim_key :: "vgpu_slice \<Rightarrow> string" where
  "claim_key s \<equiv> slash (sl_Namespace s) (sl_ClaimRef s)"

lemma index_slices_fold: "index_slices n ss ix = fold index_slice (filter (holds_capacity n) ss) ix"
  by (induction ss arbitrary: ix) simp_all

lemma index_store: "ui_store (fold index_slice cs ix) = ui_store ix @ map usage0 cs"
  by (induction cs arbitrary: ix) (simp_all add: index_slice_def Let_def usage0_def)

lemma index_snoc:
  "map_of (ui_byKey (fold index_slice (cs @ [s]) no_usage)) =
    (map_of (ui_byKey (fold index_slice cs no_usage)))(slice_key s \<mapsto> length cs)"
  "map_of (ui_byClaim (fold index_slice (cs @ [s]) no_usage)) =
    (if sl_ClaimRef s = [] then map_of (ui_byClaim (fold index_slice cs no_usage))
     else (map_of (ui_byClaim (fold index_slice cs no_usage)))(claim_key s \<mapsto> length cs))"
  by (simp_all add: index_slice_def Let_def index_store no_usage_def)

lemma index_byKey:
  "distinct (map slice_key cs) \<Longrightarrow> i < length cs \<Longrightarrow>
    map_of (ui_byKey (fold index_slice cs no_usage)) (slice_key (cs ! i)) = Some i"
proof (induction cs rule: rev_induct)
  case (snoc s cs)
  show ?case
  proof (cases "i < length cs")
    case True
    then have "cs ! i \<in> set cs" by simp
    then have "slice_key (cs ! i) \<noteq> slice_key s" using snoc.prems(1) by (auto simp: image_iff)
    then show ?thesis using snoc True by (simp add: index_snoc(1) nth_append del: fold_append)
  next
    case False
    then show ?thesis using snoc.prems(2) by (simp add: index_snoc(1) nth_append del: fold_append)
  qed
qed simp

lemma index_byClaim_sound:
  "map_of (ui_byClaim (fold index_slice cs no_usage)) k = Some j \<Longrightarrow>
    j < length cs \<and> sl_ClaimRef (cs ! j) \<noteq> [] \<and> claim_key (cs ! j) = k"
proof (induction cs rule: rev_induct)
  case (snoc s cs)
  then show ?case by (auto simp: index_snoc(2) nth_append simp del: fold_append split: if_splits)
qed (simp add: no_usage_def)

lemma index_byClaim_total:
  "s \<in> set cs \<Longrightarrow> sl_ClaimRef s \<noteq> [] \<Longrightarrow> map_of (ui_byClaim (fold index_slice cs no_usage)) (claim_key s) \<noteq> None"
proof (induction cs rule: rev_induct)
  case (snoc s' cs)
  then show ?case by (auto simp: index_snoc(2) simp del: fold_append)
qed simp

lemma map_of_resolve:
  "map_of (resolve_procs cg ps m) (pid, dev) =
    (case podUIDForPID cg pid of
       None \<Rightarrow> map_of m (pid, dev)
     | Some uid \<Rightarrow> if uid \<noteq> [] \<and> (\<exists>p\<in>set ps. gp_PID p = pid \<and> gp_DeviceUUID p = dev) then Some uid
                    else map_of m (pid, dev))"
proof (induction ps arbitrary: m)
  case (Cons p ps)
  then show ?case by (cases "podUIDForPID cg pid"; cases "podUIDForPID cg (gp_PID p)") auto
qed (auto split: option.splits)

lemma map_of_index_pods:
  "distinct (map lv_UID ps) \<Longrightarrow> map_of (index_pods ps m) uid =
    (case find (\<lambda>p. lv_UID p = uid \<and> gget [] (pd_Annotations p) claimRefAnnotation \<noteq> []) ps of
       None \<Rightarrow> map_of m uid
     | Some p \<Rightarrow> Some \<lparr>pr_namespace = pd_Namespace p, pr_name = pd_Name p,
                        pr_claim = gget [] (pd_Annotations p) claimRefAnnotation\<rparr>)"
proof (induction ps arbitrary: m)
  case (Cons p ps)
  have "find (\<lambda>q. lv_UID q = lv_UID p \<and> gget [] (pd_Annotations q) claimRefAnnotation \<noteq> []) ps = None"
    using Cons.prems by (auto simp: find_None_iff image_iff)
  then show ?case using Cons by (auto simp: Let_def split: option.split)
qed simp

lemma charge_procs_length [simp]: "length (charge_procs owner qs st) = length st"
  by (induction qs arbitrary: st) (auto split: option.splits)

lemma charge_frame [simp]:
  "su_grant (charge nn b u) = su_grant u" "su_namespace (charge nn b u) = su_namespace u"
  "su_name (charge nn b u) = su_name u" "su_used (charge nn b u) = i64 (su_used u + b)"
  "set (su_pods (charge nn b u)) = insert nn (set (su_pods u))"
  by (auto simp: charge_def addPod_def)

definition owns :: "(gpu_process \<Rightarrow> ((string \<times> string) \<times> nat) option) \<Rightarrow> nat \<Rightarrow> gpu_process \<Rightarrow> bool" where
  "owns owner p q \<longleftrightarrow> (case owner q of None \<Rightarrow> False | Some (nn, u) \<Rightarrow> u = p)"

lemma charge_procs_at:
  assumes "p < length st" and "in_i64 (su_used (st ! p))"
  shows "su_used (charge_procs owner qs st ! p) =
      i64 (su_used (st ! p) + (\<Sum>q\<leftarrow>filter (owns owner p) qs. gp_UsedMemoryBytes q)) \<and>
    su_grant (charge_procs owner qs st ! p) = su_grant (st ! p) \<and>
    set (su_pods (charge_procs owner qs st ! p)) = set (su_pods (st ! p)) \<union> {nn. \<exists>q\<in>set qs. owner q = Some (nn, p)}"
  using assms
proof (induction qs arbitrary: st)
  case (Cons q qs)
  show ?case
  proof (cases "owner q")
    case None
    then show ?thesis using Cons by (simp add: owns_def)
  next
    case (Some nu)
    obtain nn u where nu: "nu = (nn, u)" by (cases nu)
    let ?st = "st[u := charge nn (gp_UsedMemoryBytes q) (st ! u)]"
    have "in_i64 (su_used (?st ! p))" using Cons.prems by (cases "u = p") (simp_all add: i64_in)
    from Cons.IH [OF _ this] Cons.prems(1) Some nu show ?thesis
      by (cases "u = p") (auto simp: owns_def i64_add_left add.assoc)
  qed
qed (simp add: i64_in)

lemma map_of_deref: "map_of (map (\<lambda>(k, p). (k, f p)) m) k = map_option f (map_of m k)"
  by (induction m) auto

section \<open>Properties\<close>

text \<open>
  The processes a slice answers for: seen in both snapshots with the same PID on the same card, in the
  cgroup of a pod of the node that names the slice's claim.
\<close>

definition runs_for :: "vgpu_slice \<Rightarrow> live_pod \<Rightarrow> bool" where
  "runs_for s p \<longleftrightarrow> gget [] (pd_Annotations p) claimRefAnnotation \<noteq> [] \<and>
     slash (pd_Namespace p) (gget [] (pd_Annotations p) claimRefAnnotation) = claim_key s"

definition process_of :: "(int \<Rightarrow> string option) \<Rightarrow> gpu_process list \<Rightarrow> live_pod \<Rightarrow> gpu_process \<Rightarrow> bool" where
  "process_of cg procs p q \<longleftrightarrow> lv_UID p \<noteq> [] \<and> podUIDForPID cg (gp_PID q) = Some (lv_UID p) \<and>
     (\<exists>q'\<in>set procs. gp_PID q' = gp_PID q \<and> gp_DeviceUUID q' = gp_DeviceUUID q)"

lemma charged_to_iff:
  assumes "distinct (map lv_UID ps)"
  shows "charged_to (resolve_procs cg procs []) (index_pods ps []) bc q = Some (nn, u) \<longleftrightarrow>
    (\<exists>p\<in>set ps. process_of cg procs p q \<and> gget [] (pd_Annotations p) claimRefAnnotation \<noteq> [] \<and>
       nn = (pd_Namespace p, pd_Name p) \<and>
       map_of bc (slash (pd_Namespace p) (gget [] (pd_Annotations p) claimRefAnnotation)) = Some u)"
proof -
  let ?an = "\<lambda>p. gget [] (pd_Annotations p) claimRefAnnotation"
  have fnd: "find (\<lambda>p. lv_UID p = uid \<and> ?an p \<noteq> []) ps = Some p \<longleftrightarrow> p \<in> set ps \<and> lv_UID p = uid \<and> ?an p \<noteq> []" for uid p
  proof
    assume "find (\<lambda>p. lv_UID p = uid \<and> ?an p \<noteq> []) ps = Some p"
    then show "p \<in> set ps \<and> lv_UID p = uid \<and> ?an p \<noteq> []" by (auto simp: find_Some_iff)
  next
    assume a: "p \<in> set ps \<and> lv_UID p = uid \<and> ?an p \<noteq> []"
    then obtain p' where p': "find (\<lambda>p. lv_UID p = uid \<and> ?an p \<noteq> []) ps = Some p'"
      by (cases "find (\<lambda>p. lv_UID p = uid \<and> ?an p \<noteq> []) ps") (auto simp: find_None_iff)
    then have "p' \<in> set ps" "lv_UID p' = lv_UID p" using a by (auto simp: find_Some_iff)
    then have "p' = p" using a assms by (auto simp: distinct_map inj_on_def)
    then show "find (\<lambda>p. lv_UID p = uid \<and> ?an p \<noteq> []) ps = Some p" using p' by simp
  qed
  have pod: "map_of (index_pods ps []) uid = Some r \<longleftrightarrow>
      (\<exists>p\<in>set ps. lv_UID p = uid \<and> ?an p \<noteq> [] \<and> r = \<lparr>pr_namespace = pd_Namespace p, pr_name = pd_Name p, pr_claim = ?an p\<rparr>)"
    for uid r
  proof -
    have "map_of (index_pods ps []) uid = Some r \<longleftrightarrow> (\<exists>p. find (\<lambda>p. lv_UID p = uid \<and> ?an p \<noteq> []) ps = Some p \<and>
        r = \<lparr>pr_namespace = pd_Namespace p, pr_name = pd_Name p, pr_claim = ?an p\<rparr>)"
      unfolding map_of_index_pods [OF assms] by (auto split: option.splits)
    then show ?thesis unfolding fnd by blast
  qed
  have res: "map_of (resolve_procs cg procs []) (gp_PID q, gp_DeviceUUID q) = Some uid \<longleftrightarrow>
      uid \<noteq> [] \<and> podUIDForPID cg (gp_PID q) = Some uid \<and>
      (\<exists>q'\<in>set procs. gp_PID q' = gp_PID q \<and> gp_DeviceUUID q' = gp_DeviceUUID q)" for uid
    unfolding map_of_resolve by (cases "podUIDForPID cg (gp_PID q)") auto
  have "charged_to (resolve_procs cg procs []) (index_pods ps []) bc q = Some (nn, u) \<longleftrightarrow>
      (\<exists>uid r. map_of (resolve_procs cg procs []) (gp_PID q, gp_DeviceUUID q) = Some uid \<and>
         map_of (index_pods ps []) uid = Some r \<and> nn = (pr_namespace r, pr_name r) \<and>
         map_of bc (slash (pr_namespace r) (pr_claim r)) = Some u)"
    by (auto simp: charged_to_def split: option.splits)
  also have "\<dots> \<longleftrightarrow> (\<exists>p\<in>set ps. process_of cg procs p q \<and> ?an p \<noteq> [] \<and> nn = (pd_Namespace p, pd_Name p) \<and>
       map_of bc (slash (pd_Namespace p) (?an p)) = Some u)"
    unfolding res pod process_of_def by fastforce
  finally show ?thesis .
qed

text \<open>
  C22. A slice is charged for its own processes and for nothing else: its usage is the bytes the second
  snapshot gives to the processes that were also in the first, with the same PID on the same card, and
  whose cgroup names a pod of the slice's claim; its pods are the pods of those processes. A process that
  only inherited the PID of a dead one is charged to nobody.
\<close>

theorem usage_is_confirmed_processes:
  assumes "attribute nodeName (Some ss) (Some ps) cg procs (Some procs2) = Some usage"
    and "distinct (map slice_key ss)" and "distinct (map lv_UID ps)"
    and "s \<in> set ss" and "holds_capacity nodeName s" and "sl_ClaimRef s \<noteq> []"
    and "\<And>t. t \<in> set ss \<Longrightarrow> sl_ClaimRef t \<noteq> [] \<Longrightarrow> claim_key t = claim_key s \<Longrightarrow> t = s"
  shows "\<exists>u. map_of usage (slice_key s) = Some u \<and> su_grant u = sl_RequestedVRAMBytes s \<and>
    su_used u = i64 (\<Sum>q\<leftarrow>filter (\<lambda>q. \<exists>p\<in>set ps. runs_for s p \<and> process_of cg procs p q) procs2. gp_UsedMemoryBytes q) \<and>
    set (su_pods u) = {(pd_Namespace p, pd_Name p) | p. p \<in> set ps \<and> runs_for s p \<and> (\<exists>q\<in>set procs2. process_of cg procs p q)}"
proof -
  let ?cs = "filter (holds_capacity nodeName) ss"
  let ?ix = "fold index_slice ?cs no_usage"
  let ?owner = "charged_to (resolve_procs cg procs []) (index_pods ps []) (ui_byClaim ?ix)"
  have dist: "distinct (map slice_key ?cs)" using assms(2) by (rule distinct_map_filter)
  have "s \<in> set ?cs" using assms(4,5) by simp
  then obtain i where i: "i < length ?cs" "?cs ! i = s" unfolding in_set_conv_nth by blast
  have key: "map_of (ui_byKey ?ix) (slice_key s) = Some i" using index_byKey [OF dist i(1)] i(2) by simp
  have ptr: "map_of (ui_byClaim ?ix) (claim_key s) = Some i"
  proof -
    obtain j where j: "map_of (ui_byClaim ?ix) (claim_key s) = Some j"
      using index_byClaim_total [of s ?cs] assms(4-6) by auto
    note jj = index_byClaim_sound [OF j]
    then have "?cs ! j \<in> set ss" by (meson filter_is_subset nth_mem subsetD)
    then have "?cs ! j = s" using assms(7) jj by blast
    moreover have "distinct ?cs" using dist by (simp only: distinct_map)
    ultimately show ?thesis using j jj i nth_eq_iff_index_eq by metis
  qed
  have ptr_iff: "map_of (ui_byClaim ?ix) k = Some i \<longleftrightarrow> k = claim_key s" for k
    using index_byClaim_sound [of ?cs k i] i(2) ptr by auto
  have owner: "?owner q = Some (nn, i) \<longleftrightarrow> (\<exists>p\<in>set ps. process_of cg procs p q \<and> runs_for s p \<and> nn = (pd_Namespace p, pd_Name p))"
    for q nn unfolding charged_to_iff [OF assms(3)] ptr_iff runs_for_def by blast
  have own: "owns ?owner i = (\<lambda>q. \<exists>p\<in>set ps. runs_for s p \<and> process_of cg procs p q)"
  proof
    fix q
    have "owns ?owner i q \<longleftrightarrow> (\<exists>nn. ?owner q = Some (nn, i))" by (auto simp: owns_def split: option.splits)
    then show "owns ?owner i q = (\<exists>p\<in>set ps. runs_for s p \<and> process_of cg procs p q)" unfolding owner by blast
  qed
  have st: "ui_store ?ix ! i = usage0 s" using i by (simp add: index_store no_usage_def)
  have "usage = map (\<lambda>(k, p). (k, charge_procs ?owner procs2 (ui_store ?ix) ! p)) (ui_byKey ?ix)"
    using assms(1) by (simp add: attribute_def index_slices_fold Let_def)
  then have "map_of usage (slice_key s) = Some (charge_procs ?owner procs2 (ui_store ?ix) ! i)"
    by (simp add: map_of_deref key)
  moreover have "i < length (ui_store ?ix)" using i by (simp add: index_store no_usage_def)
  moreover have "in_i64 (su_used (ui_store ?ix ! i))" by (simp add: st usage0_def in_i64_def)
  ultimately show ?thesis
    using charge_procs_at [of i "ui_store ?ix" ?owner procs2] unfolding own owner st
    by (auto simp: usage0_def)
qed

section \<open>Cgroup paths\<close>

lemma split_at_line:
  "sep \<notin> set l \<Longrightarrow> split_at sep (l @ sep # r) acc = (rev acc @ l) # split_at sep r []"
  "sep \<notin> set l \<Longrightarrow> split_at sep l acc = [rev acc @ l]"
  by (induction l arbitrary: acc) auto

lemma after_last_colon: "CHR '':'' \<notin> set p \<Longrightarrow> after_last (CHR '':'') (h @ CHR '':'' # p) = p"
proof -
  assume "CHR '':'' \<notin> set p"
  then have "takeWhile (\<lambda>c. c \<noteq> CHR '':'') (rev p @ CHR '':'' # rev h) = rev p"
    by (subst takeWhile_append2) auto
  then show ?thesis by (simp add: after_last_def)
qed

lemma find_uid_skip:
  assumes "\<forall>k<length pre. \<not> uid_here (drop k (pre @ s))"
  shows "find_uid (pre @ s) = find_uid s"
  using assms
proof (induction pre)
  case (Cons c pre)
  have "\<not> uid_here (c # pre @ s)" using Cons.prems by (metis append_Cons drop0 length_greater_0_conv list.distinct(1))
  moreover have "\<forall>k<length pre. \<not> uid_here (drop k (pre @ s))" using Cons.prems by fastforce
  ultimately show ?case using Cons.IH by simp
qed simp

definition underscored :: "string \<Rightarrow> string" where
  "underscored u = map (\<lambda>c. if c = CHR ''-'' then CHR ''_'' else c) u"

definition pod_uid :: "string \<Rightarrow> bool" where
  "pod_uid u \<longleftrightarrow> list_all2 (\<lambda>p c. p c) uid_pattern u \<and> CHR ''_'' \<notin> set u"

lemma pattern_length: "length uid_pattern = 36"
  by (simp add: uid_pattern_def)

lemma pattern_underscored:
  "list_all2 (\<lambda>p c. p c) uid_pattern u \<Longrightarrow> list_all2 (\<lambda>p c. p c) uid_pattern (underscored u)"
proof -
  have hex: "\<not> is_hex CHR ''-''" by (simp add: is_hex_def)
  have "\<forall>p\<in>set uid_pattern. p = is_hex \<or> p = is_dash" by (auto simp: uid_pattern_def)
  then show "list_all2 (\<lambda>p c. p c) uid_pattern u \<Longrightarrow> ?thesis"
    unfolding underscored_def list_all2_map2
    by (erule_tac list.rel_mono_strong) (auto simp: hex is_dash_def)
qed

lemma find_uid_here:
  assumes "list_all2 (\<lambda>p c. p c) uid_pattern v"
  shows "find_uid (''pod'' @ v @ post) = Some v"
proof -
  have "length v = 36" using list_all2_lengthD [OF assms] by (simp add: pattern_length)
  then show ?thesis using assms by (simp add: uid_here_def)
qed

lemma first_uid_skip:
  "\<forall>l\<in>set ls. find_uid (after_last (CHR '':'') l) = None \<Longrightarrow> first_uid (ls @ ms) = first_uid ms"
  by (induction ls) auto

lemma split_lines:
  "\<forall>l\<in>set ls. newline \<notin> set l \<Longrightarrow>
    split_at newline (concat (map (\<lambda>l. l @ [newline]) ls) @ r) [] = ls @ split_at newline r []"
  by (induction ls) (auto simp: split_at_line)

text \<open>
  The pod of a process is read back from its cgroup file, whatever the cgroup version and driver: when
  the file names the pod in one line's path, with the dashes of the UID kept or replaced by underscores, and
  in no earlier line or place, the result is the canonical UID.
\<close>

theorem pod_uid_read_back:
  assumes "\<forall>l\<in>set ls. newline \<notin> set l \<and> find_uid (after_last (CHR '':'') l) = None"
    and "pod_uid u" and "v = u \<or> v = underscored u"
    and "newline \<notin> set (hier @ pre @ post)" and "CHR '':'' \<notin> set (pre @ post)"
    and "\<forall>k<length pre. \<not> uid_here (drop k (pre @ ''pod'' @ v @ post))"
  shows "parsePodUIDFromCgroup (concat (map (\<lambda>l. l @ [newline]) ls) @ hier @ '':'' @ pre @ ''pod'' @ v @ post @ newline # rest) = u"
proof -
  have u: "list_all2 (\<lambda>p c. p c) uid_pattern u" "CHR ''_'' \<notin> set u" using assms(2) by (simp_all add: pod_uid_def)
  have v: "list_all2 (\<lambda>p c. p c) uid_pattern v" using assms(3) u(1) pattern_underscored by auto
  have "\<forall>c\<in>set v. is_hex c \<or> is_dash c"
  proof -
    have "\<forall>p\<in>set uid_pattern. p = is_hex \<or> p = is_dash" by (auto simp: uid_pattern_def)
    then show ?thesis using v by (force simp: list_all2_conv_all_nth in_set_conv_nth)
  qed
  then have chars: "CHR '':'' \<notin> set v" "newline \<notin> set v" by (auto simp: is_hex_def is_dash_def newline_def)
  have nl: "newline \<notin> set (hier @ '':'' @ pre @ ''pod'' @ v @ post)" "CHR '':'' \<notin> set (pre @ ''pod'' @ v @ post)"
    using assms(4,5) chars by (auto simp: newline_def)
  let ?line = "hier @ '':'' @ pre @ ''pod'' @ v @ post"
  have "split_at newline (concat (map (\<lambda>l. l @ [newline]) ls) @ ?line @ newline # rest) []
      = ls @ ?line # split_at newline rest []"
    using assms(1) split_lines [of ls] split_at_line(1) [OF nl(1)] by simp
  moreover have "find_uid (after_last (CHR '':'') ?line) = Some v"
    using after_last_colon [OF nl(2), of hier] find_uid_skip [OF assms(6)] find_uid_here [OF v] by simp
  moreover have "map (\<lambda>c. if c = CHR ''_'' then CHR ''-'' else c) v = u"
    using assms(3) u(2) by (auto simp: underscored_def intro!: map_idI)
  ultimately show ?thesis
    using first_uid_skip [of ls] assms(1) by (simp add: parsePodUIDFromCgroup_def)
qed

definition a_uid :: string where
  "a_uid = ''0a1b2c3d-0123-4567-89ab-0123456789ab''"

lemma a_uid_ok: "pod_uid a_uid" "a_uid \<noteq> []"
  by (simp_all add: pod_uid_def uid_pattern_def a_uid_def is_hex_def is_dash_def eval_nat_numeral)

definition a_slice :: vgpu_slice where
  "a_slice = slice0\<lparr>sl_NodeName := ''n'', sl_Phase := ''Ready''\<rparr>"

definition a_pod :: live_pod where
  "a_pod = \<lparr>pd_Name = ''p'', pd_Namespace = ''ns'', pd_Labels = [], pd_Annotations = [(claimRefAnnotation, ''c'')],
     pd_DeletionTimestamp = None, pd_NodeName = ''n'', pd_RestartPolicy = [], pd_HostIPC = False, pd_HostPID = False,
     pd_HostNetwork = False, pd_Containers = [], pd_InitContainers = [], pd_HostPathVolumes = [], pd_Phase = ''Running'',
     lv_UID = a_uid\<rparr>"

definition a_process :: "int \<Rightarrow> gpu_process" where
  "a_process b = \<lparr>gp_PID = 1, gp_DeviceUUID = ''A'', gp_UsedMemoryBytes = b\<rparr>"

definition a_cgroup :: "int \<Rightarrow> string option" where
  "a_cgroup pid = (if pid = 1 then Some (''pod'' @ a_uid) else None)"

lemma a_cgroup_uid: "podUIDForPID a_cgroup 1 = Some a_uid"
  by code_simp

lemma a_slice_simps [simp]:
  "sl_NodeName a_slice = ''n''" "sl_Phase a_slice = ''Ready''" "sl_ClaimRef a_slice = ''c''" "sl_Namespace a_slice = ''ns''"
  "sl_Name a_slice = ''s''" "sl_RequestedVRAMBytes a_slice = 10"
  by (simp_all add: a_slice_def slice0_def)

lemma a_pod_simps [simp]:
  "pd_Namespace a_pod = ''ns''" "pd_Name a_pod = ''p''" "lv_UID a_pod = a_uid"
  "gget [] (pd_Annotations a_pod) claimRefAnnotation = ''c''"
  by (simp_all add: a_pod_def)

text \<open>The first snapshot shows the process with 3 bytes, the second with 7, beside one that is new.\<close>

theorem usage_is_confirmed_processes_witness:
  "\<exists>u. map_of (the (attribute ''n'' (Some [a_slice]) (Some [a_pod]) a_cgroup [a_process 3]
        (Some [a_process 7, (a_process 9)\<lparr>gp_DeviceUUID := ''B''\<rparr>]))) (slice_key a_slice) = Some u \<and>
     su_used u = 7 \<and> set (su_pods u) = {(''ns'', ''p'')}"
proof -
  let ?qs = "[a_process 7, (a_process 9)\<lparr>gp_DeviceUUID := ''B''\<rparr>]"
  have at: "attribute ''n'' (Some [a_slice]) (Some [a_pod]) a_cgroup [a_process 3] (Some ?qs)
      = Some (the (attribute ''n'' (Some [a_slice]) (Some [a_pod]) a_cgroup [a_process 3] (Some ?qs)))"
    by (simp add: attribute_def Let_def)
  have h: "holds_capacity ''n'' a_slice" by (simp add: holds_capacity_def)
  have r: "runs_for a_slice a_pod" by (simp add: runs_for_def)
  have p: "process_of a_cgroup [a_process 3] a_pod q \<longleftrightarrow> gp_PID q = 1 \<and> gp_DeviceUUID q = ''A''"
    if "gp_PID q = 1" for q using that a_uid_ok(2) a_cgroup_uid by (auto simp: process_of_def a_process_def)
  have ps: "process_of a_cgroup [a_process 3] a_pod (a_process 7)"
    "\<not> process_of a_cgroup [a_process 3] a_pod ((a_process 9)\<lparr>gp_DeviceUUID := ''B''\<rparr>)"
    by (subst p; simp add: a_process_def)+
  have b: "gp_UsedMemoryBytes (a_process 7) = 7" by (simp add: a_process_def)
  show ?thesis
    using usage_is_confirmed_processes [OF at _ _ _ h]
    by (simp add: r ps b i64_id) blast
qed

theorem pod_uid_read_back_witness:
  "parsePodUIDFromCgroup (''0::/kubepods.slice/kubepods-pod'' @ underscored a_uid @ ''.slice'' @ [newline]) = a_uid"
proof -
  let ?pre = "''/kubepods.slice/kubepods-''"
  have 2: "newline \<notin> set (''0:'' @ ?pre @ ''.slice'')" "CHR '':'' \<notin> set (?pre @ ''.slice'')"
    by (simp_all add: newline_def)
  have 3: "\<forall>k<length ?pre. \<not> uid_here (drop k (?pre @ ''pod'' @ underscored a_uid @ ''.slice''))"
    by code_simp
  show ?thesis
    using pod_uid_read_back [of "[]", OF _ a_uid_ok(1) disjI2 [OF refl] 2 3, of "[]"] by simp
qed

end
