(* ===== verification/Enforcement.thy ===== *)
theory Enforcement
  imports Attribution JobController
begin

text \<open>
  What the node agent does about over-use: the enforcement state machine of
  \<open>internal/nodeagent/enforcement.go\<close> (soft warning after a grace period, opt-in eviction after a longer
  one), the marks and the detection cycle of \<open>internal/nodeagent/slice_violation.go\<close>, and the running
  statistics of \<open>internal/nodeagent/profile_observer.go\<close>. What the API server answers to each call is an
  argument, indexed by the place in the code and the object; the clock is read once per cycle. The
  \<open>float64\<close> moving average is an argument too, a function of the samples. Events, metrics and log lines
  are left out.
\<close>

section \<open>Modes and constants\<close>

datatype enforcement_mode = EnforcementOff | EnforcementSoftWarn | EnforcementEvict

definition mode_String :: "enforcement_mode \<Rightarrow> string" where
  "mode_String m = (case m of EnforcementEvict \<Rightarrow> ''evict'' | EnforcementSoftWarn \<Rightarrow> ''softwarn'' | EnforcementOff \<Rightarrow> ''off'')"

definition ParseEnforcementMode :: "string \<Rightarrow> enforcement_mode" where
  "ParseEnforcementMode s =
    (let w = map lower_char (trim_space s) in
     if w \<in> {[], ''softwarn'', ''soft'', ''warn''} then EnforcementSoftWarn
     else if w \<in> {''off'', ''none'', ''disabled'', ''observe''} then EnforcementOff
     else if w \<in> {''evict'', ''evicting'', ''hard-evict''} then EnforcementEvict
     else EnforcementSoftWarn)"

definition enforcementGracePeriod :: int where "enforcementGracePeriod = 60 * second"
definition evictionGracePeriod :: int where "evictionGracePeriod = 120 * second"
definition maxEvictionsPerWindow :: nat where "maxEvictionsPerWindow = 3"
definition evictionWindow :: int where "evictionWindow = 300 * second"
definition enforcementExemptLabel :: string where
  "enforcementExemptLabel = ''infrastructure.pranav2910.com/enforcement-exempt''"

definition memoryViolationCondition :: string where "memoryViolationCondition = ''MemoryViolation''"
definition memoryEnforcementCondition :: string where "memoryEnforcementCondition = ''MemoryEnforcement''"
definition enforcementJobReason :: string where "enforcementJobReason = ''ChildSliceSoftWarn''"
definition enforcementJobReasonEvicted :: string where "enforcementJobReasonEvicted = ''ChildSliceEvicted''"

definition podViolationLabel :: string where "podViolationLabel = ''infrastructure.pranav2910.com/memory-violation''"
definition podEnforcementAnno :: string where "podEnforcementAnno = ''infrastructure.pranav2910.com/enforcement''"
definition podExcessBytesAnno :: string where "podExcessBytesAnno = ''infrastructure.pranav2910.com/memory-excess-bytes''"
definition podViolationSinceAnno :: string where "podViolationSinceAnno = ''infrastructure.pranav2910.com/violation-since''"
definition podDeadlineAnno :: string where "podDeadlineAnno = ''infrastructure.pranav2910.com/enforcement-deadline''"
definition podEnforcementNoteAnno :: string where "podEnforcementNoteAnno = ''infrastructure.pranav2910.com/enforcement-note''"
definition enforcementNote :: string where
  "enforcementNote = ''softwarn: warning only -- this pod is NOT evicted or throttled; enforcement-deadline is informational and marks when a future hard-enforcement mode (3.4d) would act''"

lemma pod_keys_distinct [simp]:
  "podEnforcementAnno \<noteq> podExcessBytesAnno" "podExcessBytesAnno \<noteq> podEnforcementAnno"
  "podEnforcementAnno \<noteq> podViolationSinceAnno" "podViolationSinceAnno \<noteq> podEnforcementAnno"
  "podEnforcementAnno \<noteq> podDeadlineAnno" "podDeadlineAnno \<noteq> podEnforcementAnno"
  "podEnforcementAnno \<noteq> podEnforcementNoteAnno" "podEnforcementNoteAnno \<noteq> podEnforcementAnno"
  "podExcessBytesAnno \<noteq> podViolationSinceAnno" "podViolationSinceAnno \<noteq> podExcessBytesAnno"
  "podExcessBytesAnno \<noteq> podDeadlineAnno" "podDeadlineAnno \<noteq> podExcessBytesAnno"
  "podExcessBytesAnno \<noteq> podEnforcementNoteAnno" "podEnforcementNoteAnno \<noteq> podExcessBytesAnno"
  "podViolationSinceAnno \<noteq> podDeadlineAnno" "podDeadlineAnno \<noteq> podViolationSinceAnno"
  "podViolationSinceAnno \<noteq> podEnforcementNoteAnno" "podEnforcementNoteAnno \<noteq> podViolationSinceAnno"
  "podDeadlineAnno \<noteq> podEnforcementNoteAnno" "podEnforcementNoteAnno \<noteq> podDeadlineAnno"
  by (simp_all add: podEnforcementAnno_def podExcessBytesAnno_def podViolationSinceAnno_def podDeadlineAnno_def
      podEnforcementNoteAnno_def)

section \<open>State, environment and effects\<close>

type_synonym object_name = "string \<times> string"

text \<open>The samples stand for \<open>ewma\<close>, the average over them.\<close>

record slice_stat =
  st_peak :: int
  st_samples :: "int list"
  st_lastObs :: int
  st_obsDelta :: int
  st_violDelta :: int
  st_warnDelta :: int
  st_evictDelta :: int
  st_flushedPeak :: int
  st_lastFlush :: int

record detector =
  dt_hyst :: hysteresis
  dt_violationStart :: "(string, int) gomap"
  dt_enforced :: "(string, bool) gomap"
  dt_stampedPods :: "(string, object_name list) gomap"
  dt_evictHandled :: "(string, string) gomap"
  dt_blockedNotified :: "(string, string) gomap"
  dt_evictionTimes :: "int list"
  dt_stats :: "(string, slice_stat) gomap"

definition new_detector :: detector where
  "new_detector = \<lparr>dt_hyst = no_hysteresis, dt_violationStart = [], dt_enforced = [], dt_stampedPods = [],
     dt_evictHandled = [], dt_blockedNotified = [], dt_evictionTimes = [], dt_stats = []\<rparr>"

text \<open>Where in the code a call is made; the audit of an eviction is made once per pod.\<close>

datatype site = AtMark | AtEngage | AtClear | AtAudit string | AtFlush

datatype evict_reply = Evicting | EvictNotFound | EvictTooManyRequests | EvictFailed

record agent_env =
  en_nodeName :: string
  en_mode :: enforcement_mode
  en_interval :: int
  en_now :: int
  en_procs :: "gpu_process list option"
  en_procs2 :: "gpu_process list option"
  en_slices :: "vgpu_slice list option"
  en_pods :: "live_pod list option"
  en_cgroup :: "int \<Rightarrow> string option"
  en_slice :: "site \<Rightarrow> object_name \<Rightarrow> observed_slice api_read"
  en_sliceWrite :: "site \<Rightarrow> object_name \<Rightarrow> bool"
  en_again :: "site \<Rightarrow> object_name \<Rightarrow> observed_slice api_read"
  en_claim :: "site \<Rightarrow> object_name \<Rightarrow> vgpu_claim api_read"
  en_job :: "site \<Rightarrow> object_name \<Rightarrow> vgpu_job api_read"
  en_jobWrite :: "site \<Rightarrow> object_name \<Rightarrow> bool"
  en_pod :: "string \<Rightarrow> object_name \<Rightarrow> pod api_read"
  en_patch :: "string \<Rightarrow> object_name \<Rightarrow> bool"
  en_namespace :: "object_name \<Rightarrow> (string, string) gomap api_read"
  en_evict :: "object_name \<Rightarrow> evict_reply"
  en_average :: "int list \<Rightarrow> int"

datatype agent_effect =
    SliceStatus observed_slice
  | JobStatus vgpu_job
  | PodPatched object_name pod
  | PodEvicted object_name

section \<open>Conditions\<close>

fun upsertNodeCondition :: "condition list \<Rightarrow> condition \<Rightarrow> condition list" where
  "upsertNodeCondition [] c = [c]"
| "upsertNodeCondition (d # ds) c =
    (if cd_Type d = cd_Type c
     then (if cd_Status d = cd_Status c then c\<lparr>cd_LastTransitionTime := cd_LastTransitionTime d\<rparr> else c) # ds
     else d # upsertNodeCondition ds c)"

definition condition_now :: "agent_env \<Rightarrow> string \<Rightarrow> bool \<Rightarrow> string \<Rightarrow> string \<Rightarrow> condition" where
  "condition_now env t on reason msg =
    \<lparr>cd_Type = t, cd_Status = (if on then ConditionTrue else ConditionFalse), cd_Reason = reason, cd_Message = msg,
     cd_LastTransitionTime = en_now env\<rparr>"

abbreviation name_of :: "slice_usage \<Rightarrow> object_name" where
  "name_of u \<equiv> (su_namespace u, su_name u)"

text \<open>Read the slice and write it with the condition; \<open>None\<close> when the read or the write failed.\<close>

definition put_slice_condition :: "agent_env \<Rightarrow> site \<Rightarrow> slice_usage \<Rightarrow> condition \<Rightarrow> observed_slice option" where
  "put_slice_condition env site u cond =
    (case en_slice env site (name_of u) of
       Found s \<Rightarrow>
         if en_sliceWrite env site (name_of u)
         then Some (s\<lparr>sl_Conditions := upsertNodeCondition (sl_Conditions s) cond\<rparr>) else None
     | _ \<Rightarrow> None)"

text \<open>The job of a slice's claim, written with the condition.\<close>

definition put_job_condition :: "agent_env \<Rightarrow> site \<Rightarrow> string \<Rightarrow> string \<Rightarrow> condition \<Rightarrow> agent_effect list" where
  "put_job_condition env site ns claimRef cond =
    (if claimRef = [] then []
     else case en_claim env site (ns, claimRef) of
       Found c \<Rightarrow>
         if cl_JobRef c = [] then []
         else (case en_job env site (ns, cl_JobRef c) of
           Found j \<Rightarrow>
             if en_jobWrite env site (ns, cl_JobRef c)
             then [JobStatus (j\<lparr>jb_Conditions := upsertNodeCondition (jb_Conditions j) cond\<rparr>)] else []
         | _ \<Rightarrow> [])
     | _ \<Rightarrow> [])"

definition mirrorToJob :: "agent_env \<Rightarrow> observed_slice \<Rightarrow> string \<Rightarrow> bool \<Rightarrow> agent_effect list" where
  "mirrorToJob env slice ns violating =
    put_job_condition env AtMark ns (sl_ClaimRef slice)
      (condition_now env memoryViolationCondition violating ''ChildSliceViolation''
        (if violating then ''One or more child slices are violating GPU memory policy (observe-only)''
         else ''No child slice is violating GPU memory policy''))"

definition violation_message :: "agent_env \<Rightarrow> int \<Rightarrow> bool \<Rightarrow> string" where
  "violation_message env excess violating =
    (if violating then ''Observed GPU memory usage exceeded allocated VRAM by '' @ FormatInt (mib excess) @ '' MiB for ~''
       @ FormatInt (i64 (overuseStreakThreshold * go_div (en_interval env) second)) @ ''s (observe-only, no eviction)''
     else ''GPU memory usage within granted VRAM'')"

definition mark :: "agent_env \<Rightarrow> slice_usage \<Rightarrow> int \<Rightarrow> bool \<Rightarrow> agent_effect list" where
  "mark env u excess violating =
    (case put_slice_condition env AtMark u (condition_now env memoryViolationCondition violating
             ''ObservedGpuMemoryOveruse'' (violation_message env excess violating)) of
       None \<Rightarrow> []
     | Some s \<Rightarrow> SliceStatus s # mirrorToJob env s (su_namespace u) violating)"

definition setSliceEnforcementCondition ::
  "agent_env \<Rightarrow> site \<Rightarrow> slice_usage \<Rightarrow> bool \<Rightarrow> string \<Rightarrow> string \<Rightarrow> agent_effect list" where
  "setSliceEnforcementCondition env site u on reason msg =
    (case put_slice_condition env site u (condition_now env memoryEnforcementCondition on reason msg) of
       None \<Rightarrow> [] | Some s \<Rightarrow> [SliceStatus s])"

text \<open>The slice is read again for its claim.\<close>

definition mirror_enforcement :: "agent_env \<Rightarrow> site \<Rightarrow> slice_usage \<Rightarrow> bool \<Rightarrow> string \<Rightarrow> string \<Rightarrow> agent_effect list" where
  "mirror_enforcement env site u on reason msg =
    (case en_again env site (name_of u) of
       Found s \<Rightarrow> put_job_condition env site (su_namespace u) (sl_ClaimRef s)
                   (condition_now env memoryEnforcementCondition on reason msg)
     | _ \<Rightarrow> [])"

definition mirrorEnforcementToJob :: "agent_env \<Rightarrow> site \<Rightarrow> slice_usage \<Rightarrow> bool \<Rightarrow> agent_effect list" where
  "mirrorEnforcementToJob env site u engaged =
    mirror_enforcement env site u engaged enforcementJobReason
      (if engaged then ''A child slice is under soft enforcement (mode='' @ mode_String (en_mode env) @ '', warn-only -- no eviction)''
       else ''No child slice is under soft enforcement'')"

definition mirrorEvictionToJob :: "agent_env \<Rightarrow> string \<Rightarrow> slice_usage \<Rightarrow> agent_effect list" where
  "mirrorEvictionToJob env podK u =
    mirror_enforcement env (AtAudit podK) u True enforcementJobReasonEvicted
      ''A child slice's pod was evicted for sustained GPU memory over-use (policy=evict)''"

section \<open>Pod stamps\<close>

definition stamp_pod :: "int \<Rightarrow> int \<Rightarrow> int \<Rightarrow> pod \<Rightarrow> pod" where
  "stamp_pod excess since deadline p = p
    \<lparr>pd_Labels := gput podViolationLabel ''true'' (pd_Labels p),
     pd_Annotations := gput podEnforcementNoteAnno enforcementNote
       (gput podDeadlineAnno (RFC3339 deadline)
         (gput podViolationSinceAnno (RFC3339 since)
           (gput podExcessBytesAnno (FormatInt excess)
             (gput podEnforcementAnno ''SoftWarn'' (pd_Annotations p)))))\<rparr>"

definition stamped :: "pod \<Rightarrow> bool" where
  "stamped p \<longleftrightarrow> \<not> (gget [] (pd_Labels p) podViolationLabel = [] \<and> gget [] (pd_Annotations p) podEnforcementAnno = [])"

definition unstamp_pod :: "pod \<Rightarrow> pod" where
  "unstamp_pod p = p
    \<lparr>pd_Labels := gdel podViolationLabel (pd_Labels p),
     pd_Annotations := gdel podEnforcementNoteAnno (gdel podDeadlineAnno (gdel podViolationSinceAnno
       (gdel podExcessBytesAnno (gdel podEnforcementAnno (pd_Annotations p)))))\<rparr>"

definition stampPod :: "agent_env \<Rightarrow> string \<Rightarrow> int \<Rightarrow> int \<Rightarrow> int \<Rightarrow> object_name \<Rightarrow> agent_effect list" where
  "stampPod env key excess since deadline nn =
    (case en_pod env key nn of
       Found p \<Rightarrow> if en_patch env key nn then [PodPatched nn (stamp_pod excess since deadline p)] else []
     | _ \<Rightarrow> [])"

definition unstampPod :: "agent_env \<Rightarrow> string \<Rightarrow> object_name \<Rightarrow> agent_effect list" where
  "unstampPod env key nn =
    (case en_pod env key nn of
       Found p \<Rightarrow> if stamped p \<and> en_patch env key nn then [PodPatched nn (unstamp_pod p)] else []
     | _ \<Rightarrow> [])"

section \<open>Running statistics\<close>

definition new_stat :: "int \<Rightarrow> slice_stat" where
  "new_stat now = \<lparr>st_peak = 0, st_samples = [], st_lastObs = 0, st_obsDelta = 0, st_violDelta = 0, st_warnDelta = 0,
     st_evictDelta = 0, st_flushedPeak = 0, st_lastFlush = now\<rparr>"

definition statFor :: "int \<Rightarrow> string \<Rightarrow> (string, slice_stat) gomap \<Rightarrow> slice_stat" where
  "statFor now key m = gget (new_stat now) m key"

definition on_stat :: "int \<Rightarrow> string \<Rightarrow> (slice_stat \<Rightarrow> slice_stat) \<Rightarrow> detector \<Rightarrow> detector" where
  "on_stat now key f d = d\<lparr>dt_stats := gput key (f (statFor now key (dt_stats d))) (dt_stats d)\<rparr>"

definition profileOnViolation :: "int \<Rightarrow> string \<Rightarrow> detector \<Rightarrow> detector" where
  "profileOnViolation now key = on_stat now key (\<lambda>st. st\<lparr>st_violDelta := i64 (st_violDelta st + 1)\<rparr>)"

definition profileOnSoftWarn :: "int \<Rightarrow> string \<Rightarrow> detector \<Rightarrow> detector" where
  "profileOnSoftWarn now key = on_stat now key (\<lambda>st. st\<lparr>st_warnDelta := i64 (st_warnDelta st + 1)\<rparr>)"

definition profileOnEviction :: "int \<Rightarrow> string \<Rightarrow> detector \<Rightarrow> detector" where
  "profileOnEviction now key = on_stat now key (\<lambda>st. st\<lparr>st_evictDelta := i64 (st_evictDelta st + 1)\<rparr>)"

definition profileFlushInterval :: int where "profileFlushInterval = 120 * second"

definition sample :: "int \<Rightarrow> slice_stat \<Rightarrow> slice_stat" where
  "sample used st = st
    \<lparr>st_peak := (if used > st_peak st then used else st_peak st), st_samples := st_samples st @ [used],
     st_lastObs := used, st_obsDelta := i64 (st_obsDelta st + 1)\<rparr>"

definition flush_status :: "(int list \<Rightarrow> int) \<Rightarrow> slice_stat \<Rightarrow> observed_slice \<Rightarrow> observed_slice" where
  "flush_status average st s = s
    \<lparr>os_Peak := (if st_peak st > os_Peak s then st_peak st else os_Peak s),
     os_Avg := average (st_samples st),
     os_Observations := i64 (os_Observations s + st_obsDelta st),
     os_ViolationCount := i64 (os_ViolationCount s + st_violDelta st),
     os_SoftWarnCount := i64 (os_SoftWarnCount s + st_warnDelta st),
     os_EvictionCount := i64 (os_EvictionCount s + st_evictDelta st)\<rparr>"

definition flushed :: "int \<Rightarrow> slice_stat \<Rightarrow> slice_stat" where
  "flushed now st = st\<lparr>st_obsDelta := 0, st_violDelta := 0, st_warnDelta := 0, st_evictDelta := 0,
     st_flushedPeak := st_peak st, st_lastFlush := now\<rparr>"

text \<open>The statistics after the flush, and the slice that was written.\<close>

definition flushProfile :: "agent_env \<Rightarrow> slice_usage \<Rightarrow> slice_stat \<Rightarrow> slice_stat \<times> observed_slice option" where
  "flushProfile env u st =
    (case en_slice env AtFlush (name_of u) of
       Found s \<Rightarrow>
         if en_sliceWrite env AtFlush (name_of u)
         then (flushed (en_now env) st, Some (flush_status (en_average env) st s)) else (st, None)
     | _ \<Rightarrow> (st, None))"

definition observe_stat :: "agent_env \<Rightarrow> slice_usage \<Rightarrow> slice_stat \<Rightarrow> slice_stat \<times> observed_slice option" where
  "observe_stat env u st0 =
    (let st = sample (su_used u) st0 in
     if st_peak st > st_flushedPeak st \<or> en_now env - st_lastFlush st \<ge> profileFlushInterval
     then flushProfile env u st else (st, None))"

definition observeProfile :: "agent_env \<Rightarrow> slice_usage \<Rightarrow> detector \<Rightarrow> detector \<times> agent_effect list" where
  "observeProfile env u d =
    (let key = slash (su_namespace u) (su_name u);
         (st, written) = observe_stat env u (statFor (en_now env) key (dt_stats d))
     in (d\<lparr>dt_stats := gput key st (dt_stats d)\<rparr>, case written of None \<Rightarrow> [] | Some s \<Rightarrow> [SliceStatus s]))"

section \<open>Eviction\<close>

definition isExempt :: "agent_env \<Rightarrow> object_name \<Rightarrow> bool" where
  "isExempt env nn =
    (case en_namespace env nn of
       Found labels \<Rightarrow> gget [] labels enforcementExemptLabel = ''true''
     | NotFound \<Rightarrow> False
     | ReadErr \<Rightarrow> True)"

definition evictionAllowed :: "int \<Rightarrow> detector \<Rightarrow> bool \<times> detector" where
  "evictionAllowed now d =
    (let kept = filter (\<lambda>t. t > now - evictionWindow) (dt_evictionTimes d)
     in (length kept < maxEvictionsPerWindow, d\<lparr>dt_evictionTimes := kept\<rparr>))"

definition notifyBlocked :: "object_name \<Rightarrow> string \<Rightarrow> detector \<Rightarrow> detector" where
  "notifyBlocked nn reason d =
    (let podK = slash (fst nn) (snd nn) in
     if gget [] (dt_blockedNotified d) podK = reason then d
     else d\<lparr>dt_blockedNotified := gput podK reason (dt_blockedNotified d)\<rparr>)"

definition recordEvictionAudit :: "agent_env \<Rightarrow> slice_usage \<Rightarrow> object_name \<Rightarrow> int \<Rightarrow> agent_effect list" where
  "recordEvictionAudit env u nn excess =
    (let podK = slash (fst nn) (snd nn) in
     setSliceEnforcementCondition env (AtAudit podK) u True ''Evicted''
       (''Evicted pod '' @ snd nn @ '' for sustained GPU VRAM over-use ('' @ FormatInt (mib excess)
          @ '' MiB over grant) past the enforcement deadline -- reclaiming VRAM (policy=evict, PDB-respecting)'')
     @ mirrorEvictionToJob env podK u)"

definition evict_one :: "agent_env \<Rightarrow> slice_usage \<Rightarrow> int \<Rightarrow> object_name \<Rightarrow> detector \<Rightarrow> detector \<times> agent_effect list" where
  "evict_one env u excess nn d =
    (let podK = slash (fst nn) (snd nn) in
     if ghas (dt_evictHandled d) podK then (d, [])
     else if isExempt env nn then (notifyBlocked nn ''exempt'' d, [])
     else case evictionAllowed (en_now env) d of (allowed, d1) \<Rightarrow>
       if \<not> allowed then (notifyBlocked nn ''ratelimited'' d1, [])
       else case en_evict env nn of
         EvictNotFound \<Rightarrow> (d1\<lparr>dt_evictHandled := gput podK ''evicted'' (dt_evictHandled d1)\<rparr>, [])
       | EvictTooManyRequests \<Rightarrow> (notifyBlocked nn ''pdb'' d1, [])
       | EvictFailed \<Rightarrow> (d1, [])
       | Evicting \<Rightarrow>
           (profileOnEviction (en_now env) (slash (su_namespace u) (su_name u))
              (d1\<lparr>dt_evictHandled := gput podK ''evicted'' (dt_evictHandled d1),
                  dt_blockedNotified := gdel podK (dt_blockedNotified d1),
                  dt_evictionTimes := dt_evictionTimes d1 @ [en_now env]\<rparr>),
            PodEvicted nn # recordEvictionAudit env u nn excess))"

fun maybeEvict ::
  "agent_env \<Rightarrow> slice_usage \<Rightarrow> int \<Rightarrow> object_name list \<Rightarrow> detector \<Rightarrow> detector \<times> agent_effect list" where
  "maybeEvict env u excess [] d = (d, [])"
| "maybeEvict env u excess (nn # nns) d =
    (let (d1, e1) = evict_one env u excess nn d; (d2, e2) = maybeEvict env u excess nns d1 in (d2, e1 @ e2))"

section \<open>The state machine\<close>

definition engage_message :: "agent_env \<Rightarrow> int \<Rightarrow> int \<Rightarrow> string" where
  "engage_message env excess deadline =
    ''Soft enforcement engaged (warn-only, mode='' @ mode_String (en_mode env) @ ''): slice exceeded its VRAM grant by ''
    @ FormatInt (mib excess) @ '' MiB for over '' @ FormatInt (go_div enforcementGracePeriod second)
    @ ''s. The pod is labeled/annotated and is NOT evicted or throttled. enforcement-deadline='' @ RFC3339 deadline
    @ '' is informational (when a future hard mode would act).''"

definition engageSoftWarn ::
  "agent_env \<Rightarrow> slice_usage \<Rightarrow> int \<Rightarrow> int \<Rightarrow> int \<Rightarrow> object_name list \<Rightarrow> agent_effect list" where
  "engageSoftWarn env u excess since deadline pods =
    setSliceEnforcementCondition env AtEngage u True ''SoftWarnEngaged'' (engage_message env excess deadline)
    @ mirrorEnforcementToJob env AtEngage u True
    @ concat (map (stampPod env (slash (su_namespace u) (su_name u)) excess since deadline) pods)"

definition clearEnforcement :: "agent_env \<Rightarrow> slice_usage \<Rightarrow> string \<Rightarrow> detector \<Rightarrow> detector \<times> agent_effect list" where
  "clearEnforcement env u key d =
    (d\<lparr>dt_enforced := gdel key (dt_enforced d), dt_stampedPods := gdel key (dt_stampedPods d)\<rparr>,
     concat (map (unstampPod env key) (gget [] (dt_stampedPods d) key))
     @ setSliceEnforcementCondition env AtClear u False ''WithinGrant''
         ''GPU memory returned within grant; soft-enforcement surfaces cleared''
     @ mirrorEnforcementToJob env AtClear u False)"

definition cleanupEnforcement :: "agent_env \<Rightarrow> string \<Rightarrow> detector \<Rightarrow> detector \<times> agent_effect list" where
  "cleanupEnforcement env key d =
    (d\<lparr>dt_enforced := gdel key (dt_enforced d), dt_violationStart := gdel key (dt_violationStart d),
       dt_stampedPods := gdel key (dt_stampedPods d)\<rparr>,
     if gget False (dt_enforced d) key then concat (map (unstampPod env key) (gget [] (dt_stampedPods d) key)) else [])"

definition start_timer :: "int \<Rightarrow> string \<Rightarrow> detector \<Rightarrow> detector" where
  "start_timer now key d =
    (if ghas (dt_violationStart d) key then d else d\<lparr>dt_violationStart := gput key now (dt_violationStart d)\<rparr>)"

definition engage_once :: "agent_env \<Rightarrow> slice_usage \<Rightarrow> int \<Rightarrow> int \<Rightarrow> detector \<Rightarrow> detector \<times> agent_effect list" where
  "engage_once env u excess start d =
    (let key = slash (su_namespace u) (su_name u) in
     if gget False (dt_enforced d) key then (d, [])
     else (profileOnSoftWarn (en_now env) key
             (d\<lparr>dt_enforced := gput key True (dt_enforced d), dt_stampedPods := gput key (su_pods u) (dt_stampedPods d)\<rparr>),
           engageSoftWarn env u excess start (start + (enforcementGracePeriod + evictionGracePeriod)) (su_pods u)))"

definition reclaim :: "agent_env \<Rightarrow> slice_usage \<Rightarrow> int \<Rightarrow> int \<Rightarrow> detector \<Rightarrow> detector \<times> agent_effect list" where
  "reclaim env u excess start d =
    (if en_mode env = EnforcementEvict \<and> \<not> en_now env < start + (enforcementGracePeriod + evictionGracePeriod)
     then maybeEvict env u excess (su_pods u) d else (d, []))"

definition enforce_violating :: "agent_env \<Rightarrow> slice_usage \<Rightarrow> int \<Rightarrow> detector \<Rightarrow> detector \<times> agent_effect list" where
  "enforce_violating env u excess d =
    (let key = slash (su_namespace u) (su_name u);
         start = gget (en_now env) (dt_violationStart d) key;
         d1 = start_timer (en_now env) key d
     in if en_now env < start + enforcementGracePeriod then (d1, [])
        else let (d2, e2) = engage_once env u excess start d1;
                 (d3, e3) = reclaim env u excess start d2
             in (d3, e2 @ e3))"

definition enforce :: "agent_env \<Rightarrow> slice_usage \<Rightarrow> int \<Rightarrow> bool \<Rightarrow> detector \<Rightarrow> detector \<times> agent_effect list" where
  "enforce env u excess violating d =
    (if en_mode env = EnforcementOff then (d, [])
     else if violating then enforce_violating env u excess d
     else let key = slash (su_namespace u) (su_name u);
              (d1, e1) = (if gget False (dt_enforced d) key then clearEnforcement env u key d else (d, []))
          in (d1\<lparr>dt_violationStart := gdel key (dt_violationStart d1)\<rparr>, e1))"

section \<open>The detection cycle\<close>

definition detect_slice :: "agent_env \<Rightarrow> string \<times> slice_usage \<Rightarrow> detector \<Rightarrow> detector \<times> agent_effect list" where
  "detect_slice env ku d =
    (let (key, u) = ku;
         (v, h) = evaluate key (su_used u) (su_grant u) (dt_hyst d);
         d1 = d\<lparr>dt_hyst := h\<rparr>;
         d2 = (if vd_onset v then profileOnViolation (en_now env) key d1 else d1);
         e2 = (if vd_onset v then mark env u (vd_excess v) True else if vd_cleared v then mark env u 0 False else []);
         (d3, e3) = enforce env u (vd_excess v) (vd_violating v) d2;
         (d4, e4) = observeProfile env u d3
     in (d4, e2 @ e3 @ e4))"

fun detect_slices :: "agent_env \<Rightarrow> (string, slice_usage) gomap \<Rightarrow> detector \<Rightarrow> detector \<times> agent_effect list" where
  "detect_slices env [] d = (d, [])"
| "detect_slices env (ku # kus) d =
    (let (d1, e1) = detect_slice env ku d; (d2, e2) = detect_slices env kus d1 in (d2, e1 @ e2))"

definition keep_keys :: "string set \<Rightarrow> (string, 'v) gomap \<Rightarrow> (string, 'v) gomap" where
  "keep_keys ks m = filter (\<lambda>kv. fst kv \<in> ks) m"

fun cleanup_all :: "agent_env \<Rightarrow> string list \<Rightarrow> detector \<Rightarrow> detector \<times> agent_effect list" where
  "cleanup_all env [] d = (d, [])"
| "cleanup_all env (k # ks) d =
    (let (d1, e1) = cleanupEnforcement env k d; (d2, e2) = cleanup_all env ks d1 in (d2, e1 @ e2))"

text \<open>As in the code, a streak goes with the entry of its slice in \<open>active\<close>.\<close>

definition prune :: "agent_env \<Rightarrow> (string, slice_usage) gomap \<Rightarrow> detector \<Rightarrow> detector \<times> agent_effect list" where
  "prune env usage d =
    (let seen = set (map fst usage);
         seenPods = set (concat (map (\<lambda>(k, u). map (\<lambda>nn. slash (fst nn) (snd nn)) (su_pods u)) usage));
         h = dt_hyst d;
         d1 = d\<lparr>dt_hyst := \<lparr>hy_streak = filter (\<lambda>kv. fst kv \<in> seen \<or> \<not> ghas (hy_active h) (fst kv)) (hy_streak h),
                             hy_active = keep_keys seen (hy_active h)\<rparr>\<rparr>;
         (d2, e) = cleanup_all env (filter (\<lambda>k. k \<notin> seen) (map fst (dt_enforced d1))) d1
     in (d2\<lparr>dt_violationStart := keep_keys seen (dt_violationStart d2),
            dt_evictHandled := keep_keys seenPods (dt_evictHandled d2),
            dt_blockedNotified := keep_keys seenPods (dt_blockedNotified d2),
            dt_stats := keep_keys seen (dt_stats d2)\<rparr>, e))"

text \<open>A cycle: whether it failed, the state after it and what it wrote.\<close>

definition detectOnce :: "agent_env \<Rightarrow> detector \<Rightarrow> bool \<times> detector \<times> agent_effect list" where
  "detectOnce env d =
    (case en_procs env of
       None \<Rightarrow> (False, d, [])
     | Some procs \<Rightarrow>
         (case attribute (en_nodeName env) (en_slices env) (en_pods env) (en_cgroup env) procs (en_procs2 env) of
            None \<Rightarrow> (True, d, [])
          | Some usage \<Rightarrow>
              (let (d1, e1) = detect_slices env usage d; (d2, e2) = prune env usage d1 in (False, d2, e1 @ e2))))"

text \<open>The stamps a previous run of the agent left, removed at the start from the pods that carry the label.\<close>

definition sweepOrphanStamps :: "agent_env \<Rightarrow> pod list option \<Rightarrow> agent_effect list" where
  "sweepOrphanStamps env pods =
    (if en_mode env = EnforcementOff then []
     else case pods of
       None \<Rightarrow> []
     | Some ps \<Rightarrow> concat (map (\<lambda>p. if pd_NodeName p \<noteq> en_nodeName env then []
                                     else unstampPod env [] (pd_Namespace p, pd_Name p)) ps))"

end
