(* ===== verification/EnforcementProps.thy ===== *)
theory EnforcementProps
  imports Enforcement
begin

text \<open>
  Lemmas and properties of \<open>Enforcement\<close>: when a pod is evicted and how often, what a recovery undoes, and
  that no sample of the running statistics is lost.
\<close>

section \<open>Frames\<close>

definition evictions :: "agent_effect list \<Rightarrow> nat" where
  "evictions eff = length (filter (\<lambda>e. case e of PodEvicted _ \<Rightarrow> True | _ \<Rightarrow> False) eff)"

lemma evictions_simps [simp]:
  "evictions [] = 0" "evictions (PodEvicted nn # e) = Suc (evictions e)" "evictions (SliceStatus s # e) = evictions e"
  "evictions (JobStatus j # e) = evictions e" "evictions (PodPatched nn p # e) = evictions e"
  "evictions (e1 @ e2) = evictions e1 + evictions e2"
  by (simp_all add: evictions_def)

lemma evictions_mem: "evictions eff = 0 \<longleftrightarrow> (\<forall>nn. PodEvicted nn \<notin> set eff)"
  by (induction eff) (auto simp: evictions_def split: agent_effect.splits)

lemma put_job_condition_quiet [simp]: "evictions (put_job_condition env site ns c cond) = 0"
  by (simp add: put_job_condition_def split: api_read.split)

lemma mirror_quiet [simp]:
  "evictions (mirror_enforcement env site u on reason msg) = 0" "evictions (mirrorEnforcementToJob env site u e) = 0"
  "evictions (mirrorEvictionToJob env podK u) = 0"
  "evictions (setSliceEnforcementCondition env site u on reason msg) = 0"
  "evictions (mark env u excess v) = 0" "evictions (recordEvictionAudit env u nn excess) = 0"
  by (simp_all add: mirror_enforcement_def mirrorEnforcementToJob_def mirrorEvictionToJob_def mirrorToJob_def
      setSliceEnforcementCondition_def mark_def recordEvictionAudit_def Let_def split: api_read.split option.split)

lemma stamps_quiet [simp]:
  "evictions (concat (map (stampPod env key excess since deadline) nns)) = 0"
  "evictions (concat (map (unstampPod env key) nns)) = 0"
  by (induction nns) (simp_all add: stampPod_def unstampPod_def split: api_read.split)

lemma engage_quiet [simp]: "evictions (engageSoftWarn env u excess since deadline pods) = 0"
  "evictions (snd (clearEnforcement env u key d)) = 0" "evictions (snd (cleanupEnforcement env key d)) = 0"
  "evictions (snd (observeProfile env u d)) = 0"
  by (simp_all add: engageSoftWarn_def clearEnforcement_def cleanupEnforcement_def observeProfile_def Let_def case_prod_beta
      split: option.split)

lemma cleanup_all_quiet [simp]: "evictions (snd (cleanup_all env ks d)) = 0"
  by (induction ks arbitrary: d) (simp_all add: case_prod_beta Let_def)

lemma prune_quiet [simp]: "evictions (snd (prune env usage d)) = 0"
  by (simp add: prune_def Let_def case_prod_beta)

lemma on_stat_frame [simp]:
  "dt_hyst (on_stat now key f d) = dt_hyst d" "dt_violationStart (on_stat now key f d) = dt_violationStart d"
  "dt_enforced (on_stat now key f d) = dt_enforced d" "dt_stampedPods (on_stat now key f d) = dt_stampedPods d"
  "dt_evictHandled (on_stat now key f d) = dt_evictHandled d"
  "dt_blockedNotified (on_stat now key f d) = dt_blockedNotified d"
  "dt_evictionTimes (on_stat now key f d) = dt_evictionTimes d"
  by (simp_all add: on_stat_def)

lemma profile_frame [simp]:
  "dt_violationStart (profileOnViolation now key d) = dt_violationStart d"
  "dt_violationStart (profileOnSoftWarn now key d) = dt_violationStart d"
  "dt_violationStart (profileOnEviction now key d) = dt_violationStart d"
  "dt_hyst (profileOnViolation now key d) = dt_hyst d"
  "dt_hyst (profileOnSoftWarn now key d) = dt_hyst d"
  "dt_hyst (profileOnEviction now key d) = dt_hyst d"
  "dt_enforced (profileOnViolation now key d) = dt_enforced d"
  "dt_enforced (profileOnSoftWarn now key d) = dt_enforced d"
  "dt_enforced (profileOnEviction now key d) = dt_enforced d"
  "dt_stampedPods (profileOnViolation now key d) = dt_stampedPods d"
  "dt_stampedPods (profileOnEviction now key d) = dt_stampedPods d"
  "dt_evictHandled (profileOnViolation now key d) = dt_evictHandled d"
  "dt_evictHandled (profileOnSoftWarn now key d) = dt_evictHandled d"
  "dt_evictHandled (profileOnEviction now key d) = dt_evictHandled d"
  "dt_evictionTimes (profileOnViolation now key d) = dt_evictionTimes d"
  "dt_evictionTimes (profileOnSoftWarn now key d) = dt_evictionTimes d"
  "dt_evictionTimes (profileOnEviction now key d) = dt_evictionTimes d"
  by (auto simp: profileOnViolation_def profileOnSoftWarn_def profileOnEviction_def)

lemma notifyBlocked_frame [simp]:
  "dt_hyst (notifyBlocked nn r d) = dt_hyst d" "dt_violationStart (notifyBlocked nn r d) = dt_violationStart d"
  "dt_enforced (notifyBlocked nn r d) = dt_enforced d" "dt_stampedPods (notifyBlocked nn r d) = dt_stampedPods d"
  "dt_evictHandled (notifyBlocked nn r d) = dt_evictHandled d" "dt_evictionTimes (notifyBlocked nn r d) = dt_evictionTimes d"
  "dt_stats (notifyBlocked nn r d) = dt_stats d"
  by (simp_all add: notifyBlocked_def Let_def)

text \<open>One pod: what stays, and what an eviction presupposes.\<close>

lemma evict_one_frame:
  assumes "evict_one env u excess nn d = (d', e)"
  shows "dt_hyst d' = dt_hyst d" "dt_violationStart d' = dt_violationStart d" "dt_enforced d' = dt_enforced d"
    "dt_stampedPods d' = dt_stampedPods d" "ghas (dt_evictHandled d) k \<Longrightarrow> ghas (dt_evictHandled d') k"
  using assms by (auto simp: evict_one_def evictionAllowed_def Let_def split: if_splits evict_reply.splits)

lemma evict_one_effect:
  assumes "evict_one env u excess nn d = (d', e)"
  shows "evictions e = 0 \<and> filter (\<lambda>t. t > en_now env - evictionWindow) (dt_evictionTimes d') =
        filter (\<lambda>t. t > en_now env - evictionWindow) (dt_evictionTimes d) \<or>
    evictions e = 1 \<and> \<not> isExempt env nn \<and> \<not> ghas (dt_evictHandled d) (slash (fst nn) (snd nn)) \<and>
      (\<forall>m. PodEvicted m \<in> set e \<longrightarrow> m = nn) \<and>
      filter (\<lambda>t. t > en_now env - evictionWindow) (dt_evictionTimes d') =
        filter (\<lambda>t. t > en_now env - evictionWindow) (dt_evictionTimes d) @ [en_now env] \<and>
      length (filter (\<lambda>t. t > en_now env - evictionWindow) (dt_evictionTimes d')) \<le> maxEvictionsPerWindow"
proof -
  have w: "en_now env - evictionWindow < en_now env" by (simp add: evictionWindow_def second_def)
  have q: "PodEvicted m \<notin> set (recordEvictionAudit env u nn excess)" for m
    using mirror_quiet(6) evictions_mem by blast
  show ?thesis
    using assms w q
    by (auto simp: evict_one_def evictionAllowed_def Let_def split: if_splits evict_reply.splits)
qed

abbreviation recent :: "int \<Rightarrow> int list \<Rightarrow> int list" where
  "recent now ts \<equiv> filter (\<lambda>t. t > now - evictionWindow) ts"

lemma maybeEvict_frame:
  assumes "maybeEvict env u excess nns d = (d', e)"
  shows "dt_hyst d' = dt_hyst d \<and> dt_violationStart d' = dt_violationStart d \<and> dt_enforced d' = dt_enforced d \<and>
    dt_stampedPods d' = dt_stampedPods d \<and> (\<forall>k. ghas (dt_evictHandled d) k \<longrightarrow> ghas (dt_evictHandled d') k)"
  using assms
proof (induction nns arbitrary: d e)
  case (Cons nn nns)
  obtain d1 e1 where 1: "evict_one env u excess nn d = (d1, e1)" by (cases "evict_one env u excess nn d")
  obtain e2 where 2: "maybeEvict env u excess nns d1 = (d', e2)"
    using Cons.prems 1 by (cases "maybeEvict env u excess nns d1") auto
  from Cons.IH [OF 2] evict_one_frame [OF 1] show ?case by simp
qed simp

lemma maybeEvict_who:
  "PodEvicted m \<in> set (snd (maybeEvict env u excess nns d)) \<Longrightarrow>
    m \<in> set nns \<and> \<not> isExempt env m \<and> \<not> ghas (dt_evictHandled d) (slash (fst m) (snd m))"
proof (induction nns arbitrary: d)
  case (Cons nn nns)
  obtain d1 e1 where 1: "evict_one env u excess nn d = (d1, e1)" by (cases "evict_one env u excess nn d")
  have "PodEvicted m \<in> set e1 \<or> PodEvicted m \<in> set (snd (maybeEvict env u excess nns d1))"
    using Cons.prems by (simp add: 1 case_prod_beta)
  then show ?case
  proof
    assume m: "PodEvicted m \<in> set e1"
    then have "evictions e1 \<noteq> 0" using evictions_mem by blast
    then have "\<not> isExempt env nn \<and> \<not> ghas (dt_evictHandled d) (slash (fst nn) (snd nn)) \<and> (\<forall>m. PodEvicted m \<in> set e1 \<longrightarrow> m = nn)"
      using evict_one_effect [OF 1] by (elim disjE) simp_all
    moreover from this m have "m = nn" by blast
    ultimately show ?thesis by simp
  next
    assume "PodEvicted m \<in> set (snd (maybeEvict env u excess nns d1))"
    from Cons.IH [OF this] show ?thesis using evict_one_frame(5) [OF 1] by auto
  qed
qed simp

lemma maybeEvict_times:
  assumes "maybeEvict env u excess nns d = (d', e)"
  shows "recent (en_now env) (dt_evictionTimes d') = recent (en_now env) (dt_evictionTimes d) @ replicate (evictions e) (en_now env) \<and>
    (0 < evictions e \<longrightarrow> length (recent (en_now env) (dt_evictionTimes d')) \<le> maxEvictionsPerWindow)"
  using assms
proof (induction nns arbitrary: d e)
  case (Cons nn nns)
  obtain d1 e1 where 1: "evict_one env u excess nn d = (d1, e1)" by (cases "evict_one env u excess nn d")
  obtain e2 where 2: "maybeEvict env u excess nns d1 = (d', e2)" and e: "e = e1 @ e2"
    using Cons.prems 1 by (cases "maybeEvict env u excess nns d1") auto
  note IH = Cons.IH [OF 2]
  have one: "evictions e1 = 0 \<and> recent (en_now env) (dt_evictionTimes d1) = recent (en_now env) (dt_evictionTimes d) \<or>
      evictions e1 = 1 \<and> recent (en_now env) (dt_evictionTimes d1) = recent (en_now env) (dt_evictionTimes d) @ [en_now env] \<and>
      length (recent (en_now env) (dt_evictionTimes d1)) \<le> maxEvictionsPerWindow"
    using evict_one_effect [OF 1] by blast
  then show ?case using IH by (cases "evictions e2") (auto simp: e)
qed simp

text \<open>A slice's step touches only its own timers.\<close>

lemma start_timer_frame [simp]:
  "dt_hyst (start_timer now key d) = dt_hyst d" "dt_evictHandled (start_timer now key d) = dt_evictHandled d"
  "dt_enforced (start_timer now key d) = dt_enforced d" "dt_stampedPods (start_timer now key d) = dt_stampedPods d"
  "dt_evictionTimes (start_timer now key d) = dt_evictionTimes d"
  "k \<noteq> key \<Longrightarrow> map_of (dt_violationStart (start_timer now key d)) k = map_of (dt_violationStart d) k"
  by (simp_all add: start_timer_def)

lemma engage_once_frame:
  assumes "engage_once env u excess start d = (d', e)"
  shows "dt_hyst d' = dt_hyst d" "dt_violationStart d' = dt_violationStart d" "dt_evictHandled d' = dt_evictHandled d"
    "dt_evictionTimes d' = dt_evictionTimes d" "evictions e = 0"
  using assms by (auto simp: engage_once_def Let_def split: if_splits)

lemma reclaim_frame:
  assumes "reclaim env u excess start d = (d', e)"
  shows "dt_hyst d' = dt_hyst d" "dt_violationStart d' = dt_violationStart d"
    "ghas (dt_evictHandled d) k \<Longrightarrow> ghas (dt_evictHandled d') k"
  using assms maybeEvict_frame [of env u excess "su_pods u" d] by (auto simp: reclaim_def split: if_splits)

lemma enforce_cases [consumes 1, case_names off within past]:
  assumes "enforce env u excess violating d = (d', e)"
  obtains (off) "evictions e = 0" "dt_evictionTimes d' = dt_evictionTimes d" "dt_hyst d' = dt_hyst d"
      "dt_evictHandled d' = dt_evictHandled d"
      "dt_violationStart d' = dt_violationStart d \<or>
       dt_violationStart d' = gdel (slash (su_namespace u) (su_name u)) (dt_violationStart d)"
  | (within) "evictions e = 0" "d' = start_timer (en_now env) (slash (su_namespace u) (su_name u)) d"
  | (past) d2 e2 e3 where "violating"
      "engage_once env u excess (gget (en_now env) (dt_violationStart d) (slash (su_namespace u) (su_name u)))
         (start_timer (en_now env) (slash (su_namespace u) (su_name u)) d) = (d2, e2)"
      "reclaim env u excess (gget (en_now env) (dt_violationStart d) (slash (su_namespace u) (su_name u))) d2 = (d', e3)"
      "e = e2 @ e3"
proof (cases "en_mode env = EnforcementOff \<or> \<not> violating")
  case True
  then show ?thesis
    using assms off engage_quiet(2) [of env u "slash (su_namespace u) (su_name u)" d]
    by (auto simp: enforce_def clearEnforcement_def Let_def split: if_splits)
next
  case False
  let ?key = "slash (su_namespace u) (su_name u)"
  let ?start = "gget (en_now env) (dt_violationStart d) ?key"
  obtain d2 e2 where 2: "engage_once env u excess ?start (start_timer (en_now env) ?key d) = (d2, e2)"
    by (cases "engage_once env u excess ?start (start_timer (en_now env) ?key d)")
  obtain d3 e3 where 3: "reclaim env u excess ?start d2 = (d3, e3)" by (cases "reclaim env u excess ?start d2")
  show ?thesis
  proof (cases "en_now env < ?start + enforcementGracePeriod")
    case True
    then show ?thesis using assms False within by (simp add: enforce_def enforce_violating_def Let_def)
  next
    case far: False
    then have "d3 = d'" "e = e2 @ e3" using assms False by (auto simp: enforce_def enforce_violating_def Let_def 2 3)
    then show ?thesis using past [OF _ 2] 3 False by simp
  qed
qed

lemma enforce_frame:
  assumes "enforce env u excess violating d = (d', e)"
  shows "dt_hyst d' = dt_hyst d \<and>
    (\<forall>k. k \<noteq> slash (su_namespace u) (su_name u) \<longrightarrow> map_of (dt_violationStart d') k = map_of (dt_violationStart d) k) \<and>
    (\<forall>k. ghas (dt_evictHandled d) k \<longrightarrow> ghas (dt_evictHandled d') k)"
  using assms
proof (cases rule: enforce_cases)
  case (past d2 e2 e3)
  then show ?thesis using engage_once_frame [OF past(2)] reclaim_frame [OF past(3)] by simp
qed auto

lemma enforce_times:
  assumes "enforce env u excess violating d = (d', e)"
  shows "recent (en_now env) (dt_evictionTimes d') = recent (en_now env) (dt_evictionTimes d) @ replicate (evictions e) (en_now env) \<and>
    (0 < evictions e \<longrightarrow> length (recent (en_now env) (dt_evictionTimes d')) \<le> maxEvictionsPerWindow)"
  using assms
proof (cases rule: enforce_cases)
  case (past d2 e2 e3)
  then show ?thesis using engage_once_frame [OF past(2)] maybeEvict_times [of env u excess "su_pods u" d2 d' e3]
    by (auto simp: reclaim_def split: if_splits)
qed auto

lemma enforce_evicts:
  assumes "enforce env u excess violating d = (d', e)" and "PodEvicted nn \<in> set e"
  shows "violating \<and> en_mode env = EnforcementEvict \<and> nn \<in> set (su_pods u) \<and> \<not> isExempt env nn \<and>
    \<not> ghas (dt_evictHandled d) (slash (fst nn) (snd nn)) \<and>
    (\<exists>start. map_of (dt_violationStart d) (slash (su_namespace u) (su_name u)) = Some start \<and>
       start + (enforcementGracePeriod + evictionGracePeriod) \<le> en_now env)"
proof -
  have "evictions e \<noteq> 0" using assms(2) evictions_mem by blast
  with assms(1) show ?thesis
  proof (cases rule: enforce_cases)
    case (past d2 e2 e3)
    note f2 = engage_once_frame [OF past(2)]
    have "PodEvicted nn \<notin> set e2" using f2(5) evictions_mem by blast
    then have "PodEvicted nn \<in> set e3" using assms(2) past(4) by simp
    then have m: "en_mode env = EnforcementEvict"
      "\<not> en_now env < gget (en_now env) (dt_violationStart d) (slash (su_namespace u) (su_name u)) + (enforcementGracePeriod + evictionGracePeriod)"
      "PodEvicted nn \<in> set (snd (maybeEvict env u excess (su_pods u) d2))"
      using past(3) by (auto simp: reclaim_def split: if_splits)
    have "map_of (dt_violationStart d) (slash (su_namespace u) (su_name u)) \<noteq> None"
    proof
      assume "map_of (dt_violationStart d) (slash (su_namespace u) (su_name u)) = None"
      then show False using m(2) by (simp add: enforcementGracePeriod_def evictionGracePeriod_def second_def)
    qed
    then show ?thesis using maybeEvict_who [OF m(3)] m(1,2) past(1) f2(3) by auto
  qed auto
qed

section \<open>The cycle\<close>

definition step_verdict :: "string \<Rightarrow> slice_usage \<Rightarrow> detector \<Rightarrow> verdict" where
  "step_verdict key u d = fst (evaluate key (su_used u) (su_grant u) (dt_hyst d))"

text \<open>The state \<open>enforce\<close> starts from in a slice's step.\<close>

definition before_enforce :: "agent_env \<Rightarrow> string \<Rightarrow> slice_usage \<Rightarrow> detector \<Rightarrow> detector" where
  "before_enforce env key u d =
    (let d1 = d\<lparr>dt_hyst := snd (evaluate key (su_used u) (su_grant u) (dt_hyst d))\<rparr>
     in if vd_onset (step_verdict key u d) then profileOnViolation (en_now env) key d1 else d1)"

lemma before_enforce_frame [simp]:
  "dt_violationStart (before_enforce env key u d) = dt_violationStart d"
  "dt_evictHandled (before_enforce env key u d) = dt_evictHandled d"
  "dt_evictionTimes (before_enforce env key u d) = dt_evictionTimes d"
  "dt_enforced (before_enforce env key u d) = dt_enforced d"
  "dt_stampedPods (before_enforce env key u d) = dt_stampedPods d"
  "dt_hyst (before_enforce env key u d) = snd (evaluate key (su_used u) (su_grant u) (dt_hyst d))"
  by (simp_all add: before_enforce_def Let_def)

lemma observeProfile_frame:
  assumes "observeProfile env u d = (d', e)"
  shows "dt_hyst d' = dt_hyst d" "dt_violationStart d' = dt_violationStart d" "dt_enforced d' = dt_enforced d"
    "dt_stampedPods d' = dt_stampedPods d" "dt_evictHandled d' = dt_evictHandled d"
    "dt_evictionTimes d' = dt_evictionTimes d" "dt_blockedNotified d' = dt_blockedNotified d"
  using assms by (auto simp: observeProfile_def Let_def case_prod_beta)

lemma detect_sliceE:
  assumes "detect_slice env (key, u) d = (d', e)"
  obtains d1 e1 e2 e3 where
    "enforce env u (vd_excess (step_verdict key u d)) (vd_violating (step_verdict key u d)) (before_enforce env key u d) = (d1, e2)"
    "observeProfile env u d1 = (d', e3)" "e = e1 @ e2 @ e3" "evictions e1 = 0" "evictions e3 = 0"
    "e1 = (if vd_onset (step_verdict key u d) then mark env u (vd_excess (step_verdict key u d)) True
           else if vd_cleared (step_verdict key u d) then mark env u 0 False else [])"
proof -
  let ?v = "step_verdict key u d"
  obtain d1 e2 where 1: "enforce env u (vd_excess ?v) (vd_violating ?v) (before_enforce env key u d) = (d1, e2)"
    by (cases "enforce env u (vd_excess ?v) (vd_violating ?v) (before_enforce env key u d)")
  obtain d2 e3 where 2: "observeProfile env u d1 = (d2, e3)" by (cases "observeProfile env u d1")
  have q: "evictions e3 = 0" using engage_quiet(4) [of env u d1] by (simp add: 2)
  from assms 1 2 have "d' = d2" "e = (if vd_onset ?v then mark env u (vd_excess ?v) True
           else if vd_cleared ?v then mark env u 0 False else []) @ e2 @ e3"
    by (auto simp: detect_slice_def Let_def case_prod_beta step_verdict_def before_enforce_def split: if_splits)
  then show ?thesis using that [OF 1] 2 q by auto
qed

lemma detect_slice_frame:
  assumes "detect_slice env (key, u) d = (d', e)" and "key = slash (su_namespace u) (su_name u)" and "k \<noteq> key"
  shows "gget z (hy_streak (dt_hyst d')) k = gget z (hy_streak (dt_hyst d)) k"
    "map_of (dt_violationStart d') k = map_of (dt_violationStart d) k"
    "ghas (dt_evictHandled d) p \<Longrightarrow> ghas (dt_evictHandled d') p"
  using assms(1)
proof (rule_tac [!] detect_sliceE [OF assms(1)])
  fix d1 e1 e2 e3
  assume 1: "enforce env u (vd_excess (step_verdict key u d)) (vd_violating (step_verdict key u d)) (before_enforce env key u d) = (d1, e2)"
    and 2: "observeProfile env u d1 = (d', e3)"
  note f = enforce_frame [OF 1] observeProfile_frame [OF 2]
  show "gget z (hy_streak (dt_hyst d')) k = gget z (hy_streak (dt_hyst d)) k"
    using f evaluate_other(1) [OF assms(3)] by simp
  show "map_of (dt_violationStart d') k = map_of (dt_violationStart d) k" using f assms(2,3) by simp
  show "ghas (dt_evictHandled d) p \<Longrightarrow> ghas (dt_evictHandled d') p" using f by simp
qed

definition usage_ok :: "(string, slice_usage) gomap \<Rightarrow> bool" where
  "usage_ok usage \<longleftrightarrow> gmap_ok usage \<and> (\<forall>(k, u)\<in>set usage. k = slash (su_namespace u) (su_name u))"

definition evicted_for_cause :: "agent_env \<Rightarrow> string \<Rightarrow> slice_usage \<Rightarrow> detector \<Rightarrow> object_name \<Rightarrow> bool" where
  "evicted_for_cause env key u d nn \<longleftrightarrow>
     en_mode env = EnforcementEvict \<and> nn \<in> set (su_pods u) \<and> \<not> isExempt env nn \<and>
     \<not> ghas (dt_evictHandled d) (slash (fst nn) (snd nn)) \<and>
     over (su_used u, su_grant u) \<and> 2 \<le> gget 0 (hy_streak (dt_hyst d)) key \<and>
     (\<exists>start. map_of (dt_violationStart d) key = Some start \<and>
        start + (enforcementGracePeriod + evictionGracePeriod) \<le> en_now env)"

lemma detect_slice_evicts:
  assumes "detect_slice env (key, u) d = (d', e)" and "key = slash (su_namespace u) (su_name u)" and "PodEvicted nn \<in> set e"
  shows "evicted_for_cause env key u d nn"
proof -
  obtain d1 e1 e2 e3 where 1: "enforce env u (vd_excess (step_verdict key u d)) (vd_violating (step_verdict key u d)) (before_enforce env key u d) = (d1, e2)"
    and e: "e = e1 @ e2 @ e3" "evictions e1 = 0" "evictions e3 = 0"
    using assms(1) by (rule detect_sliceE)
  have "PodEvicted nn \<notin> set e1" "PodEvicted nn \<notin> set e3" using e(2,3) evictions_mem by blast+
  then have "PodEvicted nn \<in> set e2" using assms(3) e(1) by simp
  note ev = enforce_evicts [OF 1 this]
  then have "3 \<le> gget 0 (hy_streak (snd (evaluate key (su_used u) (su_grant u) (dt_hyst d)))) key"
    by (simp add: step_verdict_def evaluate_streak(3))
  then have "over (su_used u, su_grant u)" "2 \<le> gget 0 (hy_streak (dt_hyst d)) key"
    by (simp_all add: evaluate_streak(1) split: if_splits)
  then show ?thesis using ev assms(2) by (simp add: evicted_for_cause_def)
qed

lemma detect_slices_evicts:
  assumes "usage_ok kus" and "PodEvicted nn \<in> set (snd (detect_slices env kus d))"
  shows "\<exists>(key, u)\<in>set kus. evicted_for_cause env key u d nn"
  using assms
proof (induction kus arbitrary: d)
  case (Cons ku kus)
  obtain key u where ku: "ku = (key, u)" by (cases ku)
  obtain d1 e1 where 1: "detect_slice env (key, u) d = (d1, e1)" by (cases "detect_slice env (key, u) d")
  have ok: "usage_ok kus" "key = slash (su_namespace u) (su_name u)" "key \<notin> fst ` set kus"
    using Cons.prems(1) by (auto simp: usage_ok_def gmap_ok_def ku)
  have "PodEvicted nn \<in> set e1 \<or> PodEvicted nn \<in> set (snd (detect_slices env kus d1))"
    using Cons.prems(2) by (simp add: ku 1 case_prod_beta)
  then show ?case
  proof
    assume "PodEvicted nn \<in> set e1"
    from detect_slice_evicts [OF 1 ok(2) this] show ?thesis by (auto simp: ku)
  next
    assume "PodEvicted nn \<in> set (snd (detect_slices env kus d1))"
    from Cons.IH [OF ok(1) this] obtain k v where kv: "(k, v) \<in> set kus" "evicted_for_cause env k v d1 nn" by auto
    then have "k \<noteq> key" using ok(3) by force
    note fr = detect_slice_frame [OF 1 ok(2) this]
    have "evicted_for_cause env k v d nn"
      using kv(2) fr(1) [of 0] fr(2) fr(3) by (auto simp: evicted_for_cause_def)
    then show ?thesis using kv(1) by auto
  qed
qed simp

text \<open>The usage of \<open>attribute\<close> is keyed by the names of its slices.\<close>

lemma index_keys:
  "gmap_ok (ui_byKey (fold index_slice cs no_usage)) \<and>
   (\<forall>(k, p)\<in>set (ui_byKey (fold index_slice cs no_usage)). p < length cs \<and> slice_key (cs ! p) = k)"
proof (induction cs rule: rev_induct)
  case (snoc s cs)
  let ?m = "ui_byKey (fold index_slice cs no_usage)"
  have len: "length (ui_store (fold index_slice cs no_usage)) = length cs" by (simp add: index_store no_usage_def)
  have m: "ui_byKey (fold index_slice (cs @ [s]) no_usage) = gput (slice_key s) (length cs) ?m"
    by (simp add: index_slice_def Let_def len)
  have ok: "gmap_ok (gput (slice_key s) (length cs) ?m)" using snoc by simp
  have "p < length (cs @ [s]) \<and> slice_key ((cs @ [s]) ! p) = k" if "(k, p) \<in> set (gput (slice_key s) (length cs) ?m)" for k p
  proof -
    have "map_of (gput (slice_key s) (length cs) ?m) k = Some p" using that ok map_of_SomeD_ok by fast
    then have "k = slice_key s \<and> p = length cs \<or> (k, p) \<in> set ?m" by (auto split: if_splits dest: map_of_SomeD)
    then show ?thesis using snoc by (auto simp: nth_append)
  qed
  then show ?case using ok m by auto
qed (simp add: no_usage_def)

lemma charge_procs_names:
  "su_namespace (charge_procs owner qs st ! p) = su_namespace (st ! p)"
  "su_name (charge_procs owner qs st ! p) = su_name (st ! p)"
proof -
  have "su_namespace (charge_procs owner qs st ! p) = su_namespace (st ! p) \<and>
      su_name (charge_procs owner qs st ! p) = su_name (st ! p)"
  proof (induction qs arbitrary: st)
    case (Cons q qs)
    show ?case
    proof (cases "owner q")
      case (Some nu)
      then show ?thesis using Cons.IH
        by (cases "p < length st"; cases "snd nu = p") (simp_all add: case_prod_beta nth_list_update list_update_beyond not_less)
    qed (simp add: Cons.IH)
  qed simp
  then show "su_namespace (charge_procs owner qs st ! p) = su_namespace (st ! p)"
    "su_name (charge_procs owner qs st ! p) = su_name (st ! p)" by simp_all
qed

lemma attribute_usage_ok:
  assumes "attribute nodeName slices pods cg procs procs2 = Some usage"
  shows "usage_ok usage"
proof -
  obtain ss ps qs where i: "slices = Some ss" "pods = Some ps" "procs2 = Some qs"
    using assms by (auto simp: attribute_def split: option.splits)
  let ?cs = "filter (holds_capacity nodeName) ss"
  let ?ix = "fold index_slice ?cs no_usage"
  define st where "st = charge_procs (charged_to (resolve_procs cg procs []) (index_pods ps []) (ui_byClaim ?ix)) qs (ui_store ?ix)"
  have st: "usage = map (\<lambda>(k, p). (k, st ! p)) (ui_byKey ?ix)"
    "\<And>p. su_namespace (st ! p) = su_namespace (ui_store ?ix ! p)" "\<And>p. su_name (st ! p) = su_name (ui_store ?ix ! p)"
    using assms charge_procs_names by (simp_all add: attribute_def i index_slices_fold Let_def st_def)
  have "map fst usage = map fst (ui_byKey ?ix)" by (simp add: st(1) case_prod_beta)
  then have "gmap_ok usage" using index_keys [of ?cs] by (simp add: gmap_ok_def)
  moreover have "k = slash (su_namespace u) (su_name u)" if "(k, u) \<in> set usage" for k u
  proof -
    have "(k, u) \<in> (\<lambda>(k, p). (k, st ! p)) ` set (ui_byKey ?ix)" using that st(1) by simp
    then obtain x where x: "x \<in> set (ui_byKey ?ix)" "(k, u) = (case x of (k, p) \<Rightarrow> (k, st ! p))" by (rule imageE)
    obtain k' p where kp: "x = (k', p)" by fastforce
    have p: "(k, p) \<in> set (ui_byKey ?ix)" "u = st ! p" using x by (simp_all add: kp)
    then have "p < length ?cs" "slice_key (?cs ! p) = k" using index_keys [of ?cs] by auto
    then show ?thesis using p(2) st(2,3) by (simp add: index_store no_usage_def usage0_def)
  qed
  ultimately show ?thesis by (auto simp: usage_ok_def)
qed

section \<open>Properties\<close>

text \<open>
  C13. Eviction is never the first answer and never by accident: a cycle evicts a pod only in evict mode,
  only a pod that ran a confirmed process of a slice which is over its grant in this and the last two
  samples, only when that slice's violation was already recorded at least 180 seconds ago, only when the
  pod's namespace was read and is not exempt (an unreadable namespace counts as exempt), and only when the
  pod was not handled before.
\<close>

theorem evicted_only_for_cause:
  assumes "detectOnce env d = (failed, d', eff)" and "PodEvicted nn \<in> set eff"
  shows "en_mode env = EnforcementEvict \<and>
    (en_namespace env nn = NotFound \<or>
     (\<exists>labels. en_namespace env nn = Found labels \<and> gget [] labels enforcementExemptLabel \<noteq> ''true'')) \<and>
    \<not> ghas (dt_evictHandled d) (slash (fst nn) (snd nn)) \<and>
    (\<exists>procs usage key u start.
       en_procs env = Some procs \<and>
       attribute (en_nodeName env) (en_slices env) (en_pods env) (en_cgroup env) procs (en_procs2 env) = Some usage \<and>
       map_of usage key = Some u \<and> nn \<in> set (su_pods u) \<and>
       i64 (su_used u - su_grant u) > overuseToleranceBytes \<and> 2 \<le> gget 0 (hy_streak (dt_hyst d)) key \<and>
       map_of (dt_violationStart d) key = Some start \<and> start + 180 * second \<le> en_now env)"
proof -
  obtain procs usage where u: "en_procs env = Some procs"
    "attribute (en_nodeName env) (en_slices env) (en_pods env) (en_cgroup env) procs (en_procs2 env) = Some usage"
    using assms by (auto simp: detectOnce_def split: option.splits)
  note ok = attribute_usage_ok [OF u(2)]
  obtain d1 e1 where 1: "detect_slices env usage d = (d1, e1)" by (cases "detect_slices env usage d")
  have "PodEvicted nn \<notin> set (snd (prune env usage d1))" using prune_quiet evictions_mem by blast
  then have "PodEvicted nn \<in> set (snd (detect_slices env usage d))"
    using assms by (auto simp: detectOnce_def u 1 case_prod_beta)
  from detect_slices_evicts [OF ok this] obtain key v where
    kv: "(key, v) \<in> set usage" "evicted_for_cause env key v d nn" by auto
  then have "map_of usage key = Some v" using ok map_of_SomeD_ok [of usage key v] by (simp add: usage_ok_def)
  moreover have "en_namespace env nn = NotFound \<or>
     (\<exists>labels. en_namespace env nn = Found labels \<and> gget [] labels enforcementExemptLabel \<noteq> ''true'')"
    using kv(2) by (cases "en_namespace env nn") (auto simp: evicted_for_cause_def isExempt_def)
  moreover have "enforcementGracePeriod + evictionGracePeriod = 180 * second"
    by (simp add: enforcementGracePeriod_def evictionGracePeriod_def)
  ultimately show ?thesis using u kv(2) by (fastforce simp: evicted_for_cause_def over_def)
qed

section \<open>The rate limit\<close>

lemma detect_slice_times:
  assumes "detect_slice env (key, u) d = (d', e)"
  shows "recent (en_now env) (dt_evictionTimes d') = recent (en_now env) (dt_evictionTimes d) @ replicate (evictions e) (en_now env) \<and>
    (0 < evictions e \<longrightarrow> length (recent (en_now env) (dt_evictionTimes d')) \<le> maxEvictionsPerWindow)"
proof -
  obtain d1 e1 e2 e3 where 1: "enforce env u (vd_excess (step_verdict key u d)) (vd_violating (step_verdict key u d)) (before_enforce env key u d) = (d1, e2)"
    and o: "observeProfile env u d1 = (d', e3)" and e: "e = e1 @ e2 @ e3" "evictions e1 = 0" "evictions e3 = 0"
    using assms by (rule detect_sliceE)
  show ?thesis using enforce_times [OF 1] observeProfile_frame(6) [OF o] e by auto
qed

lemma detect_slices_times:
  assumes "detect_slices env kus d = (d', e)"
  shows "recent (en_now env) (dt_evictionTimes d') = recent (en_now env) (dt_evictionTimes d) @ replicate (evictions e) (en_now env) \<and>
    (0 < evictions e \<longrightarrow> length (recent (en_now env) (dt_evictionTimes d')) \<le> maxEvictionsPerWindow)"
  using assms
proof (induction kus arbitrary: d e)
  case (Cons ku kus)
  obtain d1 e1 where 1: "detect_slice env (fst ku, snd ku) d = (d1, e1)" by (cases "detect_slice env (fst ku, snd ku) d")
  obtain e2 where 2: "detect_slices env kus d1 = (d', e2)" and e: "e = e1 @ e2"
    using Cons.prems 1 by (cases "detect_slices env kus d1") auto
  show ?case using Cons.IH [OF 2] detect_slice_times [OF 1]
    by (cases "evictions e2 = 0") (auto simp: e replicate_add)
qed simp

lemma cleanup_all_times [simp]: "dt_evictionTimes (fst (cleanup_all env ks d)) = dt_evictionTimes d"
  by (induction ks arbitrary: d) (simp_all add: case_prod_beta Let_def cleanupEnforcement_def)

lemma prune_times [simp]: "dt_evictionTimes (fst (prune env usage d)) = dt_evictionTimes d"
  by (simp add: prune_def Let_def case_prod_beta)

lemma detectOnce_times:
  assumes "detectOnce env d = (failed, d', e)"
  shows "recent (en_now env) (dt_evictionTimes d') = recent (en_now env) (dt_evictionTimes d) @ replicate (evictions e) (en_now env) \<and>
    (0 < evictions e \<longrightarrow> length (recent (en_now env) (dt_evictionTimes d')) \<le> maxEvictionsPerWindow)"
proof (cases "\<exists>procs usage. en_procs env = Some procs \<and>
    attribute (en_nodeName env) (en_slices env) (en_pods env) (en_cgroup env) procs (en_procs2 env) = Some usage")
  case True
  then obtain procs usage where u: "en_procs env = Some procs"
    "attribute (en_nodeName env) (en_slices env) (en_pods env) (en_cgroup env) procs (en_procs2 env) = Some usage" by blast
  obtain d1 e1 where 1: "detect_slices env usage d = (d1, e1)" by (cases "detect_slices env usage d")
  show ?thesis
    using assms detect_slices_times [OF 1] prune_quiet [of env usage d1] prune_times [of env usage d1]
    by (auto simp: detectOnce_def u 1 case_prod_beta)
next
  case False
  then show ?thesis using assms by (auto simp: detectOnce_def split: option.splits)
qed

text \<open>A run of the agent on a node: the clock, the times of all evictions so far, and the state.\<close>

inductive agent_run :: "int \<Rightarrow> int list \<Rightarrow> detector \<Rightarrow> bool" where
  run_start: "agent_run clock [] new_detector"
| run_cycle: "agent_run clock hist d \<Longrightarrow> clock \<le> en_now env \<Longrightarrow> detectOnce env d = (failed, d', e) \<Longrightarrow>
    agent_run (en_now env) (hist @ replicate (evictions e) (en_now env)) d'"

text \<open>What is kept of the history suffices for every later window.\<close>

lemma agent_run_invariant:
  "agent_run clock hist d \<Longrightarrow>
    (\<forall>t\<in>set hist. t \<le> clock) \<and> (\<forall>now. clock \<le> now \<longrightarrow> recent now (dt_evictionTimes d) = recent now hist) \<and>
    (\<forall>t\<in>set hist. length (filter (\<lambda>x. t - evictionWindow < x \<and> x \<le> t) hist) \<le> maxEvictionsPerWindow)"
proof (induction rule: agent_run.induct)
  case (run_start clock)
  then show ?case by (simp add: new_detector_def)
next
  case (run_cycle clock hist d env failed d' e)
  let ?now = "en_now env"
  let ?hist = "hist @ replicate (evictions e) ?now"
  note t = detectOnce_times [OF run_cycle.hyps(3)]
  have le: "\<forall>t\<in>set ?hist. t \<le> ?now" using run_cycle.IH run_cycle.hyps(2) by auto
  have rec: "recent ?now (dt_evictionTimes d') = recent ?now ?hist"
    using t run_cycle.IH run_cycle.hyps(2) by (simp add: evictionWindow_def second_def)
  have later: "recent n (dt_evictionTimes d') = recent n ?hist" if "?now \<le> n" for n
  proof -
    have "recent n xs = recent n (recent ?now xs)" for xs using that by (auto intro!: filter_cong)
    then show ?thesis using rec by metis
  qed
  have win: "length (filter (\<lambda>x. t - evictionWindow < x \<and> x \<le> t) ?hist) \<le> maxEvictionsPerWindow" if "t \<in> set ?hist" for t
  proof (cases "t = ?now \<and> 0 < evictions e")
    case True
    have "filter (\<lambda>x. ?now - evictionWindow < x \<and> x \<le> ?now) ?hist = recent ?now ?hist"
      using le by (intro filter_cong) auto
    moreover have "length (recent ?now ?hist) \<le> maxEvictionsPerWindow" using t True rec by metis
    ultimately show ?thesis using True by simp
  next
    case False
    then have t: "t \<in> set hist" using that by (auto split: if_splits)
    have "filter (\<lambda>x. t - evictionWindow < x \<and> x \<le> t) (replicate (evictions e) ?now) = []"
      using False run_cycle.IH run_cycle.hyps(2) t by (fastforce simp: filter_empty_conv)
    then show ?thesis using run_cycle.IH t by simp
  qed
  show ?case using le later win by blast
qed

text \<open>
  C14. A fault of the detector cannot mass-evict: in any run of the agent, with a clock that does not go
  back, at most three pods of the node are evicted in any five minutes, whatever the API answers and
  however many slices are in violation.
\<close>

theorem evictions_are_rate_limited:
  assumes "agent_run clock hist d"
  shows "length (filter (\<lambda>x. w - 300 * second < x \<and> x \<le> w) hist) \<le> 3"
proof (cases "filter (\<lambda>x. w - 300 * second < x \<and> x \<le> w) hist = []")
  case False
  let ?f = "filter (\<lambda>x. w - 300 * second < x \<and> x \<le> w) hist"
  define t where "t = Max (set ?f)"
  have t: "t \<in> set ?f" "\<forall>x\<in>set ?f. x \<le> t"
  proof -
    have ne: "set ?f \<noteq> {}" using False by (simp only: set_empty not_False_eq_True)
    show "t \<in> set ?f" unfolding t_def by (rule Max_in [OF finite_set ne])
    show "\<forall>x\<in>set ?f. x \<le> t" unfolding t_def using Max_ge [OF finite_set] by blast
  qed
  have "?f = filter (\<lambda>x. (t - 300 * second < x \<and> x \<le> t) \<and> w - 300 * second < x \<and> x \<le> w) hist"
  proof (rule filter_cong [OF refl])
    fix x assume x: "x \<in> set hist"
    have "t \<le> w" using t(1) by simp
    moreover have "x \<le> t" if "w - 300 * second < x \<and> x \<le> w" using t(2) x that by simp
    ultimately show "(w - 300 * second < x \<and> x \<le> w) = ((t - 300 * second < x \<and> x \<le> t) \<and> w - 300 * second < x \<and> x \<le> w)"
      by linarith
  qed
  then have split: "?f = filter (\<lambda>x. w - 300 * second < x \<and> x \<le> w) (filter (\<lambda>x. t - 300 * second < x \<and> x \<le> t) hist)"
    by (simp only: filter_filter)
  have "length ?f \<le> length (filter (\<lambda>x. t - 300 * second < x \<and> x \<le> t) hist)"
    by (subst split) (rule length_filter_le)
  also have "\<dots> \<le> 3" using agent_run_invariant [OF assms] t(1) by (simp add: evictionWindow_def maxEvictionsPerWindow_def)
  finally show ?thesis .
qed simp

section \<open>Witnesses of evictions\<close>

definition over_user :: gpu_process where
  "over_user = \<lparr>gp_PID = 1, gp_DeviceUUID = ''A'', gp_UsedMemoryBytes = 1073741824\<rparr>"

text \<open>An agent in evict mode that sees one slice far over its grant, at time \<open>now\<close>.\<close>

definition evicting_env :: "int \<Rightarrow> agent_env" where
  "evicting_env now = \<lparr>en_nodeName = ''n'', en_mode = EnforcementEvict, en_interval = 30 * second, en_now = now,
     en_procs = Some [over_user], en_procs2 = Some [over_user], en_slices = Some [a_slice], en_pods = Some [a_pod],
     en_cgroup = a_cgroup, en_slice = (\<lambda>_ _. NotFound), en_sliceWrite = (\<lambda>_ _. False), en_again = (\<lambda>_ _. NotFound),
     en_claim = (\<lambda>_ _. NotFound), en_job = (\<lambda>_ _. NotFound), en_jobWrite = (\<lambda>_ _. False), en_pod = (\<lambda>_ _. NotFound),
     en_patch = (\<lambda>_ _. False), en_namespace = (\<lambda>_. Found []), en_evict = (\<lambda>_. Evicting), en_average = hd\<rparr>"

definition late_detector :: detector where
  "late_detector = new_detector
    \<lparr>dt_hyst := \<lparr>hy_streak = [(''ns/s'', 2)], hy_active = [(''ns/s'', True)]\<rparr>,
     dt_violationStart := [(''ns/s'', 0)], dt_enforced := [(''ns/s'', True)]\<rparr>"

lemma an_eviction:
  "evictions (snd (snd (detectOnce (evicting_env 180000000000) late_detector))) = 1"
  by code_simp

theorem evicted_only_for_cause_witness:
  "\<exists>nn failed d' eff. detectOnce (evicting_env 180000000000) late_detector = (failed, d', eff) \<and> PodEvicted nn \<in> set eff \<and>
     \<not> ghas (dt_evictHandled late_detector) (slash (fst nn) (snd nn)) \<and>
     (\<exists>key start. map_of (dt_violationStart late_detector) key = Some start \<and> start + 180 * second \<le> 180000000000)"
proof -
  obtain failed d' eff where r: "detectOnce (evicting_env 180000000000) late_detector = (failed, d', eff)"
    by (cases "detectOnce (evicting_env 180000000000) late_detector")
  have "evictions eff \<noteq> 0" using an_eviction r by simp
  then obtain nn where nn: "PodEvicted nn \<in> set eff" using evictions_mem [of eff] by auto
  have now: "en_now (evicting_env 180000000000) = 180000000000" by (simp add: evicting_env_def)
  show ?thesis using evicted_only_for_cause [OF r nn] r nn unfolding now by blast
qed

text \<open>A run by a list of cycles.\<close>

fun agent_cycles :: "agent_env list \<Rightarrow> int list \<times> detector \<Rightarrow> int list \<times> detector" where
  "agent_cycles [] s = s"
| "agent_cycles (env # envs) s =
    (case detectOnce env (snd s) of
       (_, d', e) \<Rightarrow> agent_cycles envs (fst s @ replicate (evictions e) (en_now env), d'))"

lemma agent_run_cycles:
  "agent_run clock hist d \<Longrightarrow> sorted (clock # map en_now envs) \<Longrightarrow>
    agent_run (last (clock # map en_now envs)) (fst (agent_cycles envs (hist, d))) (snd (agent_cycles envs (hist, d)))"
proof (induction envs arbitrary: clock hist d)
  case (Cons env envs)
  obtain f d' e where 1: "detectOnce env d = (f, d', e)" by (cases "detectOnce env d")
  from Cons.IH [OF run_cycle [OF Cons.prems(1) _ 1]] Cons.prems(2) show ?case by (simp add: 1)
qed simp

definition five_cycles :: "agent_env list" where
  "five_cycles = map evicting_env [0, 30000000000, 60000000000, 120000000000, 240000000000]"

lemma five_cycles_evict: "fst (agent_cycles five_cycles ([], new_detector)) = [240000000000]"
  by code_simp

theorem evictions_are_rate_limited_witness:
  "\<exists>clock d. agent_run clock [240000000000] d \<and>
     length (filter (\<lambda>x. 240000000000 - 300 * second < x \<and> x \<le> 240000000000) [240000000000 :: int]) \<le> 3"
proof -
  have "sorted (0 # map en_now five_cycles)" by (simp add: five_cycles_def evicting_env_def)
  from agent_run_cycles [OF run_start this] have
    r: "agent_run (last (0 # map en_now five_cycles)) [240000000000] (snd (agent_cycles five_cycles ([], new_detector)))"
    by (simp add: five_cycles_evict)
  show ?thesis using r evictions_are_rate_limited [OF r, of 240000000000] by blast
qed

section \<open>Stamps and recovery\<close>

lemma gdel_gput_fresh: "map_of m k = None \<Longrightarrow> gdel k (gput k v m) = m"
  by (induction m) (auto simp: gdel_def gput_def AList.delete_eq filter_id_conv split: if_splits)

lemma gdel_gput_other: "j \<noteq> k \<Longrightarrow> gdel k (gput j v m) = gput j v (gdel k m)"
  by (induction m) (auto simp: gdel_def gput_def AList.delete_eq)

definition unmarked :: "pod \<Rightarrow> bool" where
  "unmarked p \<longleftrightarrow> \<not> ghas (pd_Labels p) podViolationLabel \<and>
     list_all (\<lambda>k. \<not> ghas (pd_Annotations p) k)
       [podEnforcementAnno, podExcessBytesAnno, podViolationSinceAnno, podDeadlineAnno, podEnforcementNoteAnno]"

lemma unstamp_stamp:
  assumes "unmarked p"
  shows "stamped (stamp_pod excess since deadline p) \<and> unstamp_pod (stamp_pod excess since deadline p) = p"
proof -
  have l: "map_of (pd_Labels p) podViolationLabel = None" "map_of (pd_Annotations p) podEnforcementAnno = None"
    "map_of (pd_Annotations p) podExcessBytesAnno = None" "map_of (pd_Annotations p) podViolationSinceAnno = None"
    "map_of (pd_Annotations p) podDeadlineAnno = None" "map_of (pd_Annotations p) podEnforcementNoteAnno = None"
    using assms by (simp_all add: unmarked_def not_ghas)
  have "stamped (stamp_pod excess since deadline p)" by (simp add: stamped_def stamp_pod_def)
  moreover have "unstamp_pod (stamp_pod excess since deadline p) = p"
    by (simp add: unstamp_pod_def stamp_pod_def gdel_gput_other gdel_gput_fresh l)
  ultimately show ?thesis by simp
qed

text \<open>The part of the state that belongs to one slice.\<close>

definition view :: "string \<Rightarrow> detector \<Rightarrow> int \<times> bool \<times> int option \<times> bool \<times> object_name list" where
  "view key d = (gget 0 (hy_streak (dt_hyst d)) key, gget False (hy_active (dt_hyst d)) key,
     map_of (dt_violationStart d) key, gget False (dt_enforced d) key, gget [] (dt_stampedPods d) key)"

lemma view_enforce:
  assumes "enforce env u excess violating d = (d', e)" and "k \<noteq> slash (su_namespace u) (su_name u)"
  shows "view k d' = view k d"
proof -
  let ?key = "slash (su_namespace u) (su_name u)"
  have st: "view k (start_timer n ?key d) = view k d" for n d
    using assms(2) by (simp add: view_def)
  have en: "view k d2 = view k d" if "engage_once env u x s d = (d2, e2)" for x s d d2 e2
    using that assms(2) by (auto simp: engage_once_def Let_def view_def profileOnSoftWarn_def split: if_splits)
  have re: "view k d2 = view k d" if "reclaim env u x s d = (d2, e2)" for x s d d2 e2
    using that maybeEvict_frame [of env u x "su_pods u" d] by (auto simp: reclaim_def view_def split: if_splits)
  show ?thesis
  proof (cases "en_mode env = EnforcementOff \<or> \<not> violating")
    case True
    then show ?thesis using assms
      by (auto simp: enforce_def clearEnforcement_def Let_def view_def split: if_splits)
  next
    case False
    then have e: "enforce_violating env u excess d = (d', e)" using assms(1) by (simp add: enforce_def)
    show ?thesis
      using e st en re by (force simp: enforce_violating_def Let_def split: if_splits prod.splits)
  qed
qed

lemma view_detect_slice:
  assumes "detect_slice env (key, u) d = (d', e)" and "key = slash (su_namespace u) (su_name u)" and "k \<noteq> key"
  shows "view k d' = view k d"
  using assms(1)
proof (rule detect_sliceE)
  fix d1 e1 e2 e3
  assume 1: "enforce env u (vd_excess (step_verdict key u d)) (vd_violating (step_verdict key u d)) (before_enforce env key u d) = (d1, e2)"
    and 2: "observeProfile env u d1 = (d', e3)"
  have "view k d1 = view k (before_enforce env key u d)" using view_enforce [OF 1] assms(2,3) by simp
  also have "\<dots> = view k d" using assms(3) evaluate_other [of k key] by (simp add: view_def)
  finally show ?thesis using observeProfile_frame [OF 2] by (simp add: view_def)
qed

text \<open>Every slice of the usage gets its own step.\<close>

lemma detect_slices_step:
  assumes "usage_ok kus" and "(key, u) \<in> set kus"
  shows "\<exists>d0 d1 e1. detect_slice env (key, u) d0 = (d1, e1) \<and> view key d0 = view key d \<and>
    view key (fst (detect_slices env kus d)) = view key d1 \<and> set e1 \<subseteq> set (snd (detect_slices env kus d))"
  using assms
proof (induction kus arbitrary: d)
  case (Cons ku kus)
  obtain k v where ku: "ku = (k, v)" by (cases ku)
  have ok: "usage_ok kus" "k = slash (su_namespace v) (su_name v)" "k \<notin> fst ` set kus"
    using Cons.prems(1) by (auto simp: usage_ok_def gmap_ok_def ku)
  obtain d1 e1 where 1: "detect_slice env (k, v) d = (d1, e1)" by (cases "detect_slice env (k, v) d")
  show ?case
  proof (cases "(key, u) = ku")
    case True
    have others: "key \<notin> fst ` set ms \<Longrightarrow> usage_ok ms \<Longrightarrow> view key (fst (detect_slices env ms b)) = view key b" for ms b
    proof (induction ms arbitrary: b)
      case (Cons m ms)
      obtain k' v' where m: "m = (k', v')" by (cases m)
      have "view key (fst (detect_slice env (k', v') b)) = view key b"
        using Cons.prems view_detect_slice [of env k' v' b] by (cases "detect_slice env (k', v') b") (auto simp: m usage_ok_def)
      moreover have "usage_ok ms" using Cons.prems(2) by (auto simp: usage_ok_def gmap_ok_def)
      ultimately show ?case using Cons by (simp add: m case_prod_beta Let_def)
    qed simp
    have "key \<notin> fst ` set kus" using ok(3) True ku by simp
    from others [OF this ok(1), of d1] show ?thesis
      using 1 True ku by (intro exI [of _ d] exI [of _ d1] exI [of _ e1]) (auto simp: case_prod_beta Let_def)
  next
    case False
    then have mem: "(key, u) \<in> set kus" using Cons.prems(2) by auto
    then have "key \<noteq> k" using ok(3) by force
    then have "view key d1 = view key d" using view_detect_slice [OF 1 ok(2)] by simp
    then show ?thesis using Cons.IH [OF ok(1) mem, of d1] by (fastforce simp: ku 1 case_prod_beta Let_def)
  qed
qed simp

lemma view_prune:
  assumes "key \<in> fst ` set usage"
  shows "view key (fst (prune env usage d)) = view key d"
proof -
  have keep: "map_of (filter (\<lambda>kv. P (fst kv)) m) key = map_of m key" if "P key" for m :: "(string \<times> 'z) list" and P
    using that by (induction m) auto
  have g: "gget z (filter (\<lambda>kv. P (fst kv)) m) key = gget z m key" if "P key" for m :: "(string \<times> 'z) list" and P z
    using keep [of P m] that by (simp add: gget_def)
  have cl: "view key (fst (cleanup_all env ks b)) = view key b" if "key \<notin> set ks" for ks b
    using that by (induction ks arbitrary: b) (simp_all add: case_prod_beta Let_def cleanupEnforcement_def view_def)
  let ?seen = "set (map fst usage)"
  let ?h = "dt_hyst d"
  let ?d1 = "d\<lparr>dt_hyst := \<lparr>hy_streak = filter (\<lambda>kv. fst kv \<in> ?seen \<or> \<not> ghas (hy_active ?h) (fst kv)) (hy_streak ?h),
                             hy_active = keep_keys ?seen (hy_active ?h)\<rparr>\<rparr>"
  have 1: "view key ?d1 = view key d"
    using assms g [of "\<lambda>k. k \<in> ?seen \<or> \<not> ghas (hy_active ?h) k" 0 "hy_streak ?h"] g [of "\<lambda>k. k \<in> ?seen" False "hy_active ?h"]
    by (simp add: view_def keep_keys_def)
  have 2: "view key (fst (cleanup_all env (filter (\<lambda>k. k \<notin> ?seen) (map fst (dt_enforced d))) ?d1)) = view key d"
    using cl [of "filter (\<lambda>k. k \<notin> ?seen) (map fst (dt_enforced d))" ?d1] assms 1 by auto
  show ?thesis
    unfolding prune_def Let_def
    using 2 keep [of "\<lambda>k. k \<in> ?seen" "dt_violationStart (fst (cleanup_all env (filter (\<lambda>k. k \<notin> ?seen) (map fst (dt_enforced d))) ?d1))"] assms
    by (simp add: case_prod_beta view_def keep_keys_def)
qed


definition plain_pod :: pod where
  "plain_pod = \<lparr>pd_Name = ''p'', pd_Namespace = ''ns'', pd_Labels = [], pd_Annotations = [(claimRefAnnotation, ''c'')],
     pd_DeletionTimestamp = None, pd_NodeName = ''n'', pd_RestartPolicy = [], pd_HostIPC = False, pd_HostPID = False,
     pd_HostNetwork = False, pd_Containers = [], pd_InitContainers = [], pd_HostPathVolumes = [], pd_Phase = ''Running''\<rparr>"

text \<open>The same agent when the process is gone, with a pod it had stamped.\<close>

definition calm_env :: agent_env where
  "calm_env = (evicting_env 180000000000)\<lparr>en_procs2 := Some [], en_pod := (\<lambda>_ _. Found (stamp_pod 5 0 9 plain_pod)),
     en_patch := (\<lambda>_ _. True)\<rparr>"

definition stamped_detector :: detector where
  "stamped_detector = late_detector\<lparr>dt_stampedPods := [(''ns/s'', [(''ns'', ''p'')])]\<rparr>"

lemma calm_usage:
  "attribute ''n'' (Some [a_slice]) (Some [a_pod]) a_cgroup [over_user] (Some [])
    = Some [(''ns/s'', \<lparr>su_namespace = ''ns'', su_name = ''s'', su_grant = 10, su_used = 0, su_pods = []\<rparr>)]"
  by code_simp

lemma plain_pod_unmarked: "unmarked plain_pod"
  by code_simp


section \<open>Evicted workloads\<close>

lemma upsert_is_set: "upsertNodeCondition cs c = SetStatusCondition (cd_LastTransitionTime c) cs c"
  by (induction cs) auto

lemma job_of_put:
  assumes "JobStatus j \<in> set (put_job_condition env site ns c cond)"
  shows "\<exists>j0. j = j0\<lparr>jb_Conditions := upsertNodeCondition (jb_Conditions j0) cond\<rparr>"
  using assms by (auto simp: put_job_condition_def split: api_read.splits if_splits)

lemma clear_writes_job:
  assumes "JobStatus j \<in> set (snd (clearEnforcement env u key d))"
  shows "\<exists>j0 msg. j = j0\<lparr>jb_Conditions := upsertNodeCondition (jb_Conditions j0)
    (condition_now env memoryEnforcementCondition False enforcementJobReason msg)\<rparr>"
proof -
  have "JobStatus j \<notin> set (concat (map (unstampPod env key) nns))" for nns
    by (induction nns) (auto simp: unstampPod_def split: api_read.splits if_splits)
  moreover have "JobStatus j \<notin> set (setSliceEnforcementCondition env AtClear u False r m)" for r m
    by (auto simp: setSliceEnforcementCondition_def split: option.splits)
  ultimately have "JobStatus j \<in> set (mirrorEnforcementToJob env AtClear u False)"
    using assms by (auto simp: clearEnforcement_def)
  then show ?thesis
    using job_of_put by (fastforce simp: mirrorEnforcementToJob_def mirror_enforcement_def split: api_read.splits)
qed

text \<open>
  C37. The end of a violation erases the mark of an eviction: the job a recovery writes no longer counts as
  evicted, although the job controller relies on that mark alone to tell an evicted pod from a lost one.
  When the recovery comes before the job controller has failed the job, the controller creates the evicted
  workload's pod again.
\<close>

theorem eviction_mark_erased:
  assumes "enforce env u excess False d = (d', eff)" and "JobStatus j \<in> set eff"
    and "je_pod jenv = NotFound" and "je_slice jenv = Found s" and "cl_BoundSliceName claim \<noteq> []" and "sl_AllocationID s \<noteq> []"
    and "je_podOwnerRef jenv" and "je_createPod jenv = Accepted"
    and "\<not> jobPreempted j" and "jb_Phase j \<noteq> JobSucceeded" and "jb_Phase j \<noteq> JobFailed"
  shows "\<not> jobEnforcementEvicted j \<and>
    jo_pod (reconcileWorkloadPod jenv j tmpl claim ph msg) = Some (buildWorkloadPod j tmpl (claimNameForJob (jb_Name j)) (sl_NodeName s)) \<and>
    (\<forall>j0. jobEnforcementEvicted j0 \<longrightarrow> jo_pod (reconcileWorkloadPod jenv j0 tmpl claim ph msg) = None)"
proof -
  have "JobStatus j \<in> set (snd (clearEnforcement env u (slash (su_namespace u) (su_name u)) d))"
    using assms(1,2) by (auto simp: enforce_def Let_def case_prod_beta split: if_splits)
  then obtain j0 m where j: "j = j0\<lparr>jb_Conditions := upsertNodeCondition (jb_Conditions j0)
      (condition_now env memoryEnforcementCondition False enforcementJobReason m)\<rparr>"
    using clear_writes_job by blast
  let ?c = "condition_now env memoryEnforcementCondition False enforcementJobReason m"
  have t: "cd_Type ?c = enforcementConditionType" "cd_Status ?c = ConditionFalse"
    by (simp_all add: condition_now_def memoryEnforcementCondition_def enforcementConditionType_def)
  obtain l where "FindStatusCondition (jb_Conditions j) enforcementConditionType = Some (?c\<lparr>cd_LastTransitionTime := l\<rparr>)"
    using Find_Set_same [of _ "jb_Conditions j0" ?c] unfolding t by (auto simp: j upsert_is_set)
  then have ne: "\<not> jobEnforcementEvicted j"
    by (simp add: jobEnforcementEvicted_def t ConditionTrue_def ConditionFalse_def)
  have "jo_pod (reconcileWorkloadPod jenv j tmpl claim ph msg) = Some (buildWorkloadPod j tmpl (claimNameForJob (jb_Name j)) (sl_NodeName s))"
    using assms(3-11) ne create_pod_creates [OF assms(7,8)]
    by (simp add: reconcileWorkloadPod_def resolveAllocatedSlice_def Let_def)
  moreover have "jo_pod (reconcileWorkloadPod jenv k tmpl claim ph msg) = None" if "jobEnforcementEvicted k" for k
    using workload_pod_created that by (cases "jo_pod (reconcileWorkloadPod jenv k tmpl claim ph msg)") auto
  ultimately show ?thesis using ne by blast
qed

definition observed0 :: observed_slice where
  "observed0 = vgpu_slice.extend a_slice (observed_slice.fields 0 0 0 0 0 0)"

definition evicted_job :: vgpu_job where
  "evicted_job = wjob\<lparr>jb_Conditions := [\<lparr>cd_Type = memoryEnforcementCondition, cd_Status = ConditionTrue,
     cd_Reason = enforcementJobReasonEvicted, cd_Message = [], cd_LastTransitionTime = 0\<rparr>]\<rparr>"

definition clearing_env :: agent_env where
  "clearing_env = calm_env\<lparr>en_again := (\<lambda>_ _. Found observed0), en_claim := (\<lambda>_ _. Found (zero_claim\<lparr>cl_JobRef := ''j''\<rparr>)),
     en_job := (\<lambda>_ _. Found evicted_job), en_jobWrite := (\<lambda>_ _. True)\<rparr>"

definition calm_slice :: slice_usage where
  "calm_slice = \<lparr>su_namespace = ''ns'', su_name = ''s'', su_grant = 10, su_used = 0, su_pods = []\<rparr>"

definition cleared_job :: vgpu_job where
  "cleared_job = evicted_job\<lparr>jb_Conditions := [condition_now clearing_env memoryEnforcementCondition False enforcementJobReason
     ''No child slice is under soft enforcement'']\<rparr>"

lemma the_job_is_cleared: "JobStatus cleared_job \<in> set (snd (enforce clearing_env calm_slice 0 False stamped_detector))"
proof -
  have d: "gget False (dt_enforced stamped_detector) (slash (su_namespace calm_slice) (su_name calm_slice))"
    "en_mode clearing_env \<noteq> EnforcementOff"
    by (simp_all add: stamped_detector_def late_detector_def calm_slice_def slash_def clearing_env_def calm_env_def
        evicting_env_def gget_def)
  have r: "en_again clearing_env AtClear nn = Found observed0" "en_claim clearing_env AtClear nn = Found (zero_claim\<lparr>cl_JobRef := ''j''\<rparr>)"
    "en_job clearing_env AtClear nn = Found evicted_job" "en_jobWrite clearing_env AtClear nn" for nn
    by (simp_all add: clearing_env_def)
  have s: "sl_ClaimRef observed0 = ''c''" by (simp add: observed0_def vgpu_slice.defs observed_slice.defs a_slice_def slice0_def)
  have c: "upsertNodeCondition (jb_Conditions evicted_job) (condition_now clearing_env memoryEnforcementCondition False r m)
      = [condition_now clearing_env memoryEnforcementCondition False r m]" for r m
    by (simp add: evicted_job_def condition_now_def ConditionTrue_def ConditionFalse_def)
  have "JobStatus cleared_job \<in> set (mirrorEnforcementToJob clearing_env AtClear calm_slice False)"
    by (simp add: mirrorEnforcementToJob_def mirror_enforcement_def put_job_condition_def r s c cleared_job_def)
  then show ?thesis using d by (simp add: enforce_def Let_def case_prod_beta clearEnforcement_def)
qed

theorem eviction_mark_erased_witness:
  "jobEnforcementEvicted evicted_job \<and> \<not> jobEnforcementEvicted cleared_job \<and>
   (\<exists>p. jo_pod (reconcileWorkloadPod (job_env0 cleared_job) cleared_job plain_pod (zero_claim\<lparr>cl_BoundSliceName := ''s''\<rparr>) [] []) = Some p)"
proof -
  have ev: "jobEnforcementEvicted evicted_job"
    by (simp add: jobEnforcementEvicted_def evicted_job_def FindStatusCondition_def memoryEnforcementCondition_def
        enforcementConditionType_def enforcementJobReasonEvicted_def enforcementEvictedReason_def)
  obtain d' eff where r: "enforce clearing_env calm_slice 0 False stamped_detector = (d', eff)"
    by (cases "enforce clearing_env calm_slice 0 False stamped_detector")
  have j: "JobStatus cleared_job \<in> set eff" using the_job_is_cleared r by simp
  have e: "je_pod (job_env0 j) = NotFound" "je_slice (job_env0 j) = Found (slice0\<lparr>sl_AllocationID := ''a1'', sl_NodeName := ''n1''\<rparr>)"
    "je_podOwnerRef (job_env0 j)" "je_createPod (job_env0 j) = Accepted" for j
    by (simp_all add: job_env0_def)
  have p: "\<not> jobPreempted cleared_job"
    by (simp add: jobPreempted_def cleared_job_def condition_now_def FindStatusCondition_def memoryEnforcementCondition_def
        preemptedConditionType_def)
  have ph: "jb_Phase cleared_job = JobScheduled" by (simp add: cleared_job_def evicted_job_def wjob_def)
  show ?thesis
    using eviction_mark_erased [where tmpl = plain_pod and claim = "zero_claim\<lparr>cl_BoundSliceName := ''s''\<rparr>" and ph = "[]"
        and msg = "[]", OF r j e(1,2) _ _ e(3,4) p] ev
    by (simp add: ph)
qed

section \<open>No sample is lost\<close>

text \<open>
  One slice's statistics against the server's object: samples that are flushed or not, and the incidents
  between them. What the agent reads may fail; a write is accepted only on the version the server holds.
\<close>

inductive profile_run :: "observed_slice \<Rightarrow> slice_stat \<Rightarrow> observed_slice \<Rightarrow> int list \<Rightarrow> int \<Rightarrow> bool" for s0 where
  profile_start: "profile_run s0 (new_stat now) s0 [] 0"
| profile_sample: "profile_run s0 st s samples incidents \<Longrightarrow>
    en_sliceWrite env AtFlush (name_of u) \<longrightarrow> en_slice env AtFlush (name_of u) \<in> {Found s, NotFound, ReadErr} \<Longrightarrow>
    observe_stat env u st = (st', w) \<Longrightarrow>
    profile_run s0 st' (case w of None \<Rightarrow> s | Some s' \<Rightarrow> s') (samples @ [su_used u]) incidents"
| profile_incident: "profile_run s0 st s samples incidents \<Longrightarrow>
    profile_run s0 (st\<lparr>st_violDelta := i64 (st_violDelta st + 1)\<rparr>) s samples (incidents + 1)"

lemma flush_counts:
  "os_Observations (flush_status average st s) = i64 (os_Observations s + st_obsDelta st)"
  "os_ViolationCount (flush_status average st s) = i64 (os_ViolationCount s + st_violDelta st)"
  "os_Peak (flush_status average st s) = max (os_Peak s) (st_peak st)"
  "st_obsDelta (flushed now st) = 0" "st_violDelta (flushed now st) = 0" "st_peak (flushed now st) = st_peak st"
  "st_samples (flushed now st) = st_samples st"
  by (simp_all add: flush_status_def flushed_def max_def)

lemma profile_run_invariant:
  assumes "in_i64 (os_Observations s0)" and "in_i64 (os_ViolationCount s0)"
  shows "profile_run s0 st s samples incidents \<Longrightarrow>
    in_i64 (os_Observations s) \<and> in_i64 (os_ViolationCount s) \<and>
    i64 (os_Observations s + st_obsDelta st) = i64 (os_Observations s0 + int (length samples)) \<and>
    i64 (os_ViolationCount s + st_violDelta st) = i64 (os_ViolationCount s0 + incidents) \<and>
    st_samples st = samples \<and> st_peak st = foldl max 0 samples \<and>
    max (os_Peak s) (st_peak st) = max (os_Peak s0) (foldl max 0 samples)"
proof (induction rule: profile_run.induct)
  case (profile_start now)
  then show ?case using assms by (simp add: new_stat_def)
next
  case (profile_sample st s samples incidents env u st' w)
  let ?st = "sample (su_used u) st"
  have smp: "st_obsDelta ?st = i64 (st_obsDelta st + 1)" "st_violDelta ?st = st_violDelta st"
    "st_samples ?st = samples @ [su_used u]" "st_peak ?st = foldl max 0 (samples @ [su_used u])"
    using profile_sample.IH by (auto simp: sample_def)
  have cnt: "i64 (os_Observations s + st_obsDelta ?st) = i64 (os_Observations s0 + int (length (samples @ [su_used u])))"
  proof -
    have "i64 (os_Observations s + st_obsDelta ?st) = i64 (i64 (os_Observations s + st_obsDelta st) + 1)"
      unfolding smp(1) i64_add_right i64_add_left by (simp add: add.assoc)
    also have "\<dots> = i64 (i64 (os_Observations s0 + int (length samples)) + 1)" using profile_sample.IH by simp
    finally show ?thesis unfolding i64_add_left by (simp add: ac_simps)
  qed
  have pk: "max (os_Peak s) (st_peak ?st) = max (os_Peak s0) (foldl max 0 (samples @ [su_used u]))"
    using profile_sample.IH smp(4) by (simp add: max.assoc [symmetric]) (metis max.assoc)
  have "(w = None \<and> st' = ?st) \<or> (w = Some (flush_status (en_average env) ?st s) \<and> st' = flushed (en_now env) ?st)"
    using profile_sample.hyps(2,3) by (auto simp: observe_stat_def flushProfile_def Let_def split: if_splits api_read.splits)
  then show ?case
  proof (elim disjE conjE)
    assume "w = None" "st' = ?st"
    then show ?thesis using profile_sample.IH smp cnt pk by simp
  next
    assume "w = Some (flush_status (en_average env) ?st s)" "st' = flushed (en_now env) ?st"
    then show ?thesis using profile_sample.IH smp cnt pk by (simp add: flush_counts i64_in)
  qed
next
  case (profile_incident st s samples incidents)
  have "i64 (os_ViolationCount s + i64 (st_violDelta st + 1)) = i64 (i64 (os_ViolationCount s + st_violDelta st) + 1)"
    unfolding i64_add_right i64_add_left by (simp add: add.assoc)
  also have "\<dots> = i64 (os_ViolationCount s0 + (incidents + 1))" using profile_incident.IH by (simp add: i64_add_left add.assoc)
  finally show ?case using profile_incident.IH by auto
qed



end
