(* ===== verification/NodeAllocator.thy ===== *)
theory NodeAllocator
  imports GoText
begin

text \<open>
  The node agent's card allocator, \<open>internal/nodeagent/nvml/allocator.go\<close>, with the device enumeration
  of \<open>allocator_nvml.go\<close> over what NVML answers: best-fit placement on one card, the ledger of promised
  bytes per card, its idempotence per slice, its release by allocation or by slice, and its restoration
  from checkpoints. Byte counts are \<open>int64\<close> with the wrap-around written out; the clock that names an
  allocation is an argument.
\<close>

section \<open>Devices\<close>

record alloc_device =
  ad_uuid :: string
  ad_total :: int
  ad_reserved :: int

text \<open>What NVML answers for one device index: no field is there when its call fails.\<close>

record nvml_answer =
  nv_uuid :: "string option"
  nv_memory_v2 :: "(int \<times> int) option"
  nv_memory :: "int option"

definition nvml_device :: "nvml_answer option \<Rightarrow> alloc_device list" where
  "nvml_device handle =
    (case handle of
       None \<Rightarrow> []
     | Some h \<Rightarrow>
         (case nv_uuid h of
            None \<Rightarrow> []
          | Some u \<Rightarrow>
              if u = [] then []
              else let v1 = (case nv_memory h of None \<Rightarrow> [] | Some t \<Rightarrow> [\<lparr>ad_uuid = u, ad_total = i64 t, ad_reserved = 0\<rparr>])
                   in case nv_memory_v2 h of
                     Some (t, r) \<Rightarrow>
                       if t > 0 then [\<lparr>ad_uuid = u, ad_total = i64 t, ad_reserved = i64 r\<rparr>] else v1
                   | None \<Rightarrow> v1))"

text \<open>\<open>None\<close> stands for a failed NVML initialisation or device count.\<close>

definition enumerateDevices :: "nvml_answer option list option \<Rightarrow> alloc_device list option" where
  "enumerateDevices nvml =
    (case nvml of
       None \<Rightarrow> None
     | Some handles \<Rightarrow> (let ds = concat (map nvml_device handles) in if ds = [] then None else Some ds))"

definition envInt64Default :: "(string \<Rightarrow> string) \<Rightarrow> string \<Rightarrow> int \<Rightarrow> int" where
  "envInt64Default env key d =
    (if env key \<noteq> [] then (case ParseInt64 (env key) of Some n \<Rightarrow> n | None \<Rightarrow> d) else d)"

text \<open>The \<open>%08d\<close> of a non-negative index.\<close>

definition fake_uuid :: "nat \<Rightarrow> string" where
  "fake_uuid i = (let n = FormatInt (int i) in ''GPU-FAKE-'' @ replicate (8 - length n) (CHR ''0'') @ n)"

definition mock_devices :: "(string \<Rightarrow> string) \<Rightarrow> alloc_device list" where
  "mock_devices env =
    (let count = max 0 (envInt64Default env ''VGPU_FAKE_GPU_COUNT'' 1);
         mem = max 0 (envInt64Default env ''VGPU_FAKE_GPU_MEM_BYTES'' (80 * 2 ^ 30))
     in map (\<lambda>i. \<lparr>ad_uuid = fake_uuid i, ad_total = mem, ad_reserved = 0\<rparr>) [0..<nat count])"

definition devices :: "bool \<Rightarrow> (string \<Rightarrow> string) \<Rightarrow> nvml_answer option list option \<Rightarrow> alloc_device list option" where
  "devices mockMode env nvml = (if mockMode then Some (mock_devices env) else enumerateDevices nvml)"

section \<open>The ledger\<close>

record ledger_entry =
  le_sliceUID :: string
  le_deviceUUID :: string
  le_bytes :: int

record allocator =
  al_mockMode :: bool
  al_initialized :: bool
  al_committed :: "(string, int) gomap"
  al_byAlloc :: "(string, ledger_entry) gomap"
  al_bySlice :: "(string, string) gomap"

record alloc_request =
  aq_SliceUID :: string
  aq_ClaimName :: string
  aq_RequestedVRAMBytes :: int

record alloc_result =
  ar_AllocationID :: string
  ar_DeviceUUID :: string
  ar_AllocatedBytes :: int

datatype alloc_error =
    NotInitialised
  | MissingSliceUID
  | NonPositiveRequest string int
  | EnumerationFailed
  | Fragmentation int int

definition NewAllocator :: "bool \<Rightarrow> allocator" where
  "NewAllocator mock = \<lparr>al_mockMode = mock, al_initialized = True, al_committed = [], al_byAlloc = [], al_bySlice = []\<rparr>"

definition zero_entry :: ledger_entry where
  "zero_entry = \<lparr>le_sliceUID = [], le_deviceUUID = [], le_bytes = 0\<rparr>"

definition available :: "allocator \<Rightarrow> alloc_device \<Rightarrow> int" where
  "available a d = max 0 (i64 (ad_total d - ad_reserved d - gget 0 (al_committed a) (ad_uuid d)))"

text \<open>The loop of \<open>pickBestFitLocked\<close>: the best card so far, its free bytes, the node's free bytes.\<close>

fun pick_loop :: "allocator \<Rightarrow> int \<Rightarrow> alloc_device list \<Rightarrow> string \<times> int \<times> int \<Rightarrow> string \<times> int \<times> int" where
  "pick_loop a req [] acc = acc"
| "pick_loop a req (d # ds) (best, bestAvail, nodeFree) =
    (let avail = available a d in
     pick_loop a req ds
       (if avail \<ge> req \<and> (bestAvail < 0 \<or> avail < bestAvail) then (ad_uuid d, avail, i64 (nodeFree + avail))
        else (best, bestAvail, i64 (nodeFree + avail))))"

definition pickBestFitLocked :: "allocator \<Rightarrow> alloc_device list \<Rightarrow> int \<Rightarrow> alloc_error + string" where
  "pickBestFitLocked a ds req =
    (case pick_loop a req ds ([], -1, 0) of
       (best, _, nodeFree) \<Rightarrow> if best = [] then Inl (Fragmentation req nodeFree) else Inr best)"

definition alloc_id :: "string \<Rightarrow> int \<Rightarrow> string" where
  "alloc_id sliceUID now = ''alloc-'' @ take 8 sliceUID @ ''-'' @ FormatInt now"

definition commit_entry :: "string \<Rightarrow> string \<Rightarrow> string \<Rightarrow> int \<Rightarrow> allocator \<Rightarrow> allocator" where
  "commit_entry allocID sliceUID uuid bytes a = a
    \<lparr>al_committed := gput uuid (i64 (gget 0 (al_committed a) uuid + bytes)) (al_committed a),
     al_byAlloc := gput allocID \<lparr>le_sliceUID = sliceUID, le_deviceUUID = uuid, le_bytes = bytes\<rparr> (al_byAlloc a),
     al_bySlice := (if sliceUID \<noteq> [] then gput sliceUID allocID (al_bySlice a) else al_bySlice a)\<rparr>"

definition Allocate ::
  "alloc_device list option \<Rightarrow> int \<Rightarrow> alloc_request \<Rightarrow> allocator \<Rightarrow> (alloc_error + alloc_result) \<times> allocator" where
  "Allocate devs now req a =
    (if \<not> al_initialized a then (Inl NotInitialised, a)
     else if aq_SliceUID req = [] then (Inl MissingSliceUID, a)
     else if aq_RequestedVRAMBytes req \<le> 0 then
       (Inl (NonPositiveRequest (aq_SliceUID req) (aq_RequestedVRAMBytes req)), a)
     else case devs of
       None \<Rightarrow> (Inl EnumerationFailed, a)
     | Some ds \<Rightarrow>
         (case map_of (al_bySlice a) (aq_SliceUID req) of
            Some prior \<Rightarrow>
              (let e = gget zero_entry (al_byAlloc a) prior
               in (Inr \<lparr>ar_AllocationID = prior, ar_DeviceUUID = le_deviceUUID e, ar_AllocatedBytes = le_bytes e\<rparr>, a))
          | None \<Rightarrow>
              (case pickBestFitLocked a ds (aq_RequestedVRAMBytes req) of
                 Inl err \<Rightarrow> (Inl err, a)
               | Inr uuid \<Rightarrow>
                   (Inr \<lparr>ar_AllocationID = alloc_id (aq_SliceUID req) now, ar_DeviceUUID = uuid,
                          ar_AllocatedBytes = aq_RequestedVRAMBytes req\<rparr>,
                    commit_entry (alloc_id (aq_SliceUID req) now) (aq_SliceUID req) uuid (aq_RequestedVRAMBytes req) a))))"

definition releaseLocked :: "string \<Rightarrow> allocator \<Rightarrow> allocator" where
  "releaseLocked allocationID a =
    (case map_of (al_byAlloc a) allocationID of
       None \<Rightarrow> a
     | Some e \<Rightarrow>
         (let left = i64 (gget 0 (al_committed a) (le_deviceUUID e) - le_bytes e)
          in a\<lparr>al_committed := (if left \<le> 0 then gdel (le_deviceUUID e) (al_committed a)
                                else gput (le_deviceUUID e) left (al_committed a)),
               al_byAlloc := gdel allocationID (al_byAlloc a),
               al_bySlice := (if le_sliceUID e \<noteq> [] then gdel (le_sliceUID e) (al_bySlice a) else al_bySlice a)\<rparr>))"

text \<open>Whether it succeeded, and the allocator after it.\<close>

definition Release :: "string \<Rightarrow> allocator \<Rightarrow> bool \<times> allocator" where
  "Release allocationID a =
    (if \<not> al_initialized a then (False, a)
     else if allocationID = [] then (True, a)
     else (True, releaseLocked allocationID a))"

definition ReleaseBySlice :: "string \<Rightarrow> allocator \<Rightarrow> string option \<times> allocator" where
  "ReleaseBySlice sliceUID a =
    (if \<not> al_initialized a then (None, a)
     else if sliceUID = [] then (Some [], a)
     else case map_of (al_bySlice a) sliceUID of
       None \<Rightarrow> (Some [], a)
     | Some allocID \<Rightarrow> (Some allocID, releaseLocked allocID a))"

definition RestoreAllocation :: "string \<Rightarrow> string \<Rightarrow> string \<Rightarrow> int \<Rightarrow> allocator \<Rightarrow> allocator" where
  "RestoreAllocation allocationID sliceUID deviceUUID bytes a =
    (if allocationID = [] \<or> deviceUUID = [] \<or> bytes \<le> 0 then a
     else if ghas (al_byAlloc a) allocationID then a
     else commit_entry allocationID sliceUID deviceUUID bytes a)"

definition CommittedBytes :: "string \<Rightarrow> allocator \<Rightarrow> int" where
  "CommittedBytes deviceUUID a = gget 0 (al_committed a) deviceUUID"

definition InspectAllHardware :: "allocator \<Rightarrow> (string, bool) gomap option \<times> bool" where
  "InspectAllHardware a = (None, False)"

section \<open>The invariant\<close>

definition on_card :: "string \<Rightarrow> string \<Rightarrow> ledger_entry \<Rightarrow> int" where
  "on_card u k e = (if le_deviceUUID e = u then le_bytes e else 0)"

text \<open>What a card can hold; a card that is not enumerated is only bounded by the integer width.\<close>

definition card_limit :: "alloc_device list \<Rightarrow> string \<Rightarrow> int" where
  "card_limit ds u = (case find (\<lambda>d. ad_uuid d = u) ds of Some d \<Rightarrow> ad_total d - ad_reserved d | None \<Rightarrow> 2 ^ 63 - 1)"

definition devices_ok :: "alloc_device list \<Rightarrow> bool" where
  "devices_ok ds \<longleftrightarrow> distinct (map ad_uuid ds) \<and>
    (\<forall>d\<in>set ds. ad_uuid d \<noteq> [] \<and> 0 \<le> ad_reserved d \<and> ad_reserved d \<le> ad_total d \<and> ad_total d < 2 ^ 63)"

definition ledger_ok :: "alloc_device list \<Rightarrow> allocator \<Rightarrow> bool" where
  "ledger_ok ds a \<longleftrightarrow> gmap_ok (al_committed a) \<and> gmap_ok (al_byAlloc a) \<and> gmap_ok (al_bySlice a) \<and>
    (\<forall>u. gget 0 (al_committed a) u = gsum (on_card u) (al_byAlloc a) \<and> gget 0 (al_committed a) u \<le> card_limit ds u) \<and>
    (\<forall>k e. map_of (al_byAlloc a) k = Some e \<longrightarrow> 0 < le_bytes e \<and> le_deviceUUID e \<noteq> [] \<and> k \<noteq> []) \<and>
    (\<forall>s k. map_of (al_bySlice a) s = Some k \<longrightarrow>
       s \<noteq> [] \<and> (\<exists>e. map_of (al_byAlloc a) k = Some e \<and> le_sliceUID e = s))"

inductive allocator_reachable :: "alloc_device list \<Rightarrow> allocator \<Rightarrow> bool" for ds where
  start: "allocator_reachable ds (NewAllocator mock)"
| allocate: "allocator_reachable ds a \<Longrightarrow> \<not> ghas (al_byAlloc a) (alloc_id (aq_SliceUID req) now) \<Longrightarrow>
    allocator_reachable ds (snd (Allocate (Some ds) now req a))"
| release: "allocator_reachable ds a \<Longrightarrow> allocator_reachable ds (snd (Release k a))"
| release_slice: "allocator_reachable ds a \<Longrightarrow> allocator_reachable ds (snd (ReleaseBySlice s a))"
| restore: "allocator_reachable ds a \<Longrightarrow> gget 0 (al_committed a) u + b \<le> card_limit ds u \<Longrightarrow>
    allocator_reachable ds (RestoreAllocation k s u b a)"

lemma ledger_gmaps:
  "ledger_ok ds a \<Longrightarrow> gmap_ok (al_committed a)" "ledger_ok ds a \<Longrightarrow> gmap_ok (al_byAlloc a)"
  "ledger_ok ds a \<Longrightarrow> gmap_ok (al_bySlice a)"
  by (simp_all add: ledger_ok_def)

lemma ledger_sum: "ledger_ok ds a \<Longrightarrow> gget 0 (al_committed a) u = gsum (on_card u) (al_byAlloc a)"
  by (simp add: ledger_ok_def)

lemma ledger_entry:
  "ledger_ok ds a \<Longrightarrow> map_of (al_byAlloc a) k = Some e \<Longrightarrow> 0 < le_bytes e \<and> le_deviceUUID e \<noteq> [] \<and> k \<noteq> []"
  by (simp add: ledger_ok_def)

lemma ledger_index:
  "ledger_ok ds a \<Longrightarrow> map_of (al_bySlice a) s = Some k \<Longrightarrow>
    s \<noteq> [] \<and> (\<exists>e. map_of (al_byAlloc a) k = Some e \<and> le_sliceUID e = s)"
  by (simp add: ledger_ok_def)

lemma on_card_nonneg: "ledger_ok ds a \<Longrightarrow> (k, e) \<in> set (al_byAlloc a) \<Longrightarrow> 0 \<le> on_card u k e"
  using ledger_entry ledger_gmaps(2) by (fastforce simp: on_card_def map_of_SomeD_ok)

lemma ledger_committed:
  assumes "ledger_ok ds a"
  shows "0 \<le> gget 0 (al_committed a) u" and "gget 0 (al_committed a) u \<le> card_limit ds u"
proof -
  show "0 \<le> gget 0 (al_committed a) u"
    unfolding ledger_sum [OF assms] by (intro gsum_nonneg on_card_nonneg [OF assms])
  show "gget 0 (al_committed a) u \<le> card_limit ds u"
    using assms unfolding ledger_ok_def by blast
qed

lemma card_limit_bounds: "devices_ok ds \<Longrightarrow> 0 \<le> card_limit ds u \<and> card_limit ds u < 2 ^ 63"
  by (auto simp: card_limit_def devices_ok_def find_Some_iff split: option.splits dest!: nth_mem)

lemma card_limit_of: "devices_ok ds \<Longrightarrow> d \<in> set ds \<Longrightarrow> card_limit ds (ad_uuid d) = ad_total d - ad_reserved d"
proof -
  assume a: "devices_ok ds" "d \<in> set ds"
  then have "find (\<lambda>x. ad_uuid x = ad_uuid d) ds = Some d"
    unfolding devices_ok_def by (induction ds) (auto simp: image_iff)
  then show ?thesis by (simp add: card_limit_def)
qed

lemma commit_ok:
  assumes "ledger_ok ds a" and "devices_ok ds" and "0 < b" and "u \<noteq> []" and "k \<noteq> []" and "\<not> ghas (al_byAlloc a) k"
    and "gget 0 (al_committed a) u + b \<le> card_limit ds u"
  shows "ledger_ok ds (commit_entry k s u b a)"
proof -
  have i: "i64 (gget 0 (al_committed a) u + b) = gget 0 (al_committed a) u + b"
    using ledger_committed [OF assms(1), of u] card_limit_bounds [OF assms(2), of u] assms(3,7) by (intro i64_id) linarith+
  have n: "map_of (al_byAlloc a) k = None" using assms(6) by (simp add: not_ghas)
  have g: "gmap_ok (al_byAlloc a)" using assms(1) by (simp add: ledger_ok_def)
  have sum: "gsum (on_card v) (gput k e (al_byAlloc a)) = gsum (on_card v) (al_byAlloc a) + on_card v k e" for v e
    by (simp add: gsum_gput [OF g] n)
  let ?a = "commit_entry k s u b a"
  have al: "al_byAlloc ?a = gput k \<lparr>le_sliceUID = s, le_deviceUUID = u, le_bytes = b\<rparr> (al_byAlloc a)"
    by (simp add: commit_entry_def)
  have com: "gget 0 (al_committed ?a) v = gget 0 (al_committed a) v + (if v = u then b else 0)" for v
    by (simp add: commit_entry_def i)
  have "gget 0 (al_committed ?a) v = gsum (on_card v) (al_byAlloc ?a)" for v
    by (simp add: com al sum ledger_sum [OF assms(1)] on_card_def)
  moreover have "gget 0 (al_committed ?a) v \<le> card_limit ds v" for v
    using assms(7) ledger_committed(2) [OF assms(1), of v] by (simp add: com)
  moreover have "0 < le_bytes e \<and> le_deviceUUID e \<noteq> [] \<and> k' \<noteq> []" if "map_of (al_byAlloc ?a) k' = Some e" for k' e
    using that assms(3-5) ledger_entry [OF assms(1)] by (auto simp: al split: if_splits)
  moreover have "s' \<noteq> [] \<and> (\<exists>e. map_of (al_byAlloc ?a) k' = Some e \<and> le_sliceUID e = s')"
    if "map_of (al_bySlice ?a) s' = Some k'" for s' k'
    using that n ledger_index [OF assms(1), of s' k'] by (auto simp: al commit_entry_def split: if_splits)
  moreover have "gmap_ok (al_committed ?a)" "gmap_ok (al_byAlloc ?a)" "gmap_ok (al_bySlice ?a)"
    using ledger_gmaps [OF assms(1)] by (simp_all add: commit_entry_def)
  ultimately show ?thesis by (simp add: ledger_ok_def)
qed

lemma release_ok:
  assumes "ledger_ok ds a" and "devices_ok ds"
  shows "ledger_ok ds (releaseLocked k a)"
proof (cases "map_of (al_byAlloc a) k")
  case None
  then show ?thesis using assms(1) by (simp add: releaseLocked_def)
next
  case (Some e)
  have g: "gmap_ok (al_byAlloc a)" using assms(1) by (simp add: ledger_ok_def)
  let ?u = "le_deviceUUID e"
  have sum: "gsum (on_card v) (gdel k (al_byAlloc a)) = gsum (on_card v) (al_byAlloc a) - on_card v k e" for v
    by (simp add: gsum_gdel [OF g] Some)
  have nn: "0 \<le> gsum (on_card ?u) (gdel k (al_byAlloc a))"
    by (intro gsum_nonneg on_card_nonneg [OF assms(1)]) (auto simp: gdel_def AList.delete_eq)
  have c: "gget 0 (al_committed a) ?u = gsum (on_card ?u) (al_byAlloc a)" using assms(1) by (simp add: ledger_ok_def)
  have pos: "0 < le_bytes e" using assms(1) Some by (auto simp: ledger_ok_def)
  have left: "0 \<le> gget 0 (al_committed a) ?u - le_bytes e"
    using nn c sum [of ?u] by (simp add: on_card_def)
  have i: "i64 (gget 0 (al_committed a) ?u - le_bytes e) = gget 0 (al_committed a) ?u - le_bytes e"
    using left ledger_committed(2) [OF assms(1), of ?u] card_limit_bounds [OF assms(2), of ?u] pos by (intro i64_id) linarith+
  have com: "gget 0 (al_committed (releaseLocked k a)) v = gget 0 (al_committed a) v - on_card v k e" for v
    using left by (simp add: releaseLocked_def Some Let_def i on_card_def)
  have lim: "gget 0 (al_committed (releaseLocked k a)) v \<le> card_limit ds v" for v
    using com [of v] ledger_committed(2) [OF assms(1), of v] pos by (simp add: on_card_def split: if_splits)
  have other: "gmap_ok (al_committed (releaseLocked k a))" "gmap_ok (al_bySlice (releaseLocked k a))"
    "al_byAlloc (releaseLocked k a) = gdel k (al_byAlloc a)"
    using ledger_gmaps [OF assms(1)] by (simp_all add: releaseLocked_def Some Let_def)
  have idx: "s \<noteq> [] \<and> (\<exists>e. map_of (al_byAlloc (releaseLocked k a)) k' = Some e \<and> le_sliceUID e = s)"
    if "map_of (al_bySlice (releaseLocked k a)) s = Some k'" for s k'
  proof -
    have m: "map_of (al_bySlice a) s = Some k'" "s \<noteq> le_sliceUID e \<or> le_sliceUID e = []"
      using that by (auto simp: releaseLocked_def Some Let_def split: if_splits)
    then obtain e' where e': "s \<noteq> []" "map_of (al_byAlloc a) k' = Some e'" "le_sliceUID e' = s"
      using ledger_index [OF assms(1) m(1)] by blast
    then have "k' \<noteq> k" using m(2) Some by auto
    then show ?thesis using e' by (simp add: other)
  qed
  show ?thesis
    using com lim other idx g ledger_entry [OF assms(1)] ledger_sum [OF assms(1)]
    by (simp add: ledger_ok_def sum)
qed


section \<open>The choice of a card\<close>

lemma available_eq:
  assumes "ledger_ok ds a" and "devices_ok ds" and "d \<in> set ds"
  shows "available a d = ad_total d - ad_reserved d - gget 0 (al_committed a) (ad_uuid d)"
proof -
  let ?c = "gget 0 (al_committed a) (ad_uuid d)"
  have "0 \<le> ?c" "?c \<le> ad_total d - ad_reserved d"
    using ledger_committed [OF assms(1), of "ad_uuid d"] card_limit_of [OF assms(2,3)] by simp_all
  moreover have "0 \<le> ad_reserved d" "ad_total d < 2 ^ 63" using assms(2,3) by (auto simp: devices_ok_def)
  ultimately show ?thesis by (simp add: available_def i64_id)
qed

text \<open>The result of the loop is the accumulator, or a better card of the list that no card of it beats.\<close>

lemma pick_loop_best:
  assumes "pick_loop a req ds (best, bestAvail, nf) = (b, ba, nf')" and "0 < req"
  shows "(b = best \<and> ba = bestAvail \<and> (\<forall>d\<in>set ds. req \<le> available a d \<longrightarrow> 0 \<le> bestAvail \<and> bestAvail \<le> available a d)) \<or>
    (\<exists>d\<in>set ds. b = ad_uuid d \<and> ba = available a d \<and> req \<le> ba \<and> (bestAvail < 0 \<or> ba < bestAvail) \<and>
      (\<forall>d'\<in>set ds. req \<le> available a d' \<longrightarrow> ba \<le> available a d'))"
  using assms(1)
proof (induction ds arbitrary: best bestAvail nf)
  case (Cons d ds)
  let ?v = "available a d"
  show ?case
  proof (cases "?v \<ge> req \<and> (bestAvail < 0 \<or> ?v < bestAvail)")
    case True
    then have "pick_loop a req ds (ad_uuid d, ?v, i64 (nf + ?v)) = (b, ba, nf')"
      using Cons.prems by (simp add: Let_def)
    from Cons.IH [OF this] show ?thesis using True assms(2) by fastforce
  next
    case False
    have "pick_loop a req ds (best, bestAvail, i64 (nf + ?v)) = (b, ba, nf')"
      using Cons.prems by (simp only: pick_loop.simps Let_def if_not_P [OF False])
    from Cons.IH [OF this] show ?thesis using False by force
  qed
qed simp

lemma pick_loop_free:
  "snd (snd (pick_loop a req ds (best, bestAvail, nf))) = (if ds = [] then nf else i64 (nf + sum_list (map (available a) ds)))"
proof (induction ds arbitrary: best bestAvail nf)
  case (Cons d ds)
  then show ?case by (cases "ds = []") (simp_all add: Let_def i64_add_left add.assoc)
qed simp

definition fits_best :: "allocator \<Rightarrow> alloc_device list \<Rightarrow> int \<Rightarrow> alloc_device \<Rightarrow> bool" where
  "fits_best a ds req d \<longleftrightarrow> d \<in> set ds \<and> req \<le> available a d \<and>
    (\<forall>d'\<in>set ds. req \<le> available a d' \<longrightarrow> available a d \<le> available a d')"

lemma pickBestFit_exact:
  assumes "0 < req" and "devices_ok ds"
  shows "case pickBestFitLocked a ds req of
      Inr u \<Rightarrow> \<exists>d. fits_best a ds req d \<and> u = ad_uuid d
    | Inl err \<Rightarrow> (\<forall>d\<in>set ds. available a d < req) \<and> (\<exists>free. err = Fragmentation req free \<and>
        (sum_list (map (available a) ds) < 2 ^ 63 \<longrightarrow> free = sum_list (map (available a) ds)))"
proof -
  obtain b ba nf where r: "pick_loop a req ds ([], -1, 0) = (b, ba, nf)" by (metis prod_cases3)
  have ne: "\<forall>d\<in>set ds. ad_uuid d \<noteq> []" using assms(2) by (simp add: devices_ok_def)
  have "0 \<le> sum_list (map (available a) ds)" by (intro sum_list_nonneg) (auto simp: available_def)
  then have free: "sum_list (map (available a) ds) < 2 ^ 63 \<Longrightarrow> nf = sum_list (map (available a) ds)"
    using pick_loop_free [of a req ds "[]" "-1" 0] by (auto simp: r i64_id split: if_splits)
  show ?thesis
    using pick_loop_best [OF r assms(1)]
  proof
    assume "b = [] \<and> ba = -1 \<and> (\<forall>d\<in>set ds. req \<le> available a d \<longrightarrow> 0 \<le> (-1::int) \<and> -1 \<le> available a d)"
    then have "b = []" "\<forall>d\<in>set ds. available a d < req" by auto
    then show ?thesis using free by (simp add: pickBestFitLocked_def r)
  next
    assume "\<exists>d\<in>set ds. b = ad_uuid d \<and> ba = available a d \<and> req \<le> ba \<and> ((-1::int) < 0 \<or> ba < -1) \<and>
      (\<forall>d'\<in>set ds. req \<le> available a d' \<longrightarrow> ba \<le> available a d')"
    then obtain d where d: "fits_best a ds req d" "b = ad_uuid d" by (auto simp: fits_best_def)
    then have "b \<noteq> []" using ne by (auto simp: fits_best_def)
    then show ?thesis using d by (auto simp: pickBestFitLocked_def r)
  qed
qed

section \<open>Reachable ledgers\<close>

lemma NewAllocator_ok: "devices_ok ds \<Longrightarrow> ledger_ok ds (NewAllocator mock)"
  using card_limit_bounds by (simp add: ledger_ok_def NewAllocator_def gget_def)

lemma alloc_id_ne [simp]: "alloc_id s now \<noteq> []"
  by (simp add: alloc_id_def)

lemma Allocate_ok:
  assumes "ledger_ok ds a" and "devices_ok ds" and "\<not> ghas (al_byAlloc a) (alloc_id (aq_SliceUID req) now)"
  shows "ledger_ok ds (snd (Allocate (Some ds) now req a))"
proof (cases "al_initialized a \<and> aq_SliceUID req \<noteq> [] \<and> 0 < aq_RequestedVRAMBytes req \<and> map_of (al_bySlice a) (aq_SliceUID req) = None")
  case False
  then show ?thesis using assms(1) by (auto simp: Allocate_def Let_def not_less split: option.splits)
next
  case True
  let ?q = "aq_RequestedVRAMBytes req"
  show ?thesis
  proof (cases "pickBestFitLocked a ds ?q")
    case (Inl e)
    then show ?thesis using True assms(1) by (simp add: Allocate_def)
  next
    case (Inr u)
    then obtain d where d: "fits_best a ds ?q d" "u = ad_uuid d"
      using pickBestFit_exact [of ?q ds a] True assms(2) by auto
    have "gget 0 (al_committed a) u + ?q \<le> card_limit ds u"
      using available_eq [OF assms(1,2), of d] card_limit_of [OF assms(2), of d] d by (simp add: fits_best_def)
    moreover have "u \<noteq> []" using d assms(2) by (auto simp: fits_best_def devices_ok_def)
    ultimately show ?thesis
      using True Inr commit_ok [OF assms(1,2) _ _ alloc_id_ne assms(3)] by (simp add: Allocate_def)
  qed
qed

lemma allocator_reachable_ok: "allocator_reachable ds a \<Longrightarrow> devices_ok ds \<Longrightarrow> ledger_ok ds a"
proof (induction rule: allocator_reachable.induct)
  case (start mock)
  then show ?case by (rule NewAllocator_ok)
next
  case (allocate a req now)
  then show ?case by (blast intro: Allocate_ok)
next
  case (release a k)
  then show ?case by (simp add: Release_def release_ok)
next
  case (release_slice a s)
  then show ?case by (simp add: ReleaseBySlice_def release_ok split: option.splits)
next
  case (restore a u b k s)
  then show ?case by (auto simp: RestoreAllocation_def intro: commit_ok)
qed

section \<open>Properties\<close>


definition two_cards :: "alloc_device list" where
  "two_cards = [\<lparr>ad_uuid = ''A'', ad_total = 100, ad_reserved = 10\<rparr>, \<lparr>ad_uuid = ''B'', ad_total = 50, ad_reserved = 0\<rparr>]"

definition want :: "string \<Rightarrow> int \<Rightarrow> alloc_request" where
  "want s q = \<lparr>aq_SliceUID = s, aq_ClaimName = [], aq_RequestedVRAMBytes = q\<rparr>"

lemma want_sel [simp]: "aq_SliceUID (want s q) = s" "aq_RequestedVRAMBytes (want s q) = q"
  by (simp_all add: want_def)

lemma first_allocation:
  "Allocate (Some two_cards) 7 (want ''s'' 30) (NewAllocator False)
    = (Inr \<lparr>ar_AllocationID = alloc_id ''s'' 7, ar_DeviceUUID = ''B'', ar_AllocatedBytes = 30\<rparr>,
       commit_entry (alloc_id ''s'' 7) ''s'' ''B'' 30 (NewAllocator False))"
  by (simp add: Allocate_def NewAllocator_def want_def two_cards_def pickBestFitLocked_def available_def i64_id gget_def)

lemma new_allocator_empty [simp]:
  "map_of (al_bySlice (NewAllocator m)) k = None" "\<not> ghas (al_byAlloc (NewAllocator m)) k"
  "CommittedBytes u (NewAllocator m) = 0" "al_initialized (NewAllocator m)"
  by (simp_all add: NewAllocator_def CommittedBytes_def gget_def)

lemma two_cards_ok: "devices_ok two_cards"
  by (simp add: devices_ok_def two_cards_def)


text \<open>
  Placement is best-fit and fails loudly: a new slice gets a card that holds its whole request and
  that no fitting card beats in being nearly full, and only that card is charged; it is refused as
  fragmented exactly when no single card fits, with the ledger untouched and the node's free bytes
  reported.
\<close>

theorem placement_is_best_fit:
  assumes "allocator_reachable ds a" and "devices_ok ds" and "al_initialized a" and "aq_SliceUID req \<noteq> []"
    and "0 < aq_RequestedVRAMBytes req" and "map_of (al_bySlice a) (aq_SliceUID req) = None"
  shows "case Allocate (Some ds) now req a of
      (Inr r, a') \<Rightarrow> \<exists>d. fits_best a ds (aq_RequestedVRAMBytes req) d \<and> ar_DeviceUUID r = ad_uuid d \<and>
        ar_AllocatedBytes r = aq_RequestedVRAMBytes req \<and>
        (\<forall>u. CommittedBytes u a' = CommittedBytes u a + (if u = ad_uuid d then aq_RequestedVRAMBytes req else 0))
    | (Inl err, a') \<Rightarrow> a' = a \<and> (\<forall>d\<in>set ds. available a d < aq_RequestedVRAMBytes req) \<and>
        (\<exists>free. err = Fragmentation (aq_RequestedVRAMBytes req) free \<and>
          (sum_list (map (available a) ds) < 2 ^ 63 \<longrightarrow> free = sum_list (map (available a) ds)))"
proof -
  have ok: "ledger_ok ds a" by (rule allocator_reachable_ok [OF assms(1,2)])
  let ?q = "aq_RequestedVRAMBytes req"
  show ?thesis
  proof (cases "pickBestFitLocked a ds ?q")
    case (Inl e)
    then show ?thesis using pickBestFit_exact [OF assms(5,2), of a] assms(3-6) by (simp add: Allocate_def)
  next
    case (Inr u)
    then obtain d where d: "fits_best a ds ?q d" "u = ad_uuid d"
      using pickBestFit_exact [OF assms(5,2), of a] by auto
    have "gget 0 (al_committed a) u + ?q \<le> card_limit ds u"
      using available_eq [OF ok assms(2), of d] card_limit_of [OF assms(2), of d] d by (simp add: fits_best_def)
    then have "i64 (gget 0 (al_committed a) u + ?q) = gget 0 (al_committed a) u + ?q"
      using ledger_committed(1) [OF ok, of u] card_limit_bounds [OF assms(2), of u] assms(5) by (intro i64_id) linarith+
    then show ?thesis
      using Inr d assms(3-6) by (auto simp: Allocate_def CommittedBytes_def commit_entry_def)
  qed
qed

theorem placement_is_best_fit_witness:
  "\<exists>r a'. Allocate (Some two_cards) 7 (want ''s'' 30) (NewAllocator False) = (Inr r, a') \<and> ar_DeviceUUID r = ''B''"
proof -
  show ?thesis
    using placement_is_best_fit [OF allocator_reachable.start [of _ False] two_cards_ok, where req = "want ''s'' 30" and now = 7]
    by (simp add: first_allocation)
qed

text \<open>
  Allocation is idempotent per slice: once a slice has an allocation, every later request for it, of
  any size and on any inventory, answers the same allocation and charges nothing.
\<close>

theorem allocation_is_idempotent:
  assumes "Allocate devs now req a = (Inr r, a')" and "aq_SliceUID req' = aq_SliceUID req" and "0 < aq_RequestedVRAMBytes req'"
  shows "Allocate (Some ds) now' req' a' = (Inr r, a')"
proof (cases "map_of (al_bySlice a) (aq_SliceUID req)")
  case (Some prior)
  then have "a' = a" "al_initialized a" "aq_SliceUID req \<noteq> []"
    "r = \<lparr>ar_AllocationID = prior, ar_DeviceUUID = le_deviceUUID (gget zero_entry (al_byAlloc a) prior),
       ar_AllocatedBytes = le_bytes (gget zero_entry (al_byAlloc a) prior)\<rparr>"
    using assms(1) by (auto simp: Allocate_def Let_def split: if_splits option.splits)
  then show ?thesis using Some assms(2,3) by (simp add: Allocate_def Let_def)
next
  case None
  then obtain u where "a' = commit_entry (alloc_id (aq_SliceUID req) now) (aq_SliceUID req) u (aq_RequestedVRAMBytes req) a"
    "al_initialized a" "aq_SliceUID req \<noteq> []"
    "r = \<lparr>ar_AllocationID = alloc_id (aq_SliceUID req) now, ar_DeviceUUID = u, ar_AllocatedBytes = aq_RequestedVRAMBytes req\<rparr>"
    using assms(1) by (auto simp: Allocate_def split: if_splits option.splits sum.splits)
  then show ?thesis using assms(2,3) by (simp add: Allocate_def commit_entry_def)
qed

theorem allocation_is_idempotent_witness:
  "\<exists>r a'. Allocate (Some two_cards) 7 (want ''s'' 30) (NewAllocator False) = (Inr r, a') \<and>
     Allocate (Some []) 9 (want ''s'' 90) a' = (Inr r, a')"
proof -
  show ?thesis using allocation_is_idempotent [OF first_allocation, of "want ''s'' 90"] first_allocation by simp
qed

lemma release_commit:
  assumes "ledger_ok ds a" and "devices_ok ds" and "0 < b" and "s \<noteq> []" and "\<not> ghas (al_byAlloc a) k"
    and "map_of (al_bySlice a) s = None" and "gget 0 (al_committed a) u + b \<le> card_limit ds u"
  shows "gget 0 (al_committed (releaseLocked k (commit_entry k s u b a))) v = gget 0 (al_committed a) v"
    and "map_of (al_byAlloc (releaseLocked k (commit_entry k s u b a))) = map_of (al_byAlloc a)"
    and "map_of (al_bySlice (releaseLocked k (commit_entry k s u b a))) = map_of (al_bySlice a)"
proof -
  let ?c = "gget 0 (al_committed a) u"
  have c: "0 \<le> ?c" "?c + b < 2 ^ 63"
    using ledger_committed(1) [OF assms(1), of u] card_limit_bounds [OF assms(2), of u] assms(7) by linarith+
  then have i: "i64 (?c + b) = ?c + b" "i64 ?c = ?c" using assms(3) by (auto intro!: i64_id)
  have n: "map_of (al_byAlloc a) k = None" using assms(5) by (simp add: not_ghas)
  show "gget 0 (al_committed (releaseLocked k (commit_entry k s u b a))) v = gget 0 (al_committed a) v"
    using c(1) by (auto simp: releaseLocked_def commit_entry_def i Let_def)
  show "map_of (al_byAlloc (releaseLocked k (commit_entry k s u b a))) = map_of (al_byAlloc a)"
    using n by (auto simp: releaseLocked_def commit_entry_def Let_def)
  show "map_of (al_bySlice (releaseLocked k (commit_entry k s u b a))) = map_of (al_bySlice a)"
    using assms(4,6) by (auto simp: releaseLocked_def commit_entry_def Let_def)
qed

lemma Allocate_new:
  assumes "Allocate (Some ds) now req a = (Inr r, a')" and "map_of (al_bySlice a) (aq_SliceUID req) = None"
    and "ledger_ok ds a" and "devices_ok ds"
  obtains u where "al_initialized a" "aq_SliceUID req \<noteq> []" "0 < aq_RequestedVRAMBytes req"
    "ar_AllocationID r = alloc_id (aq_SliceUID req) now"
    "a' = commit_entry (alloc_id (aq_SliceUID req) now) (aq_SliceUID req) u (aq_RequestedVRAMBytes req) a"
    "gget 0 (al_committed a) u + aq_RequestedVRAMBytes req \<le> card_limit ds u"
proof -
  obtain u where u: "al_initialized a" "aq_SliceUID req \<noteq> []" "0 < aq_RequestedVRAMBytes req"
    "pickBestFitLocked a ds (aq_RequestedVRAMBytes req) = Inr u"
    "ar_AllocationID r = alloc_id (aq_SliceUID req) now"
    "a' = commit_entry (alloc_id (aq_SliceUID req) now) (aq_SliceUID req) u (aq_RequestedVRAMBytes req) a"
    using assms(1,2) by (auto simp: Allocate_def not_le split: if_splits sum.splits)
  obtain d where d: "fits_best a ds (aq_RequestedVRAMBytes req) d" "u = ad_uuid d"
    using pickBestFit_exact [OF u(3) assms(4), of a] u(4) by auto
  have "gget 0 (al_committed a) u + aq_RequestedVRAMBytes req \<le> card_limit ds u"
    using available_eq [OF assms(3,4), of d] card_limit_of [OF assms(4), of d] d by (simp add: fits_best_def)
  then show thesis using that u by blast
qed

text \<open>
  Releasing undoes an allocation: after a slice's allocation is released by the slice, every card has
  the committed bytes it had before, the ledger and the index hold what they held, and the release
  names the allocation; releasing it a second time does nothing.
\<close>

theorem release_undoes_allocation:
  assumes "allocator_reachable ds a" and "devices_ok ds" and "map_of (al_bySlice a) (aq_SliceUID req) = None"
    and "\<not> ghas (al_byAlloc a) (alloc_id (aq_SliceUID req) now)"
    and "Allocate (Some ds) now req a = (Inr r, a')"
  shows "fst (ReleaseBySlice (aq_SliceUID req) a') = Some (ar_AllocationID r) \<and>
    (let a2 = snd (ReleaseBySlice (aq_SliceUID req) a') in
      CommittedBytes u a2 = CommittedBytes u a \<and> map_of (al_byAlloc a2) = map_of (al_byAlloc a) \<and>
      map_of (al_bySlice a2) = map_of (al_bySlice a) \<and> Release (ar_AllocationID r) a2 = (True, a2))"
proof -
  have ok: "ledger_ok ds a" by (rule allocator_reachable_ok [OF assms(1,2)])
  obtain v where v: "al_initialized a" "aq_SliceUID req \<noteq> []" "0 < aq_RequestedVRAMBytes req"
    "ar_AllocationID r = alloc_id (aq_SliceUID req) now"
    "a' = commit_entry (alloc_id (aq_SliceUID req) now) (aq_SliceUID req) v (aq_RequestedVRAMBytes req) a"
    "gget 0 (al_committed a) v + aq_RequestedVRAMBytes req \<le> card_limit ds v"
    using Allocate_new [OF assms(5,3) ok assms(2)] .
  have r: "ReleaseBySlice (aq_SliceUID req) a' = (Some (alloc_id (aq_SliceUID req) now), releaseLocked (alloc_id (aq_SliceUID req) now) a')"
    using v(1,2) by (simp add: ReleaseBySlice_def v(5) commit_entry_def)
  note u = release_commit [OF ok assms(2) v(3,2) assms(4,3) v(6), folded v(5)]
  have i: "al_initialized (releaseLocked (alloc_id (aq_SliceUID req) now) a')"
    using v(1) by (simp add: releaseLocked_def v(5) commit_entry_def Let_def)
  have "releaseLocked (alloc_id (aq_SliceUID req) now) (releaseLocked (alloc_id (aq_SliceUID req) now) a')
      = releaseLocked (alloc_id (aq_SliceUID req) now) a'"
    using assms(4) u(2) by (subst releaseLocked_def) (simp add: not_ghas)
  then show ?thesis
    using u i by (simp add: r v(4) CommittedBytes_def Let_def Release_def)
qed

theorem release_undoes_allocation_witness:
  "\<exists>a'. snd (Allocate (Some two_cards) 7 (want ''s'' 30) (NewAllocator False)) = a' \<and>
     CommittedBytes ''B'' (snd (ReleaseBySlice ''s'' a')) = 0"
proof -
  show ?thesis
    using release_undoes_allocation [OF allocator_reachable.start two_cards_ok _ _ first_allocation, of "''B''"]
    by (simp add: first_allocation Let_def)
qed

definition restore_all :: "(string, ledger_entry) gomap \<Rightarrow> allocator \<Rightarrow> allocator" where
  "restore_all xs a = fold (\<lambda>(k, e). RestoreAllocation k (le_sliceUID e) (le_deviceUUID e) (le_bytes e)) xs a"

lemma restore_all_adds:
  assumes "gmap_ok xs" and "\<And>k e. (k, e) \<in> set xs \<Longrightarrow> 0 < le_bytes e \<and> le_deviceUUID e \<noteq> [] \<and> k \<noteq> [] \<and> \<not> ghas (al_byAlloc a) k"
    and "\<And>u. 0 \<le> gget 0 (al_committed a) u" and "\<And>u. gget 0 (al_committed a) u + gsum (on_card u) xs < 2 ^ 63"
  shows "gget 0 (al_committed (restore_all xs a)) v = gget 0 (al_committed a) v + gsum (on_card v) xs \<and>
    map_of (al_byAlloc (restore_all xs a)) = map_of (al_byAlloc a) ++ map_of xs"
  using assms
proof (induction xs arbitrary: a)
  case (Cons x xs)
  obtain k e where x: "x = (k, e)" by (cases x)
  let ?a = "commit_entry k (le_sliceUID e) (le_deviceUUID e) (le_bytes e) a"
  have e: "0 < le_bytes e" "le_deviceUUID e \<noteq> []" "k \<noteq> []" "\<not> ghas (al_byAlloc a) k"
    using Cons.prems(2) [of k e] by (simp_all add: x)
  have xs: "gmap_ok xs" "k \<notin> fst ` set xs" using Cons.prems(1) by (auto simp: gmap_ok_def x)
  have pos: "0 \<le> gsum (on_card u) xs" for u
    using Cons.prems(2) by (intro gsum_nonneg) (fastforce simp: on_card_def)
  have tot: "gget 0 (al_committed a) u + (on_card u k e + gsum (on_card u) xs) < 2 ^ 63" for u
    using Cons.prems(4) [of u] by (simp add: x)
  have i: "i64 (gget 0 (al_committed a) (le_deviceUUID e) + le_bytes e) = gget 0 (al_committed a) (le_deviceUUID e) + le_bytes e"
    using Cons.prems(3) [of "le_deviceUUID e"] e(1) pos [of "le_deviceUUID e"] tot [of "le_deviceUUID e"]
    by (intro i64_id) (simp_all add: on_card_def)
  have com: "gget 0 (al_committed ?a) u = gget 0 (al_committed a) u + on_card u k e" for u
    by (simp add: commit_entry_def i on_card_def)
  have al: "map_of (al_byAlloc ?a) = (map_of (al_byAlloc a))(k \<mapsto> e)"
    by (cases e) (simp add: commit_entry_def)
  have step: "restore_all (x # xs) a = restore_all xs ?a"
    using e by (simp add: restore_all_def x RestoreAllocation_def)
  have "gget 0 (al_committed (restore_all xs ?a)) v = gget 0 (al_committed ?a) v + gsum (on_card v) xs \<and>
      map_of (al_byAlloc (restore_all xs ?a)) = map_of (al_byAlloc ?a) ++ map_of xs"
  proof (rule Cons.IH [OF xs(1)])
    fix k' e' assume m: "(k', e') \<in> set xs"
    then have "k' \<noteq> k" using xs(2) by force
    then show "0 < le_bytes e' \<and> le_deviceUUID e' \<noteq> [] \<and> k' \<noteq> [] \<and> \<not> ghas (al_byAlloc ?a) k'"
      using Cons.prems(2) [of k' e'] m by (simp add: commit_entry_def)
  next
    show "0 \<le> gget 0 (al_committed ?a) u" for u
      using Cons.prems(3) [of u] e(1) by (simp add: com on_card_def)
    show "gget 0 (al_committed ?a) u + gsum (on_card u) xs < 2 ^ 63" for u
      using tot [of u] by (simp add: com)
  qed
  moreover have "map_of xs k = None" using xs(2) by (simp add: map_of_eq_None_iff)
  ultimately show ?case
    unfolding step by (auto simp: com al x map_add_def fun_eq_iff split: option.splits)
qed (simp add: restore_all_def)

text \<open>
  A restart loses no promise: restoring the checkpointed allocations of a ledger, in any order, into
  a new allocator gives every card its committed bytes and the ledger its entries back.
\<close>

theorem restart_restores_ledger:
  assumes "allocator_reachable ds a" and "devices_ok ds" and "gmap_ok xs" and "map_of xs = map_of (al_byAlloc a)"
  shows "CommittedBytes u (restore_all xs (NewAllocator mock)) = CommittedBytes u a \<and>
    map_of (al_byAlloc (restore_all xs (NewAllocator mock))) = map_of (al_byAlloc a)"
proof -
  have ok: "ledger_ok ds a" by (rule allocator_reachable_ok [OF assms(1,2)])
  have g: "gsum (on_card v) xs = gsum (on_card v) (al_byAlloc a)" for v
    by (rule gsum_map_of [OF assms(3) ledger_gmaps(2) [OF ok] assms(4)])
  have n: "al_committed (NewAllocator mock) = []" "al_byAlloc (NewAllocator mock) = []"
    by (simp_all add: NewAllocator_def)
  have "gsum (on_card v) xs < 2 ^ 63" for v
    using ledger_committed(2) [OF ok, of v] card_limit_bounds [OF assms(2), of v] by (simp add: g flip: ledger_sum [OF ok])
  moreover have "(k, e) \<in> set xs \<Longrightarrow> 0 < le_bytes e \<and> le_deviceUUID e \<noteq> [] \<and> k \<noteq> []" for k e
    using ledger_entry [OF ok] assms(3,4) by (simp add: map_of_SomeD_ok)
  ultimately show ?thesis
    using restore_all_adds [OF assms(3), of "NewAllocator mock" u] assms(4)
    by (simp add: n CommittedBytes_def g gget_def [of 0 "[]"] flip: ledger_sum [OF ok])
qed

theorem restart_restores_ledger_witness:
  "CommittedBytes ''B'' (restore_all [] (NewAllocator True)) = 0"
  using restart_restores_ledger [OF allocator_reachable.start [of two_cards False] two_cards_ok, of "[]" "''B''" True]
  by (simp add: NewAllocator_def CommittedBytes_def gget_def)

end
