(* ===== verification/GpuProvider.thy ===== *)
theory GpuProvider
  imports Attribution NodeAllocator
begin

text \<open>
  What the node agent knows of its cards, \<open>internal/nodeagent/gpu\<close>: the inventory with its node-level
  sums (\<open>provider.go\<close>), the fake provider of the default build (\<open>fake_provider.go\<close>), the NVML provider over
  what NVML answers per card (\<open>nvml_provider.go\<close>), and the collector with the gauges it publishes
  (\<open>collector.go\<close>). Byte counts are \<open>int64\<close>; the \<open>float64\<close> of a gauge is the integer it was set from, which
  is exact below \<open>2^53\<close>.
\<close>

section \<open>The inventory\<close>

record gpu_device =
  gd_UUID :: string
  gd_Index :: int
  gd_Name :: string
  gd_Total :: int
  gd_Used :: int
  gd_Free :: int
  gd_Reserved :: int
  gd_Healthy :: bool
  gd_Error :: string

record node_aggregate =
  ng_DeviceCount :: int
  ng_HealthyCount :: int
  ng_Total :: int
  ng_Used :: int
  ng_Free :: int
  ng_Reserved :: int
  ng_AllHealthy :: bool

record inventory =
  iv_devices :: "gpu_device list"
  iv_observed :: int
  iv_lastErr :: string

text \<open>The zero time lies before every observation; its value is never read before an update sets it.\<close>

definition NewInventory :: inventory where
  "NewInventory = \<lparr>iv_devices = [], iv_observed = 0, iv_lastErr = []\<rparr>"

definition inventory_Update :: "gpu_device list \<Rightarrow> int \<Rightarrow> inventory \<Rightarrow> inventory" where
  "inventory_Update ds observedAt iv = iv\<lparr>iv_devices := ds, iv_observed := observedAt, iv_lastErr := []\<rparr>"

definition MarkError :: "int \<Rightarrow> string \<Rightarrow> inventory \<Rightarrow> inventory" where
  "MarkError observedAt err iv = iv\<lparr>iv_observed := observedAt, iv_lastErr := err\<rparr>"

definition Snapshot :: "inventory \<Rightarrow> gpu_device list \<times> int \<times> string" where
  "Snapshot iv = (iv_devices iv, iv_observed iv, iv_lastErr iv)"

definition aggregate_device :: "gpu_device \<Rightarrow> node_aggregate \<Rightarrow> node_aggregate" where
  "aggregate_device d a =
    (if \<not> gd_Healthy d then a\<lparr>ng_AllHealthy := False\<rparr>
     else a\<lparr>ng_HealthyCount := i64 (ng_HealthyCount a + 1), ng_Total := i64 (ng_Total a + gd_Total d),
            ng_Used := i64 (ng_Used a + gd_Used d), ng_Free := i64 (ng_Free a + gd_Free d),
            ng_Reserved := i64 (ng_Reserved a + gd_Reserved d)\<rparr>)"

definition aggregate_devices :: "gpu_device list \<Rightarrow> node_aggregate" where
  "aggregate_devices ds =
    fold aggregate_device ds
      \<lparr>ng_DeviceCount = int (length ds), ng_HealthyCount = 0, ng_Total = 0, ng_Used = 0, ng_Free = 0, ng_Reserved = 0,
       ng_AllHealthy = (ds \<noteq> [])\<rparr>"

definition DriftBytes :: "int \<Rightarrow> inventory \<Rightarrow> int \<times> bool" where
  "DriftBytes expected iv =
    (if expected \<le> 0 then (0, False) else (i64 (ng_Total (aggregate_devices (iv_devices iv)) - expected), True))"

section \<open>The fake provider\<close>

record fake_provider =
  fp_devices :: "gpu_device list"
  fp_processes :: "gpu_process list"
  fp_failErr :: "string option"
  fp_procSeq :: "gpu_process list list"
  fp_procIdx :: nat

definition isTruthy :: "string \<Rightarrow> bool" where
  "isTruthy v \<longleftrightarrow> v \<in> {''1'', ''true'', ''yes'', ''TRUE'', ''True''}"

definition NewFakeProvider :: "gpu_device list \<Rightarrow> string option \<Rightarrow> fake_provider" where
  "NewFakeProvider ds err = \<lparr>fp_devices = ds, fp_processes = [], fp_failErr = err, fp_procSeq = [], fp_procIdx = 0\<rparr>"

text \<open>The clamp of used and reserved bytes to a card's memory.\<close>

definition clamp_fake :: "int \<Rightarrow> int \<Rightarrow> int \<Rightarrow> int \<times> int" where
  "clamp_fake mem used reserved =
    (if i64 (used + reserved) > mem
     then let u = i64 (mem - reserved) in if u < 0 then (0, mem) else (u, reserved)
     else (used, reserved))"

definition fake_device :: "int \<Rightarrow> int \<Rightarrow> int \<Rightarrow> int \<Rightarrow> nat \<Rightarrow> gpu_device" where
  "fake_device mem used reserved unhealthyIdx i =
    (let d = \<lparr>gd_UUID = fake_uuid i, gd_Index = int i, gd_Name = ''FAKE-GPU'', gd_Total = mem, gd_Used = used,
              gd_Free = i64 (i64 (mem - used) - reserved), gd_Reserved = reserved, gd_Healthy = True, gd_Error = []\<rparr>
     in if int i = unhealthyIdx
        then d\<lparr>gd_Healthy := False, gd_Error := ''fake: marked unhealthy via VGPU_FAKE_UNHEALTHY_IDX'',
               gd_Used := 0, gd_Free := 0, gd_Reserved := 0\<rparr>
        else d)"

definition NewProvider_fake :: "(string \<Rightarrow> string) \<Rightarrow> fake_provider" where
  "NewProvider_fake env =
    (let count = max 0 (envInt64Default env ''VGPU_FAKE_GPU_COUNT'' 1);
         mem = max 0 (envInt64Default env ''VGPU_FAKE_GPU_MEM_BYTES'' (80 * 2 ^ 30));
         (used, reserved) = clamp_fake mem (envInt64Default env ''VGPU_FAKE_GPU_USED_BYTES'' 0)
                              (envInt64Default env ''VGPU_FAKE_GPU_RESERVED_BYTES'' 0);
         unhealthyIdx = envInt64Default env ''VGPU_FAKE_UNHEALTHY_IDX'' (- 1)
     in NewFakeProvider (map (fake_device mem used reserved unhealthyIdx) [0..<nat count])
          (if isTruthy (env ''VGPU_FAKE_FAIL'') then Some ''fake: observation failure injected via VGPU_FAKE_FAIL'' else None))"

definition NewFakeProviderWithProcessSequence :: "gpu_device list \<Rightarrow> gpu_process list list \<Rightarrow> fake_provider" where
  "NewFakeProviderWithProcessSequence ds seq =
    \<lparr>fp_devices = ds, fp_processes = [], fp_failErr = None, fp_procSeq = seq, fp_procIdx = 0\<rparr>"

definition ListDevices_fake :: "fake_provider \<Rightarrow> string + gpu_device list" where
  "ListDevices_fake f = (case fp_failErr f of Some e \<Rightarrow> Inl e | None \<Rightarrow> Inr (fp_devices f))"

definition device_named :: "string \<Rightarrow> string \<Rightarrow> gpu_device list \<Rightarrow> string + gpu_device" where
  "device_named provider uuid ds =
    (case find (\<lambda>d. gd_UUID d = uuid) ds of
       None \<Rightarrow> Inl (provider @ '': device '' @ [CHR 0x22] @ uuid @ [CHR 0x22] @ '' not found'')
     | Some d \<Rightarrow> Inr d)"

definition GetDevice_fake :: "string \<Rightarrow> fake_provider \<Rightarrow> string + gpu_device" where
  "GetDevice_fake uuid f =
    (case ListDevices_fake f of Inl e \<Rightarrow> Inl e | Inr ds \<Rightarrow> device_named ''fake'' uuid ds)"

definition ListProcesses_fake :: "fake_provider \<Rightarrow> (string + gpu_process list) \<times> fake_provider" where
  "ListProcesses_fake f =
    (case fp_failErr f of
       Some e \<Rightarrow> (Inl e, f)
     | None \<Rightarrow>
         if fp_procSeq f \<noteq> [] then
           (if fp_procIdx f \<ge> length (fp_procSeq f) then (Inr (last (fp_procSeq f)), f)
            else (Inr (fp_procSeq f ! fp_procIdx f), f\<lparr>fp_procIdx := fp_procIdx f + 1\<rparr>))
         else (Inr (fp_processes f), f))"

section \<open>The NVML provider\<close>

text \<open>
  What NVML answers for one card, \<open>None\<close> for a call that fails (its error text is not modelled): total, used, free and reserved bytes by
  the second version of the memory query, total, used and free by the first, and the processes with a
  compute and with a graphics context.
\<close>

record nvml_card =
  nc_uuid :: "string option"
  nc_name :: "string option"
  nc_memory_v2 :: "(int \<times> int \<times> int \<times> int) option"
  nc_memory :: "(int \<times> int \<times> int) option"
  nc_compute :: "(int \<times> int) list option"
  nc_graphics :: "(int \<times> int) list option"

definition index_uuid :: "nat \<Rightarrow> string" where
  "index_uuid i = ''GPU-INDEX-'' @ FormatInt (int i)"

definition card_uuid :: "nat \<Rightarrow> nvml_card \<Rightarrow> string" where
  "card_uuid i h = (case nc_uuid h of None \<Rightarrow> index_uuid i | Some u \<Rightarrow> if u = [] then index_uuid i else u)"

definition unhealthy_device :: "nat \<Rightarrow> string \<Rightarrow> gpu_device" where
  "unhealthy_device i reason =
    \<lparr>gd_UUID = index_uuid i, gd_Index = int i, gd_Name = [], gd_Total = 0, gd_Used = 0, gd_Free = 0, gd_Reserved = 0,
     gd_Healthy = False, gd_Error = reason\<rparr>"

definition queryDevice :: "nat \<Rightarrow> nvml_card option \<Rightarrow> gpu_device" where
  "queryDevice i handle =
    (case handle of
       None \<Rightarrow> unhealthy_device i (''DeviceGetHandleByIndex('' @ FormatInt (int i) @ '')'')
     | Some h \<Rightarrow>
         (let d = \<lparr>gd_UUID = card_uuid i h, gd_Index = int i, gd_Name = (case nc_name h of None \<Rightarrow> [] | Some n \<Rightarrow> n),
                   gd_Total = 0, gd_Used = 0, gd_Free = 0, gd_Reserved = 0, gd_Healthy = True, gd_Error = []\<rparr>;
              v1 = (case nc_memory h of
                  None \<Rightarrow> unhealthy_device i (''GetMemoryInfo('' @ FormatInt (int i) @ '')'')
                | Some (t, u, f) \<Rightarrow> d\<lparr>gd_Total := i64 t, gd_Used := i64 u, gd_Free := i64 f\<rparr>)
          in case nc_memory_v2 h of
               Some (t, u, f, r) \<Rightarrow>
                 if t > 0 then d\<lparr>gd_Total := i64 t, gd_Used := i64 u, gd_Free := i64 f, gd_Reserved := i64 r\<rparr> else v1
             | None \<Rightarrow> v1))"

definition ListDevices_nvml :: "nvml_card option list option \<Rightarrow> string + gpu_device list" where
  "ListDevices_nvml nvml =
    (case nvml of
       None \<Rightarrow> Inl ''nvml.DeviceGetCount''
     | Some cards \<Rightarrow> Inr (map (\<lambda>i. queryDevice i (cards ! i)) [0..<length cards]))"

definition GetDevice_nvml :: "string \<Rightarrow> nvml_card option list option \<Rightarrow> string + gpu_device" where
  "GetDevice_nvml uuid nvml =
    (case ListDevices_nvml nvml of Inl e \<Rightarrow> Inl e | Inr ds \<Rightarrow> device_named ''nvml'' uuid ds)"

text \<open>The larger figure of a PID's entries; a figure that is not available reads as zero.\<close>

fun per_pid :: "(int \<times> int) list \<Rightarrow> (int, int) gomap \<Rightarrow> (int, int) gomap" where
  "per_pid [] m = m"
| "per_pid ((pid, raw) # infos) m =
    (let used = max 0 (i64 raw)
     in per_pid infos
          (case map_of m pid of
             None \<Rightarrow> gput pid used m
           | Some cur \<Rightarrow> if used > cur then gput pid used m else m))"

definition infos_of :: "(int \<times> int) list option \<Rightarrow> (int \<times> int) list" where
  "infos_of reply = (case reply of None \<Rightarrow> [] | Some infos \<Rightarrow> infos)"

definition card_processes :: "nat \<Rightarrow> nvml_card option \<Rightarrow> gpu_process list" where
  "card_processes i handle =
    (case handle of
       None \<Rightarrow> []
     | Some h \<Rightarrow>
         map (\<lambda>(pid, used). \<lparr>gp_PID = pid, gp_DeviceUUID = card_uuid i h, gp_UsedMemoryBytes = used\<rparr>)
           (per_pid (infos_of (nc_graphics h)) (per_pid (infos_of (nc_compute h)) [])))"

definition ListProcesses_nvml :: "nvml_card option list option \<Rightarrow> string + gpu_process list" where
  "ListProcesses_nvml nvml =
    (case nvml of
       None \<Rightarrow> Inl ''nvml.DeviceGetCount''
     | Some cards \<Rightarrow> Inr (concat (map (\<lambda>i. card_processes i (cards ! i)) [0..<length cards])))"

section \<open>The degraded provider\<close>

text \<open>Every call fails with the error of the initialisation.\<close>

definition degraded_error :: "string \<Rightarrow> string" where
  "degraded_error err = ''GPU provider degraded: '' @ err"

definition ListDevices_degraded :: "string \<Rightarrow> string + gpu_device list" where
  "ListDevices_degraded err = Inl (degraded_error err)"

definition GetDevice_degraded :: "string \<Rightarrow> string \<Rightarrow> string + gpu_device" where
  "GetDevice_degraded err uuid = Inl (degraded_error err)"

definition ListProcesses_degraded :: "string \<Rightarrow> string + gpu_process list" where
  "ListProcesses_degraded err = Inl (degraded_error err)"

section \<open>The collector\<close>

record gpu_gauges =
  gg_total :: "(string, int) gomap"
  gg_used :: "(string, int) gomap"
  gg_free :: "(string, int) gomap"
  gg_reserved :: "(string, int) gomap"
  gg_healthy :: "(string, bool) gomap"
  gg_drift :: "int option"

record collector =
  co_inv :: inventory
  co_gauges :: gpu_gauges

definition no_gauges :: gpu_gauges where
  "no_gauges = \<lparr>gg_total = [], gg_used = [], gg_free = [], gg_reserved = [], gg_healthy = [], gg_drift = None\<rparr>"

definition collector_interval :: "int \<Rightarrow> int" where
  "collector_interval interval = (if interval \<le> 0 then 30 * second else interval)"

definition publish_device :: "gpu_device \<Rightarrow> gpu_gauges \<Rightarrow> gpu_gauges" where
  "publish_device d g =
    (let g1 = g\<lparr>gg_healthy := gput (gd_UUID d) (gd_Healthy d) (gg_healthy g)\<rparr>
     in if \<not> gd_Healthy d then g1
        else g1\<lparr>gg_total := gput (gd_UUID d) (gd_Total d) (gg_total g1), gg_used := gput (gd_UUID d) (gd_Used d) (gg_used g1),
                gg_free := gput (gd_UUID d) (gd_Free d) (gg_free g1),
                gg_reserved := gput (gd_UUID d) (gd_Reserved d) (gg_reserved g1)\<rparr>)"

definition collectOnce :: "int \<Rightarrow> int \<Rightarrow> (string + gpu_device list) \<Rightarrow> collector \<Rightarrow> collector" where
  "collectOnce expected now listed c =
    (case listed of
       Inl err \<Rightarrow> c\<lparr>co_inv := MarkError now err (co_inv c)\<rparr>
     | Inr ds \<Rightarrow>
         (let iv = inventory_Update ds now (co_inv c);
              g = fold publish_device ds (no_gauges\<lparr>gg_drift := gg_drift (co_gauges c)\<rparr>)
          in \<lparr>co_inv = iv,
              co_gauges = (case DriftBytes expected iv of
                  (drift, True) \<Rightarrow> g\<lparr>gg_drift := Some drift\<rparr>
                | (_, False) \<Rightarrow> g)\<rparr>))"

section \<open>Lemmas\<close>

definition figures :: "int \<Rightarrow> (int \<times> int) list \<Rightarrow> int list" where
  "figures pid infos = map (\<lambda>x. max 0 (i64 (snd x))) (filter (\<lambda>x. fst x = pid) infos)"

definition larger :: "int \<Rightarrow> int option \<Rightarrow> int option" where
  "larger u acc = Some (case acc of None \<Rightarrow> u | Some c \<Rightarrow> max c u)"

lemma map_of_per_pid: "map_of (per_pid infos m) pid = fold larger (figures pid infos) (map_of m pid)"
proof (induction infos arbitrary: m)
  case (Cons x infos)
  obtain p raw where x: "x = (p, raw)" by (cases x)
  show ?case
    using Cons.IH by (cases "map_of m p") (auto simp: x figures_def larger_def max_def Let_def)
qed (simp add: figures_def)

lemma fold_larger: "fold larger us (Some c) = Some (Max (set (c # us)))"
proof (induction us arbitrary: c)
  case (Cons u us)
  then show ?case by (cases "us = []") (auto simp: larger_def Max_insert max.assoc)
qed simp

lemma fold_larger_None: "fold larger us None = (if us = [] then None else Some (Max (set us)))"
  by (cases us) (simp_all add: larger_def fold_larger)

lemma gmap_ok_per_pid: "gmap_ok m \<Longrightarrow> gmap_ok (per_pid infos m)"
  by (induction infos m rule: per_pid.induct) (auto simp: Let_def split: option.splits)

lemma figures_append: "figures pid (xs @ ys) = figures pid xs @ figures pid ys"
  by (simp add: figures_def)

definition all_infos :: "nvml_card \<Rightarrow> (int \<times> int) list" where
  "all_infos h = infos_of (nc_compute h) @ infos_of (nc_graphics h)"

lemma card_process_figure:
  "p \<in> set (card_processes i handle) \<longleftrightarrow> (\<exists>h. handle = Some h \<and> gp_DeviceUUID p = card_uuid i h \<and>
     figures (gp_PID p) (all_infos h) \<noteq> [] \<and> gp_UsedMemoryBytes p = Max (set (figures (gp_PID p) (all_infos h))))"
proof (cases handle)
  case (Some h)
  let ?m = "per_pid (infos_of (nc_graphics h)) (per_pid (infos_of (nc_compute h)) [])"
  have m: "map_of ?m pid = fold larger (figures pid (all_infos h)) None" for pid
    by (simp add: map_of_per_pid all_infos_def figures_append)
  have ok: "gmap_ok ?m" by (simp add: gmap_ok_per_pid)
  have "p \<in> set (card_processes i handle) \<longleftrightarrow> (gp_PID p, gp_UsedMemoryBytes p) \<in> set ?m \<and> gp_DeviceUUID p = card_uuid i h"
    by (cases p) (force simp: card_processes_def Some)
  then show ?thesis by (auto simp: map_of_SomeD_ok [OF ok] m fold_larger_None Some)
qed (simp add: card_processes_def)

lemma card_processes_distinct: "distinct (map gp_PID (card_processes i handle))"
proof (cases handle)
  case (Some h)
  have "gmap_ok (per_pid (infos_of (nc_graphics h)) (per_pid (infos_of (nc_compute h)) []))" by (simp add: gmap_ok_per_pid)
  then show ?thesis by (simp add: card_processes_def Some gmap_ok_def comp_def case_prod_beta')
qed (simp add: card_processes_def)

section \<open>Properties\<close>

text \<open>
  A process is counted once: the list of GPU processes has at most one entry per process and card, even
  for a process with both a compute and a graphics context, and the entry's bytes are the largest figure
  NVML reports for it on that card.
\<close>

theorem process_counted_once:
  assumes "ListProcesses_nvml (Some cards) = Inr procs" and "i < length cards" and "cards ! i = Some h"
    and "\<forall>j<length cards. \<forall>h'. cards ! j = Some h' \<longrightarrow> card_uuid j h' = card_uuid i h \<longrightarrow> j = i"
  shows "map gp_UsedMemoryBytes (filter (\<lambda>p. gp_PID p = pid \<and> gp_DeviceUUID p = card_uuid i h) procs) =
    (if figures pid (all_infos h) = [] then [] else [Max (set (figures pid (all_infos h)))])"
proof -
  let ?P = "\<lambda>p. gp_PID p = pid \<and> gp_DeviceUUID p = card_uuid i h"
  let ?f = "\<lambda>j. filter ?P (card_processes j (cards ! j))"
  have none: "?f j = []" if "j < length cards" "j \<noteq> i" for j
    using assms(4) that by (auto simp: filter_empty_conv card_process_figure)
  have "filter ?P procs = concat (map ?f [0..<length cards])"
    using assms(1) by (auto simp: ListProcesses_nvml_def filter_concat comp_def)
  also have "[0..<length cards] = [0..<i] @ i # [Suc i..<length cards]"
    using assms(2) by (metis upt_add_eq_append upt_conv_Cons le_add1 le_add_diff_inverse less_imp_le_nat zero_le)
  also have "concat (map ?f ([0..<i] @ i # [Suc i..<length cards])) = ?f i"
  proof -
    have "concat (map ?f [0..<i]) = []" "concat (map ?f [Suc i..<length cards]) = []"
      using none assms(2) unfolding concat_eq_Nil_conv by fastforce+
    then show ?thesis by (simp only: map_append list.map concat_append concat.simps) simp
  qed
  finally have f: "filter ?P procs = ?f i" .
  have one: "length (?f i) \<le> 1"
  proof -
    have "distinct (map gp_PID (?f i))" by (rule distinct_map_filter [OF card_processes_distinct])
    moreover have "set (map gp_PID (?f i)) \<subseteq> {pid}" by auto
    ultimately show ?thesis
      using distinct_card [of "map gp_PID (?f i)"] card_mono [of "{pid}" "set (map gp_PID (?f i))"] by simp
  qed
  have mem: "p \<in> set (?f i) \<longleftrightarrow> ?P p \<and> figures pid (all_infos h) \<noteq> [] \<and> gp_UsedMemoryBytes p = Max (set (figures pid (all_infos h)))" for p
    by (auto simp: card_process_figure assms(3))
  show ?thesis
  proof (cases "figures pid (all_infos h) = []")
    case True
    then have "?f i = []" using mem by (metis last_in_set)
    then show ?thesis by (simp add: f True)
  next
    case False
    let ?p = "\<lparr>gp_PID = pid, gp_DeviceUUID = card_uuid i h, gp_UsedMemoryBytes = Max (set (figures pid (all_infos h)))\<rparr>"
    have "?p \<in> set (?f i)" using mem [of ?p] False by simp
    then have "?f i = [?p]" using one by (cases "?f i") auto
    then show ?thesis by (simp add: f False)
  qed
qed

definition busy_card :: nvml_card where
  "busy_card = \<lparr>nc_uuid = Some ''GPU-A'', nc_name = None, nc_memory_v2 = None, nc_memory = Some (100, 60, 40),
     nc_compute = Some [(7, 50)], nc_graphics = Some [(7, 60)]\<rparr>"

theorem process_counted_once_witness:
  "\<exists>procs. ListProcesses_nvml (Some [Some busy_card]) = Inr procs \<and>
    map gp_UsedMemoryBytes (filter (\<lambda>p. gp_PID p = 7 \<and> gp_DeviceUUID p = ''GPU-A'') procs) = [60]"
proof -
  obtain procs where r: "ListProcesses_nvml (Some [Some busy_card]) = Inr procs" by (simp add: ListProcesses_nvml_def)
  have "figures 7 (all_infos busy_card) = [50, 60]" "card_uuid 0 busy_card = ''GPU-A''"
    by (simp_all add: figures_def all_infos_def infos_of_def busy_card_def i64_def card_uuid_def)
  then show ?thesis using process_counted_once [OF r, of 0 busy_card 7] r by simp
qed

text \<open>
  The fake cards add up: with used and reserved bytes that are not negative, every healthy fake card has
  its total split into used, free and reserved bytes, none of them negative, however large the two are
  configured.
\<close>

theorem fake_card_adds_up:
  assumes "d \<in> set (fp_devices (NewProvider_fake env))" and "gd_Healthy d"
    and "0 \<le> envInt64Default env ''VGPU_FAKE_GPU_USED_BYTES'' 0" and "0 \<le> envInt64Default env ''VGPU_FAKE_GPU_RESERVED_BYTES'' 0"
    and "envInt64Default env ''VGPU_FAKE_GPU_USED_BYTES'' 0 + envInt64Default env ''VGPU_FAKE_GPU_RESERVED_BYTES'' 0 < 2 ^ 63"
    and "in_i64 (envInt64Default env ''VGPU_FAKE_GPU_MEM_BYTES'' (80 * 2 ^ 30))"
  shows "gd_Total d = gd_Used d + gd_Free d + gd_Reserved d \<and> 0 \<le> gd_Used d \<and> 0 \<le> gd_Free d \<and> 0 \<le> gd_Reserved d"
proof -
  define mem where "mem = max 0 (envInt64Default env ''VGPU_FAKE_GPU_MEM_BYTES'' (80 * 2 ^ 30))"
  define u where "u = envInt64Default env ''VGPU_FAKE_GPU_USED_BYTES'' 0"
  define r where "r = envInt64Default env ''VGPU_FAKE_GPU_RESERVED_BYTES'' 0"
  obtain used reserved where c: "clamp_fake mem u r = (used, reserved)" by (cases "clamp_fake mem u r")
  obtain i idx where "d = fake_device mem used reserved idx i"
    using assms(1) c by (auto simp: NewProvider_fake_def NewFakeProvider_def Let_def mem_def u_def r_def)
  then have d: "gd_Total d = mem" "gd_Used d = used" "gd_Reserved d = reserved" "gd_Free d = i64 (i64 (mem - used) - reserved)"
    using assms(2) by (auto simp: fake_device_def Let_def split: if_splits)
  have m: "0 \<le> mem" "mem < 2 ^ 63" using assms(6) by (auto simp: mem_def in_i64_def)
  have s: "i64 (u + r) = u + r" using assms(3-5) by (intro i64_id) (auto simp: u_def r_def)
  have ur: "0 \<le> u" "0 \<le> r" "r < 2 ^ 63" using assms(3-5) by (auto simp: u_def r_def)
  have l: "i64 (mem - r) = mem - r" using m ur by (intro i64_id) linarith+
  have b: "0 \<le> used \<and> 0 \<le> reserved \<and> used + reserved \<le> mem"
    using c ur m by (auto simp: clamp_fake_def s l Let_def split: if_splits)
  then have "i64 (mem - used) = mem - used" using m by (intro i64_id) linarith+
  moreover have "i64 (mem - used - reserved) = mem - used - reserved" using b m by (intro i64_id) linarith+
  ultimately show ?thesis using b by (simp add: d)
qed

theorem fake_card_adds_up_witness:
  "\<exists>d. d \<in> set (fp_devices (NewProvider_fake (\<lambda>key. []))) \<and> gd_Total d = gd_Used d + gd_Free d + gd_Reserved d"
proof -
  let ?d = "fake_device (80 * 2 ^ 30) 0 0 (- 1) 0"
  have "?d \<in> set (fp_devices (NewProvider_fake (\<lambda>key. [])))"
    by (simp add: NewProvider_fake_def envInt64Default_def clamp_fake_def NewFakeProvider_def i64_def)
  moreover have "gd_Healthy ?d" by (simp add: fake_device_def)
  ultimately show ?thesis
    using fake_card_adds_up [of ?d "\<lambda>key. []"] by (auto simp: envInt64Default_def in_i64_def)
qed

text \<open>
  A blind cycle flags nothing: a failed observation keeps the last snapshot and the published gauges, marks
  the snapshot, and the over-use detector that reads it neither flags a card nor counts the sample.
\<close>

definition observed :: "gpu_device \<Rightarrow> observed_device" where
  "observed d = \<lparr>od_UUID = gd_UUID d, od_Used = gd_Used d, od_Healthy = gd_Healthy d\<rparr>"

theorem blind_cycle_flags_nothing:
  assumes "err \<noteq> []"
  shows "let c' = collectOnce expected now (Inl err) c; (ds, at, e) = Snapshot (co_inv c') in
    ds = iv_devices (co_inv c) \<and> co_gauges c' = co_gauges c \<and>
    detect_cards nodeName later interval (map observed ds) at e listed h = (Some [], h)"
  using assms by (simp add: collectOnce_def MarkError_def Snapshot_def detect_cards_def snapshot_stale_def Let_def)

theorem blind_cycle_flags_nothing_witness:
  "detect_cards ''n1'' 9 1 (map observed (iv_devices (co_inv (collectOnce 0 5 (Inl ''lost'') \<lparr>co_inv = NewInventory, co_gauges = no_gauges\<rparr>))))
     5 ''lost'' None no_hysteresis = (Some [], no_hysteresis)"
  using blind_cycle_flags_nothing [of "''lost''" 0 5 "\<lparr>co_inv = NewInventory, co_gauges = no_gauges\<rparr>" "''n1''" 9 1 None no_hysteresis]
  by (simp add: collectOnce_def MarkError_def Snapshot_def)

end
