(* ===== verification/Monitor.thy ===== *)
theory Monitor
  imports GpuProvider
begin

text \<open>
  The read-only observer of the monitor mode, \<open>internal/nodeagent/monitor.go\<close>: requested and used GPU
  memory per pod, with the two process snapshots that keep a recycled PID out of the report. Here the
  gauges are the product, so they are the state: a map from label values to bytes, whose \<open>float64\<close> is exact
  below \<open>2^53\<close>. \<open>resource.ParseQuantity\<close> with \<open>Value\<close> is an argument; texts are ASCII.
\<close>

text \<open>Per container, the limit and the request of \<open>nvidia.com/gpu\<close>.\<close>

record monitor_pod = live_pod +
  mp_gpus :: "(int option \<times> int option) list"

definition requestedBytesAnnotation :: string where
  "requestedBytesAnnotation = ''infrastructure.pranav2910.com/requested-vram-bytes''"

definition defaultRequestAnnotationKeys :: "string list" where
  "defaultRequestAnnotationKeys = [requestedBytesAnnotation, ''gpu-memory'', ''run.ai/gpu-memory'', ''nvidia.com/gpu-memory'']"

definition observer_keys :: "string list \<Rightarrow> string list" where
  "observer_keys annKeys = (if annKeys = [] then defaultRequestAnnotationKeys else annKeys)"

definition isAllDigits :: "string \<Rightarrow> bool" where
  "isAllDigits s \<longleftrightarrow> s \<noteq> [] \<and> list_all (\<lambda>c. \<not> (c < CHR ''0'' \<or> c > CHR ''9'')) s"

definition parseRequestedMem :: "(string \<Rightarrow> int option) \<Rightarrow> string \<Rightarrow> int" where
  "parseRequestedMem parseQuantity raw =
    (let s = trim_space raw in
     if s = [] then 0
     else if isAllDigits s then
       (case ParseInt64 s of None \<Rightarrow> 0 | Some n \<Rightarrow> if n \<le> 0 then 0 else i64 (i64 (n * 1024) * 1024))
     else case parseQuantity s of Some v \<Rightarrow> if v > 0 then v else 0 | None \<Rightarrow> 0)"

fun gpu_count :: "(int option \<times> int option) list \<Rightarrow> int \<Rightarrow> int" where
  "gpu_count [] n = n"
| "gpu_count ((limit, request) # cs) n =
    gpu_count cs (case limit of
        Some q \<Rightarrow> i64 (n + q)
      | None \<Rightarrow> (case request of Some q \<Rightarrow> i64 (n + q) | None \<Rightarrow> n))"

fun first_annotated :: "(string \<Rightarrow> int option) \<Rightarrow> (string, string) gomap \<Rightarrow> string list \<Rightarrow> int option" where
  "first_annotated parseQuantity anns [] = None"
| "first_annotated parseQuantity anns (k # ks) =
    (case map_of anns k of
       None \<Rightarrow> first_annotated parseQuantity anns ks
     | Some v \<Rightarrow> (let b = parseRequestedMem parseQuantity v in
                   if b > 0 then Some b else first_annotated parseQuantity anns ks))"

definition own_stamp :: "(string, string) gomap \<Rightarrow> int option" where
  "own_stamp anns =
    (case map_of anns requestedBytesAnnotation of
       None \<Rightarrow> None
     | Some v \<Rightarrow> (case ParseInt64 (trim_space v) of Some b \<Rightarrow> if b > 0 then Some b else None | None \<Rightarrow> None))"

definition requestedVRAM :: "(string \<Rightarrow> int option) \<Rightarrow> monitor_pod \<Rightarrow> int \<Rightarrow> string list \<Rightarrow> int \<times> string" where
  "requestedVRAM parseQuantity p cardTotal annKeys =
    (let gpus = gpu_count (mp_gpus p) 0 in
     if gpus > 0 \<and> cardTotal > 0 then (i64 (gpus * cardTotal), ''nvidia_gpu_limit'')
     else case own_stamp (pd_Annotations p) of
       Some b \<Rightarrow> (b, ''vgpu_claim'')
     | None \<Rightarrow>
         (case first_annotated parseQuantity (pd_Annotations p) annKeys of
            Some b \<Rightarrow> (b, ''annotation'')
          | None \<Rightarrow> if ghas (pd_Annotations p) claimRefAnnotation then (0, ''vgpu_claim'') else (0, ''unknown'')))"

section \<open>One snapshot\<close>

text \<open>The published gauges: by pod and source, by pod and card, and by card.\<close>

record monitor_report =
  mr_requested :: "(string \<times> string \<times> string, int) gomap"
  mr_used :: "(string \<times> string \<times> string, int) gomap"
  mr_gpus :: "(string, int \<times> int \<times> int) gomap"

text \<open>What the fetches of a cycle return, in their order.\<close>

record monitor_env =
  mo_devices :: "string + gpu_device list"
  mo_pods :: "monitor_pod list option"
  mo_procs :: "string + gpu_process list"
  mo_procs2 :: "string + gpu_process list"
  mo_cgroup :: "int \<Rightarrow> string option"
  mo_quantity :: "string \<Rightarrow> int option"

definition card_total :: "gpu_device list \<Rightarrow> int" where
  "card_total healthy = fold (\<lambda>d t. if gd_Total d > t then gd_Total d else t) healthy 0"

definition PodRunning :: string where
  "PodRunning = ''Running''"

definition running_pods :: "monitor_pod list \<Rightarrow> monitor_pod list" where
  "running_pods ps = filter (\<lambda>p. pd_Phase p = PodRunning) ps"

fun index_running :: "monitor_pod list \<Rightarrow> (string, monitor_pod) gomap \<Rightarrow> (string, monitor_pod) gomap" where
  "index_running [] m = m"
| "index_running (p # ps) m = index_running ps (gput (lv_UID p) p m)"

fun publish_requests ::
  "(string \<Rightarrow> int option) \<Rightarrow> int \<Rightarrow> string list \<Rightarrow> monitor_pod list \<Rightarrow> (string \<times> string \<times> string, int) gomap
   \<Rightarrow> (string \<times> string \<times> string, int) gomap" where
  "publish_requests parseQuantity cardTotal annKeys [] m = m"
| "publish_requests parseQuantity cardTotal annKeys (p # ps) m =
    (case requestedVRAM parseQuantity p cardTotal annKeys of
       (req, src) \<Rightarrow> publish_requests parseQuantity cardTotal annKeys ps
                       (if req > 0 then gput (pd_Namespace p, pd_Name p, src) req m else m))"

fun sum_used ::
  "(int \<times> string, string) gomap \<Rightarrow> gpu_process list \<Rightarrow> (string \<times> string, int) gomap \<Rightarrow> (string \<times> string, int) gomap" where
  "sum_used resolved [] m = m"
| "sum_used resolved (q # qs) m =
    sum_used resolved qs
      (case map_of resolved (gp_PID q, gp_DeviceUUID q) of
         None \<Rightarrow> m
       | Some uid \<Rightarrow> gput (uid, gp_DeviceUUID q) (i64 (gget 0 m (uid, gp_DeviceUUID q) + gp_UsedMemoryBytes q)) m)"

fun publish_used ::
  "(string, monitor_pod) gomap \<Rightarrow> (string \<times> string, int) gomap \<Rightarrow> (string \<times> string \<times> string, int) gomap
   \<Rightarrow> (string \<times> string \<times> string, int) gomap" where
  "publish_used byUID [] m = m"
| "publish_used byUID (((uid, gpu), b) # us) m =
    publish_used byUID us
      (case map_of byUID uid of None \<Rightarrow> m | Some p \<Rightarrow> gput (pd_Namespace p, pd_Name p, gpu) b m)"

definition publish_gpus :: "gpu_device list \<Rightarrow> (string, int \<times> int \<times> int) gomap" where
  "publish_gpus healthy = fold (\<lambda>d. gput (gd_UUID d) (gd_Total d, gd_Used d, gd_Free d)) healthy []"

text \<open>A cycle in which a fetch fails publishes nothing, so that the report before it stays.\<close>

definition observe :: "string list \<Rightarrow> monitor_env \<Rightarrow> monitor_report \<Rightarrow> monitor_report" where
  "observe annKeys env rep =
    (case mo_devices env of
       Inl _ \<Rightarrow> rep
     | Inr devs \<Rightarrow>
         (let healthy = filter gd_Healthy devs
          in case mo_pods env of
               None \<Rightarrow> rep
             | Some pods \<Rightarrow>
                 (case mo_procs env of
                    Inl _ \<Rightarrow> rep
                  | Inr procs \<Rightarrow>
                      (case mo_procs2 env of
                         Inl _ \<Rightarrow> rep
                       | Inr procs2 \<Rightarrow>
                           (let running = running_pods pods;
                                used = sum_used (resolve_procs (mo_cgroup env) procs []) procs2 []
                            in \<lparr>mr_requested = publish_requests (mo_quantity env) (card_total healthy) (observer_keys annKeys) running [],
                                mr_used = publish_used (index_running running []) used [],
                                mr_gpus = publish_gpus healthy\<rparr>)))))"

section \<open>Lemmas\<close>

text \<open>The process of the second snapshot is the pod's, and was there in the first.\<close>

definition confirmed_for :: "(int \<Rightarrow> string option) \<Rightarrow> gpu_process list \<Rightarrow> string \<Rightarrow> gpu_process \<Rightarrow> bool" where
  "confirmed_for cg procs uid q \<longleftrightarrow> uid \<noteq> [] \<and> podUIDForPID cg (gp_PID q) = Some uid \<and>
     (\<exists>q'\<in>set procs. gp_PID q' = gp_PID q \<and> gp_DeviceUUID q' = gp_DeviceUUID q)"

lemma resolved_iff:
  "map_of (resolve_procs cg procs []) (gp_PID q, gp_DeviceUUID q) = Some uid \<longleftrightarrow> confirmed_for cg procs uid q"
  unfolding map_of_resolve confirmed_for_def by (cases "podUIDForPID cg (gp_PID q)") auto

definition of_key :: "(int \<times> string, string) gomap \<Rightarrow> string \<Rightarrow> string \<Rightarrow> gpu_process \<Rightarrow> bool" where
  "of_key resolved uid gpu q \<longleftrightarrow> gp_DeviceUUID q = gpu \<and> map_of resolved (gp_PID q, gp_DeviceUUID q) = Some uid"

lemma sum_used_at:
  "map_of (sum_used resolved qs m) (uid, gpu) =
    (if \<exists>q\<in>set qs. of_key resolved uid gpu q
     then Some (i64 (gget 0 m (uid, gpu) + (\<Sum>q\<leftarrow>filter (of_key resolved uid gpu) qs. gp_UsedMemoryBytes q)))
     else map_of m (uid, gpu))"
proof (induction qs arbitrary: m)
  case (Cons q qs)
  have e: "of_key resolved uid gpu q \<longleftrightarrow> gp_DeviceUUID q = gpu \<and> map_of resolved (gp_PID q, gp_DeviceUUID q) = Some uid"
    by (simp add: of_key_def)
  show ?case
  proof (cases "of_key resolved uid gpu q")
    case True
    then have m: "map_of resolved (gp_PID q, gpu) = Some uid" "gp_DeviceUUID q = gpu" by (auto simp: of_key_def)
    show ?thesis
      using True by (auto simp: m Cons.IH i64_add_left add.assoc filter_empty_conv)
  next
    case False
    then show ?thesis
      using Cons.IH by (auto simp: e split: option.splits)
  qed
qed simp

lemma gmap_ok_sum_used: "gmap_ok m \<Longrightarrow> gmap_ok (sum_used resolved qs m)"
  by (induction qs arbitrary: m) (auto split: option.splits)

lemma map_of_index_running:
  "distinct (map lv_UID ps) \<Longrightarrow> map_of (index_running ps m) uid =
    (case find (\<lambda>p. lv_UID p = uid) ps of None \<Rightarrow> map_of m uid | Some p \<Rightarrow> Some p)"
proof (induction ps arbitrary: m)
  case (Cons p ps)
  have "find (\<lambda>q. lv_UID q = lv_UID p) ps = None" using Cons.prems by (auto simp: find_None_iff) (metis image_eqI)
  then show ?case using Cons by (auto split: option.splits)
qed simp

lemma publish_used_at:
  assumes "gmap_ok us" and "\<And>uid p uid' p'. map_of byUID uid = Some p \<Longrightarrow> map_of byUID uid' = Some p' \<Longrightarrow>
      (pd_Namespace p, pd_Name p) = (pd_Namespace p', pd_Name p') \<Longrightarrow> uid = uid'"
    and "map_of byUID uid = Some p"
  shows "map_of (publish_used byUID us m) (pd_Namespace p, pd_Name p, gpu) =
    (case map_of us (uid, gpu) of None \<Rightarrow> map_of m (pd_Namespace p, pd_Name p, gpu) | Some b \<Rightarrow> Some b)"
  using assms(1)
proof (induction us arbitrary: m)
  case (Cons x us)
  obtain uid' gpu' b where x: "x = ((uid', gpu'), b)" by (metis prod_cases3 surj_pair)
  have ok: "gmap_ok us" "map_of us (uid', gpu') = None"
    using Cons.prems by (auto simp: gmap_ok_def x map_of_eq_None_iff)
  show ?case
  proof (cases "map_of byUID uid'")
    case None
    then show ?thesis using Cons.IH [OF ok(1)] assms(3) by (auto simp: x)
  next
    case (Some p')
    show ?thesis
    proof (cases "(pd_Namespace p, pd_Name p, gpu) = (pd_Namespace p', pd_Name p', gpu')")
      case True
      then have "uid' = uid" "gpu' = gpu" using assms(2) [OF Some assms(3)] by auto
      then show ?thesis using Cons.IH [OF ok(1)] ok(2) Some True by (auto simp: x)
    next
      case False
      then have "(uid', gpu') \<noteq> (uid, gpu)" using Some assms(3) by auto
      then show ?thesis using Cons.IH [OF ok(1)] Some False by (auto simp: x split: option.splits)
    qed
  qed
qed simp

section \<open>Properties\<close>

text \<open>
  The report charges a pod for its own processes: after a cycle whose fetches succeed, the used bytes of a
  running pod on a card are the sum over the processes that both snapshots show on that card with the
  same PID and whose cgroup names the pod, and there is no such entry when there is no such process.
\<close>

theorem reported_usage_is_confirmed:
  assumes "mo_devices env = Inr devs" and "mo_pods env = Some pods" and "mo_procs env = Inr procs" and "mo_procs2 env = Inr procs2"
    and "distinct (map lv_UID pods)" and "distinct (map (\<lambda>p. (pd_Namespace p, pd_Name p)) pods)"
    and "p \<in> set pods" and "pd_Phase p = PodRunning"
  shows "map_of (mr_used (observe annKeys env rep)) (pd_Namespace p, pd_Name p, gpu) =
    (let qs = filter (\<lambda>q. gp_DeviceUUID q = gpu \<and> confirmed_for (mo_cgroup env) procs (lv_UID p) q) procs2
     in if qs = [] then None else Some (i64 (\<Sum>q\<leftarrow>qs. gp_UsedMemoryBytes q)))"
proof -
  let ?run = "running_pods pods"
  let ?res = "resolve_procs (mo_cgroup env) procs []"
  have d: "distinct (map lv_UID ?run)" using assms(5) unfolding running_pods_def by (rule distinct_map_filter)
  have fnd: "find (\<lambda>p. lv_UID p = uid) ?run = Some r \<longleftrightarrow> r \<in> set ?run \<and> lv_UID r = uid" for uid r
  proof
    assume "r \<in> set ?run \<and> lv_UID r = uid"
    moreover from this obtain r' where "find (\<lambda>p. lv_UID p = uid) ?run = Some r'"
      by (cases "find (\<lambda>p. lv_UID p = uid) ?run") (auto simp: find_None_iff)
    moreover from this have "r' \<in> set ?run" "lv_UID r' = uid" by (auto simp: find_Some_iff)
    ultimately show "find (\<lambda>p. lv_UID p = uid) ?run = Some r" using d by (auto simp: distinct_map inj_on_def)
  qed (auto simp: find_Some_iff)
  have byUID: "map_of (index_running ?run []) uid = Some r \<longleftrightarrow> r \<in> set ?run \<and> lv_UID r = uid" for uid r
    unfolding map_of_index_running [OF d] using fnd [of uid r] by (auto split: option.splits)
  have at: "map_of (publish_used (index_running ?run []) (sum_used ?res procs2 []) []) (pd_Namespace p, pd_Name p, gpu)
      = map_of (sum_used ?res procs2 []) (lv_UID p, gpu)"
  proof -
    have "uid = uid'" if "map_of (index_running ?run []) uid = Some r" "map_of (index_running ?run []) uid' = Some r'"
      "(pd_Namespace r, pd_Name r) = (pd_Namespace r', pd_Name r')" for uid r uid' r'
      using that(1,2) [unfolded byUID] that(3) assms(6) by (auto simp: running_pods_def distinct_map inj_on_def)
    moreover have "map_of (index_running ?run []) (lv_UID p) = Some p"
      unfolding byUID using assms(7,8) by (simp add: running_pods_def)
    ultimately show ?thesis
      using publish_used_at [of "sum_used ?res procs2 []" "index_running ?run []" "lv_UID p" p "[]" gpu]
      by (auto simp: gmap_ok_sum_used split: option.splits)
  qed
  have key: "of_key ?res (lv_UID p) gpu = (\<lambda>q. gp_DeviceUUID q = gpu \<and> confirmed_for (mo_cgroup env) procs (lv_UID p) q)"
    by (rule ext) (simp add: of_key_def resolved_iff)
  have "mr_used (observe annKeys env rep) = publish_used (index_running ?run []) (sum_used ?res procs2 []) []"
    by (simp add: observe_def assms(1-4) Let_def)
  then show ?thesis
    by (auto simp: at sum_used_at key Let_def filter_empty_conv gget_def)
qed


definition observed_pod :: monitor_pod where
  "observed_pod = monitor_pod.make ''train'' ''ns'' [] [(''gpu-memory'', ''16'')] None ''n1'' ''Never'' False False False [] [] [] PodRunning
     ''0f0e0d0c-0000-0000-0000-000000000001'' []"

definition observed_env :: monitor_env where
  "observed_env =
    \<lparr>mo_devices = Inr [], mo_pods = Some [observed_pod],
     mo_procs = Inr [\<lparr>gp_PID = 7, gp_DeviceUUID = ''A'', gp_UsedMemoryBytes = 1\<rparr>],
     mo_procs2 = Inr [\<lparr>gp_PID = 7, gp_DeviceUUID = ''A'', gp_UsedMemoryBytes = 5\<rparr>, \<lparr>gp_PID = 8, gp_DeviceUUID = ''A'', gp_UsedMemoryBytes = 9\<rparr>],
     mo_cgroup = (\<lambda>pid. Some ''0::/kubepods/pod0f0e0d0c-0000-0000-0000-000000000001/x''), mo_quantity = (\<lambda>s. None)\<rparr>"

definition no_report :: monitor_report where
  "no_report = \<lparr>mr_requested = [], mr_used = [], mr_gpus = []\<rparr>"

theorem reported_usage_is_confirmed_witness:
  "map_of (mr_used (observe [] observed_env no_report)) (''ns'', ''train'', ''A'') = Some 5"
proof -
  have f: "mo_devices observed_env = Inr []" "mo_pods observed_env = Some [observed_pod]"
    "mo_procs observed_env = Inr [\<lparr>gp_PID = 7, gp_DeviceUUID = ''A'', gp_UsedMemoryBytes = 1\<rparr>]"
    "mo_procs2 observed_env = Inr [\<lparr>gp_PID = 7, gp_DeviceUUID = ''A'', gp_UsedMemoryBytes = 5\<rparr>, \<lparr>gp_PID = 8, gp_DeviceUUID = ''A'', gp_UsedMemoryBytes = 9\<rparr>]"
    by (simp_all add: observed_env_def)
  have p: "pd_Namespace observed_pod = ''ns''" "pd_Name observed_pod = ''train''" "pd_Phase observed_pod = PodRunning"
    by (simp_all add: observed_pod_def monitor_pod.make_def)
  have u: "podUIDForPID (mo_cgroup observed_env) 7 = Some (lv_UID observed_pod)" "lv_UID observed_pod \<noteq> []" by code_simp+
  show ?thesis
    using reported_usage_is_confirmed [OF f, of observed_pod "[]" no_report "''A''"] u
    by (simp add: p confirmed_for_def Let_def i64_def)
qed

text \<open>
  A cycle that fails leaves the report alone, and one that succeeds mentions running pods only: no
  requested entry is made for a finished or queued pod, so that it is not shown as waste.
\<close>

lemma publish_requests_has:
  "ghas (publish_requests pq t ks ps m) k \<Longrightarrow> ghas m k \<or> (\<exists>p\<in>set ps. \<exists>src. k = (pd_Namespace p, pd_Name p, src) \<and>
     fst (requestedVRAM pq p t ks) > 0 \<and> src = snd (requestedVRAM pq p t ks))"
proof (induction ps arbitrary: m)
  case (Cons p ps)
  obtain req src where r: "requestedVRAM pq p t ks = (req, src)" by (cases "requestedVRAM pq p t ks")
  show ?case using Cons.IH [of "if req > 0 then gput (pd_Namespace p, pd_Name p, src) req m else m"] Cons.prems r
    by (auto split: if_splits)
qed simp

theorem only_running_pods_reported:
  assumes "rep' = observe annKeys env rep" and "rep' \<noteq> rep" and "ghas (mr_requested rep') (ns, name, src)"
  shows "\<exists>pods p. mo_pods env = Some pods \<and> p \<in> set pods \<and> pd_Phase p = PodRunning \<and> pd_Namespace p = ns \<and> pd_Name p = name"
proof -
  obtain devs pods procs procs2 where e: "mo_devices env = Inr devs" "mo_pods env = Some pods" "mo_procs env = Inr procs"
      "mo_procs2 env = Inr procs2"
    using assms(1,2) by (auto simp: observe_def Let_def split: sum.splits option.splits)
  have "mr_requested rep' = publish_requests (mo_quantity env) (card_total (filter gd_Healthy devs)) (observer_keys annKeys)
      (running_pods pods) []"
    using assms(1) by (simp add: observe_def e Let_def)
  then show ?thesis
    using publish_requests_has [of "mo_quantity env" "card_total (filter gd_Healthy devs)" "observer_keys annKeys" "running_pods pods" "[]" "(ns, name, src)"]
      assms(3) e(2) by (auto simp: running_pods_def)
qed

theorem only_running_pods_reported_witness:
  "mr_requested (observe [] observed_env no_report) = [((''ns'', ''train'', ''annotation''), 16777216)] \<and>
    pd_Phase observed_pod = PodRunning"
proof -
  have r: "mr_requested (observe [] observed_env no_report) = [((''ns'', ''train'', ''annotation''), 16777216)]" by code_simp
  then have "observe [] observed_env no_report \<noteq> no_report" "ghas (mr_requested (observe [] observed_env no_report)) (''ns'', ''train'', ''annotation'')"
    by (auto simp: no_report_def ghas_def)
  moreover have "mo_pods observed_env = Some [observed_pod]" by (simp add: observed_env_def)
  ultimately show ?thesis using only_running_pods_reported [OF refl] r by fastforce
qed

text \<open>
  The mebibyte convention wraps around: a bare number just above \<open>2^44\<close> reads as one mebibyte, because
  the product is taken in 64 bits without a check.
\<close>

theorem bare_mebibytes_wrap:
  "parseRequestedMem pq ''17592186044417'' = 1048576"
proof -
  let ?s = "''17592186044417''"
  have "trim_space ?s = ?s" "isAllDigits ?s" by code_simp+
  moreover have "ParseInt64 ?s = Some 17592186044417"
    by (simp add: ParseInt64_def digit_val_def in_i64_def Let_def)
  ultimately show ?thesis by (simp add: parseRequestedMem_def i64_def)
qed

end
