(* ===== verification/AgentStore.thy ===== *)
theory AgentStore
  imports GoText
begin

text \<open>
  The files the node agent keeps: the checkpoint of its allocations
  (\<open>internal/nodeagent/checkpoint/checkpoint.go\<close>) and the CDI specs that bind a container to a card
  (\<open>internal/nodeagent/cdi/generator.go\<close>). A directory is a Go-style map from file names to contents; what
  the operating system answers to each call is an argument, and a write is the list of the directory
  states it goes through, so that a crash may stop it at any of them. JSON is not spelled out: a file
  is the value it encodes, or unparseable.
\<close>

section \<open>The checkpoint\<close>

record checkpoint_record =
  ck_AllocationID :: string
  ck_SliceUID :: string
  ck_SliceName :: string
  ck_Namespace :: string
  ck_ClaimName :: string
  ck_DeviceUUID :: string
  ck_AllocatedBytes :: int
  ck_NodeName :: string
  ck_CreatedAt :: int

type_synonym records = "(string, checkpoint_record) gomap"

datatype checkpoint_content = Encoded records | Unparseable

type_synonym checkpoint_dir = "(string, checkpoint_content) gomap"

definition CheckpointFile :: string where
  "CheckpointFile = ''allocations.json''"

text \<open>The system calls of \<open>writeAtomic\<close>, in order.\<close>

datatype syscall = CreateTemp | WriteTemp | ChmodTemp | SyncTemp | CloseTemp | RenameTemp

datatype store_error = DirNotCreated | FileNotRead | CorruptCheckpoint | StepFailed syscall

text \<open>What the system answers, and the random part of the temporary file's name.\<close>

record store_io =
  io_mkdir :: bool
  io_read :: bool
  io_step :: "syscall \<Rightarrow> bool"
  io_suffix :: string

definition LoadAll :: "bool \<Rightarrow> checkpoint_dir \<Rightarrow> store_error + records" where
  "LoadAll readable dir =
    (if \<not> readable then Inl FileNotRead
     else case map_of dir CheckpointFile of
       None \<Rightarrow> Inr []
     | Some Unparseable \<Rightarrow> Inl CorruptCheckpoint
     | Some (Encoded rs) \<Rightarrow> Inr rs)"

definition temp_name :: "string \<Rightarrow> string" where
  "temp_name suffix = CheckpointFile @ ''.tmp-'' @ suffix"

definition call_effect :: "string \<Rightarrow> records \<Rightarrow> syscall \<Rightarrow> checkpoint_dir \<Rightarrow> checkpoint_dir" where
  "call_effect tmp rs s dir =
    (case s of
       CreateTemp \<Rightarrow> gput tmp Unparseable dir
     | WriteTemp \<Rightarrow> gput tmp (Encoded rs) dir
     | RenameTemp \<Rightarrow> (case map_of dir tmp of None \<Rightarrow> dir | Some f \<Rightarrow> gput CheckpointFile f (gdel tmp dir))
     | _ \<Rightarrow> dir)"

text \<open>
  A call that fails ends the write, and the deferred \<open>os.Remove\<close> takes the temporary file away. The
  directories are those before the write, after every call, and after the removal.
\<close>

fun run_calls :: "(syscall \<Rightarrow> bool) \<Rightarrow> string \<Rightarrow> records \<Rightarrow> syscall list \<Rightarrow> checkpoint_dir
   \<Rightarrow> store_error option \<times> checkpoint_dir list" where
  "run_calls ok tmp rs [] dir = (None, [dir])"
| "run_calls ok tmp rs (s # ss) dir =
    (if ok s
     then (let (err, dirs) = run_calls ok tmp rs ss (call_effect tmp rs s dir) in (err, dir # dirs))
     else (Some (StepFailed s), [dir, if s = CreateTemp then dir else gdel tmp dir]))"

definition writeAtomic :: "store_io \<Rightarrow> records \<Rightarrow> checkpoint_dir \<Rightarrow> store_error option \<times> checkpoint_dir list" where
  "writeAtomic io rs dir =
    run_calls (io_step io) (temp_name (io_suffix io)) rs
      [CreateTemp, WriteTemp, ChmodTemp, SyncTemp, CloseTemp, RenameTemp] dir"

definition Save :: "store_io \<Rightarrow> checkpoint_record \<Rightarrow> checkpoint_dir \<Rightarrow> store_error option \<times> checkpoint_dir list" where
  "Save io record dir =
    (if \<not> io_mkdir io then (Some DirNotCreated, [dir])
     else case LoadAll (io_read io) dir of
       Inl err \<Rightarrow> (Some err, [dir])
     | Inr rs \<Rightarrow> writeAtomic io (gput (ck_AllocationID record) record rs) dir)"

definition DeleteRecord :: "store_io \<Rightarrow> string \<Rightarrow> checkpoint_dir \<Rightarrow> store_error option \<times> checkpoint_dir list" where
  "DeleteRecord io allocationID dir =
    (case LoadAll (io_read io) dir of
       Inl err \<Rightarrow> (Some err, [dir])
     | Inr rs \<Rightarrow>
         if map_of dir CheckpointFile = None then (None, [dir])
         else writeAtomic io (gdel allocationID rs) dir)"

section \<open>The CDI specs\<close>

record cdi_spec =
  cs_Version :: string
  cs_Kind :: string
  cs_Devices :: "(string \<times> string list) list"

datatype cdi_content = Spec cdi_spec | PartialSpec

type_synonym cdi_dir = "(string, cdi_content) gomap"

datatype write_outcome = Written | NotOpened | Interrupted

record cdi_io =
  ci_mkdir :: bool
  ci_write :: write_outcome
  ci_rename :: bool
  ci_remove :: bool

datatype cdi_error = InvalidAllocationID string | CdiDirNotCreated | SpecNotWritten | SpecNotRenamed | SpecNotRemoved string

definition vendorName :: string where "vendorName = ''infrastructure.pranav2910.com''"
definition className :: string where "className = ''vgpu''"
definition cdiKind :: string where "cdiKind = vendorName @ ''/'' @ className"
definition cdiVersion :: string where "cdiVersion = ''0.5.0''"

text \<open>The regular expression \<open>^alloc-[a-z0-9-]+$\<close>.\<close>

definition id_char :: "char \<Rightarrow> bool" where
  "id_char c \<longleftrightarrow> (CHR ''a'' \<le> c \<and> c \<le> CHR ''z'') \<or> (CHR ''0'' \<le> c \<and> c \<le> CHR ''9'') \<or> c = CHR ''-''"

definition validateAllocationID :: "string \<Rightarrow> bool" where
  "validateAllocationID allocID \<longleftrightarrow> HasPrefix allocID ''alloc-'' \<and> drop 6 allocID \<noteq> [] \<and> list_all id_char (drop 6 allocID)"

definition spec_path :: "string \<Rightarrow> string" where
  "spec_path deviceName = vendorName @ ''-'' @ deviceName @ ''.json''"

definition firewall_spec :: "string \<Rightarrow> string \<Rightarrow> cdi_spec" where
  "firewall_spec deviceName uuid = \<lparr>cs_Version = cdiVersion, cs_Kind = cdiKind,
     cs_Devices = [(deviceName, [''NVIDIA_VISIBLE_DEVICES='' @ uuid])]\<rparr>"

definition GenerateFirewall :: "cdi_io \<Rightarrow> string \<Rightarrow> string \<Rightarrow> cdi_dir \<Rightarrow> cdi_error option \<times> cdi_dir" where
  "GenerateFirewall io deviceName uuid dir =
    (if \<not> validateAllocationID deviceName then (Some (InvalidAllocationID deviceName), dir)
     else if \<not> ci_mkdir io then (Some CdiDirNotCreated, dir)
     else let path = spec_path deviceName; tmp = path @ ''.tmp''; spec = Spec (firewall_spec deviceName uuid)
       in case ci_write io of
         NotOpened \<Rightarrow> (Some SpecNotWritten, dir)
       | Interrupted \<Rightarrow> (Some SpecNotWritten, gput tmp PartialSpec dir)
       | Written \<Rightarrow>
           if ci_rename io then (None, gput path spec (gdel tmp dir))
           else (Some SpecNotRenamed, gput tmp spec dir))"

definition TeardownFirewall :: "cdi_io \<Rightarrow> string \<Rightarrow> cdi_dir \<Rightarrow> cdi_error option \<times> cdi_dir" where
  "TeardownFirewall io allocationID dir =
    (if \<not> validateAllocationID allocationID then (Some (InvalidAllocationID allocationID), dir)
     else if map_of dir (spec_path allocationID) = None then (None, dir)
     else if ci_remove io then (None, gdel (spec_path allocationID) dir)
     else (Some (SpecNotRemoved allocationID), dir))"

section \<open>What a store of allocations promises\<close>

text \<open>
  Both directories hold one item per allocation. \<open>look\<close> reads them back; an operation that succeeds
  changes the item of its allocation and no other, one that fails changes none.
\<close>

locale allocation_store =
  fixes key :: "'v \<Rightarrow> string"
    and item :: "'v \<Rightarrow> 'i"
    and look :: "'s \<Rightarrow> string \<Rightarrow> 'i option"
    and put :: "'io \<Rightarrow> 'v \<Rightarrow> 's \<Rightarrow> bool \<times> 's"
    and remove :: "'io \<Rightarrow> string \<Rightarrow> 's \<Rightarrow> bool \<times> 's"
  assumes put_law: "put io v s = (ok, s') \<Longrightarrow> look s' = (if ok then (look s)(key v \<mapsto> item v) else look s)"
    and remove_law: "remove io k s = (ok, s') \<Longrightarrow> look s' = (if ok then (look s)(k := None) else look s)"
begin

lemma put_stored: "put io v s = (True, s') \<Longrightarrow> look s' (key v) = Some (item v)"
  by (simp add: put_law)

lemma put_other: "put io v s = (ok, s') \<Longrightarrow> j \<noteq> key v \<Longrightarrow> look s' j = look s j"
  by (simp add: put_law)

lemma remove_gone: "remove io k s = (True, s') \<Longrightarrow> look s' k = None"
  by (simp add: remove_law)

lemma remove_other: "remove io k s = (ok, s') \<Longrightarrow> j \<noteq> k \<Longrightarrow> look s' j = look s j"
  by (simp add: remove_law)

lemma put_remove:
  "look s (key v) = None \<Longrightarrow> put io v s = (True, s1) \<Longrightarrow> remove io' (key v) s1 = (True, s2) \<Longrightarrow> look s2 = look s"
  by (auto simp: put_law remove_law)

end

text \<open>The records a later \<open>LoadAll\<close> reads, and the device a container runtime resolves.\<close>

definition record_of :: "checkpoint_dir \<Rightarrow> string \<Rightarrow> checkpoint_record option" where
  "record_of dir k = (case map_of dir CheckpointFile of Some (Encoded rs) \<Rightarrow> map_of rs k | _ \<Rightarrow> None)"

definition device_of :: "cdi_dir \<Rightarrow> string \<Rightarrow> cdi_content option" where
  "device_of dir k = (if validateAllocationID k then map_of dir (spec_path k) else None)"

lemma spec_path_eq [simp]: "spec_path k = spec_path j \<longleftrightarrow> k = j"
  by (simp add: spec_path_def)

lemma append_tails_differ: "length b = length d \<Longrightarrow> b \<noteq> d \<Longrightarrow> a @ b \<noteq> c @ d"
  by simp

lemma tmp_path_other [simp]: "spec_path k @ ''.tmp'' \<noteq> spec_path j"
proof -
  have "(vendorName @ ''-'' @ k @ ''.json'') @ ''.tmp'' \<noteq> (vendorName @ ''-'' @ j @ ''.'') @ ''json''"
    by (rule append_tails_differ) simp_all
  then show ?thesis by (simp add: spec_path_def)
qed

lemma spec_path_not_tmp [simp]: "spec_path j \<noteq> spec_path k @ ''.tmp''"
  using tmp_path_other [of k j] by metis

lemma temp_name_other [simp]: "temp_name x \<noteq> CheckpointFile" "CheckpointFile \<noteq> temp_name x"
  by (simp_all add: temp_name_def)

text \<open>The result of a write once it is over.\<close>

definition ended :: "store_error option \<times> checkpoint_dir list \<Rightarrow> bool \<times> checkpoint_dir" where
  "ended r = (fst r = None, last (snd r))"

lemma writeAtomic_dirs:
  "snd (writeAtomic io rs dir) \<noteq> []"
  "d \<in> set (snd (writeAtomic io rs dir)) \<Longrightarrow> map_of d CheckpointFile \<in> {map_of dir CheckpointFile, Some (Encoded rs)}"
  by (auto simp: writeAtomic_def call_effect_def split_beta split: if_splits)

lemma writeAtomic_ended:
  "ended (writeAtomic io rs dir) = (ok, d) \<Longrightarrow>
    map_of d CheckpointFile = (if ok then Some (Encoded rs) else map_of dir CheckpointFile)"
  by (auto simp: writeAtomic_def ended_def call_effect_def split_beta split: if_splits)

lemma LoadAll_Inr:
  "LoadAll readable dir = Inr rs \<Longrightarrow> record_of dir = map_of rs \<and> (map_of dir CheckpointFile = None \<longrightarrow> rs = [])"
  by (auto simp: LoadAll_def record_of_def fun_eq_iff split: if_splits option.splits checkpoint_content.splits)

lemma record_of_cong: "map_of d CheckpointFile = map_of dir CheckpointFile \<Longrightarrow> record_of d = record_of dir"
  by (simp add: record_of_def fun_eq_iff)

lemma record_of_Encoded: "map_of d CheckpointFile = Some (Encoded rs) \<Longrightarrow> record_of d = map_of rs"
  by (simp add: record_of_def fun_eq_iff)

lemma Save_law:
  assumes "ended (Save io r dir) = (ok, d)"
  shows "record_of d = (if ok then (record_of dir)(ck_AllocationID r \<mapsto> r) else record_of dir)"
proof (cases "io_mkdir io")
  case True
  show ?thesis
  proof (cases "LoadAll (io_read io) dir")
    case (Inr rs)
    then have w: "ended (writeAtomic io (gput (ck_AllocationID r) r rs) dir) = (ok, d)"
      using assms True by (simp add: Save_def)
    show ?thesis
      using writeAtomic_ended [OF w] LoadAll_Inr [OF Inr]
      by (cases ok) (simp_all add: record_of_Encoded [of d] record_of_cong [of d dir])
  qed (use assms True in \<open>auto simp: Save_def ended_def\<close>)
qed (use assms in \<open>auto simp: Save_def ended_def\<close>)

lemma Delete_law:
  assumes "ended (DeleteRecord io k dir) = (ok, d)"
  shows "record_of d = (if ok then (record_of dir)(k := None) else record_of dir)"
proof (cases "LoadAll (io_read io) dir")
  case (Inr rs)
  show ?thesis
  proof (cases "map_of dir CheckpointFile")
    case None
    then show ?thesis using assms Inr LoadAll_Inr [OF Inr] by (auto simp: DeleteRecord_def ended_def fun_eq_iff)
  next
    case (Some c)
    then have w: "ended (writeAtomic io (gdel k rs) dir) = (ok, d)"
      using assms Inr by (simp add: DeleteRecord_def)
    show ?thesis
      using writeAtomic_ended [OF w] LoadAll_Inr [OF Inr]
      by (cases ok) (simp_all add: record_of_Encoded [of d] record_of_cong [of d dir])
  qed
qed (use assms in \<open>auto simp: DeleteRecord_def ended_def\<close>)

interpretation checkpoint: allocation_store ck_AllocationID "\<lambda>r. r" record_of
    "\<lambda>io r dir. ended (Save io r dir)" "\<lambda>io k dir. ended (DeleteRecord io k dir)"
  by unfold_locales (use Save_law Delete_law in blast)+

lemma Generate_law:
  assumes "GenerateFirewall io k uuid dir = (err, d)"
  shows "device_of d = (if err = None then (device_of dir)(k \<mapsto> Spec (firewall_spec k uuid)) else device_of dir)"
  using assms
  by (auto simp: GenerateFirewall_def device_of_def fun_eq_iff Let_def split: if_splits write_outcome.splits)

lemma Teardown_law:
  assumes "TeardownFirewall io k dir = (err, d)"
  shows "device_of d = (if err = None then (device_of dir)(k := None) else device_of dir)"
  using assms
  by (auto simp: TeardownFirewall_def device_of_def fun_eq_iff split: if_splits)

interpretation cdi: allocation_store fst "\<lambda>(k, uuid). Spec (firewall_spec k uuid)" device_of
    "\<lambda>io (k, uuid) dir. case GenerateFirewall io k uuid dir of (err, d) \<Rightarrow> (err = None, d)"
    "\<lambda>io k dir. case TeardownFirewall io k dir of (err, d) \<Rightarrow> (err = None, d)"
  by unfold_locales (auto simp: Generate_law Teardown_law split: prod.splits)

text \<open>Every directory that a save or a delete goes through holds the old or the new records.\<close>

definition old_or_new :: "checkpoint_dir \<Rightarrow> (string \<Rightarrow> checkpoint_record option) \<Rightarrow> checkpoint_dir \<Rightarrow> bool" where
  "old_or_new dir recs d \<longleftrightarrow> map_of d CheckpointFile = map_of dir CheckpointFile \<or>
    (\<exists>rs. map_of d CheckpointFile = Some (Encoded rs) \<and> map_of rs = recs)"

lemma Save_dirs:
  assumes "d \<in> set (snd (Save io r dir))"
  shows "(LoadAll (io_read io) dir = Inl CorruptCheckpoint \<longrightarrow> d = dir) \<and>
    old_or_new dir ((record_of dir)(ck_AllocationID r \<mapsto> r)) d"
proof (cases "LoadAll (io_read io) dir")
  case (Inr rs)
  then show ?thesis
    using assms writeAtomic_dirs(2) [of d io "gput (ck_AllocationID r) r rs" dir] LoadAll_Inr [OF Inr]
    by (auto simp: Save_def old_or_new_def split: if_splits)
qed (use assms in \<open>auto simp: Save_def old_or_new_def split: if_splits\<close>)

lemma Delete_dirs:
  assumes "d \<in> set (snd (DeleteRecord io k dir))"
  shows "(LoadAll (io_read io) dir = Inl CorruptCheckpoint \<longrightarrow> d = dir) \<and>
    old_or_new dir ((record_of dir)(k := None)) d"
proof (cases "LoadAll (io_read io) dir")
  case (Inr rs)
  then show ?thesis
    using assms writeAtomic_dirs(2) [of d io "gdel k rs" dir] LoadAll_Inr [OF Inr]
    by (auto simp: DeleteRecord_def old_or_new_def split: if_splits)
qed (use assms in \<open>auto simp: DeleteRecord_def old_or_new_def split: if_splits\<close>)

lemma old_or_new_reads:
  assumes "old_or_new dir recs d"
  shows "record_of d \<in> {record_of dir, recs}" and
    "LoadAll True d = Inl CorruptCheckpoint \<Longrightarrow> LoadAll True dir = Inl CorruptCheckpoint"
  using assms by (auto simp: old_or_new_def LoadAll_def record_of_Encoded [of d] record_of_cong [of d dir])

section \<open>Properties\<close>

text \<open>
  C29. The checkpoint survives a crash: at whatever point a save or a delete fails or the agent dies, the
  next start reads either the old records or the complete new ones, and never an unparseable file that
  was not there before; a file that cannot be parsed is never written over.
\<close>

theorem checkpoint_survives_crash:
  assumes "d \<in> set (snd (Save io r dir)) \<or> d \<in> set (snd (DeleteRecord io k dir))"
  shows "record_of d \<in> {record_of dir, (record_of dir)(ck_AllocationID r \<mapsto> r), (record_of dir)(k := None)} \<and>
    (LoadAll True d = Inl CorruptCheckpoint \<longrightarrow> LoadAll True dir = Inl CorruptCheckpoint) \<and>
    (LoadAll (io_read io) dir = Inl CorruptCheckpoint \<longrightarrow> d = dir)"
  using assms
proof
  assume "d \<in> set (snd (Save io r dir))"
  from Save_dirs [OF this] show ?thesis using old_or_new_reads by blast
next
  assume "d \<in> set (snd (DeleteRecord io k dir))"
  from Delete_dirs [OF this] show ?thesis using old_or_new_reads by blast
qed

definition io_fine :: store_io where
  "io_fine = \<lparr>io_mkdir = True, io_read = True, io_step = (\<lambda>s. s \<noteq> CloseTemp), io_suffix = ''1''\<rparr>"

definition record_a :: checkpoint_record where
  "record_a = \<lparr>ck_AllocationID = ''alloc-a'', ck_SliceUID = ''u'', ck_SliceName = ''s'', ck_Namespace = ''ns'',
     ck_ClaimName = ''c'', ck_DeviceUUID = ''GPU'', ck_AllocatedBytes = 7, ck_NodeName = ''n1'', ck_CreatedAt = 3\<rparr>"

theorem checkpoint_survives_crash_witness:
  "map_of (snd (Save io_fine record_a []) ! 1) CheckpointFile = None \<and>
    record_of (snd (Save io_fine record_a []) ! 2) \<in> {Map.empty, [''alloc-a'' \<mapsto> record_a]}"
proof -
  have two: "snd (Save io_fine record_a []) ! 2 \<in> set (snd (Save io_fine record_a []))"
    by (rule nth_mem) code_simp
  have "record_of [] = Map.empty" "(\<lambda>j. None)(''x'' := None) = Map.empty" by (auto simp: record_of_def)
  moreover have "map_of (snd (Save io_fine record_a []) ! 1) CheckpointFile = None" "ck_AllocationID record_a = ''alloc-a''"
    by (code_simp, simp add: record_a_def)
  ultimately show ?thesis
    using conjunct1 [OF checkpoint_survives_crash [OF disjI1 [OF two], of "''x''"]] by auto
qed

text \<open>
  One allocation's firewall is its own: whatever happens to the specs of other allocations, generated,
  overwritten or torn down, with or without errors, the spec of this one stays, and the file a teardown
  removes is a direct child of the CDI directory.
\<close>

theorem firewall_is_per_allocation:
  assumes "j \<noteq> k"
  shows "device_of (snd (GenerateFirewall io j uuid dir)) k = device_of dir k \<and>
    device_of (snd (TeardownFirewall io j dir)) k = device_of dir k \<and>
    (snd (TeardownFirewall io j dir) \<noteq> dir \<longrightarrow> CHR ''/'' \<notin> set (spec_path j))"
proof -
  have "CHR ''/'' \<notin> set j" if v: "validateAllocationID j"
  proof
    assume slash: "CHR ''/'' \<in> set j"
    obtain r where j: "j = ''alloc-'' @ r" using v by (auto simp: validateAllocationID_def HasPrefix_iff)
    then have "CHR ''/'' \<in> set r" using slash by simp
    then show False using v by (auto simp: validateAllocationID_def j list_all_iff id_char_def less_eq_char_def)
  qed
  then have "snd (TeardownFirewall io j dir) \<noteq> dir \<Longrightarrow> CHR ''/'' \<notin> set (spec_path j)"
    by (auto simp: TeardownFirewall_def spec_path_def vendorName_def split: if_splits)
  then show ?thesis
    using Generate_law [of io j uuid dir] Teardown_law [of io j dir] assms
    by (cases "GenerateFirewall io j uuid dir"; cases "TeardownFirewall io j dir") (simp split: if_splits)
qed

definition cdi_fine :: cdi_io where
  "cdi_fine = \<lparr>ci_mkdir = True, ci_write = Written, ci_rename = True, ci_remove = True\<rparr>"

theorem firewall_is_per_allocation_witness:
  "device_of (snd (TeardownFirewall cdi_fine ''alloc-b'' [(spec_path ''alloc-a'', PartialSpec)])) ''alloc-a'' = Some PartialSpec"
proof -
  have "device_of [(spec_path ''alloc-a'', PartialSpec)] ''alloc-a'' = Some PartialSpec" by code_simp
  then show ?thesis
    using firewall_is_per_allocation [of "''alloc-b''" "''alloc-a''" cdi_fine "[]" "[(spec_path ''alloc-a'', PartialSpec)]"] by simp
qed

end
