(* ===== verification/AgentManager.thy ===== *)
theory AgentManager
  imports AgentStore NodeAllocator Webhooks SlicePhases
begin

text \<open>
  The node agent's manager: status reports (\<open>internal/nodeagent/reporter.go\<close>), the allocation and the
  release of a slice over the ledger, the CDI files and the checkpoint (\<open>manager.go\<close>), the start-up from
  the checkpoint, the drift check (\<open>drift/detector.go\<close>) and the reconciler and mode switch of
  \<open>cmd/nodeagent/main.go\<close>. The API server's and the system's answers and the clock are arguments.
\<close>

record manager =
  mg_nodeName :: string
  mg_alloc :: allocator
  mg_store :: checkpoint_dir
  mg_cdi :: cdi_dir

datatype manager_error =
    PhaseRefused phase_error
  | UpdateFailed write_reply
  | AllocateFailed alloc_error
  | FirewallFailed cdi_error
  | CheckpointFailed store_error
  | ReleaseFailed

section \<open>Status reports\<close>

datatype report_site = AtAllocating | AtOutcome

text \<open>\<open>None\<close> is the missing client of the test mode; the result has the written objects.\<close>

type_synonym status_client = "(report_site \<Rightarrow> write_reply) option"

definition statusUpdate :: "status_client \<Rightarrow> report_site \<Rightarrow> vgpu_slice \<Rightarrow> manager_error option \<times> vgpu_slice list" where
  "statusUpdate cl site slice =
    (case cl of
       None \<Rightarrow> (None, [])
     | Some reply \<Rightarrow> if reply site = Accepted then (None, [slice]) else (Some (UpdateFailed (reply site)), []))"

definition TransitionToAllocating ::
  "status_client \<Rightarrow> vgpu_slice \<Rightarrow> manager_error option \<times> vgpu_slice \<times> vgpu_slice list" where
  "TransitionToAllocating cl slice =
    (case TransitionSlicePhase slice SlicePhaseAllocating [] ''NodeAgent beginning hardware allocation'' of
       Inl e \<Rightarrow> (Some (PhaseRefused e), slice, [])
     | Inr s \<Rightarrow> (let (err, ws) = statusUpdate cl AtAllocating s in (err, s, ws)))"

definition ReportAllocationReady ::
  "status_client \<Rightarrow> vgpu_slice \<Rightarrow> alloc_result \<Rightarrow> manager_error option \<times> vgpu_slice list" where
  "ReportAllocationReady cl slice result =
    (case MarkSliceReady slice (ar_AllocationID result) (ar_DeviceUUID result) (ar_AllocatedBytes result) of
       Inl e \<Rightarrow> (Some (PhaseRefused e), [])
     | Inr s \<Rightarrow> statusUpdate cl AtOutcome s)"

definition ReportAllocationFailed ::
  "status_client \<Rightarrow> vgpu_slice \<Rightarrow> string \<Rightarrow> manager_error option \<times> vgpu_slice list" where
  "ReportAllocationFailed cl slice reason =
    (case TransitionSlicePhase slice SlicePhaseFailed ''AllocationImpossible'' reason of
       Inl e \<Rightarrow> (Some (PhaseRefused e), [])
     | Inr s \<Rightarrow> statusUpdate cl AtOutcome s)"

definition ReportReleaseComplete :: "status_client \<Rightarrow> vgpu_slice \<Rightarrow> manager_error option \<times> vgpu_slice list" where
  "ReportReleaseComplete cl slice =
    (if sl_Phase slice = SlicePhaseReleased then (None, [])
     else case (if sl_Phase slice \<noteq> SlicePhaseReleasing
                then TransitionSlicePhase slice SlicePhaseReleasing ''CleanupStarted'' ''Hardware release in progress''
                else Inr slice) of
       Inl e \<Rightarrow> (Some (PhaseRefused e), [])
     | Inr s \<Rightarrow>
         (case TransitionSlicePhase s SlicePhaseReleased ''CleanupComplete'' ''Hardware freed'' of
            Inl e \<Rightarrow> (Some (PhaseRefused e), [])
          | Inr t \<Rightarrow> statusUpdate cl AtOutcome
                       (t\<lparr>sl_DeviceUUID := [], sl_AllocationID := [], sl_AllocatedBytes := 0\<rparr>)))"

section \<open>The text of a fragmentation failure\<close>

text \<open>\<open>%.1f\<close> rounds to the nearest tenth, a tie to the even one; exact below \<open>2^53\<close> bytes.\<close>

definition tenths :: "int \<Rightarrow> int" where
  "tenths b =
    (let q = 10 * b div 2 ^ 30; r = 10 * b mod 2 ^ 30
     in if 2 * r > 2 ^ 30 \<or> (2 * r = 2 ^ 30 \<and> odd q) then q + 1 else q)"

definition humanGi :: "int \<Rightarrow> string" where
  "humanGi b =
    (if b mod 2 ^ 30 = 0 then FormatInt (b div 2 ^ 30) @ ''Gi''
     else FormatInt (tenths b div 10) @ ''.'' @ FormatInt (tenths b mod 10) @ ''Gi'')"

definition fragmentation_text :: "int \<Rightarrow> int \<Rightarrow> string" where
  "fragmentation_text req free =
    ''No single GPU has '' @ humanGi req @ '' free; node has '' @ humanGi free @ '' free across GPUs. Fragmented capacity.''"

section \<open>The manager\<close>

record manager_io =
  mi_devices :: "alloc_device list option"
  mi_now :: int
  mi_created :: int
  mi_store :: store_io
  mi_cdi :: cdi_io
  mi_update :: status_client

definition NewManager ::
  "string \<Rightarrow> bool \<Rightarrow> bool \<Rightarrow> checkpoint_dir \<Rightarrow> cdi_dir \<Rightarrow> manager" where
  "NewManager nodeName mock readable store cdi =
    \<lparr>mg_nodeName = nodeName,
     mg_alloc = (case LoadAll readable store of
         Inl _ \<Rightarrow> NewAllocator mock
       | Inr rs \<Rightarrow> fold (\<lambda>(k, r). RestoreAllocation k (ck_SliceUID r) (ck_DeviceUUID r) (ck_AllocatedBytes r))
                     rs (NewAllocator mock)),
     mg_store = store, mg_cdi = cdi\<rparr>"

definition the_record :: "manager_io \<Rightarrow> manager \<Rightarrow> vgpu_slice \<Rightarrow> alloc_result \<Rightarrow> checkpoint_record" where
  "the_record io m slice r =
    \<lparr>ck_AllocationID = ar_AllocationID r, ck_SliceUID = sl_UID slice, ck_SliceName = sl_Name slice,
     ck_Namespace = sl_Namespace slice, ck_ClaimName = sl_ClaimRef slice, ck_DeviceUUID = ar_DeviceUUID r,
     ck_AllocatedBytes = ar_AllocatedBytes r, ck_NodeName = mg_nodeName m, ck_CreatedAt = mi_created io\<rparr>"

text \<open>The firewall, the checkpoint and the report of an allocation that the ledger made.\<close>

definition finish_allocation ::
  "manager_io \<Rightarrow> vgpu_slice \<Rightarrow> alloc_result \<Rightarrow> manager \<Rightarrow> manager_error option \<times> manager \<times> vgpu_slice list" where
  "finish_allocation io slice r m =
    (case GenerateFirewall (mi_cdi io) (ar_AllocationID r) (ar_DeviceUUID r) (mg_cdi m) of
       (Some e, cdi) \<Rightarrow> (Some (FirewallFailed e), m\<lparr>mg_cdi := cdi\<rparr>, [])
     | (None, cdi) \<Rightarrow>
         (case Save (mi_store io) (the_record io m slice r) (mg_store m) of
            (Some e, dirs) \<Rightarrow> (Some (CheckpointFailed e), m\<lparr>mg_cdi := cdi, mg_store := last dirs\<rparr>, [])
          | (None, dirs) \<Rightarrow>
              (case ReportAllocationReady (mi_update io) slice r of
                 (err, ws) \<Rightarrow> (err, m\<lparr>mg_cdi := cdi, mg_store := last dirs\<rparr>, ws))))"

definition allocate_slice ::
  "manager_io \<Rightarrow> vgpu_slice \<Rightarrow> manager \<Rightarrow> manager_error option \<times> manager \<times> vgpu_slice list" where
  "allocate_slice io slice m =
    (case TransitionToAllocating (mi_update io) slice of
       (Some e, _, ws) \<Rightarrow> (Some e, m, ws)
     | (None, s, ws) \<Rightarrow>
         (case Allocate (mi_devices io) (mi_now io)
                 \<lparr>aq_SliceUID = sl_UID s, aq_ClaimName = sl_ClaimRef s, aq_RequestedVRAMBytes = sl_RequestedVRAMBytes s\<rparr>
                 (mg_alloc m) of
            (Inl (Fragmentation req free), _) \<Rightarrow>
              (case ReportAllocationFailed (mi_update io) s (fragmentation_text req free) of
                 (err, ws') \<Rightarrow> (err, m, ws @ ws'))
          | (Inl e, _) \<Rightarrow> (Some (AllocateFailed e), m, ws)
          | (Inr r, a) \<Rightarrow>
              (case finish_allocation io s r (m\<lparr>mg_alloc := a\<rparr>) of (err, m', ws') \<Rightarrow> (err, m', ws @ ws'))))"

text \<open>The CDI file and the record of an allocation, after the ledger has released it.\<close>

definition delete_record ::
  "manager_io \<Rightarrow> string \<Rightarrow> manager \<Rightarrow> manager_error option \<times> manager" where
  "delete_record io k m =
    (case DeleteRecord (mi_store io) k (mg_store m) of
       (err, dirs) \<Rightarrow> (map_option CheckpointFailed err, m\<lparr>mg_store := last dirs\<rparr>))"

definition teardown :: "manager_io \<Rightarrow> string \<Rightarrow> manager \<Rightarrow> manager_error option \<times> manager" where
  "teardown io k m =
    (case TeardownFirewall (mi_cdi io) k (mg_cdi m) of
       (err, cdi) \<Rightarrow> (map_option FirewallFailed err, m\<lparr>mg_cdi := cdi\<rparr>))"

definition free_hardware :: "manager_io \<Rightarrow> vgpu_slice \<Rightarrow> manager \<Rightarrow> manager_error option \<times> manager" where
  "free_hardware io slice m =
    (if sl_AllocationID slice \<noteq> [] then
       (case teardown io (sl_AllocationID slice) m of
          (Some e, m1) \<Rightarrow> (Some e, m1)
        | (None, m1) \<Rightarrow>
            (case Release (sl_AllocationID slice) (mg_alloc m1) of
               (False, a) \<Rightarrow> (Some ReleaseFailed, m1\<lparr>mg_alloc := a\<rparr>)
             | (True, a) \<Rightarrow> delete_record io (sl_AllocationID slice) (m1\<lparr>mg_alloc := a\<rparr>)))
     else
       (case ReleaseBySlice (sl_UID slice) (mg_alloc m) of
          (None, a) \<Rightarrow> (Some ReleaseFailed, m\<lparr>mg_alloc := a\<rparr>)
        | (Some k, a) \<Rightarrow>
            if k = [] then (None, m\<lparr>mg_alloc := a\<rparr>)
            else (case teardown io k (m\<lparr>mg_alloc := a\<rparr>) of
                    (Some e, m1) \<Rightarrow> (Some e, m1)
                  | (None, m1) \<Rightarrow> delete_record io k m1)))"

definition release_slice ::
  "manager_io \<Rightarrow> vgpu_slice \<Rightarrow> manager \<Rightarrow> manager_error option \<times> manager \<times> vgpu_slice list" where
  "release_slice io slice m =
    (case free_hardware io slice m of
       (Some e, m1) \<Rightarrow> (Some e, m1, [])
     | (None, m1) \<Rightarrow> (case ReportReleaseComplete (mi_update io) slice of (err, ws) \<Rightarrow> (err, m1, ws)))"

definition ReconcileSlice ::
  "manager_io \<Rightarrow> vgpu_slice \<Rightarrow> manager \<Rightarrow> manager_error option \<times> manager \<times> vgpu_slice list" where
  "ReconcileSlice io slice m =
    (if sl_DeletionTimestamp slice = None \<and>
        (sl_Phase slice = SlicePhaseScheduled \<or> sl_Phase slice = SlicePhaseAllocating)
     then allocate_slice io slice m
     else if sl_Phase slice = SlicePhaseReleasing \<or> sl_DeletionTimestamp slice \<noteq> None
     then release_slice io slice m
     else (None, m, []))"

section \<open>The drift check\<close>

datatype drift_error =
    CheckpointNotLoaded store_error
  | PruneFailed string
  | SliceNotChecked string
  | HealRefused string phase_error
  | HealNotWritten string
  | OrphanNotReleased string

record drift_env =
  de_readable :: bool
  de_slice :: "(string \<times> string \<Rightarrow> vgpu_slice api_read) option"
  de_update :: "string \<times> string \<Rightarrow> write_reply"
  de_store :: "string \<Rightarrow> store_io"

type_synonym heal_state = "drift_error list \<times> (string, bool) gomap \<times> checkpoint_dir \<times> vgpu_slice list"

definition prune :: "drift_env \<Rightarrow> string \<Rightarrow> heal_state \<Rightarrow> heal_state" where
  "prune env k st =
    (case st of (errs, hw, store, ws) \<Rightarrow>
       (case ended (DeleteRecord (de_store env k) k store) of
          (ok, store') \<Rightarrow> (if ok then errs else errs @ [PruneFailed k], hw, store', ws)))"

definition fail_slice :: "drift_env \<Rightarrow> string \<Rightarrow> vgpu_slice \<Rightarrow> heal_state \<Rightarrow> heal_state" where
  "fail_slice env k slice st =
    (case st of (errs, hw, store, ws) \<Rightarrow>
       (case TransitionSlicePhase slice SlicePhaseFailed ''DriftDetected'' ''Device missing from PCIe bus on node boot'' of
          Inl e \<Rightarrow> (errs @ [HealRefused k e], hw, store, ws)
        | Inr s \<Rightarrow>
            if de_update env (sl_Namespace slice, sl_Name slice) = Accepted then (errs, hw, store, ws @ [s])
            else (errs @ [HealNotWritten k], hw, store, ws)))"

definition heal_record :: "drift_env \<Rightarrow> bool \<Rightarrow> string \<times> checkpoint_record \<Rightarrow> heal_state \<Rightarrow> heal_state" where
  "heal_record env inspectable kr st =
    (case (kr, st) of ((k, r), (errs, hw, store, ws)) \<Rightarrow>
       if inspectable \<and> gget False hw k then (errs, gdel k hw, store, ws)
       else if \<not> inspectable then
         (case de_slice env of
            None \<Rightarrow> st
          | Some get \<Rightarrow>
              (case get (ck_Namespace r, ck_SliceName r) of
                 NotFound \<Rightarrow> prune env k st
               | ReadErr \<Rightarrow> (errs @ [SliceNotChecked k], hw, store, ws)
               | Found _ \<Rightarrow> st))
       else
         (case de_slice env of
            None \<Rightarrow> prune env k st
          | Some get \<Rightarrow>
              (case get (ck_Namespace r, ck_SliceName r) of
                 Found slice \<Rightarrow> if sl_Phase slice = SlicePhaseReady then prune env k (fail_slice env k slice st) else st
               | _ \<Rightarrow> prune env k st)))"

definition release_orphan :: "string \<Rightarrow> drift_error list \<times> allocator \<Rightarrow> drift_error list \<times> allocator" where
  "release_orphan k st =
    (case st of (errs, a) \<Rightarrow>
       (case Release k a of (ok, a') \<Rightarrow> (if ok then errs else errs @ [OrphanNotReleased k], a')))"

text \<open>The errors it returns, the manager, and the slices it wrote.\<close>

definition DetectAndHeal :: "drift_env \<Rightarrow> manager \<Rightarrow> drift_error list \<times> manager \<times> vgpu_slice list" where
  "DetectAndHeal env m =
    (case LoadAll (de_readable env) (mg_store m) of
       Inl e \<Rightarrow> ([CheckpointNotLoaded e], m, [])
     | Inr rs \<Rightarrow>
         (let (hardware, inspectable) = InspectAllHardware (mg_alloc m);
              (errs, hw, store, ws) = fold (heal_record env inspectable) rs
                 ([], (case hardware of None \<Rightarrow> [] | Some h \<Rightarrow> h), mg_store m, []);
              (errs', a) = fold release_orphan (map fst hw) (errs, mg_alloc m)
          in (errs', m\<lparr>mg_alloc := a, mg_store := store\<rparr>, ws)))"

section \<open>The process\<close>

definition Reconcile_agent ::
  "string \<Rightarrow> manager_io \<Rightarrow> vgpu_slice api_read \<Rightarrow> manager \<Rightarrow> reconcile_result \<times> manager \<times> vgpu_slice list" where
  "Reconcile_agent nodeName io rd m =
    (case rd of
       NotFound \<Rightarrow> (done_result, m, [])
     | ReadErr \<Rightarrow> (ReconcileError, m, [])
     | Found slice \<Rightarrow>
         if sl_NodeName slice \<noteq> nodeName then (done_result, m, [])
         else (case ReconcileSlice io slice m of
                 (None, m', ws) \<Rightarrow> (done_result, m', ws)
               | (Some _, m', ws) \<Rightarrow> (ReconcileError, m', ws)))"

end
