(* ===== verification/AgentProcess.thy ===== *)
theory AgentProcess
  imports Monitor AgentManager Enforcement
begin

text \<open>
  The start of the node agent, \<open>cmd/nodeagent/main.go\<close>: which parts it runs, by the environment variables,
  before any of them does anything. Creating the client and the manager, and initialising the GPU
  provider, are calls of libraries: whether they succeed is an argument, and so is
  \<open>time.ParseDuration\<close>. A fatal exit is a value.
\<close>

datatype agent_part =
    MonitorPart "string list"
  | CollectorPart int
  | OverusePart
  | SliceDetectorPart enforcement_mode
  | DriftAndHealthPart
  | SliceReconcilerPart

datatype agent_start =
    Fatal string
  | Run string int "agent_part list"

record boot =
  bt_env :: "string \<Rightarrow> string"
  bt_clients :: bool
  bt_duration :: "string \<Rightarrow> int option"

definition observe_interval :: "boot \<Rightarrow> int" where
  "observe_interval b =
    (let v = bt_env b ''VGPU_OBSERVE_INTERVAL'' in
     if v \<noteq> [] then (case bt_duration b v of Some d \<Rightarrow> if d > 0 then d else 30 * second | None \<Rightarrow> 30 * second)
     else 30 * second)"

definition agent_mode :: "boot \<Rightarrow> string" where
  "agent_mode b = map lower_char (trim_space (bt_env b ''VGPU_MODE''))"

definition monitor_keys :: "boot \<Rightarrow> string list" where
  "monitor_keys b =
    (let v = bt_env b ''VGPU_REQUEST_ANNOTATION_KEY'' in
     if v \<noteq> [] then filter (\<lambda>k. k \<noteq> []) (map trim_space (split_at (CHR '','') v [])) else [])"

definition expected_vram :: "boot \<Rightarrow> int" where
  "expected_vram b = envInt64Default (bt_env b) ''VGPU_EXPECTED_VRAM_BYTES'' 0"

definition full_parts :: "boot \<Rightarrow> agent_part list" where
  "full_parts b =
    [CollectorPart (expected_vram b), OverusePart,
     SliceDetectorPart (ParseEnforcementMode (bt_env b ''VGPU_ENFORCEMENT_MODE'')), DriftAndHealthPart, SliceReconcilerPart]"

definition agent_main :: "boot \<Rightarrow> agent_start" where
  "agent_main b =
    (if bt_env b ''NODE_NAME'' = [] then Fatal ''CRITICAL: NODE_NAME environment variable is required''
     else if \<not> bt_clients b then Fatal ''creating controller manager''
     else if agent_mode b \<notin> {[], ''full'', ''monitor''} then Fatal ''CRITICAL: unrecognized VGPU_MODE''
     else Run (bt_env b ''NODE_NAME'') (observe_interval b)
            (if agent_mode b = ''monitor'' then [MonitorPart (monitor_keys b)] else full_parts b))"

text \<open>
  The watch's filter, \<open>nodePred\<close>: only events of slices on this node reach the reconciler, which checks the
  node again; so nothing it would have done is filtered out.
\<close>

definition nodePred :: "string \<Rightarrow> vgpu_slice \<Rightarrow> bool" where
  "nodePred nodeName s \<longleftrightarrow> sl_NodeName s = nodeName"

lemma filtered_events_do_nothing:
  "\<not> nodePred nodeName s \<Longrightarrow> Reconcile_agent nodeName io (Found s) m = (done_result, m, [])"
  by (simp add: nodePred_def Reconcile_agent_def)

text \<open>The parts that may write to the cluster, to a card's ledger or to the agent's files.\<close>

definition writes :: "agent_part \<Rightarrow> bool" where
  "writes p \<longleftrightarrow> p \<in> {DriftAndHealthPart, SliceReconcilerPart} \<or> (\<exists>m. p = SliceDetectorPart m)"

text \<open>
  The monitor mode is read-only, and a typo never leaves it: an agent whose mode is \<open>monitor\<close>, in any case
  and with blanks around it, runs the observer alone; any other text than \<open>full\<close> and none at all stops the
  agent before it runs anything.
\<close>

theorem monitor_mode_is_read_only:
  assumes "agent_main b = Run node interval parts"
  shows "0 < interval \<and> node \<noteq> [] \<and> agent_mode b \<in> {[], ''full'', ''monitor''} \<and>
    (agent_mode b = ''monitor'' \<longleftrightarrow> parts = [MonitorPart (monitor_keys b)]) \<and>
    (agent_mode b = ''monitor'' \<longleftrightarrow> \<not> (\<exists>p\<in>set parts. writes p))"
proof -
  have i: "0 < observe_interval b" by (simp add: observe_interval_def second_def Let_def split: option.splits)
  have e: "node = bt_env b ''NODE_NAME''" "node \<noteq> []" "interval = observe_interval b" "agent_mode b \<in> {[], ''full'', ''monitor''}"
    "parts = (if agent_mode b = ''monitor'' then [MonitorPart (monitor_keys b)] else full_parts b)"
    using assms by (auto simp: agent_main_def split: if_splits)
  have f: "\<exists>p\<in>set (full_parts b). writes p" "full_parts b \<noteq> [MonitorPart (monitor_keys b)]" by (simp_all add: full_parts_def writes_def)
  have m: "\<not> writes (MonitorPart ks)" for ks by (simp add: writes_def)
  show ?thesis using e i f m by (cases "agent_mode b = ''monitor''") simp_all
qed

definition monitor_boot :: boot where
  "monitor_boot = \<lparr>bt_env = (\<lambda>k. if k = ''NODE_NAME'' then ''n1'' else if k = ''VGPU_MODE'' then '' Monitor '' else []),
     bt_clients = True, bt_duration = (\<lambda>s. None)\<rparr>"

theorem monitor_mode_is_read_only_witness:
  "\<exists>interval. agent_main monitor_boot = Run ''n1'' interval [MonitorPart []] \<and> 0 < interval"
proof -
  have e: "agent_main monitor_boot = Run ''n1'' (30 * second) [MonitorPart []]" by code_simp
  from monitor_mode_is_read_only [OF e] show ?thesis using e by blast
qed

end
