(* ===== verification/QuotaStatus.thy ===== *)
theory QuotaStatus
  imports Quota ApiClient PriorityQueue SchedulerProcess
begin

text \<open>
  What the cluster shows of its quotas: the quota controller that refreshes \<open>status.usedVramBytes\<close>
  (\<open>internal/controller/vgpuquota_reconciler.go\<close>), and the inventory gauges of the
  scheduler process (\<open>cmd/scheduler/main.go\<close>). The \<open>float64\<close> of a gauge is the integer it was set from.
\<close>

section \<open>The quota controller\<close>

record quota_object = vgpu_quota +
  qo_DeletionTimestamp :: "int option"
  qo_UsedVramBytes :: int
  qo_LastUpdated :: int

record quota_env =
  qe_quota :: "quota_object api_read"
  qe_slices :: "vgpu_slice list option"
  qe_status :: "nat \<Rightarrow> quota_object api_read \<times> write_reply"
  qe_now :: int

definition quotaRefreshInterval :: int where
  "quotaRefreshInterval = 30 * second"

fun usage_total :: "vgpu_slice list \<Rightarrow> int \<Rightarrow> int" where
  "usage_total [] t = t"
| "usage_total (s # ss) t =
    usage_total ss (if sl_Phase s = ''Ready'' then i64 (t + sl_AllocatedBytes s) else t)"

definition computeUsage :: "string \<Rightarrow> vgpu_slice list option \<Rightarrow> int option" where
  "computeUsage ns listed =
    (case listed of None \<Rightarrow> None | Some items \<Rightarrow> Some (usage_total (filter (\<lambda>s. sl_Namespace s = ns) items) 0))"

definition Reconcile_quota :: "quota_env \<Rightarrow> reconcile_result \<times> quota_object option" where
  "Reconcile_quota env =
    (case qe_quota env of
       NotFound \<Rightarrow> (done_result, None)
     | ReadErr \<Rightarrow> (ReconcileError, None)
     | Found quota \<Rightarrow>
         if qo_DeletionTimestamp quota \<noteq> None then (done_result, None)
         else case computeUsage (qt_TargetNamespace quota) (qe_slices env) of
           None \<Rightarrow> (Requeue quotaRefreshInterval, None)
         | Some used \<Rightarrow>
             (Requeue quotaRefreshInterval,
              snd (RetryOnConflict (qe_status env)
                     (\<lambda>fresh. Some (fresh\<lparr>qo_UsedVramBytes := used, qo_LastUpdated := qe_now env\<rparr>)))))"

section \<open>The inventory gauges\<close>

record scheduler_gauges =
  sg_queueDepth :: int
  sg_byPhase :: "(string, int) gomap"
  sg_nsAllocated :: "(string, int) gomap"
  sg_nsQuota :: "(string, int) gomap"

definition shown_phase :: "vgpu_slice \<Rightarrow> string" where
  "shown_phase s = (if sl_Phase s = [] then ''Pending'' else sl_Phase s)"

fun inventory_loop ::
  "vgpu_slice list \<Rightarrow> (string, int) gomap \<times> (string, int) gomap \<Rightarrow> (string, int) gomap \<times> (string, int) gomap" where
  "inventory_loop [] acc = acc"
| "inventory_loop (s # ss) (byPhase, nsAllocated) =
    inventory_loop ss
      (gput (shown_phase s) (i64 (gget 0 byPhase (shown_phase s) + 1)) byPhase,
       if sl_AllocatedBytes s > 0
       then gput (sl_Namespace s) (i64 (gget 0 nsAllocated (sl_Namespace s) + sl_AllocatedBytes s)) nsAllocated
       else nsAllocated)"

definition collect ::
  "int option \<Rightarrow> vgpu_slice list option \<Rightarrow> vgpu_quota list option \<Rightarrow> scheduler_gauges \<Rightarrow> scheduler_gauges" where
  "collect queueLen slices quotas g =
    (let g1 = (case queueLen of None \<Rightarrow> g | Some n \<Rightarrow> g\<lparr>sg_queueDepth := n\<rparr>);
         g2 = (case slices of
             None \<Rightarrow> g1
           | Some items \<Rightarrow>
               (case inventory_loop items ([], []) of
                  (byPhase, nsAllocated) \<Rightarrow> g1\<lparr>sg_byPhase := byPhase, sg_nsAllocated := nsAllocated\<rparr>))
     in case quotas of
          None \<Rightarrow> g2
        | Some qs \<Rightarrow> g2\<lparr>sg_nsQuota := fold (\<lambda>q. gput (qt_TargetNamespace q) (qt_MaxVramBytes q)) qs []\<rparr>)"

section \<open>Lemmas\<close>

definition ready_bytes :: "vgpu_slice \<Rightarrow> int" where
  "ready_bytes s = (if sl_Phase s = ''Ready'' then sl_AllocatedBytes s else 0)"

lemma usage_total_eq: "in_i64 t \<Longrightarrow> usage_total ss t = i64 (t + (\<Sum>s\<leftarrow>ss. ready_bytes s))"
proof (induction ss arbitrary: t)
  case (Cons s ss)
  then show ?case
    using Cons.IH [of "i64 (t + sl_AllocatedBytes s)"] by (auto simp: ready_bytes_def i64_add_left add.assoc)
qed (simp add: i64_in)

lemma inventory_loop_at:
  "gget 0 (fst (inventory_loop ss (m, n))) p = i64 (gget 0 m p + int (length (filter (\<lambda>s. shown_phase s = p) ss)))"
  if "in_i64 (gget 0 m p)"
  using that
proof (induction ss arbitrary: m n)
  case (Cons s ss)
  have "in_i64 (gget 0 (gput (shown_phase s) (i64 (gget 0 m (shown_phase s) + 1)) m) p)" using Cons.prems by simp
  from Cons.IH [OF this] show ?case
    by (auto simp: i64_add_left algebra_simps)
qed (simp add: i64_in)

lemma inventory_loop_ns:
  "gget 0 (snd (inventory_loop ss (m, n))) ns =
    i64 (gget 0 n ns + (\<Sum>s\<leftarrow>filter (\<lambda>s. sl_Namespace s = ns) ss. max 0 (sl_AllocatedBytes s)))"
  if "in_i64 (gget 0 n ns)"
  using that
proof (induction ss arbitrary: m n)
  case (Cons s ss)
  let ?n = "if sl_AllocatedBytes s > 0
       then gput (sl_Namespace s) (i64 (gget 0 n (sl_Namespace s) + sl_AllocatedBytes s)) n else n"
  have "in_i64 (gget 0 ?n ns)" using Cons.prems by simp
  from Cons.IH [OF this] show ?case
    by (auto simp: i64_add_left add.assoc max_def)
qed (simp add: i64_in)

section \<open>Properties\<close>

text \<open>
  The quota's status never promises less use than it shows: the bytes the controller writes are those of
  the namespace's \<open>Ready\<close> slices, and they are at most what the scheduler's quota check counts as used on
  the same list, which also counts placements that are not \<open>Ready\<close> yet.
\<close>

theorem quota_status_is_ready_bytes:
  assumes "snd (Reconcile_quota env) = Some w" and "qe_quota env = Found quota" and "qe_slices env = Some items"
    and "\<forall>s\<in>set items. 0 \<le> sl_AllocatedBytes s \<and> 0 \<le> sl_RequestedVRAMBytes s \<and> (sl_Phase s = ''Ready'' \<longrightarrow> sl_NodeName s \<noteq> [])"
    and "(\<Sum>s\<leftarrow>filter (\<lambda>s. sl_Namespace s = qt_TargetNamespace quota) items. api_charge [] s) < 2 ^ 63"
  shows "qo_UsedVramBytes w = (\<Sum>s\<leftarrow>filter (\<lambda>s. sl_Namespace s = qt_TargetNamespace quota) items. ready_bytes s) \<and>
    (\<exists>used counted. namespaceUsage (qt_TargetNamespace quota) [] (Some items) = Some (used, counted) \<and> qo_UsedVramBytes w \<le> used)"
proof -
  let ?ss = "filter (\<lambda>s. sl_Namespace s = qt_TargetNamespace quota) items"
  have u: "qo_UsedVramBytes w = usage_total ?ss 0"
    using assms(1-3) RetryOnConflict_written [of "qe_status env" _ w]
    by (fastforce simp: Reconcile_quota_def computeUsage_def split: if_splits)
  have le: "(\<Sum>s\<leftarrow>?ss. ready_bytes s) \<le> (\<Sum>s\<leftarrow>?ss. api_charge [] s)"
  proof (rule sum_list_mono)
    fix s assume "s \<in> set ?ss"
    then have "0 \<le> sl_AllocatedBytes s" "0 \<le> sl_RequestedVRAMBytes s" "sl_Phase s = ''Ready'' \<longrightarrow> sl_NodeName s \<noteq> []"
      using assms(4) by auto
    then show "ready_bytes s \<le> api_charge [] s"
      by (auto simp: ready_bytes_def api_charge_def of_gang_def sliceHeldBytes_def)
  qed
  have "0 \<le> (\<Sum>s\<leftarrow>?ss. ready_bytes s)" using assms(4) by (intro sum_list_nonneg) (auto simp: ready_bytes_def)
  then have i: "i64 (\<Sum>s\<leftarrow>?ss. ready_bytes s) = (\<Sum>s\<leftarrow>?ss. ready_bytes s)" "i64 (\<Sum>s\<leftarrow>?ss. api_charge [] s) = (\<Sum>s\<leftarrow>?ss. api_charge [] s)"
    using le assms(5) by (auto intro!: i64_id)
  have z: "in_i64 0" by (simp add: in_i64_def)
  show ?thesis
    using le i by (simp add: u usage_total_eq [OF z] namespaceUsage_eq)
qed

definition quota0 :: quota_object where
  "quota0 = \<lparr>qt_TargetNamespace = ''ns'', qt_MaxVramBytes = 100, qo_DeletionTimestamp = None, qo_UsedVramBytes = 0, qo_LastUpdated = 0\<rparr>"

definition quota_env0 :: quota_env where
  "quota_env0 = \<lparr>qe_quota = Found quota0, qe_slices = Some [], qe_status = (\<lambda>i. (Found quota0, Accepted)), qe_now = 5\<rparr>"

theorem quota_status_is_ready_bytes_witness:
  "\<exists>w. snd (Reconcile_quota quota_env0) = Some w \<and> qo_UsedVramBytes w = 0"
proof -
  have e: "qe_quota quota_env0 = Found quota0" "qe_slices quota_env0 = Some []" by (simp_all add: quota_env0_def)
  obtain w where w: "snd (Reconcile_quota quota_env0) = Some w"
    using RetryOnConflict_first [where net = "qe_status quota_env0" and x = quota0]
    by (simp add: Reconcile_quota_def computeUsage_def quota_env0_def quota0_def)
  show ?thesis using quota_status_is_ready_bytes [OF w e] w by simp
qed

text \<open>
  The gauges show the inventory: after a collection that could list the slices, each phase's gauge is
  the number of slices in it, a slice without a phase counting as pending, and each namespace's gauge is
  the sum of its allocated bytes; a failed list leaves them as they were.
\<close>

theorem gauges_show_inventory:
  assumes "slices = Some items" and "int (length items) < 2 ^ 63"
  shows "gget 0 (sg_byPhase (collect n slices quotas g)) p = int (length (filter (\<lambda>s. shown_phase s = p) items)) \<and>
    gget 0 (sg_nsAllocated (collect n slices quotas g)) ns
      = i64 (\<Sum>s\<leftarrow>filter (\<lambda>s. sl_Namespace s = ns) items. max 0 (sl_AllocatedBytes s)) \<and>
    sg_byPhase (collect n None quotas g) = sg_byPhase g \<and> sg_nsAllocated (collect n None quotas g) = sg_nsAllocated g"
proof -
  obtain bp na where l: "inventory_loop items ([], []) = (bp, na)" by (cases "inventory_loop items ([], [])")
  have z: "in_i64 (gget 0 [] x)" for x :: string by (simp add: in_i64_def gget_def)
  have "0 \<le> int (length (filter (\<lambda>s. shown_phase s = p) items))" "int (length (filter (\<lambda>s. shown_phase s = p) items)) \<le> int (length items)"
    by (simp_all add: length_filter_le)
  then have i: "i64 (int (length (filter (\<lambda>s. shown_phase s = p) items))) = int (length (filter (\<lambda>s. shown_phase s = p) items))"
    using assms(2) by (intro i64_id) linarith+
  have "sg_byPhase (collect n slices quotas g) = bp" "sg_nsAllocated (collect n slices quotas g) = na"
    by (simp_all add: collect_def assms(1) l Let_def split: option.splits)
  then show ?thesis
    using inventory_loop_at [OF z, of items "[]" p] inventory_loop_ns [OF z, of items "[]" ns] i
    by (simp add: l gget_def [of 0 "[]"]) (simp add: collect_def Let_def split: option.splits)
qed

theorem gauges_show_inventory_witness:
  "gget 0 (sg_byPhase (collect None (Some [slice0]) None \<lparr>sg_queueDepth = 0, sg_byPhase = [], sg_nsAllocated = [], sg_nsQuota = []\<rparr>)) ''Pending'' = 1"
proof -
  have "length (filter (\<lambda>s. shown_phase s = ''Pending'') [slice0]) = 1" by code_simp
  then show ?thesis
    using gauges_show_inventory [of "Some [slice0]" "[slice0]" None None "\<lparr>sg_queueDepth = 0, sg_byPhase = [], sg_nsAllocated = [], sg_nsQuota = []\<rparr>" "''Pending''"]
    by simp
qed

end
