(* ===== verification/ProcessWiring.thy ===== *)
theory ProcessWiring
  imports SchedulerProcess Webhooks PriorityQueue NodeAllocator
begin

text \<open>
  How the processes are put together: \<open>main\<close> of \<open>cmd/scheduler/main.go\<close> and \<open>cmd/controller/main.go\<close>, each
  a sequence of library calls that may fail and of parts handed to the manager, the queue adapter between
  the priority queue and the controller runtime, and the hardware health probe
  (\<open>internal/nodeagent/nvml/probe.go\<close>). Which call fails is an argument; \<open>log.Fatalf\<close> is a value.
\<close>

section \<open>A start in order\<close>

text \<open>\<open>Inl\<close> the call that stopped the process, or \<open>Inr\<close> the parts it runs.\<close>

fun boot_in_order :: "('c \<times> 'p list) list \<Rightarrow> ('c \<Rightarrow> bool) \<Rightarrow> 'c + 'p list" where
  "boot_in_order [] works = Inr []"
| "boot_in_order ((c, ps) # rest) works =
    (if \<not> works c then Inl c
     else case boot_in_order rest works of Inl e \<Rightarrow> Inl e | Inr qs \<Rightarrow> Inr (ps @ qs))"

lemma boot_in_order_Inr:
  "boot_in_order cs works = Inr qs \<longleftrightarrow> (\<forall>c\<in>fst ` set cs. works c) \<and> qs = concat (map snd cs)"
proof (induction cs arbitrary: qs)
  case (Cons x cs)
  then show ?case by (cases x; cases "boot_in_order cs works") auto
qed auto

section \<open>The scheduler\<close>

datatype scheduler_call =
    AddClientGoScheme | AddVgpuScheme | ReadKubeconfig | CreateManager | AddSeedRunnable | AddJanitorRunnable
  | AddReaperRunnable | AddCollectorRunnable | SetupSliceController | SetupNodeController | AddHealthzCheck
  | AddReadyzCheck | RunManager

datatype scheduler_part =
    SeedRunnable
  | JanitorRunnable int
  | ReaperRunnable int
  | CollectorRunnable int
  | SliceController sched_config
  | NodeController
  | HealthzAlways
  | ReadyzWhenSeeded

definition wired_config :: sched_config where
  "wired_config = \<lparr>sf_quota = True, sf_preemptor = True, sf_gate = True\<rparr>"

definition scheduler_calls :: "(scheduler_call \<times> scheduler_part list) list" where
  "scheduler_calls =
    [(AddClientGoScheme, []), (AddVgpuScheme, []), (ReadKubeconfig, []), (CreateManager, []),
     (AddSeedRunnable, [SeedRunnable]), (AddJanitorRunnable, [JanitorRunnable (60 * second)]),
     (AddReaperRunnable, [ReaperRunnable (10 * second)]), (AddCollectorRunnable, [CollectorRunnable (15 * second)]),
     (SetupSliceController, [SliceController wired_config]), (SetupNodeController, [NodeController]),
     (AddHealthzCheck, [HealthzAlways]), (AddReadyzCheck, [ReadyzWhenSeeded]), (RunManager, [])]"

definition scheduler_main :: "(scheduler_call \<Rightarrow> bool) \<Rightarrow> scheduler_call + scheduler_part list" where
  "scheduler_main works = boot_in_order scheduler_calls works"

text \<open>
  A scheduler that runs has all its guards: the quota check, the preemptor and the gang gate are wired into
  the slice controller, and the seeding of the cache, the janitor and the reaper run beside it; any call
  that fails stops the process before it schedules.
\<close>

theorem running_scheduler_is_guarded:
  "(\<exists>c. scheduler_main works = Inl c \<and> \<not> works c) \<or>
   (\<exists>ps. scheduler_main works = Inr ps \<and> (\<forall>c. works c) \<and>
      {SliceController \<lparr>sf_quota = True, sf_preemptor = True, sf_gate = True\<rparr>, SeedRunnable, NodeController,
       JanitorRunnable (60 * second), ReaperRunnable (10 * second), ReadyzWhenSeeded} \<subseteq> set ps)"
proof -
  have "c \<in> fst ` set scheduler_calls" for c by (cases c) (simp_all add: scheduler_calls_def)
  then have all: "(\<forall>c\<in>fst ` set scheduler_calls. works c) \<longleftrightarrow> (\<forall>c. works c)" by blast
  have fails: "boot_in_order cs works = Inl c \<Longrightarrow> \<not> works c" for cs :: "(scheduler_call \<times> scheduler_part list) list" and c
    by (induction cs) (auto split: if_splits sum.splits)
  show ?thesis
  proof (cases "scheduler_main works")
    case (Inl c)
    then show ?thesis using fails by (simp add: scheduler_main_def)
  next
    case (Inr ps)
    then have "(\<forall>c. works c) \<and> ps = concat (map snd scheduler_calls)"
      unfolding scheduler_main_def boot_in_order_Inr all .
    then show ?thesis using Inr by (auto simp: scheduler_calls_def wired_config_def)
  qed
qed

section \<open>The controller\<close>

datatype controller_call =
    AddClientGo | AddVgpu | ReadConfig | NewManagerCall | SetupClaim | SetupJob | SetupQuota | SetupSlice | SetupGangJob
  | SetupReservation | SetupProfile | AddHealthz | AddReadyz | StartManager

datatype webhook_handler =
    PodMutator | ClaimValidator | GangJobValidator | JobValidator mode | JobResizer mode

datatype controller_part =
    ClaimController
  | JobController mode
  | QuotaController
  | VGPUSliceController
  | GangJobController
  | ReservationController
  | ProfileController
  | Handler string webhook_handler

definition webhooksEnabled :: "(string \<Rightarrow> string) \<Rightarrow> bool" where
  "webhooksEnabled getenv \<longleftrightarrow> getenv ''VGPU_DISABLE_WEBHOOKS'' \<noteq> ''true''"

definition webhook_parts :: "mode \<Rightarrow> controller_part list" where
  "webhook_parts m =
    [Handler ''/mutate-v1-pod'' PodMutator,
     Handler ''/validate-infrastructure-pranav2910-com-v1alpha1-vgpuclaim'' ClaimValidator,
     Handler ''/validate-infrastructure-pranav2910-com-v1alpha1-vgpugangjob'' GangJobValidator,
     Handler ''/validate-infrastructure-pranav2910-com-v1alpha1-vgpujob'' (JobValidator m),
     Handler ''/mutate-infrastructure-pranav2910-com-v1alpha1-vgpujob'' (JobResizer m)]"

definition controller_calls :: "(string \<Rightarrow> string) \<Rightarrow> (controller_call \<times> controller_part list) list" where
  "controller_calls getenv =
    (let m = ParseMode (getenv ''VGPU_RECOMMENDATION_MODE'') in
     [(AddClientGo, []), (AddVgpu, []), (ReadConfig, []), (NewManagerCall, []),
      (SetupClaim, [ClaimController]), (SetupJob, [JobController m]), (SetupQuota, [QuotaController]),
      (SetupSlice, [VGPUSliceController]), (SetupGangJob, [GangJobController]),
      (SetupReservation, [ReservationController]),
      (SetupProfile, ProfileController # (if webhooksEnabled getenv then webhook_parts m else [])),
      (AddHealthz, []), (AddReadyz, []), (StartManager, [])])"

definition controller_main :: "(string \<Rightarrow> string) \<Rightarrow> (controller_call \<Rightarrow> bool) \<Rightarrow> controller_call + controller_part list" where
  "controller_main getenv works = boot_in_order (controller_calls getenv) works"

text \<open>
  One recommendation mode everywhere: in a controller that runs, the job controller, the validator and the
  resizer have the mode of the environment; the two handlers exist exactly when webhooks are enabled, so
  without them a mode that would block or resize does neither.
\<close>

theorem one_recommendation_mode:
  assumes "controller_main getenv works = Inr ps"
  shows "(JobController m \<in> set ps \<longleftrightarrow> m = ParseMode (getenv ''VGPU_RECOMMENDATION_MODE'')) \<and>
    ((\<exists>p. Handler p (JobValidator m) \<in> set ps) \<longleftrightarrow> webhooksEnabled getenv \<and> m = ParseMode (getenv ''VGPU_RECOMMENDATION_MODE'')) \<and>
    ((\<exists>p. Handler p (JobResizer m) \<in> set ps) \<longleftrightarrow> webhooksEnabled getenv \<and> m = ParseMode (getenv ''VGPU_RECOMMENDATION_MODE'')) \<and>
    {ClaimController, VGPUSliceController, GangJobController, ReservationController} \<subseteq> set ps"
proof -
  have ps: "ps = concat (map snd (controller_calls getenv))"
    using assms by (simp add: controller_main_def boot_in_order_Inr)
  show ?thesis unfolding ps by (auto simp: controller_calls_def webhook_parts_def Let_def)
qed

definition resize_env :: "string \<Rightarrow> string" where
  "resize_env k = (if k = ''VGPU_RECOMMENDATION_MODE'' then ''autoResize'' else [])"

theorem one_recommendation_mode_witness:
  "\<exists>ps. controller_main resize_env (\<lambda>c. True) = Inr ps \<and>
     (\<exists>p. Handler p (JobResizer AutoResize) \<in> set ps) \<and> JobController Warn \<notin> set ps"
proof -
  obtain ps where ps: "controller_main resize_env (\<lambda>c. True) = Inr ps"
    by (auto simp: controller_main_def boot_in_order_Inr)
  have e: "webhooksEnabled resize_env" "ParseMode (resize_env ''VGPU_RECOMMENDATION_MODE'') = AutoResize"
    by code_simp+
  have "\<exists>p. Handler p (JobResizer AutoResize) \<in> set ps"
    using one_recommendation_mode [OF ps, of AutoResize, THEN conjunct2, THEN conjunct2, THEN conjunct1]
    by (simp only: e simp_thms)
  moreover have "JobController Warn \<notin> set ps"
    using one_recommendation_mode [OF ps, of Warn, THEN conjunct1] by (simp only: e mode.distinct simp_thms not_False_eq_True)
  ultimately show ?thesis using ps by (intro exI [of _ ps] conjI)
qed

section \<open>The queue adapter\<close>

text \<open>What the controller runtime's worker sees; \<open>None\<close> while \<open>Get\<close> blocks.\<close>

definition adapter_Get :: "'r \<Rightarrow> 'r Queue \<Rightarrow> ('r \<times> bool) option \<times> 'r Queue" where
  "adapter_Get empty_request q =
    (case Get q of
       (got.Blocks, q') \<Rightarrow> (None, q')
     | (ShutDownSeen, q') \<Rightarrow> (Some (empty_request, True), q')
     | (Got r, q') \<Rightarrow> (Some (r, False), q'))"

definition adapter_AddRateLimited :: "('r \<Rightarrow> int) \<Rightarrow> ('r \<Rightarrow> int) \<Rightarrow> int \<Rightarrow> 'r \<Rightarrow> 'r Queue \<Rightarrow> 'r Queue \<times> (int \<times> 'r) option" where
  "adapter_AddRateLimited When priorityFn now r q = AddRateLimited When priorityFn now r q"

text \<open>A worker stops only once the queue is shut down and drained.\<close>

lemma worker_stops_when_drained:
  "fst (adapter_Get e q) = Some (r, True) \<Longrightarrow> heap q = [] \<and> shuttingDown q"
  by (auto simp: adapter_Get_def Get_def heap_Len_def Let_def split: prod.splits got.splits if_splits)

section \<open>The hardware health probe\<close>

datatype health_error = ProbeNotInitialized | CountFailed | CardFailed nat

text \<open>The default build, and the NVML build: \<open>cards\<close> and \<open>handle\<close> are the library's answers.\<close>

definition CheckHardwareHealth_default :: "allocator \<Rightarrow> health_error option" where
  "CheckHardwareHealth_default a = (if \<not> al_initialized a then Some ProbeNotInitialized else None)"

definition CheckHardwareHealth :: "bool \<Rightarrow> nat option \<Rightarrow> (nat \<Rightarrow> bool) \<Rightarrow> allocator \<Rightarrow> health_error option" where
  "CheckHardwareHealth mockMode cards handle a =
    (if \<not> al_initialized a then Some ProbeNotInitialized
     else if mockMode then None
     else case cards of
       None \<Rightarrow> Some CountFailed
     | Some n \<Rightarrow> map_option CardFailed (find (\<lambda>i. \<not> handle i) [0..<n]))"

text \<open>
  The probe looks at every card: it is silent exactly when every card answers, and otherwise names the first
  that does not.
\<close>

lemma find_upt_first:
  "find P [0..<n] = Some i \<longleftrightarrow> i < n \<and> P i \<and> (\<forall>j<i. \<not> P j)"
  by (auto simp: find_Some_iff)

theorem probe_sees_every_card:
  assumes "al_initialized a"
  shows "(CheckHardwareHealth False (Some n) handle a = None \<longleftrightarrow> (\<forall>i<n. handle i)) \<and>
    (CheckHardwareHealth False (Some n) handle a = Some (CardFailed i) \<longleftrightarrow> i < n \<and> \<not> handle i \<and> (\<forall>j<i. handle j)) \<and>
    CheckHardwareHealth True cards handle a = None"
  using assms find_upt_first [of "\<lambda>i. \<not> handle i" n i]
  by (auto simp: CheckHardwareHealth_def find_None_iff)

end
