(* ===== verification/AgentProps.thy ===== *)
theory AgentProps
  imports AgentManager
begin

text \<open>
  What the node agent guarantees: a slice is reported \<open>Ready\<close> only when the ledger, the CDI directory and
  the checkpoint back it, a release takes away its own hardware and nothing else, attempts may be
  repeated without charging a card twice, a restart reads the ledger back from the checkpoint, and the
  drift check spares live slices. The laws of the two directories come from \<open>allocation_store\<close>.
\<close>

section \<open>The ledger under one operation\<close>

definition entry_of :: "checkpoint_record \<Rightarrow> ledger_entry" where
  "entry_of r = \<lparr>le_sliceUID = ck_SliceUID r, le_deviceUUID = ck_DeviceUUID r, le_bytes = ck_AllocatedBytes r\<rparr>"

definition result_entry :: "string \<Rightarrow> alloc_result \<Rightarrow> ledger_entry" where
  "result_entry uid r = \<lparr>le_sliceUID = uid, le_deviceUUID = ar_DeviceUUID r, le_bytes = ar_AllocatedBytes r\<rparr>"

lemma Allocate_entry:
  assumes "Allocate (Some ds) now req a = (Inr r, a')" and "ledger_ok ds a" and "devices_ok ds"
  shows "map_of (al_byAlloc a') = (map_of (al_byAlloc a))(ar_AllocationID r \<mapsto> result_entry (aq_SliceUID req) r)
    \<and> map_of (al_bySlice a') (aq_SliceUID req) = Some (ar_AllocationID r) \<and> ar_AllocationID r \<noteq> []"
proof (cases "map_of (al_bySlice a) (aq_SliceUID req)")
  case (Some k)
  then obtain e where e: "map_of (al_byAlloc a) k = Some e" "le_sliceUID e = aq_SliceUID req" "k \<noteq> []"
    using ledger_index [OF assms(2)] ledger_entry [OF assms(2)] by blast
  then have "a' = a" "r = \<lparr>ar_AllocationID = k, ar_DeviceUUID = le_deviceUUID e, ar_AllocatedBytes = le_bytes e\<rparr>"
    using assms(1) Some by (auto simp: Allocate_def Let_def split: if_splits)
  then show ?thesis using e Some by (cases e) (auto simp: result_entry_def)
next
  case None
  then obtain u where
    "a' = commit_entry (alloc_id (aq_SliceUID req) now) (aq_SliceUID req) u (aq_RequestedVRAMBytes req) a"
    "r = \<lparr>ar_AllocationID = alloc_id (aq_SliceUID req) now, ar_DeviceUUID = u, ar_AllocatedBytes = aq_RequestedVRAMBytes req\<rparr>"
    "aq_SliceUID req \<noteq> []"
    using assms(1) by (auto simp: Allocate_def split: if_splits sum.splits)
  then show ?thesis by (simp add: commit_entry_def result_entry_def)
qed

lemma Allocate_Inl: "Allocate ds now req a = (Inl e, a') \<Longrightarrow> a' = a"
  by (auto simp: Allocate_def Let_def split: if_splits option.splits sum.splits)

lemma releaseLocked_byAlloc: "map_of (al_byAlloc (releaseLocked k a)) = (map_of (al_byAlloc a))(k := None)"
  by (auto simp: releaseLocked_def Let_def split: option.splits)

section \<open>One operation of the manager\<close>

lemma statusUpdate_writes: "w \<in> set (snd (statusUpdate cl site s)) \<Longrightarrow> w = s"
  by (auto simp: statusUpdate_def split: option.splits if_splits)

lemma TransitionSlicePhase_keeps:
  assumes "TransitionSlicePhase s q r m = Inr s'"
  shows "sl_UID s' = sl_UID s \<and> sl_NodeName s' = sl_NodeName s \<and> sl_RequestedVRAMBytes s' = sl_RequestedVRAMBytes s"
  using assms by (auto simp: TransitionSlicePhase_def Let_def split: if_splits option.splits)

lemma ReportAllocationReady_writes:
  assumes "w \<in> set (snd (ReportAllocationReady cl s r))"
  shows "sl_Phase w = SlicePhaseReady \<and> sl_AllocationID w = ar_AllocationID r \<and> sl_DeviceUUID w = ar_DeviceUUID r
    \<and> sl_AllocatedBytes w = ar_AllocatedBytes r \<and> sl_NodeName w = sl_NodeName s \<and> sl_UID w = sl_UID s"
proof (cases "TransitionSlicePhase s SlicePhaseReady [] []")
  case (Inr t)
  then have "w = t\<lparr>sl_AllocationID := ar_AllocationID r, sl_DeviceUUID := ar_DeviceUUID r, sl_AllocatedBytes := ar_AllocatedBytes r\<rparr>"
    using assms by (auto simp: ReportAllocationReady_def MarkSliceReady_def dest!: statusUpdate_writes split: if_splits)
  then show ?thesis using TransitionSlicePhase_phase [OF Inr] TransitionSlicePhase_keeps [OF Inr] by simp
qed (use assms in \<open>auto simp: ReportAllocationReady_def MarkSliceReady_def split: if_splits\<close>)

lemma ReportAllocationFailed_writes: "w \<in> set (snd (ReportAllocationFailed cl s t)) \<Longrightarrow> sl_Phase w = SlicePhaseFailed"
  by (auto simp: ReportAllocationFailed_def dest!: statusUpdate_writes TransitionSlicePhase_phase split: sum.splits)

lemma TransitionToAllocating_facts:
  assumes "TransitionToAllocating cl slice = (err, s, ws)"
  shows "sl_UID s = sl_UID slice \<and> sl_NodeName s = sl_NodeName slice \<and> sl_RequestedVRAMBytes s = sl_RequestedVRAMBytes slice
    \<and> (\<forall>w\<in>set ws. sl_Phase w = SlicePhaseAllocating)"
proof (cases "TransitionSlicePhase slice SlicePhaseAllocating [] ''NodeAgent beginning hardware allocation''")
  case (Inl e)
  then show ?thesis using assms by (auto simp: TransitionToAllocating_def)
next
  case (Inr t)
  have "ws = snd (statusUpdate cl AtAllocating t)" "s = t"
    using assms Inr by (auto simp: TransitionToAllocating_def split_beta)
  then show ?thesis
    using TransitionSlicePhase_keeps [OF Inr] TransitionSlicePhase_phase [OF Inr] statusUpdate_writes [of _ cl AtAllocating t] by auto
qed


text \<open>After the firewall, the checkpoint and the report of an allocation, wherever they stop.\<close>

lemma finish_facts:
  assumes "finish_allocation io s r m = (err, m', ws)"
  shows "mg_alloc m' = mg_alloc m"
    and "ws \<noteq> [] \<or> err = None \<Longrightarrow>
      device_of (mg_cdi m') (ar_AllocationID r) = Some (Spec (firewall_spec (ar_AllocationID r) (ar_DeviceUUID r)))
      \<and> record_of (mg_store m') = (record_of (mg_store m))(ar_AllocationID r \<mapsto> the_record io m s r)
      \<and> (\<forall>w\<in>set ws. w \<in> set (snd (ReportAllocationReady (mi_update io) s r)))"
proof -
  obtain e1 cdi where g: "GenerateFirewall (mi_cdi io) (ar_AllocationID r) (ar_DeviceUUID r) (mg_cdi m) = (e1, cdi)"
    by (cases "GenerateFirewall (mi_cdi io) (ar_AllocationID r) (ar_DeviceUUID r) (mg_cdi m)")
  obtain e2 dirs where s: "Save (mi_store io) (the_record io m s r) (mg_store m) = (e2, dirs)"
    by (cases "Save (mi_store io) (the_record io m s r) (mg_store m)")
  have i: "ck_AllocationID (the_record io m s r) = ar_AllocationID r" by (simp add: the_record_def)
  show "mg_alloc m' = mg_alloc m"
    using assms by (cases e1; cases e2) (auto simp: finish_allocation_def g s split_beta)
  assume "ws \<noteq> [] \<or> err = None"
  then have e: "e1 = None" "e2 = None" using assms by (cases e1; cases e2; auto simp: finish_allocation_def g s)+
  have "record_of (last dirs) = (record_of (mg_store m))(ar_AllocationID r \<mapsto> the_record io m s r)"
    using Save_law [of "mi_store io" "the_record io m s r" "mg_store m" True "last dirs"] by (simp add: ended_def s e i)
  moreover have "device_of cdi (ar_AllocationID r) = Some (Spec (firewall_spec (ar_AllocationID r) (ar_DeviceUUID r)))"
    using Generate_law [OF g] by (simp add: e)
  ultimately show "device_of (mg_cdi m') (ar_AllocationID r) = Some (Spec (firewall_spec (ar_AllocationID r) (ar_DeviceUUID r)))
      \<and> record_of (mg_store m') = (record_of (mg_store m))(ar_AllocationID r \<mapsto> the_record io m s r)
      \<and> (\<forall>w\<in>set ws. w \<in> set (snd (ReportAllocationReady (mi_update io) s r)))"
    using assms by (auto simp: finish_allocation_def g s e split_beta)
qed

definition request_of :: "vgpu_slice \<Rightarrow> alloc_request" where
  "request_of s = \<lparr>aq_SliceUID = sl_UID s, aq_ClaimName = sl_ClaimRef s, aq_RequestedVRAMBytes = sl_RequestedVRAMBytes s\<rparr>"

lemma request_of_sel [simp]:
  "aq_SliceUID (request_of s) = sl_UID s" "aq_RequestedVRAMBytes (request_of s) = sl_RequestedVRAMBytes s"
  by (simp_all add: request_of_def)

text \<open>An attempt either stops before the ledger changes or goes on with an allocation.\<close>

lemma allocate_sliceE:
  assumes "allocate_slice io slice m = (err, m', ws)"
  obtains (stopped) "m' = m" "\<forall>w\<in>set ws. sl_Phase w \<noteq> SlicePhaseReady"
  | (allocated) s r a ws0 ws1 where "sl_UID s = sl_UID slice" "sl_NodeName s = sl_NodeName slice"
      "sl_RequestedVRAMBytes s = sl_RequestedVRAMBytes slice"
      "Allocate (mi_devices io) (mi_now io) (request_of s) (mg_alloc m) = (Inr r, a)"
      "finish_allocation io s r (m\<lparr>mg_alloc := a\<rparr>) = (err, m', ws1)" "ws = ws0 @ ws1"
      "\<forall>w\<in>set ws0. sl_Phase w \<noteq> SlicePhaseReady"
proof -
  obtain e0 s ws0 where t: "TransitionToAllocating (mi_update io) slice = (e0, s, ws0)"
    by (cases "TransitionToAllocating (mi_update io) slice")
  have n: "\<forall>w\<in>set ws0. sl_Phase w \<noteq> SlicePhaseReady" using TransitionToAllocating_facts [OF t] by auto
  obtain res a where al: "Allocate (mi_devices io) (mi_now io) (request_of s) (mg_alloc m) = (res, a)"
    by (cases "Allocate (mi_devices io) (mi_now io) (request_of s) (mg_alloc m)")
  note d = assms [unfolded allocate_slice_def] t al [unfolded request_of_def]
  show thesis
  proof (cases e0)
    case (Some e)
    then show thesis using d n by (intro stopped) auto
  next
    case None
    show thesis
    proof (cases res)
      case (Inr r)
      obtain e m1 ws1 where f: "finish_allocation io s r (m\<lparr>mg_alloc := a\<rparr>) = (e, m1, ws1)"
        by (cases "finish_allocation io s r (m\<lparr>mg_alloc := a\<rparr>)")
      show thesis
        using allocated [of s r a ws1 ws0] d f None Inr al n TransitionToAllocating_facts [OF t] by simp
    next
      case (Inl e)
      have "m' = m \<and> (\<exists>req free. set ws \<subseteq> set ws0 \<union> set (snd (ReportAllocationFailed (mi_update io) s (fragmentation_text req free))))"
        using d None Inl by (cases e) (auto simp: split_beta, blast)
      then show thesis using n by (intro stopped) (auto dest!: ReportAllocationFailed_writes)
    qed
  qed
qed

lemma ReportReleaseComplete_writes:
  assumes "w \<in> set (snd (ReportReleaseComplete cl s))"
  shows "sl_Phase w = SlicePhaseReleased \<and> sl_AllocationID w = [] \<and> sl_DeviceUUID w = [] \<and> sl_AllocatedBytes w = 0"
  using assms
  by (auto simp: ReportReleaseComplete_def dest!: statusUpdate_writes split: if_splits sum.splits)
    (auto dest!: TransitionSlicePhase_phase)

lemma delete_record_facts:
  assumes "delete_record io k m = (err, m')"
  shows "mg_alloc m' = mg_alloc m \<and> mg_cdi m' = mg_cdi m \<and>
    record_of (mg_store m') = (if err = None then (record_of (mg_store m))(k := None) else record_of (mg_store m))"
proof -
  obtain e dirs where d: "DeleteRecord (mi_store io) k (mg_store m) = (e, dirs)"
    by (cases "DeleteRecord (mi_store io) k (mg_store m)")
  then have "m' = m\<lparr>mg_store := last dirs\<rparr>" "err = map_option CheckpointFailed e"
    using assms by (auto simp: delete_record_def)
  then show ?thesis
    using Delete_law [of "mi_store io" k "mg_store m" "e = None" "last dirs"] by (simp add: ended_def d)
qed

lemma teardown_facts:
  assumes "teardown io k m = (err, m')"
  shows "mg_alloc m' = mg_alloc m \<and> mg_store m' = mg_store m \<and>
    device_of (mg_cdi m') = (if err = None then (device_of (mg_cdi m))(k := None) else device_of (mg_cdi m))"
proof -
  obtain e cdi where d: "TeardownFirewall (mi_cdi io) k (mg_cdi m) = (e, cdi)"
    by (cases "TeardownFirewall (mi_cdi io) k (mg_cdi m)")
  then have "m' = m\<lparr>mg_cdi := cdi\<rparr>" "err = map_option FirewallFailed e" using assms by (auto simp: teardown_def)
  then show ?thesis using Teardown_law [OF d] by simp
qed

text \<open>The allocation that a release is about: the one of the status, or the one the ledger has.\<close>

definition released_id :: "vgpu_slice \<Rightarrow> allocator \<Rightarrow> string option" where
  "released_id slice a =
    (if sl_AllocationID slice \<noteq> [] then Some (sl_AllocationID slice) else map_of (al_bySlice a) (sl_UID slice))"

lemma free_hardware_done:
  assumes "free_hardware io slice m = (None, m')" and "ledger_ok ds (mg_alloc m)"
  shows "(case released_id slice (mg_alloc m) of
      None \<Rightarrow> m' = m
    | Some k \<Rightarrow> mg_alloc m' = releaseLocked k (mg_alloc m) \<and> record_of (mg_store m') = (record_of (mg_store m))(k := None)
        \<and> device_of (mg_cdi m') = (device_of (mg_cdi m))(k := None))"
proof (cases "sl_AllocationID slice \<noteq> []")
  case True
  obtain e m1 where t: "teardown io (sl_AllocationID slice) m = (e, m1)" by (cases "teardown io (sl_AllocationID slice) m")
  have i: "al_initialized (mg_alloc m1)" "e = None"
    using assms(1) True t by (cases e; auto simp: free_hardware_def Release_def split: if_splits)+
  then have d: "delete_record io (sl_AllocationID slice) (m1\<lparr>mg_alloc := releaseLocked (sl_AllocationID slice) (mg_alloc m1)\<rparr>) = (None, m')"
    using assms(1) True t by (simp add: free_hardware_def Release_def)
  show ?thesis
    using teardown_facts [OF t] delete_record_facts [OF d] True by (simp add: released_id_def i)
next
  case False
  show ?thesis
  proof (cases "map_of (al_bySlice (mg_alloc m)) (sl_UID slice)")
    case None
    then show ?thesis
      using assms(1) False by (auto simp: free_hardware_def ReleaseBySlice_def released_id_def split: if_splits)
  next
    case (Some k)
    let ?m = "m\<lparr>mg_alloc := releaseLocked k (mg_alloc m)\<rparr>"
    obtain e m1 where t: "teardown io k ?m = (e, m1)" by (cases "teardown io k ?m")
    have k: "k \<noteq> []" "sl_UID slice \<noteq> []"
      using ledger_index [OF assms(2) Some] ledger_entry [OF assms(2)] by blast+
    have "e = None" "delete_record io k m1 = (None, m')"
      using assms(1) False Some k t by (cases e; auto simp: free_hardware_def ReleaseBySlice_def split: if_splits)+
    then show ?thesis using teardown_facts [OF t] delete_record_facts [of io k m1 None m'] False Some by (simp add: released_id_def)
  qed
qed


lemma free_hardware_alloc:
  assumes "free_hardware io slice m = (err, m')"
  shows "mg_alloc m' \<in> {mg_alloc m, snd (Release (sl_AllocationID slice) (mg_alloc m)), snd (ReleaseBySlice (sl_UID slice) (mg_alloc m))}"
  using assms
  by (auto simp: free_hardware_def dest!: teardown_facts delete_record_facts split: if_splits prod.splits option.splits bool.splits)

lemma ReconcileSlice_reachable:
  assumes "ReconcileSlice io slice m = (err, m', ws)" and "mi_devices io = Some ds"
    and "allocator_reachable ds (mg_alloc m)" and "\<not> ghas (al_byAlloc (mg_alloc m)) (alloc_id (sl_UID slice) (mi_now io))"
  shows "allocator_reachable ds (mg_alloc m')"
proof -
  have "allocator_reachable ds (mg_alloc m')" if "allocate_slice io slice m = (err, m', ws)"
    using that
  proof (cases rule: allocate_sliceE)
    case stopped
    then show ?thesis using assms(3) by simp
  next
    case (allocated s r a ws0 ws1)
    have "allocator_reachable ds (snd (Allocate (Some ds) (mi_now io) (request_of s) (mg_alloc m)))"
      using assms(3,4) allocated(1) by (intro allocator_reachable.allocate) simp_all
    then show ?thesis using allocated(4) finish_facts(1) [OF allocated(5)] assms(2) by simp
  qed
  moreover have "allocator_reachable ds (mg_alloc m1)" if "free_hardware io slice m = (e, m1)" for e m1
    using free_hardware_alloc [OF that] assms(3) allocator_reachable.release allocator_reachable.release_slice by auto
  ultimately show ?thesis
    using assms(1,3) by (auto simp: ReconcileSlice_def release_slice_def split: if_splits prod.splits option.splits)
qed

lemma reachable_initialized: "allocator_reachable ds a \<Longrightarrow> al_initialized a"
  by (induction rule: allocator_reachable.induct)
    (auto simp: NewAllocator_def Allocate_def Release_def ReleaseBySlice_def RestoreAllocation_def commit_entry_def
      releaseLocked_def Let_def split: option.splits sum.splits)

lemma Restore_keeps: "ghas (al_byAlloc a) k \<Longrightarrow> ghas (al_byAlloc (RestoreAllocation j s u b a)) k"
  by (simp add: RestoreAllocation_def commit_entry_def)

definition restore_record :: "string \<times> checkpoint_record \<Rightarrow> allocator \<Rightarrow> allocator" where
  "restore_record = (\<lambda>(k, r). RestoreAllocation k (ck_SliceUID r) (ck_DeviceUUID r) (ck_AllocatedBytes r))"

lemma restore_record_keeps: "ghas (al_byAlloc a) k \<Longrightarrow> ghas (al_byAlloc (fold restore_record rs a)) k"
  by (induction rs arbitrary: a) (auto simp: restore_record_def Restore_keeps)

lemma restored_has:
  assumes "(k, r) \<in> set rs" and "k \<noteq> []" and "ck_DeviceUUID r \<noteq> []" and "0 < ck_AllocatedBytes r"
  shows "ghas (al_byAlloc (fold restore_record rs a)) k"
  using assms(1)
proof (induction rs arbitrary: a)
  case (Cons x rs)
  have "ghas (al_byAlloc (restore_record (k, r) a)) k"
    using assms(2-4) by (auto simp: restore_record_def RestoreAllocation_def commit_entry_def)
  then show ?case using Cons by (auto intro: restore_record_keeps)
qed simp

lemma NewManager_alloc:
  "LoadAll True store = Inr rs \<Longrightarrow> mg_alloc (NewManager nn mock True store cdi) = fold restore_record rs (NewAllocator mock)"
  by (simp add: NewManager_def restore_record_def)

lemma record_of_LoadAll: "record_of dir k = Some r \<Longrightarrow> \<exists>rs. LoadAll True dir = Inr rs \<and> (k, r) \<in> set rs"
  by (auto simp: record_of_def LoadAll_def dest: map_of_SomeD split: option.splits checkpoint_content.splits)

section \<open>Properties\<close>

lemma ready_from_allocation:
  assumes "ReconcileSlice io slice m = (err, m', ws)" and "w \<in> set ws" and "sl_Phase w = SlicePhaseReady"
    and "mi_devices io = Some ds" and "ledger_ok ds (mg_alloc m)" and "devices_ok ds"
  obtains r s where "sl_NodeName w = sl_NodeName slice" "sl_UID s = sl_UID slice"
    "sl_AllocationID w = ar_AllocationID r" "sl_DeviceUUID w = ar_DeviceUUID r" "sl_AllocatedBytes w = ar_AllocatedBytes r"
    "map_of (al_byAlloc (mg_alloc m')) (ar_AllocationID r) = Some (result_entry (sl_UID slice) r)"
    "device_of (mg_cdi m') (ar_AllocationID r) = Some (Spec (firewall_spec (ar_AllocationID r) (ar_DeviceUUID r)))"
    "record_of (mg_store m') (ar_AllocationID r) = Some (the_record io m' s r)"
proof -
  have "allocate_slice io slice m = (err, m', ws)"
    using assms(1-3) ReportReleaseComplete_writes [of w "mi_update io" slice]
    by (auto simp: ReconcileSlice_def release_slice_def split: if_splits prod.splits option.splits)
  then show thesis
  proof (cases rule: allocate_sliceE)
    case stopped
    then show thesis using assms(2,3) by auto
  next
    case (allocated s r a ws0 ws1)
    then have w: "w \<in> set ws1" using assms(2,3) by auto
    note f = finish_facts [OF allocated(5)]
    have "ws1 \<noteq> []" using w by auto
    note f2 = f(2) [OF disjI1 [OF this]]
    then have rw: "w \<in> set (snd (ReportAllocationReady (mi_update io) s r))" using w by blast
    note e = Allocate_entry [OF allocated(4) [unfolded assms(4)] assms(5,6)]
    have "the_record io (m\<lparr>mg_alloc := a\<rparr>) s r = the_record io m' s r"
      using allocated(5) by (auto simp: the_record_def finish_allocation_def split: prod.splits option.splits)
    then show thesis
      using that [of s r] ReportAllocationReady_writes [OF rw] f(1) f2 e allocated(1,2) by simp
  qed
qed

text \<open>
  C12. \<open>Ready\<close> means backed: when the agent writes a slice as \<open>Ready\<close>, the ledger has charged a card with
  exactly the bytes of its status under its allocation, the CDI directory resolves the device that the
  pod webhook asks for to that card, the checkpoint holds the allocation, and the slice's own invariant
  holds.
\<close>

theorem ready_slice_is_backed:
  assumes "ReconcileSlice io slice m = (err, m', ws)" and "w \<in> set ws" and "sl_Phase w = SlicePhaseReady"
    and "mi_devices io = Some ds" and "allocator_reachable ds (mg_alloc m)" and "devices_ok ds"
    and "\<not> ghas (al_byAlloc (mg_alloc m)) (alloc_id (sl_UID slice) (mi_now io))" and "sl_NodeName slice \<noteq> []"
  shows "map_of (al_byAlloc (mg_alloc m')) (sl_AllocationID w) =
      Some \<lparr>le_sliceUID = sl_UID slice, le_deviceUUID = sl_DeviceUUID w, le_bytes = sl_AllocatedBytes w\<rparr>
    \<and> cdi_device w = cdiKind @ ''='' @ sl_AllocationID w
    \<and> device_of (mg_cdi m') (sl_AllocationID w) = Some (Spec (firewall_spec (sl_AllocationID w) (sl_DeviceUUID w)))
    \<and> (\<exists>r. record_of (mg_store m') (sl_AllocationID w) = Some r \<and> entry_of r =
        \<lparr>le_sliceUID = sl_UID slice, le_deviceUUID = sl_DeviceUUID w, le_bytes = sl_AllocatedBytes w\<rparr>)
    \<and> ValidateSliceInvariant w = None"
proof -
  have ok: "ledger_ok ds (mg_alloc m)" by (rule allocator_reachable_ok [OF assms(5,6)])
  obtain r s where f: "sl_NodeName w = sl_NodeName slice" "sl_UID s = sl_UID slice"
    "sl_AllocationID w = ar_AllocationID r" "sl_DeviceUUID w = ar_DeviceUUID r" "sl_AllocatedBytes w = ar_AllocatedBytes r"
    "map_of (al_byAlloc (mg_alloc m')) (ar_AllocationID r) = Some (result_entry (sl_UID slice) r)"
    "device_of (mg_cdi m') (ar_AllocationID r) = Some (Spec (firewall_spec (ar_AllocationID r) (ar_DeviceUUID r)))"
    "record_of (mg_store m') (ar_AllocationID r) = Some (the_record io m' s r)"
    using ready_from_allocation [OF assms(1-4) ok assms(6)] .
  have "ledger_ok ds (mg_alloc m')"
    by (rule allocator_reachable_ok [OF ReconcileSlice_reachable [OF assms(1,4,5,7)] assms(6)])
  from ledger_entry [OF this f(6)] have "0 < sl_AllocatedBytes w" "sl_DeviceUUID w \<noteq> []" "sl_AllocationID w \<noteq> []"
    by (simp_all add: result_entry_def f(3-5))
  then have "ValidateSliceInvariant w = None"
    using assms(3,8) f(1) by (simp add: ValidateSliceInvariant_def)
  moreover have "cdi_device w = cdiKind @ ''='' @ sl_AllocationID w"
    by (simp add: cdi_device_def cdiKind_def vendorName_def className_def)
  ultimately show ?thesis
    using f by (auto simp: result_entry_def entry_of_def the_record_def)
qed


definition gpu_A :: alloc_device where
  "gpu_A = \<lparr>ad_uuid = ''GPU-A'', ad_total = 100, ad_reserved = 0\<rparr>"

definition io_ok :: manager_io where
  "io_ok = \<lparr>mi_devices = Some [gpu_A], mi_now = 5, mi_created = 5,
     mi_store = \<lparr>io_mkdir = True, io_read = True, io_step = (\<lambda>s. True), io_suffix = ''1''\<rparr>,
     mi_cdi = cdi_fine, mi_update = Some (\<lambda>site. Accepted)\<rparr>"

definition new_manager :: manager where
  "new_manager = NewManager ''n1'' True True [] []"

definition placed_slice :: vgpu_slice where
  "placed_slice = \<lparr>sl_Name = ''c-slice'', sl_Namespace = ''ns'', sl_UID = ''abc'', sl_Annotations = [], sl_CreationTimestamp = 0,
     sl_DeletionTimestamp = None, sl_ClaimRef = ''c'', sl_NodeName = ''n1'', sl_RequestedVRAMBytes = 30,
     sl_Phase = SlicePhaseScheduled, sl_DeviceUUID = [], sl_AllocationID = [], sl_AllocatedBytes = 0, sl_FailureReason = [],
     sl_LastError = [], sl_Conditions = [], sl_Finalizers = []\<rparr>"

lemma gpu_A_ok: "devices_ok [gpu_A]"
  by (simp add: devices_ok_def gpu_A_def)

lemma new_manager_alloc: "mg_alloc new_manager = NewAllocator True"
  by (simp add: new_manager_def NewManager_def LoadAll_def)

lemma io_ok_devices: "mi_devices io_ok = Some [gpu_A]"
  by (simp add: io_ok_def)

definition first_run :: "manager_error option \<times> manager \<times> vgpu_slice list" where
  "first_run = ReconcileSlice io_ok placed_slice new_manager"

definition first_written :: vgpu_slice where
  "first_written = last (snd (snd first_run))"

lemma first_ready:
  "fst first_run = None" "snd (snd first_run) \<noteq> []" "sl_Phase first_written = SlicePhaseReady"
  "sl_AllocationID first_written = ''alloc-abc-5''"
  by code_simp+

abbreviation after_first :: manager where
  "after_first \<equiv> fst (snd first_run)"

lemma first_run_eq: "ReconcileSlice io_ok placed_slice new_manager = (fst first_run, after_first, snd (snd first_run))"
  by (simp add: first_run_def)

lemma first_fresh: "\<not> ghas (al_byAlloc (mg_alloc new_manager)) (alloc_id (sl_UID placed_slice) (mi_now io_ok))"
  by (simp add: new_manager_alloc)

lemma first_reachable: "allocator_reachable [gpu_A] (mg_alloc new_manager)" "allocator_reachable [gpu_A] (mg_alloc after_first)"
proof -
  show "allocator_reachable [gpu_A] (mg_alloc new_manager)" by (simp add: new_manager_alloc allocator_reachable.start)
  from ReconcileSlice_reachable [OF first_run_eq io_ok_devices this first_fresh]
  show "allocator_reachable [gpu_A] (mg_alloc after_first)" .
qed

theorem ready_slice_is_backed_witness:
  "device_of (mg_cdi after_first) ''alloc-abc-5'' = Some (Spec (firewall_spec ''alloc-abc-5'' (sl_DeviceUUID first_written))) \<and>
    ValidateSliceInvariant first_written = None"
proof -
  have w: "first_written \<in> set (snd (snd first_run))" unfolding first_written_def by (rule last_in_set [OF first_ready(2)])
  have "sl_NodeName placed_slice \<noteq> []" by (simp add: placed_slice_def)
  from ready_slice_is_backed [OF first_run_eq w first_ready(3) io_ok_devices first_reachable(1) gpu_A_ok first_fresh this]
  show ?thesis by (simp add: first_ready(4))
qed


definition deleted_slice :: vgpu_slice where
  "deleted_slice = first_written\<lparr>sl_DeletionTimestamp := Some 9\<rparr>"


text \<open>
  A wedge is not recovered twice: when the release of an allocation that the status never recorded
  fails after the ledger let it go, at the CDI file or at the checkpoint, the retry finds nothing in the
  ledger, removes nothing, and reports the slice \<open>Released\<close> with the checkpoint record still there, from
  which the next start of the agent charges the card again.
\<close>

theorem wedge_teardown_not_retried:
  assumes "free_hardware io slice m = (Some err, m1)" and "sl_AllocationID slice = []"
    and "allocator_reachable ds (mg_alloc m)" and "devices_ok ds"
    and "map_of (al_bySlice (mg_alloc m)) (sl_UID slice) = Some k" and "record_of (mg_store m) k = Some r"
    and "ck_DeviceUUID r \<noteq> []" and "0 < ck_AllocatedBytes r"
  shows "map_of (al_byAlloc (mg_alloc m1)) k = None \<and> free_hardware io' slice m1 = (None, m1) \<and>
    record_of (mg_store m1) k = Some r \<and> ghas (al_byAlloc (mg_alloc (NewManager nn mock True (mg_store m1) (mg_cdi m1)))) k"
proof -
  have ok: "ledger_ok ds (mg_alloc m)" by (rule allocator_reachable_ok [OF assms(3,4)])
  obtain e where e: "map_of (al_byAlloc (mg_alloc m)) k = Some e" "le_sliceUID e = sl_UID slice" "sl_UID slice \<noteq> []" "k \<noteq> []"
    using ledger_index [OF ok assms(5)] ledger_entry [OF ok] by blast
  have init: "al_initialized (mg_alloc m)" by (rule reachable_initialized [OF assms(3)])
  let ?m = "m\<lparr>mg_alloc := releaseLocked k (mg_alloc m)\<rparr>"
  have gone: "map_of (al_bySlice (releaseLocked k (mg_alloc m))) (sl_UID slice) = None"
    using e by (simp add: releaseLocked_def Let_def)
  obtain e1 m2 where t: "teardown io k ?m = (e1, m2)" by (cases "teardown io k ?m")
  have m1: "mg_alloc m1 = releaseLocked k (mg_alloc m) \<and> record_of (mg_store m1) k = Some r"
  proof (cases e1)
    case (Some x)
    then have "m1 = m2" using assms(1,2,5) e t init by (simp add: free_hardware_def ReleaseBySlice_def)
    then show ?thesis using teardown_facts [OF t] assms(6) by simp
  next
    case None
    then have "delete_record io k m2 = (Some err, m1)"
      using assms(1,2,5) e t init by (simp add: free_hardware_def ReleaseBySlice_def)
    from delete_record_facts [OF this] show ?thesis using teardown_facts [OF t] assms(6) by simp
  qed
  moreover from m1 obtain rs where "LoadAll True (mg_store m1) = Inr rs" "(k, r) \<in> set rs"
    using record_of_LoadAll by blast
  then have "ghas (al_byAlloc (mg_alloc (NewManager nn mock True (mg_store m1) (mg_cdi m1)))) k"
    using restored_has [of k r rs] e(4) assms(7,8) by (simp add: NewManager_alloc)
  moreover have "al_initialized (mg_alloc m1)" using m1 init e by (simp add: releaseLocked_def Let_def)
  ultimately show ?thesis
    using gone e assms(2) by (simp add: free_hardware_def ReleaseBySlice_def releaseLocked_byAlloc)
qed


definition wedged_slice :: vgpu_slice where
  "wedged_slice = placed_slice\<lparr>sl_Phase := SlicePhaseReleasing\<rparr>"

definition io_stuck :: manager_io where
  "io_stuck = io_ok\<lparr>mi_cdi := cdi_fine\<lparr>ci_remove := False\<rparr>\<rparr>"

theorem wedge_teardown_not_retried_witness:
  "\<exists>m1. fst (free_hardware io_stuck wedged_slice after_first) \<noteq> None \<and> free_hardware io_ok wedged_slice m1 = (None, m1) \<and>
    ghas (al_byAlloc (mg_alloc (NewManager ''n1'' True True (mg_store m1) (mg_cdi m1)))) ''alloc-abc-5''"
proof -
  have e: "fst (free_hardware io_stuck wedged_slice after_first) \<noteq> None" by code_simp
  then obtain err m1 where f: "free_hardware io_stuck wedged_slice after_first = (Some err, m1)"
    by (cases "free_hardware io_stuck wedged_slice after_first") auto
  have s: "map_of (al_bySlice (mg_alloc after_first)) (sl_UID wedged_slice) = Some ''alloc-abc-5''" by code_simp
  obtain r where r: "record_of (mg_store after_first) ''alloc-abc-5'' = Some r" "ck_DeviceUUID r = ''GPU-A''" "ck_AllocatedBytes r = 30"
  proof -
    have "map_option (\<lambda>r. (ck_DeviceUUID r, ck_AllocatedBytes r)) (record_of (mg_store after_first) ''alloc-abc-5'') = Some (''GPU-A'', 30)"
      by code_simp
    then show thesis using that by auto
  qed
  have w: "sl_AllocationID wedged_slice = []" by (simp add: wedged_slice_def placed_slice_def)
  from wedge_teardown_not_retried [OF f w first_reachable(2) gpu_A_ok s r(1), of io_ok "''n1''" True] show ?thesis
    using e r by auto
qed

fun redrive :: "(manager_io \<times> vgpu_slice) list \<Rightarrow> manager \<Rightarrow> manager" where
  "redrive [] m = m"
| "redrive ((io, slice) # as) m = redrive as (fst (snd (ReconcileSlice io slice m)))"

definition same_attempt :: "alloc_device list \<Rightarrow> string \<Rightarrow> int \<Rightarrow> manager_io \<times> vgpu_slice \<Rightarrow> bool" where
  "same_attempt ds uid q a \<longleftrightarrow> mi_devices (fst a) = Some ds \<and> sl_UID (snd a) = uid \<and> sl_RequestedVRAMBytes (snd a) = q
    \<and> sl_DeletionTimestamp (snd a) = None \<and> sl_Phase (snd a) \<in> {SlicePhaseScheduled, SlicePhaseAllocating}"

lemma attempt_step:
  assumes "same_attempt ds uid q (io, slice)" and "ReconcileSlice io slice m = (err, m', ws)"
    and "ledger_ok ds (mg_alloc m)" and "devices_ok ds"
  shows "mg_alloc m' = mg_alloc m \<or> (map_of (al_bySlice (mg_alloc m)) uid = None \<and> uid \<noteq> [] \<and>
    (\<exists>u. mg_alloc m' = commit_entry (alloc_id uid (mi_now io)) uid u q (mg_alloc m) \<and> 0 < q \<and>
      gget 0 (al_committed (mg_alloc m)) u + q \<le> card_limit ds u))"
proof -
  have a: "allocate_slice io slice m = (err, m', ws)" using assms(1,2) by (auto simp: ReconcileSlice_def same_attempt_def)
  then show ?thesis
  proof (cases rule: allocate_sliceE)
    case (allocated s r a ws0 ws1)
    have al: "Allocate (Some ds) (mi_now io) (request_of s) (mg_alloc m) = (Inr r, a)" "mg_alloc m' = a"
      "sl_UID s = uid" "sl_RequestedVRAMBytes s = q"
      using allocated(1,3,4) finish_facts(1) [OF allocated(5)] assms(1) by (simp_all add: same_attempt_def)
    show ?thesis
    proof (cases "map_of (al_bySlice (mg_alloc m)) uid")
      case (Some k)
      then show ?thesis using al by (auto simp: Allocate_def Let_def split: if_splits)
    next
      case None
      then have "map_of (al_bySlice (mg_alloc m)) (aq_SliceUID (request_of s)) = None" by (simp add: al)
      then show ?thesis using Allocate_new [OF al(1) _ assms(3,4)] al(2-4) None by (metis request_of_sel)
    qed
  qed simp
qed

lemma redrive_charged:
  assumes "map_of (al_bySlice (mg_alloc m)) uid \<noteq> None" and "list_all (same_attempt ds uid q) as"
    and "ledger_ok ds (mg_alloc m)" and "devices_ok ds"
  shows "mg_alloc (redrive as m) = mg_alloc m"
  using assms
proof (induction as arbitrary: m)
  case (Cons x as)
  obtain io slice where x: "x = (io, slice)" by (cases x)
  obtain err m' ws where r: "ReconcileSlice io slice m = (err, m', ws)" by (cases "ReconcileSlice io slice m")
  have "mg_alloc m' = mg_alloc m" using attempt_step [OF _ r Cons.prems(3,4), of uid q] Cons.prems(1,2) by (simp add: x)
  then show ?case using Cons by (simp add: x r)
qed simp

text \<open>
  C28. Retrying an allocation is safe: however many attempts are made on the same slice, and wherever each of
  them fails, its card is charged once, with the bytes it asked for.
\<close>

theorem retries_allocate_once:
  assumes "list_all (same_attempt ds uid q) as" and "allocator_reachable ds (mg_alloc m)" and "devices_ok ds"
    and "\<forall>a\<in>set as. \<not> ghas (al_byAlloc (mg_alloc m)) (alloc_id uid (mi_now (fst a)))"
  shows "\<exists>d. (d \<noteq> None \<longrightarrow> map_of (al_bySlice (mg_alloc m)) uid = None) \<and>
    (\<forall>u. CommittedBytes u (mg_alloc (redrive as m)) = CommittedBytes u (mg_alloc m) + (if d = Some u then q else 0))"
proof -
  show ?thesis
    using assms(2,1,4)
  proof (induction as arbitrary: m)
    case Nil
    then show ?case by auto
  next
    case (Cons x as)
    have ok: "ledger_ok ds (mg_alloc m)" by (rule allocator_reachable_ok [OF Cons.prems(1) assms(3)])
    obtain io slice where x: "x = (io, slice)" by (cases x)
    obtain err m' ws where r: "ReconcileSlice io slice m = (err, m', ws)" by (cases "ReconcileSlice io slice m")
    have s: "same_attempt ds uid q (io, slice)" using Cons.prems(2) by (simp add: x)
    consider "mg_alloc m' = mg_alloc m" | u where "map_of (al_bySlice (mg_alloc m)) uid = None" "uid \<noteq> []" "0 < q"
        "mg_alloc m' = commit_entry (alloc_id uid (mi_now io)) uid u q (mg_alloc m)"
        "gget 0 (al_committed (mg_alloc m)) u + q \<le> card_limit ds u"
      using attempt_step [OF s r ok assms(3)] by blast
    then show ?case
    proof cases
      case 1
      then show ?thesis using Cons.IH [of m'] Cons.prems by (simp add: x r)
    next
      case 2
      have ok': "ledger_ok ds (mg_alloc m')"
        using allocator_reachable_ok [OF ReconcileSlice_reachable [OF r _ Cons.prems(1)] assms(3)] s Cons.prems(3)
        by (simp add: x same_attempt_def)
      have same: "mg_alloc (redrive as m') = mg_alloc m'"
        using redrive_charged [OF _ _ ok' assms(3), of uid q as] Cons.prems(2) 2(2) by (simp add: 2(4) commit_entry_def)
      have "CommittedBytes v (mg_alloc m') = CommittedBytes v (mg_alloc m) + (if v = u then q else 0)" for v
        using ledger_committed(1) [OF ok, of u] card_limit_bounds [OF assms(3), of u] 2(3,5)
        by (simp add: 2(4) commit_entry_def CommittedBytes_def i64_id)
      then show ?thesis using 2(1) same by (intro exI [of _ "Some u"]) (auto simp: x r)
    qed
  qed
qed


theorem retries_allocate_once_witness:
  "CommittedBytes ''GPU-A'' (mg_alloc (redrive [(io_stuck, placed_slice), (io_ok, placed_slice)] new_manager)) \<le> 30"
proof -
  have "list_all (same_attempt [gpu_A] ''abc'' 30) [(io_stuck, placed_slice), (io_ok, placed_slice)]"
    by (simp add: same_attempt_def io_stuck_def io_ok_def placed_slice_def)
  moreover have "\<forall>a\<in>set [(io_stuck, placed_slice), (io_ok, placed_slice)].
      \<not> ghas (al_byAlloc (mg_alloc new_manager)) (alloc_id ''abc'' (mi_now (fst a)))"
    by (simp add: new_manager_alloc)
  ultimately obtain d where "CommittedBytes ''GPU-A'' (mg_alloc (redrive [(io_stuck, placed_slice), (io_ok, placed_slice)] new_manager))
      = CommittedBytes ''GPU-A'' (mg_alloc new_manager) + (if d = Some ''GPU-A'' then 30 else 0)"
    using retries_allocate_once [OF _ first_reachable(1) gpu_A_ok] by blast
  then show ?thesis by (simp add: new_manager_alloc)
qed

section \<open>The restart\<close>

definition store_ok :: "checkpoint_dir \<Rightarrow> bool" where
  "store_ok dir \<longleftrightarrow> (\<exists>rs. LoadAll True dir = Inr rs \<and> gmap_ok rs)"

lemma store_ok_written:
  assumes "writeAtomic io rs dir = (err, dirs)" and "store_ok dir" and "gmap_ok rs"
  shows "store_ok (last dirs)"
  using writeAtomic_ended [of io rs dir "err = None" "last dirs"] assms
  by (cases err) (auto simp: ended_def store_ok_def LoadAll_def split: option.splits)

lemma store_ok_Load: "store_ok dir \<Longrightarrow> LoadAll readable dir = Inr rs \<Longrightarrow> gmap_ok rs"
  by (auto simp: store_ok_def LoadAll_def split: if_splits option.splits checkpoint_content.splits)

lemma Save_store_ok:
  assumes "store_ok dir" and "Save io r dir = (err, dirs)"
  shows "store_ok (last dirs)"
proof (cases "LoadAll (io_read io) dir")
  case (Inr rs)
  then show ?thesis
    using store_ok_written [of io "gput (ck_AllocationID r) r rs" dir err dirs] store_ok_Load [OF assms(1) Inr] assms
    by (auto simp: Save_def split: if_splits)
qed (use assms in \<open>auto simp: Save_def split: if_splits\<close>)

lemma Delete_store_ok:
  assumes "store_ok dir" and "DeleteRecord io k dir = (err, dirs)"
  shows "store_ok (last dirs)"
proof (cases "LoadAll (io_read io) dir")
  case (Inr rs)
  then show ?thesis
    using store_ok_written [of io "gdel k rs" dir err dirs] store_ok_Load [OF assms(1) Inr] assms
    by (auto simp: DeleteRecord_def split: if_splits)
qed (use assms in \<open>auto simp: DeleteRecord_def\<close>)

text \<open>Runs of the agent in which no reconcile returns an error.\<close>

inductive manager_run :: "alloc_device list \<Rightarrow> manager \<Rightarrow> bool" for ds where
  start: "manager_run ds (NewManager nn mock True [] cdi)"
| step: "manager_run ds m \<Longrightarrow> ReconcileSlice io slice m = (None, m', ws) \<Longrightarrow> mi_devices io = Some ds \<Longrightarrow>
    \<not> ghas (al_byAlloc (mg_alloc m)) (alloc_id (sl_UID slice) (mi_now io)) \<Longrightarrow> manager_run ds m'"

definition in_sync :: "manager \<Rightarrow> bool" where
  "in_sync m \<longleftrightarrow> store_ok (mg_store m) \<and> map_option entry_of \<circ> record_of (mg_store m) = map_of (al_byAlloc (mg_alloc m))"

lemma free_hardware_store_ok:
  "free_hardware io slice m = (err, m') \<Longrightarrow> store_ok (mg_store m) \<Longrightarrow> store_ok (mg_store m')"
  by (auto simp: free_hardware_def delete_record_def teardown_def split: if_splits prod.splits option.splits bool.splits
      dest: Delete_store_ok)

lemma finish_store_ok:
  "finish_allocation io s r m = (err, m', ws) \<Longrightarrow> store_ok (mg_store m) \<Longrightarrow> store_ok (mg_store m')"
  by (auto simp: finish_allocation_def split: prod.splits option.splits dest: Save_store_ok)

lemma reconcile_in_sync:
  assumes "in_sync m" and "ReconcileSlice io slice m = (None, m', ws)" and "mi_devices io = Some ds"
    and "ledger_ok ds (mg_alloc m)" and "devices_ok ds"
  shows "in_sync m'"
proof -
  have "in_sync m'" if "allocate_slice io slice m = (None, m', ws)"
    using that
  proof (cases rule: allocate_sliceE)
    case stopped
    then show ?thesis using assms(1) by simp
  next
    case (allocated s r a ws0 ws1)
    have "store_ok (mg_store m')" using finish_store_ok [OF allocated(5)] assms(1) by (simp add: in_sync_def)
    moreover have "entry_of (the_record io (m\<lparr>mg_alloc := a\<rparr>) s r) = result_entry (sl_UID slice) r"
      by (simp add: entry_of_def the_record_def result_entry_def allocated(1))
    ultimately show ?thesis
      using assms(1) finish_facts [OF allocated(5)] Allocate_entry [OF allocated(4) [unfolded assms(3)] assms(4,5)] allocated(1)
      by (auto simp: in_sync_def fun_eq_iff)
  qed
  moreover have "in_sync m'" if "release_slice io slice m = (None, m', ws)"
  proof -
    obtain e m1 where f: "free_hardware io slice m = (e, m1)" by (cases "free_hardware io slice m")
    have m1: "e = None" "m1 = m'" using that by (cases e; auto simp: release_slice_def f split: prod.splits)+
    show ?thesis
      using free_hardware_done [OF f [unfolded m1] assms(4)] free_hardware_store_ok [OF f] assms(1)
      by (auto simp: in_sync_def m1 releaseLocked_byAlloc fun_eq_iff split: option.splits)
  qed
  ultimately show ?thesis using assms(1,2) by (auto simp: ReconcileSlice_def split: if_splits)
qed

lemma manager_run_ok:
  assumes "manager_run ds m" and "devices_ok ds"
  shows "allocator_reachable ds (mg_alloc m) \<and> in_sync m"
  using assms(1)
proof induction
  case (start nn mock cdi)
  have "mg_alloc (NewManager nn mock True [] cdi) = NewAllocator mock" by (simp add: NewManager_def LoadAll_def)
  moreover have "in_sync (NewManager nn mock True [] cdi)"
    by (auto simp: in_sync_def store_ok_def NewManager_def LoadAll_def record_of_def NewAllocator_def)
  ultimately show ?case by (simp add: allocator_reachable.start)
next
  case (step m io slice m' ws)
  then show ?case
    using ReconcileSlice_reachable [OF step.hyps(2,3) _ step.hyps(4)]
      reconcile_in_sync [OF _ step.hyps(2,3) allocator_reachable_ok [OF _ assms(2)] assms(2)] by blast
qed

lemma restore_records_all:
  "fold restore_record rs a = restore_all (map (\<lambda>(k, r). (k, entry_of r)) rs) a"
  by (induction rs arbitrary: a) (auto simp: restore_all_def restore_record_def entry_of_def)


lemma first_manager_run: "manager_run [gpu_A] after_first"
proof -
  have "manager_run [gpu_A] new_manager" unfolding new_manager_def by (rule manager_run.start)
  from manager_run.step [OF this first_run_eq [unfolded first_ready(1)] io_ok_devices first_fresh] show ?thesis .
qed


section \<open>The drift check\<close>

lemma prune_facts:
  "prune env k (errs, hw, store, ws) = (errs', hw', store', ws') \<Longrightarrow> hw' = hw \<and> ws' = ws \<and>
    (record_of store' = record_of store \<or> record_of store' = (record_of store)(k := None))"
  using Delete_law [of "de_store env k" k store] by (auto simp: prune_def split: prod.splits bool.splits)

definition gone_from_api :: "drift_env \<Rightarrow> checkpoint_record \<Rightarrow> bool" where
  "gone_from_api env r \<longleftrightarrow> (\<exists>get. de_slice env = Some get \<and> get (ck_Namespace r, ck_SliceName r) = NotFound)"

lemma heal_record_step:
  "\<exists>errs' store'. heal_record env False (k, r) (errs, [], store, []) = (errs', [], store', []) \<and>
    (record_of store' = record_of store \<or> record_of store' = (record_of store)(k := None) \<and> gone_from_api env r)"
proof (cases "de_slice env")
  case (Some get)
  obtain e1 h1 s1 w1 where p: "prune env k (errs, [], store, []) = (e1, h1, s1, w1)" by (metis prod_cases4)
  show ?thesis
    using prune_facts [OF p] Some p
    by (cases "get (ck_Namespace r, ck_SliceName r)") (auto simp: heal_record_def gone_from_api_def)
qed (simp add: heal_record_def)

lemma heal_records:
  "\<exists>errs' store'. fold (heal_record env False) rs (errs, [], store, []) = (errs', [], store', []) \<and>
    (\<forall>k. record_of store' k = record_of store k \<or> record_of store' k = None \<and> (\<exists>r. (k, r) \<in> set rs \<and> gone_from_api env r))"
proof (induction rs arbitrary: errs store)
  case (Cons x rs)
  obtain k r where x: "x = (k, r)" by (cases x)
  obtain e1 s1 where s: "heal_record env False (k, r) (errs, [], store, []) = (e1, [], s1, [])"
    "record_of s1 = record_of store \<or> record_of s1 = (record_of store)(k := None) \<and> gone_from_api env r"
    using heal_record_step by blast
  obtain e2 s2 where f: "fold (heal_record env False) rs (e1, [], s1, []) = (e2, [], s2, [])"
    "\<forall>k. record_of s2 k = record_of s1 k \<or> record_of s2 k = None \<and> (\<exists>r. (k, r) \<in> set rs \<and> gone_from_api env r)"
    using Cons.IH by blast
  have "record_of s2 j = record_of store j \<or> record_of s2 j = None \<and> (\<exists>r'. (j, r') \<in> set (x # rs) \<and> gone_from_api env r')" for j
    using s(2) f(2) [rule_format, of j] by (cases "j = k") (auto simp: x)
  then show ?case using s(1) f(1) by (simp add: x)
qed simp

text \<open>
  The drift check spares live slices: as long as the hardware cannot enumerate its allocations, it
  writes no slice and touches no ledger and no CDI file, and the checkpoint loses a record only when the API
  server said that the record's slice does not exist; an unreadable slice keeps its record. The ledger
  entry that the start-up made from a pruned record stays.
\<close>

theorem drift_check_spares_live_slices:
  assumes "DetectAndHeal env m = (errs, m', ws)" and "store_ok (mg_store m)"
  shows "ws = [] \<and> mg_alloc m' = mg_alloc m \<and> mg_cdi m' = mg_cdi m \<and>
    (\<forall>k r. record_of (mg_store m) k = Some r \<longrightarrow> record_of (mg_store m') k = Some r \<or>
      record_of (mg_store m') k = None \<and> gone_from_api env r)"
proof (cases "LoadAll (de_readable env) (mg_store m)")
  case (Inl e)
  then show ?thesis using assms(1) by (auto simp: DetectAndHeal_def)
next
  case (Inr rs)
  obtain e1 s1 where f: "fold (heal_record env False) rs ([], [], mg_store m, []) = (e1, [], s1, [])"
    "\<forall>k. record_of s1 k = record_of (mg_store m) k \<or> record_of s1 k = None \<and> (\<exists>r. (k, r) \<in> set rs \<and> gone_from_api env r)"
    using heal_records by blast
  have "m' = m\<lparr>mg_store := s1\<rparr>" "ws = []"
    using assms(1) Inr f(1) by (auto simp: DetectAndHeal_def InspectAllHardware_def)
  moreover have "record_of s1 k = Some r \<or> record_of s1 k = None \<and> gone_from_api env r"
    if r: "record_of (mg_store m) k = Some r" for k r
  proof -
    have "(k, r') \<in> set rs \<Longrightarrow> r' = r" for r'
      using LoadAll_Inr [OF Inr] map_of_SomeD_ok [OF store_ok_Load [OF assms(2) Inr]] r by simp
    then show ?thesis using f(2) [rule_format, of k] r by auto
  qed
  ultimately show ?thesis by simp
qed

definition drift_all_gone :: drift_env where
  "drift_all_gone = \<lparr>de_readable = True, de_slice = Some (\<lambda>nn. NotFound), de_update = (\<lambda>nn. Accepted), de_store = (\<lambda>k. mi_store io_ok)\<rparr>"

theorem drift_check_spares_live_slices_witness:
  "record_of (mg_store (fst (snd (DetectAndHeal drift_all_gone after_first)))) ''alloc-abc-5'' = None \<and>
    CommittedBytes ''GPU-A'' (mg_alloc (fst (snd (DetectAndHeal drift_all_gone after_first)))) = 30"
proof -
  obtain errs m' ws where d: "DetectAndHeal drift_all_gone after_first = (errs, m', ws)" by (metis prod_cases3)
  have "store_ok (mg_store after_first)" using manager_run_ok [OF first_manager_run gpu_A_ok] by (simp add: in_sync_def)
  from drift_check_spares_live_slices [OF d this] have "mg_alloc m' = mg_alloc after_first" by simp
  moreover have "CommittedBytes ''GPU-A'' (mg_alloc after_first) = 30" by code_simp
  moreover have "record_of (mg_store (fst (snd (DetectAndHeal drift_all_gone after_first)))) ''alloc-abc-5'' = None" by code_simp
  ultimately show ?thesis by (simp add: d)
qed

end
