(* ===== verification/SliceLifecycle.thy ===== *)
theory SliceLifecycle
  imports JobController SlicePhases GangGate
begin

text \<open>
  The claim and slice controllers, \<open>internal/controller/vgpuclaim_reconciler.go\<close> and
  \<open>vgpuslice_reconciler.go\<close>, with the helpers of \<open>finalizers.go\<close> and \<open>status.go\<close>: the slice of a
  claim and its mirrored status, the two finalizers, and the end of a preemption, where the victim's
  workload is evicted before its slice is released. A status patch is recorded as the object it was
  computed on.
\<close>

section \<open>Finalizers\<close>

definition SliceFinalizerName :: string where "SliceFinalizerName = ''infrastructure.pranav2910.com/slice-cleanup''"
definition ClaimFinalizerName :: string where "ClaimFinalizerName = ''infrastructure.pranav2910.com/claim-cleanup''"

text \<open>The new list, or \<open>None\<close> when the object is not mutated.\<close>

definition EnsureFinalizer :: "string list \<Rightarrow> string \<Rightarrow> string list option" where
  "EnsureFinalizer fs f = (if f \<in> set fs then None else Some (fs @ [f]))"

definition RemoveFinalizer :: "string list \<Rightarrow> string \<Rightarrow> string list option" where
  "RemoveFinalizer fs f = (if f \<in> set fs then Some (filter (\<lambda>x. x \<noteq> f) fs) else None)"

section \<open>The claim controller\<close>

definition ClaimPending :: string where "ClaimPending = ''Pending''"
definition ClaimScheduled :: string where "ClaimScheduled = ''Scheduled''"
definition ClaimBound :: string where "ClaimBound = ''Bound''"
definition ClaimFailed :: string where "ClaimFailed = ''Failed''"
definition ClaimDeleting :: string where "ClaimDeleting = ''Deleting''"

record claim_env =
  ce_claim :: "vgpu_claim api_read"
  ce_addFinalizer :: write_reply
  ce_slice :: "vgpu_slice api_read"
  ce_owner :: "vgpu_job api_read"
  ce_createSlice :: write_reply
  ce_patchRead :: "vgpu_claim api_read"
  ce_patch :: write_reply
  ce_deleteSlice :: write_reply
  ce_finalizer :: "nat \<Rightarrow> vgpu_claim api_read \<times> write_reply"

record claim_outcome =
  co_ok :: bool
  co_created :: "vgpu_slice option"
  co_sliceDeleted :: bool
  co_written :: "vgpu_claim option"

definition claim_done :: "bool \<Rightarrow> claim_outcome" where
  "claim_done ok = \<lparr>co_ok = ok, co_created = None, co_sliceDeleted = False, co_written = None\<rparr>"

definition zero_slice :: vgpu_slice where
  "zero_slice = \<lparr>sl_Name = [], sl_Namespace = [], sl_UID = [], sl_Annotations = [], sl_CreationTimestamp = 0,
     sl_DeletionTimestamp = None, sl_ClaimRef = [], sl_NodeName = [], sl_RequestedVRAMBytes = 0, sl_Phase = [],
     sl_DeviceUUID = [], sl_AllocationID = [], sl_AllocatedBytes = 0, sl_FailureReason = [], sl_LastError = [],
     sl_Conditions = [], sl_Finalizers = []\<rparr>"

definition claim_slice :: "vgpu_claim \<Rightarrow> vgpu_slice" where
  "claim_slice claim = zero_slice
    \<lparr>sl_Name := slice_name (cl_Name claim), sl_Namespace := cl_Namespace claim,
     sl_Annotations := FilterGangAnnotations (cl_Annotations claim), sl_ClaimRef := cl_Name claim,
     sl_RequestedVRAMBytes := cl_RequestedVRAMBytes claim\<rparr>"

text \<open>The owner guard of the slice creation: \<open>None\<close> on a failed read, else whether a slice may be created.\<close>

definition owner_allows :: "vgpu_job api_read \<Rightarrow> vgpu_claim \<Rightarrow> bool option" where
  "owner_allows rd claim =
    (if cl_JobRef claim = [] then Some True
     else case rd of
       Found owner \<Rightarrow> Some (\<not> (jb_Phase owner = JobFailed \<or> jb_Phase owner = JobCompleted \<or> jobPreempted owner))
     | NotFound \<Rightarrow> Some True
     | ReadErr \<Rightarrow> None)"

text \<open>\<open>None\<close> on an error; else the slice, if there is one, and whether it was created now.\<close>

definition ensureSliceExists :: "claim_env \<Rightarrow> vgpu_claim \<Rightarrow> (vgpu_slice option \<times> bool) option" where
  "ensureSliceExists env claim =
    (case ce_slice env of
       Found s \<Rightarrow> Some (Some s, False)
     | ReadErr \<Rightarrow> None
     | NotFound \<Rightarrow>
         (case owner_allows (ce_owner env) claim of
            None \<Rightarrow> None
          | Some False \<Rightarrow> Some (None, False)
          | Some True \<Rightarrow> if ce_createSlice env = Accepted then Some (Some (claim_slice claim), True) else None))"

definition claim_status :: "vgpu_slice \<Rightarrow> vgpu_claim \<Rightarrow> vgpu_claim" where
  "claim_status slice claim =
    (let c = claim\<lparr>cl_BoundSliceName := sl_Name slice\<rparr>; p = sl_Phase slice in
     if p = SlicePhaseReady then c\<lparr>cl_Phase := ClaimBound\<rparr>
     else if p = SlicePhaseFailed then c\<lparr>cl_Phase := ClaimFailed, cl_FailureReason := sl_FailureReason slice\<rparr>
     else if p = SlicePhaseReleasing \<or> p = SlicePhaseReleased then c\<lparr>cl_Phase := ClaimDeleting\<rparr>
     else if p = SlicePhaseScheduled \<or> p = SlicePhaseAllocating then c\<lparr>cl_Phase := ClaimScheduled\<rparr>
     else c\<lparr>cl_Phase := ClaimPending\<rparr>)"

text \<open>\<open>PatchClaimStatus\<close>: the fresh metadata and spec with the caller's status, then the mutation.\<close>

definition PatchClaimStatus ::
  "vgpu_claim api_read \<Rightarrow> write_reply \<Rightarrow> (vgpu_claim \<Rightarrow> vgpu_claim) \<Rightarrow> vgpu_claim \<Rightarrow> bool \<times> vgpu_claim option" where
  "PatchClaimStatus rd reply mutate claim =
    (case rd of
       Found fresh \<Rightarrow>
         (let c = mutate (fresh\<lparr>cl_Phase := cl_Phase claim, cl_BoundSliceName := cl_BoundSliceName claim,
                           cl_FailureReason := cl_FailureReason claim\<rparr>)
          in if reply = Accepted then (True, Some c) else (False, None))
     | _ \<Rightarrow> (False, None))"

definition syncClaimStatusFromSlice :: "claim_env \<Rightarrow> vgpu_claim \<Rightarrow> vgpu_slice \<Rightarrow> bool \<times> vgpu_claim option" where
  "syncClaimStatusFromSlice env claim slice =
    PatchClaimStatus (ce_patchRead env) (ce_patch env) (claim_status slice) claim"

definition drop_claim_finalizer :: "vgpu_claim \<Rightarrow> vgpu_claim option" where
  "drop_claim_finalizer fresh =
    map_option (\<lambda>fs. fresh\<lparr>cl_Finalizers := fs\<rparr>) (RemoveFinalizer (cl_Finalizers fresh) ClaimFinalizerName)"

definition handleClaimDelete :: "claim_env \<Rightarrow> vgpu_claim \<Rightarrow> claim_outcome" where
  "handleClaimDelete env claim =
    (case ce_slice env of
       Found s \<Rightarrow>
         (if sl_DeletionTimestamp s \<noteq> None then claim_done True
          else (claim_done (ce_deleteSlice env \<in> {Accepted, NoSuchObject}))\<lparr>co_sliceDeleted := True\<rparr>)
     | ReadErr \<Rightarrow> claim_done False
     | NotFound \<Rightarrow>
         (let (err, w) = ignoreNoObject (RetryOnConflict (ce_finalizer env) drop_claim_finalizer)
          in (claim_done (err = None))\<lparr>co_written := w\<rparr>))"

definition reconcileClaim :: "claim_env \<Rightarrow> vgpu_claim \<Rightarrow> claim_outcome" where
  "reconcileClaim env claim =
    (if cl_DeletionTimestamp claim \<noteq> None then handleClaimDelete env claim
     else case EnsureFinalizer (cl_Finalizers claim) ClaimFinalizerName of
       Some fs \<Rightarrow>
         (if ce_addFinalizer env = Accepted then (claim_done True)\<lparr>co_written := Some (claim\<lparr>cl_Finalizers := fs\<rparr>)\<rparr>
          else claim_done False)
     | None \<Rightarrow>
         (case ensureSliceExists env claim of
            None \<Rightarrow> claim_done False
          | Some (None, _) \<Rightarrow> claim_done True
          | Some (Some s, created) \<Rightarrow>
              (let (ok, w) = syncClaimStatusFromSlice env claim s
               in \<lparr>co_ok = ok, co_created = (if created then Some s else None), co_sliceDeleted = False, co_written = w\<rparr>)))"

definition Reconcile_claim :: "claim_env \<Rightarrow> reconcile_result \<times> claim_outcome" where
  "Reconcile_claim env =
    (case ce_claim env of
       NotFound \<Rightarrow> (done_result, claim_done True)
     | ReadErr \<Rightarrow> (ReconcileError, claim_done False)
     | Found claim \<Rightarrow>
         (let out = reconcileClaim env claim in
          (if \<not> co_ok out then ReconcileError
           else if cl_DeletionTimestamp claim \<noteq> None \<and> ClaimFinalizerName \<in> set (cl_Finalizers claim)
           then Requeue (5 * second) else done_result, out)))"

section \<open>The slice controller\<close>

record slice_env =
  sv_slice :: "vgpu_slice api_read"
  sv_claim :: "vgpu_claim api_read"
  sv_job :: "vgpu_job api_read"
  sv_status :: write_reply
  sv_jobStatus :: "nat \<Rightarrow> vgpu_job api_read \<times> write_reply"
  sv_deletePod :: write_reply
  sv_finalizer :: "nat \<Rightarrow> vgpu_slice api_read \<times> write_reply"
  sv_patchRead :: "vgpu_slice api_read"
  sv_patch :: write_reply
  sv_now :: int

record slice_outcome =
  so_result :: reconcile_result
  so_written :: "vgpu_slice option"
  so_jobWritten :: "vgpu_job option"
  so_podDeleted :: "string option"

definition slice_done :: "reconcile_result \<Rightarrow> slice_outcome" where
  "slice_done r = \<lparr>so_result = r, so_written = None, so_jobWritten = None, so_podDeleted = None\<rparr>"

text \<open>\<open>None\<close> on a transient failure, \<open>Some None\<close> when the slice has no owning job.\<close>

definition resolveOwnerJob :: "slice_env \<Rightarrow> vgpu_slice \<Rightarrow> vgpu_job option option" where
  "resolveOwnerJob env slice =
    (if sl_ClaimRef slice = [] then Some None
     else case sv_claim env of
       NotFound \<Rightarrow> Some None
     | ReadErr \<Rightarrow> None
     | Found claim \<Rightarrow>
         if cl_JobRef claim = [] then Some None
         else case sv_job env of Found j \<Rightarrow> Some (Some j) | NotFound \<Rightarrow> Some None | ReadErr \<Rightarrow> None)"

definition grace_period :: "vgpu_job option \<Rightarrow> int" where
  "grace_period job =
    (case job of None \<Rightarrow> 30 * second
     | Some j \<Rightarrow> (case jb_PreemptionGraceSeconds j of
         Some g \<Rightarrow> if g > 0 then g * second else 30 * second | None \<Rightarrow> 30 * second))"

definition stamp_preempted :: "int \<Rightarrow> string \<Rightarrow> vgpu_job \<Rightarrow> vgpu_job" where
  "stamp_preempted now msg j = j\<lparr>jb_Conditions := SetStatusCondition now (jb_Conditions j)
     (mk_condition preemptedConditionType ConditionTrue preemptedReason
        (if msg = [] then ''Preempted for higher-priority work.'' else msg))\<rparr>"

text \<open>Whether it succeeded, the job that was written, and the pod whose deletion was asked for.\<close>

definition evictPreemptedWorkload :: "slice_env \<Rightarrow> vgpu_job \<Rightarrow> string \<Rightarrow> bool \<times> vgpu_job option \<times> string option" where
  "evictPreemptedWorkload env job msg =
    (let (err, w) = ignoreNoObject (RetryOnConflict (sv_jobStatus env) (\<lambda>j. Some (stamp_preempted (sv_now env) msg j)))
     in if err \<noteq> None then (False, w, None)
        else (sv_deletePod env \<in> {Accepted, NoSuchObject}, w, Some (workloadPodName (jb_Name job))))"

definition preempting_anchor :: condition where
  "preempting_anchor = mk_condition PhasePreempting ConditionTrue ''PreemptingAnchorSelfHealed''
     ''Preempting condition was missing; grace period anchored at first observation.''"

definition reconcile_preempting :: "slice_env \<Rightarrow> vgpu_slice \<Rightarrow> slice_outcome" where
  "reconcile_preempting env slice =
    (case resolveOwnerJob env slice of
       None \<Rightarrow> slice_done ReconcileError
     | Some job \<Rightarrow>
         (let c = find (\<lambda>c. cd_Type c = PhasePreempting) (sl_Conditions slice);
              since = (case c of None \<Rightarrow> 0 | Some d \<Rightarrow> cd_LastTransitionTime d);
              msg = (case c of None \<Rightarrow> [] | Some d \<Rightarrow> cd_Message d);
              elapsed = sv_now env - since
          in if since = 0 then
               (if sv_status env = Accepted
                then (slice_done RequeueSoon)\<lparr>so_written := Some (slice\<lparr>sl_Conditions :=
                        SetStatusCondition (sv_now env) (sl_Conditions slice) preempting_anchor\<rparr>)\<rparr>
                else slice_done ReconcileError)
             else if elapsed < grace_period job then slice_done (Requeue (grace_period job - elapsed))
             else
               (let (ok, w, pod) = (case job of None \<Rightarrow> (True, None, None) | Some j \<Rightarrow> evictPreemptedWorkload env j msg)
                in if \<not> ok \<or> sv_status env \<noteq> Accepted
                   then \<lparr>so_result = ReconcileError, so_written = None, so_jobWritten = w, so_podDeleted = pod\<rparr>
                   else \<lparr>so_result = RequeueSoon, so_written = Some (slice\<lparr>sl_Phase := SlicePhaseReleasing\<rparr>),
                         so_jobWritten = w, so_podDeleted = pod\<rparr>)))"

definition drop_slice_finalizer :: "vgpu_slice \<Rightarrow> vgpu_slice option" where
  "drop_slice_finalizer fresh =
    map_option (\<lambda>fs. fresh\<lparr>sl_Finalizers := fs\<rparr>) (RemoveFinalizer (sl_Finalizers fresh) SliceFinalizerName)"

definition add_slice_finalizer :: "vgpu_slice \<Rightarrow> vgpu_slice option" where
  "add_slice_finalizer fresh =
    map_option (\<lambda>fs. fresh\<lparr>sl_Finalizers := fs\<rparr>) (EnsureFinalizer (sl_Finalizers fresh) SliceFinalizerName)"

definition never_bound :: "vgpu_slice \<Rightarrow> bool" where
  "never_bound slice \<longleftrightarrow> sl_AllocationID slice = [] \<and>
     (sl_Phase slice = SlicePhasePending \<or> sl_Phase slice = [] \<or> sl_Phase slice = SlicePhaseReleasing \<or>
      sl_Phase slice = SlicePhaseScheduled)"

text \<open>\<open>PatchSliceStatus\<close>: the fresh metadata and spec with the caller's status, then the mutation.\<close>

definition PatchSliceStatus ::
  "vgpu_slice api_read \<Rightarrow> write_reply \<Rightarrow> (vgpu_slice \<Rightarrow> vgpu_slice) \<Rightarrow> vgpu_slice \<Rightarrow> bool \<times> vgpu_slice option" where
  "PatchSliceStatus rd reply mutate slice =
    (case rd of
       Found fresh \<Rightarrow>
         (let s = mutate (fresh\<lparr>sl_Phase := sl_Phase slice, sl_DeviceUUID := sl_DeviceUUID slice,
                    sl_AllocationID := sl_AllocationID slice, sl_AllocatedBytes := sl_AllocatedBytes slice,
                    sl_FailureReason := sl_FailureReason slice, sl_LastError := sl_LastError slice,
                    sl_Conditions := sl_Conditions slice\<rparr>)
          in if reply = Accepted then (True, Some s) else (False, None))
     | _ \<Rightarrow> (False, None))"

definition to_releasing :: "vgpu_slice \<Rightarrow> vgpu_slice" where
  "to_releasing s = (case TransitionSlicePhase s SlicePhaseReleasing [] ''Deletion requested'' of Inl _ \<Rightarrow> s | Inr s' \<Rightarrow> s')"

definition handleDelete :: "slice_env \<Rightarrow> vgpu_slice \<Rightarrow> bool \<times> vgpu_slice option" where
  "handleDelete env slice =
    (let remove = (let (err, w) = RetryOnConflict (sv_finalizer env) drop_slice_finalizer in (err = None, w)) in
     if never_bound slice then remove
     else if sl_Phase slice \<noteq> SlicePhaseReleasing \<and> sl_Phase slice \<noteq> SlicePhaseReleased then
       PatchSliceStatus (sv_patchRead env) (sv_patch env) to_releasing slice
     else if sl_Phase slice = SlicePhaseReleased then remove
     else (True, None))"

definition reconcileSlice :: "slice_env \<Rightarrow> vgpu_slice \<Rightarrow> bool \<times> vgpu_slice option" where
  "reconcileSlice env slice =
    (if sl_DeletionTimestamp slice \<noteq> None then handleDelete env slice
     else if EnsureFinalizer (sl_Finalizers slice) SliceFinalizerName = None then (True, None)
     else let (err, w) = RetryOnConflict (sv_finalizer env) add_slice_finalizer in (err = None, w))"

definition Reconcile_slice :: "slice_env \<Rightarrow> slice_outcome" where
  "Reconcile_slice env =
    (case sv_slice env of
       NotFound \<Rightarrow> slice_done done_result
     | ReadErr \<Rightarrow> slice_done ReconcileError
     | Found slice \<Rightarrow>
         if sl_Phase slice = PhasePreempting then reconcile_preempting env slice
         else
           (let (ok, w) = reconcileSlice env slice
            in (slice_done (if \<not> ok then ReconcileError
                            else if sl_DeletionTimestamp slice \<noteq> None \<and> sl_Phase slice \<noteq> SlicePhaseReleased
                            then Requeue (5 * second) else done_result))\<lparr>so_written := w\<rparr>))"

section \<open>Lemmas\<close>

lemma slice_done_fields [simp]:
  "so_result (slice_done r) = r" "so_written (slice_done r) = None" "so_jobWritten (slice_done r) = None"
  "so_podDeleted (slice_done r) = None"
  by (simp_all add: slice_done_def)

lemma claim_done_fields [simp]:
  "co_ok (claim_done b) = b" "co_created (claim_done b) = None" "co_sliceDeleted (claim_done b) = False"
  "co_written (claim_done b) = None"
  by (simp_all add: claim_done_def)

lemma RetryOnConflict_no_error:
  "fst (RetryOnConflict net (\<lambda>x. Some (f x))) = None \<Longrightarrow> \<exists>y. snd (RetryOnConflict net (\<lambda>x. Some (f x))) = Some y"
proof -
  have "fst (get_update n i net (\<lambda>x. Some (f x))) = None \<Longrightarrow> \<exists>y. snd (get_update n i net (\<lambda>x. Some (f x))) = Some y" for n i
    by (induction n i net "\<lambda>x. Some (f x)" rule: get_update.induct) (auto split: prod.splits api_read.splits write_reply.splits)
  then show "fst (RetryOnConflict net (\<lambda>x. Some (f x))) = None \<Longrightarrow> \<exists>y. snd (RetryOnConflict net (\<lambda>x. Some (f x))) = Some y"
    by (simp add: RetryOnConflict_def)
qed

lemma stamped_is_preempted: "jobPreempted (stamp_preempted now msg j)"
proof -
  let ?c = "mk_condition preemptedConditionType ConditionTrue preemptedReason
    (if msg = [] then ''Preempted for higher-priority work.'' else msg)"
  have t: "cd_Type ?c = preemptedConditionType" "cd_Status ?c = ConditionTrue" by (simp_all add: mk_condition_def)
  obtain t' where "FindStatusCondition (jb_Conditions (stamp_preempted now msg j)) preemptedConditionType
      = Some (?c\<lparr>cd_LastTransitionTime := t'\<rparr>)"
    using Find_Set_same [of now "jb_Conditions j" ?c] t by (auto simp: stamp_preempted_def)
  then show ?thesis using t by (simp add: jobPreempted_def)
qed

definition job_gone :: "(nat \<Rightarrow> vgpu_job api_read \<times> write_reply) \<Rightarrow> bool" where
  "job_gone net \<longleftrightarrow> (\<exists>i. fst (net i) = NotFound)"

lemma get_update_NoObject: "fst (get_update n i net f) = Some NoObject \<Longrightarrow> \<exists>k. fst (net k) = NotFound"
proof (induction n i net f rule: get_update.induct)
  case (2 n i net f)
  show ?case
  proof (cases "fst (net i)")
    case (Found x)
    then show ?thesis
      using 2 by (cases "net i"; cases "snd (net i)") (auto split: option.splits)
  next
    case NotFound
    then show ?thesis by blast
  next
    case ReadErr
    then show ?thesis using 2(2) by (cases "net i") auto
  qed
qed simp

lemma evict_ok:
  assumes "evictPreemptedWorkload env job msg = (True, w, pod)"
  shows "pod = Some (workloadPodName (jb_Name job)) \<and> sv_deletePod env \<in> {Accepted, NoSuchObject} \<and>
    ((\<exists>j. w = Some j \<and> jobPreempted j) \<or> job_gone (sv_jobStatus env))"
proof -
  let ?r = "RetryOnConflict (sv_jobStatus env) (\<lambda>j. Some (stamp_preempted (sv_now env) msg j))"
  have e: "fst (ignoreNoObject ?r) = None" "w = snd ?r" "pod = Some (workloadPodName (jb_Name job))"
    "sv_deletePod env \<in> {Accepted, NoSuchObject}"
    using assms by (auto simp: evictPreemptedWorkload_def Let_def split: prod.splits if_splits) (metis snd_conv snd_ignoreNoObject)+
  have "(\<exists>j. w = Some j \<and> jobPreempted j) \<or> job_gone (sv_jobStatus env)"
  proof (cases "fst ?r = None")
    case True
    then obtain y where y: "snd ?r = Some y" using RetryOnConflict_no_error by blast
    then have "jobPreempted y" using RetryOnConflict_written stamped_is_preempted by fastforce
    then show ?thesis using y e(2) by simp
  next
    case False
    then have "fst ?r = Some NoObject" using e(1) by (auto simp: ignoreNoObject_def split: if_splits)
    then have "job_gone (sv_jobStatus env)"
      unfolding job_gone_def RetryOnConflict_def by (rule get_update_NoObject)
    then show ?thesis by simp
  qed
  then show ?thesis using e by simp
qed

section \<open>Properties\<close>

definition victim :: vgpu_slice where
  "victim = slice0\<lparr>sl_Phase := PhasePreempting,
     sl_Conditions := [\<lparr>cd_Type = PhasePreempting, cd_Status = ConditionTrue, cd_Reason = [], cd_Message = [],
                        cd_LastTransitionTime = 1\<rparr>]\<rparr>"

definition slice_env0 :: "vgpu_slice \<Rightarrow> slice_env" where
  "slice_env0 s = \<lparr>sv_slice = Found s, sv_claim = Found (zero_claim\<lparr>cl_JobRef := ''j''\<rparr>), sv_job = Found zero_job,
     sv_status = Accepted, sv_jobStatus = (\<lambda>i. (Found zero_job, Accepted)), sv_deletePod = Accepted,
     sv_finalizer = (\<lambda>i. (Found s, Accepted)), sv_patchRead = Found s, sv_patch = Accepted, sv_now = 60 * second\<rparr>"

text \<open>
  C24. A preempted slice is released only after its victim is out: when a slice leaves \<open>Preempting\<close> its
  grace period is over, and, if it has an owning job, the job was stamped as preempted (or is gone) and
  the deletion of its workload pod was accepted or found no pod.
\<close>

theorem preempted_slice_released_after_eviction:
  assumes "sv_slice env = Found slice" and "sl_Phase slice = PhasePreempting"
    and "so_written (Reconcile_slice env) = Some w" and "sl_Phase w \<noteq> PhasePreempting"
  shows "sl_Phase w = SlicePhaseReleasing \<and> (\<exists>job. resolveOwnerJob env slice = Some job \<and>
    (\<exists>c. find (\<lambda>c. cd_Type c = PhasePreempting) (sl_Conditions slice) = Some c \<and>
       grace_period job \<le> sv_now env - cd_LastTransitionTime c) \<and>
    (\<forall>j. job = Some j \<longrightarrow> sv_deletePod env \<in> {Accepted, NoSuchObject} \<and>
       so_podDeleted (Reconcile_slice env) = Some (workloadPodName (jb_Name j)) \<and>
       ((\<exists>j'. so_jobWritten (Reconcile_slice env) = Some j' \<and> jobPreempted j') \<or> job_gone (sv_jobStatus env))))"
proof -
  have e: "Reconcile_slice env = reconcile_preempting env slice"
    using assms(1,2) by (simp add: Reconcile_slice_def)
  obtain job where j: "resolveOwnerJob env slice = Some job"
    using assms(3) unfolding e reconcile_preempting_def by (cases "resolveOwnerJob env slice") simp_all
  let ?find = "find (\<lambda>c. cd_Type c = PhasePreempting) (sl_Conditions slice)"
  obtain c where c: "?find = Some c" "cd_LastTransitionTime c \<noteq> 0"
    using assms(2-4) unfolding e reconcile_preempting_def j Let_def
    by (cases ?find) (auto split: if_splits)
  have g: "grace_period job \<le> sv_now env - cd_LastTransitionTime c"
    using assms(2-4) unfolding e reconcile_preempting_def j Let_def by (auto simp: c split: if_splits)
  note released = assms(3) [unfolded e reconcile_preempting_def j Let_def, simplified c(1) option.case]
  show ?thesis
  proof (cases job)
    case None
    then show ?thesis using released g c j assms(2,4) by (auto simp: if_split split: if_splits)
  next
    case (Some jb)
    obtain ok u pod where ev: "evictPreemptedWorkload env jb (cd_Message c) = (ok, u, pod)"
      by (metis prod_cases3)
    have r: "so_jobWritten (Reconcile_slice env) = u" "so_podDeleted (Reconcile_slice env) = pod"
      using g c unfolding e reconcile_preempting_def j Let_def
      by (simp_all add: Some ev)
    have "ok \<and> w = slice\<lparr>sl_Phase := SlicePhaseReleasing\<rparr>"
      using released g c assms(2,4) by (auto simp: Some ev split: if_splits)
    then show ?thesis
      using r g c j ev evict_ok [of env jb "cd_Message c" u pod] by (simp add: Some)
  qed
qed

theorem preempted_slice_released_after_eviction_witness:
  "\<exists>w. so_written (Reconcile_slice (slice_env0 victim)) = Some w \<and> sl_Phase w = SlicePhaseReleasing"
proof -
  have v: "sl_Phase victim = PhasePreempting" "sl_ClaimRef victim = ''c''"
    "sl_Conditions victim = [\<lparr>cd_Type = PhasePreempting, cd_Status = ConditionTrue, cd_Reason = [], cd_Message = [],
                        cd_LastTransitionTime = 1\<rparr>]"
    by (simp_all add: victim_def slice0_def)
  have env: "sv_slice (slice_env0 victim) = Found victim" by (simp add: slice_env0_def)
  have ev: "evictPreemptedWorkload (slice_env0 victim) zero_job []
      = (True, Some (stamp_preempted (60 * second) [] zero_job), Some (workloadPodName []))"
    unfolding evictPreemptedWorkload_def
    by (subst RetryOnConflict_first [where x = zero_job and y = "stamp_preempted (60 * second) [] zero_job"])
      (simp_all add: slice_env0_def ignoreNoObject_def zero_job_def)
  have own: "resolveOwnerJob (slice_env0 victim) victim = Some (Some zero_job)"
    by (simp add: resolveOwnerJob_def slice_env0_def v)
  have grace: "grace_period (Some zero_job) \<le> sv_now (slice_env0 victim) - 1"
    by (simp add: grace_period_def zero_job_def slice_env0_def second_def)
  have zj: "sv_status (slice_env0 victim) = Accepted"
    by (simp add: slice_env0_def)
  have "so_written (Reconcile_slice (slice_env0 victim)) = Some (victim\<lparr>sl_Phase := SlicePhaseReleasing\<rparr>)"
    using grace by (simp add: Reconcile_slice_def env v reconcile_preempting_def own ev zj Let_def)
  then show ?thesis
    using preempted_slice_released_after_eviction [OF env v(1), of "victim\<lparr>sl_Phase := SlicePhaseReleasing\<rparr>"] by simp
qed

lemma PatchSliceStatus_finalizers:
  "PatchSliceStatus (Found fresh) reply to_releasing slice = (ok, Some w) \<Longrightarrow> sl_Finalizers w = sl_Finalizers fresh"
  by (auto simp: PatchSliceStatus_def to_releasing_def TransitionSlicePhase_def Let_def split: if_splits sum.splits option.splits)

text \<open>
  The slice's finalizer comes off only when nothing is held: a reconcile that removes it saw the
  slice being deleted and either \<open>Released\<close>, or without an allocation and in a phase before allocation
  or in \<open>Releasing\<close>.
\<close>

theorem finalizer_removed_only_when_free:
  assumes "so_written (Reconcile_slice env) = Some w" and "SliceFinalizerName \<notin> set (sl_Finalizers w)"
    and "\<forall>fresh. sv_patchRead env = Found fresh \<longrightarrow> SliceFinalizerName \<in> set (sl_Finalizers fresh)"
    and "sv_slice env = Found slice" and "sl_Phase slice \<noteq> PhasePreempting"
  shows "sl_DeletionTimestamp slice \<noteq> None \<and> (sl_Phase slice = SlicePhaseReleased \<or> never_bound slice)"
proof -
  obtain ok where r: "reconcileSlice env slice = (ok, Some w)"
    using assms(1,4,5) by (cases "reconcileSlice env slice") (simp add: Reconcile_slice_def)
  have del: "sl_DeletionTimestamp slice \<noteq> None"
  proof
    assume n: "sl_DeletionTimestamp slice = None"
    then have "snd (RetryOnConflict (sv_finalizer env) add_slice_finalizer) = Some w"
      using r by (auto simp: reconcileSlice_def split: if_splits prod.splits)
    then obtain i x where "add_slice_finalizer x = Some w"
      by (auto dest: RetryOnConflict_written)
    then show False
      using assms(2) by (auto simp: add_slice_finalizer_def EnsureFinalizer_def split: if_splits)
  qed
  have "never_bound slice \<or> sl_Phase slice = SlicePhaseReleased"
  proof (rule ccontr)
    assume no: "\<not> ?thesis"
    then have p: "PatchSliceStatus (sv_patchRead env) (sv_patch env) to_releasing slice = (ok, Some w)"
      using r del by (auto simp: reconcileSlice_def handleDelete_def Let_def split: if_splits)
    then obtain fresh where "sv_patchRead env = Found fresh"
      by (cases "sv_patchRead env") (auto simp: PatchSliceStatus_def)
    then show False using p PatchSliceStatus_finalizers assms(2,3) by metis
  qed
  then show ?thesis using del by blast
qed

definition released_slice :: vgpu_slice where
  "released_slice = slice0\<lparr>sl_Phase := SlicePhaseReleased, sl_DeletionTimestamp := Some 1,
     sl_Finalizers := [SliceFinalizerName]\<rparr>"

theorem finalizer_removed_only_when_free_witness:
  "\<exists>w. so_written (Reconcile_slice (slice_env0 released_slice)) = Some w \<and> SliceFinalizerName \<notin> set (sl_Finalizers w) \<and>
    sl_Phase released_slice = SlicePhaseReleased"
proof -
  let ?w = "released_slice\<lparr>sl_Finalizers := []\<rparr>"
  have s: "sl_Phase released_slice = SlicePhaseReleased" "sl_DeletionTimestamp released_slice = Some 1"
    "sl_Finalizers released_slice = [SliceFinalizerName]"
    by (simp_all add: released_slice_def)
  have env: "sv_slice (slice_env0 released_slice) = Found released_slice"
    "sv_patchRead (slice_env0 released_slice) = Found released_slice"
    by (simp_all add: slice_env0_def)
  have "RetryOnConflict (sv_finalizer (slice_env0 released_slice)) drop_slice_finalizer = (None, Some ?w)"
    by (rule RetryOnConflict_first [where x = released_slice])
      (simp_all add: slice_env0_def drop_slice_finalizer_def RemoveFinalizer_def s)
  then have w: "so_written (Reconcile_slice (slice_env0 released_slice)) = Some ?w"
    by (simp add: Reconcile_slice_def env s reconcileSlice_def handleDelete_def never_bound_def)
  show ?thesis
    using finalizer_removed_only_when_free [OF w] env s w by simp
qed


text \<open>
  The gang's identity reaches the scheduler: the slice that the claim controller creates for the
  claim that the job controller creates for a gang's child carries the gang's name and its reservation's,
  and the gang gate reads from it the priority the gang was given.
\<close>

theorem gang_identity_reaches_slice:
  assumes "in_i32 (gj_Priority gang)"
  shows "map_of (sl_Annotations (claim_slice (job_claim (child_job gang i)))) AnnotationGangRef = Some (gj_Name gang) \<and>
    map_of (sl_Annotations (claim_slice (job_claim (child_job gang i)))) AnnotationReservationRef
      = Some (reservationNameForGang (gj_Name gang)) \<and>
    gang_priority (claim_slice (job_claim (child_job gang i))) = gj_Priority gang \<and>
    job_of_claim (sl_ClaimRef (claim_slice (job_claim (child_job gang i)))) = childJobName (gj_Name gang) i"
proof -
  let ?s = "claim_slice (job_claim (child_job gang i))"
  have a: "sl_Annotations ?s = FilterGangAnnotations (childAnnotations gang)"
    by (simp add: claim_slice_def job_claim_def child_job_def Filter_idem)
  have k: "map_of (sl_Annotations ?s) AnnotationGangPriority = Some (FormatInt (gj_Priority gang))"
    by (simp add: a map_of_Filter childAnnotations_keys)
  have "in_i64 (gj_Priority gang)" using assms by (auto simp: in_i32_def in_i64_def)
  then have p: "ParseInt64 (FormatInt (gj_Priority gang)) = Some (gj_Priority gang)"
    by (rule ParseInt64_FormatInt)
  have "FormatInt (gj_Priority gang) \<noteq> []"
    using p by (cases "FormatInt (gj_Priority gang)") (simp_all add: ParseInt64_def)
  then have "gang_priority ?s = gj_Priority gang"
    using p assms by (simp add: gang_priority_def k gget_Some Let_def i32_in)
  moreover have "childJobName (gj_Name gang) i \<noteq> []" by (simp add: childJobName_def)
  then have "job_of_claim (sl_ClaimRef ?s) = childJobName (gj_Name gang) i"
    by (simp add: claim_slice_def job_claim_def child_job_def job_of_claimNameForJob)
  ultimately show ?thesis
    by (simp add: a map_of_Filter childAnnotations_keys)
qed

theorem gang_identity_reaches_slice_witness:
  "gang_priority (claim_slice (job_claim (child_job (gang_g\<lparr>gj_Priority := -7\<rparr>) 3))) = -7"
  using gang_identity_reaches_slice [of "gang_g\<lparr>gj_Priority := -7\<rparr>" 3] by (simp add: in_i32_def)

text \<open>
  A dead job gets no replacement slice: the claim controller creates a slice only when the claim
  names no job, the job is gone, or the job is neither failed, completed nor preempted; and the slice it
  creates asks for exactly the claim's memory.
\<close>

theorem no_slice_for_dead_job:
  assumes "ce_claim env = Found claim" and "co_created (snd (Reconcile_claim env)) = Some s"
  shows "sl_RequestedVRAMBytes s = cl_RequestedVRAMBytes claim \<and> sl_ClaimRef s = cl_Name claim \<and>
    sl_Phase s = [] \<and> ce_slice env = NotFound \<and> cl_DeletionTimestamp claim = None \<and>
    ClaimFinalizerName \<in> set (cl_Finalizers claim) \<and>
    (\<forall>j. cl_JobRef claim \<noteq> [] \<longrightarrow> ce_owner env = Found j \<longrightarrow>
       jb_Phase j \<noteq> JobFailed \<and> jb_Phase j \<noteq> JobCompleted \<and> \<not> jobPreempted j)"
proof -
  have c: "co_created (reconcileClaim env claim) = Some s"
    using assms by (simp add: Reconcile_claim_def Let_def)
  have live: "cl_DeletionTimestamp claim = None"
    using c by (auto simp: reconcileClaim_def handleClaimDelete_def Let_def split: if_splits api_read.splits prod.splits)
  then have f: "ClaimFinalizerName \<in> set (cl_Finalizers claim)"
    using c by (auto simp: reconcileClaim_def EnsureFinalizer_def split: if_splits)
  then have e: "ensureSliceExists env claim = Some (Some s, True)"
    using c live
    by (auto simp: reconcileClaim_def EnsureFinalizer_def split: if_splits option.splits prod.splits)
  then have "ce_slice env = NotFound" "owner_allows (ce_owner env) claim = Some True" "s = claim_slice claim"
    by (auto simp: ensureSliceExists_def split: api_read.splits option.splits bool.splits if_splits)
  then show ?thesis
    using live f by (auto simp: owner_allows_def claim_slice_def zero_slice_def)
qed

definition claim_c :: vgpu_claim where
  "claim_c = zero_claim\<lparr>cl_Name := ''c'', cl_JobRef := ''j'', cl_RequestedVRAMBytes := 1024,
     cl_Finalizers := [ClaimFinalizerName]\<rparr>"

definition claim_env0 :: "vgpu_job api_read \<Rightarrow> claim_env" where
  "claim_env0 owner = \<lparr>ce_claim = Found claim_c, ce_addFinalizer = Accepted, ce_slice = NotFound, ce_owner = owner,
     ce_createSlice = Accepted, ce_patchRead = Found claim_c, ce_patch = Accepted, ce_deleteSlice = Accepted,
     ce_finalizer = (\<lambda>i. (Found claim_c, Accepted))\<rparr>"

lemma claim_env0_creates:
  assumes "owner_allows owner claim_c = Some True"
  shows "co_created (snd (Reconcile_claim (claim_env0 owner))) = Some (claim_slice claim_c)"
proof -
  have c: "cl_DeletionTimestamp claim_c = None" "cl_Finalizers claim_c = [ClaimFinalizerName]"
    by (simp_all add: claim_c_def zero_claim_def)
  show ?thesis
    by (simp add: Reconcile_claim_def claim_env0_def c reconcileClaim_def EnsureFinalizer_def ensureSliceExists_def
        assms Let_def split: prod.splits)
qed

theorem no_slice_for_dead_job_witness:
  "sl_RequestedVRAMBytes (claim_slice claim_c) = 1024"
proof -
  have "owner_allows NotFound claim_c = Some True" by (simp add: owner_allows_def)
  from claim_env0_creates [OF this] have s: "co_created (snd (Reconcile_claim (claim_env0 NotFound))) = Some (claim_slice claim_c)" .
  have "ce_claim (claim_env0 NotFound) = Found claim_c" by (simp add: claim_env0_def)
  from no_slice_for_dead_job [OF this s] show ?thesis by (simp add: claim_c_def)
qed

text \<open>
  A job that ran to its end is not among the dead ones of that guard: its phase is \<open>Succeeded\<close>, so a claim
  whose slice was released after its pod succeeded gets a new one, which takes GPU memory again.
\<close>

theorem succeeded_job_gets_new_slice:
  "\<exists>env owner. ce_owner env = Found owner \<and> jb_Phase owner = JobSucceeded \<and>
    co_created (snd (Reconcile_claim env)) \<noteq> None"
proof (intro exI conjI)
  let ?j = "zero_job\<lparr>jb_Phase := JobSucceeded\<rparr>"
  show "ce_owner (claim_env0 (Found ?j)) = Found ?j" by (simp add: claim_env0_def)
  show "jb_Phase ?j = JobSucceeded" by simp
  have "owner_allows (Found ?j) claim_c = Some True"
    by (simp add: owner_allows_def JobSucceeded_def JobFailed_def JobCompleted_def jobPreempted_def zero_job_def
        FindStatusCondition_def)
  from claim_env0_creates [OF this]
  show "co_created (snd (Reconcile_claim (claim_env0 (Found ?j)))) \<noteq> None" by simp
qed

text \<open>
  A claim outlives its slice: the claim's finalizer is removed only by a reconcile that saw the claim
  being deleted and no slice of it left; while the slice is there it is deleted first.
\<close>

theorem claim_finalizer_after_slice:
  assumes "ce_claim env = Found claim" and "co_written (snd (Reconcile_claim env)) = Some w"
    and "ClaimFinalizerName \<notin> set (cl_Finalizers w)"
    and "\<forall>fresh. ce_patchRead env = Found fresh \<longrightarrow> ClaimFinalizerName \<in> set (cl_Finalizers fresh)"
  shows "cl_DeletionTimestamp claim \<noteq> None \<and> ce_slice env = NotFound"
proof -
  have c: "co_written (reconcileClaim env claim) = Some w"
    using assms(1,2) by (simp add: Reconcile_claim_def Let_def)
  have "cl_DeletionTimestamp claim \<noteq> None"
  proof
    assume n: "cl_DeletionTimestamp claim = None"
    show False
    proof (cases "EnsureFinalizer (cl_Finalizers claim) ClaimFinalizerName")
      case (Some fs)
      then have "w = claim\<lparr>cl_Finalizers := fs\<rparr>"
        using c n by (simp add: reconcileClaim_def split: if_splits)
      then show False using Some assms(3) by (auto simp: EnsureFinalizer_def split: if_splits)
    next
      case None
      then obtain s b where "syncClaimStatusFromSlice env claim s = (b, Some w)"
        using c n by (auto simp: reconcileClaim_def split: option.splits prod.splits)
      then show False
        using assms(3,4) by (auto simp: syncClaimStatusFromSlice_def PatchClaimStatus_def claim_status_def Let_def
            split: api_read.splits if_splits)
    qed
  qed
  then show ?thesis
    using c by (auto simp: reconcileClaim_def handleClaimDelete_def Let_def split: api_read.splits if_splits prod.splits)
qed

theorem claim_finalizer_after_slice_witness:
  "\<exists>w. co_written (snd (Reconcile_claim ((claim_env0 NotFound)\<lparr>ce_claim := Found (claim_c\<lparr>cl_DeletionTimestamp := Some 1\<rparr>)\<rparr>)))
     = Some w \<and> ClaimFinalizerName \<notin> set (cl_Finalizers w) \<and> cl_DeletionTimestamp (claim_c\<lparr>cl_DeletionTimestamp := Some 1\<rparr>) \<noteq> None"
proof -
  let ?env = "(claim_env0 NotFound)\<lparr>ce_claim := Found (claim_c\<lparr>cl_DeletionTimestamp := Some 1\<rparr>)\<rparr>"
  let ?w = "claim_c\<lparr>cl_Finalizers := []\<rparr>"
  have f: "cl_Finalizers claim_c = [ClaimFinalizerName]" by (simp add: claim_c_def)
  have r: "RetryOnConflict (ce_finalizer ?env) drop_claim_finalizer = (None, Some ?w)"
    by (rule RetryOnConflict_first [where x = claim_c])
      (simp_all add: claim_env0_def drop_claim_finalizer_def RemoveFinalizer_def f)
  have "ce_slice ?env = NotFound" by (simp add: claim_env0_def)
  then have w: "co_written (snd (Reconcile_claim ?env)) = Some ?w"
    by (simp add: Reconcile_claim_def reconcileClaim_def handleClaimDelete_def r [simplified] ignoreNoObject_def Let_def)
  have fr: "\<forall>fresh. ce_patchRead ?env = Found fresh \<longrightarrow> ClaimFinalizerName \<in> set (cl_Finalizers fresh)"
    by (simp add: claim_env0_def f)
  have e: "ce_claim ?env = Found (claim_c\<lparr>cl_DeletionTimestamp := Some 1\<rparr>)" by simp
  show ?thesis
    using claim_finalizer_after_slice [OF e w _ fr] w by simp
qed

end
