(* ===== verification/Handover.thy ===== *)
theory Handover
  imports SchedulerProcess AgentProps SliceLifecycle
begin

text \<open>
  Where one component hands a slice to the next and a failure leaves it between them: the two patches of a
  bind (\<open>internal/scheduler/plugin.go\<close>) seen by the scheduler's reconciler and by the node agent, and the
  deletion of a slice (\<open>internal/controller/vgpuslice_reconciler.go\<close>) whose allocation the agent has made
  but not reported.
\<close>

section \<open>Half a bind\<close>

lemma gate_and_finish_half:
  assumes "gate_and_finish cfg env uid node b tx s = (BindFailed BindStatusPatchFailed, s', eff)" and "se_bindSlice env = Found slice"
  shows "eff = [PatchSpec (slice\<lparr>sl_NodeName := node\<rparr>)]"
proof -
  obtain d g where d: "gate_step cfg env node b tx (ss_gate s) = (d, g)"
    by (cases "gate_step cfg env node b tx (ss_gate s)")
  obtain p c1 where p: "PinAssumption uid bindPinTTL (se_now env 4) (se_gap env 1 (ss_cache s)) = (p, c1)"
    by (cases "PinAssumption uid bindPinTTL (se_now env 4) (se_gap env 1 (ss_cache s))")
  have "\<not> (\<exists>tx'. d = Inl (BindFailed BindStatusPatchFailed, tx'))"
    using d by (auto simp: gate_step_def Let_def split: if_splits api_read.splits prod.splits gang_check_result.splits)
  then show ?thesis
    using assms d p
    by (cases d; cases p)
      (auto simp: gate_and_finish_def gateAndBind_def bindToKubernetesAPI_def Let_def split: prod.splits if_splits option.splits)
qed

lemma half_bind_effect:
  assumes "Schedule cfg env ns uid req be s = (BindFailed BindStatusPatchFailed, s', eff)" and "se_bindSlice env = Found slice"
  obtains node where "eff = [PatchSpec (slice\<lparr>sl_NodeName := node\<rparr>)]" and "IsAssumed (ss_cache s') uid = None"
  using assms(1)
proof (cases rule: Schedule_cases)
  case (held k b c1)
  show ?thesis
    using that [OF gate_and_finish_half [OF held(2) assms(2)]] gate_and_finish_hold [OF _ _ _ held(2)]
    by (auto simp: NewReservationTxForHeld_def holding_def)
next
  case fresh
  from fresh(2) show ?thesis
  proof (cases rule: fresh_attempt_cases)
    case unplaced
    then show ?thesis
      by (auto simp: no_capacity_def Let_def split: if_splits prod.splits option.splits preempt_result.splits)
  next
    case (reserved k tx c')
    have "tx = NewReservationTxForHeld uid ns k req" by (rule ReserveD(2) [OF reserved(2)])
    then show ?thesis
      using that [OF gate_and_finish_half [OF reserved(3) assms(2)]] gate_and_finish_hold [OF _ _ _ reserved(3)]
      by (auto simp: NewReservationTxForHeld_def holding_def)
  qed simp
qed auto

text \<open>
  C38. Half a bind is never completed: when the patch of the node name is written and the patch of the phase is
  not, the cycle fails and its hold is given back, but the slice left on the API server, with a node and
  still pending, is passed over by every later reconcile of the scheduler and by every reconcile of the
  agent on any node, while the quota goes on counting its bytes.
\<close>

theorem half_bound_slice_is_stuck:
  assumes "Schedule cfg env ns uid req be s = (BindFailed BindStatusPatchFailed, s', eff)"
    and "se_bindSlice env = Found slice" and "sl_Phase slice = ''Pending''" and "sl_DeletionTimestamp slice = None"
    and "PatchSpec w \<in> set eff" and "sl_NodeName w \<noteq> []"
  shows "IsAssumed (ss_cache s') uid = None \<and> eff = [PatchSpec w] \<and>
    (pe_slice env' = Found w \<longrightarrow> (\<exists>p'. Reconcile_pending env' nn p = (done_result, p', None, []))) \<and>
    Reconcile_agent node io (Found w) m = (done_result, m, []) \<and>
    api_charge [] w = sliceHeldBytes w"
proof -
  obtain k where k: "eff = [PatchSpec (slice\<lparr>sl_NodeName := k\<rparr>)]" "IsAssumed (ss_cache s') uid = None"
    by (rule half_bind_effect [OF assms(1,2)])
  then have w: "w = slice\<lparr>sl_NodeName := k\<rparr>" using assms(5) by simp
  have "Reconcile_agent node io (Found w) m = (done_result, m, [])"
    using assms(3,4) by (simp add: w Reconcile_agent_def ReconcileSlice_def phase_defs)
  moreover have "pe_slice env' = Found w \<longrightarrow> (\<exists>p'. Reconcile_pending env' nn p = (done_result, p', None, []))"
    using assms(3,6) by (simp add: w Reconcile_pending_def Let_def)
  moreover have "api_charge [] w = sliceHeldBytes w"
    using assms(3,6) by (simp add: w api_charge_def of_gang_def)
  ultimately show ?thesis using k w by simp
qed

definition half_env :: sched_env where
  "half_env = (cycle_env (slice0\<lparr>sl_Phase := ''Pending''\<rparr>))\<lparr>se_bindStatus := WriteErr\<rparr>"

definition half_bound :: vgpu_slice where
  "half_bound = slice0\<lparr>sl_Phase := ''Pending'', sl_NodeName := ''n1''\<rparr>"

theorem half_bound_slice_is_stuck_witness:
  "fst (Schedule cfg_on half_env ''ns'' ''u'' 60 False (start_state seeded_node NewGangBindingGate)) = BindFailed BindStatusPatchFailed \<and>
    Reconcile_agent ''n1'' io_ok (Found half_bound) new_manager = (done_result, new_manager, []) \<and> api_charge [] half_bound = 10"
proof -
  obtain r s' eff where run: "Schedule cfg_on half_env ''ns'' ''u'' 60 False (start_state seeded_node NewGangBindingGate) = (r, s', eff)"
    by (rule prod_cases3)
  have r: "fst (Schedule cfg_on half_env ''ns'' ''u'' 60 False (start_state seeded_node NewGangBindingGate)) = BindFailed BindStatusPatchFailed"
    by code_simp
  have e: "snd (snd (Schedule cfg_on half_env ''ns'' ''u'' 60 False (start_state seeded_node NewGangBindingGate))) = [PatchSpec half_bound]"
    by code_simp
  have f: "se_bindSlice half_env = Found (slice0\<lparr>sl_Phase := ''Pending''\<rparr>)" by (simp add: half_env_def cycle_env_def)
  have b: "sl_NodeName half_bound = ''n1''" "sliceHeldBytes half_bound = 10" by code_simp+
  from half_bound_slice_is_stuck [of cfg_on half_env "''ns''" "''u''" 60 False _ s' eff _ half_bound, OF _ f] run r e b
  show ?thesis by (simp add: slice0_def)
qed

section \<open>A deletion that overtakes the agent\<close>

lemma EnsureReleasing:
  assumes "sl_Phase slice = SlicePhaseAllocating"
  shows "\<exists>t. to_releasing slice = slice\<lparr>sl_Phase := SlicePhaseReleasing, sl_LastError := t\<rparr>"
  using assms by (auto simp: to_releasing_def TransitionSlicePhase_def legalSliceTransitions_def Let_def)

text \<open>
  C39. A deletion can overtake the agent's recovery: a slice that is deleted while \<open>Allocating\<close>, with an
  allocation the agent has charged to a card but whose report failed, is first set to \<open>Releasing\<close>; because its
  status names no allocation the next reconcile takes it for never bound and drops the finalizer, and
  an agent that looks only then finds no slice: it frees nothing, and the card stays charged.
\<close>

theorem deletion_overtakes_wedge_recovery:
  assumes "sl_Phase slice = SlicePhaseAllocating" and "sl_AllocationID slice = []" and "sl_DeletionTimestamp slice = Some t"
    and "sv_slice env = Found slice" and "sv_patchRead env = Found slice" and "sv_patch env = Accepted"
    and "SliceFinalizerName \<in> set (sl_Finalizers slice)"
    and "map_of (al_bySlice (mg_alloc m)) (sl_UID slice) = Some k"
  shows "\<exists>w. so_written (Reconcile_slice env) = Some w \<and> sl_Phase w = SlicePhaseReleasing \<and>
    (\<forall>env'. sv_slice env' = Found w \<longrightarrow> sv_finalizer env' 0 = (Found w, Accepted) \<longrightarrow>
       (\<exists>w'. so_written (Reconcile_slice env') = Some w' \<and> SliceFinalizerName \<notin> set (sl_Finalizers w'))) \<and>
    (case Reconcile_agent node io NotFound m of (r, m', ws) \<Rightarrow>
       map_of (al_bySlice (mg_alloc m')) (sl_UID slice) = Some k \<and> mg_alloc m' = mg_alloc m)"
proof -
  obtain e where e: "to_releasing slice = slice\<lparr>sl_Phase := SlicePhaseReleasing, sl_LastError := e\<rparr>"
    using EnsureReleasing [OF assms(1)] by blast
  let ?w = "slice\<lparr>sl_Phase := SlicePhaseReleasing, sl_LastError := e\<rparr>"
  have "so_written (Reconcile_slice env) = Some ?w"
  proof -
    have p: "slice\<lparr>sl_Phase := sl_Phase slice, sl_DeviceUUID := sl_DeviceUUID slice, sl_AllocationID := sl_AllocationID slice,
        sl_AllocatedBytes := sl_AllocatedBytes slice, sl_FailureReason := sl_FailureReason slice, sl_LastError := sl_LastError slice,
        sl_Conditions := sl_Conditions slice\<rparr> = slice" by simp
    have "PatchSliceStatus (Found slice) Accepted to_releasing slice = (True, Some ?w)"
      unfolding PatchSliceStatus_def by (simp only: p e api_read.case Let_def if_True simp_thms)
    then show ?thesis
      using assms by (simp add: Reconcile_slice_def reconcileSlice_def handleDelete_def never_bound_def Let_def)
  qed
  moreover have "\<exists>w'. so_written (Reconcile_slice env') = Some w' \<and> SliceFinalizerName \<notin> set (sl_Finalizers w')"
    if "sv_slice env' = Found ?w" "sv_finalizer env' 0 = (Found ?w, Accepted)" for env'
  proof -
    let ?w' = "?w\<lparr>sl_Finalizers := filter (\<lambda>f. f \<noteq> SliceFinalizerName) (sl_Finalizers slice)\<rparr>"
    have "RetryOnConflict (sv_finalizer env') drop_slice_finalizer = (None, Some ?w')"
      by (rule RetryOnConflict_first [where x = ?w])
        (use that assms(7) in \<open>simp_all add: drop_slice_finalizer_def RemoveFinalizer_def\<close>)
    then have "so_written (Reconcile_slice env') = Some ?w'"
      using that assms(2,3) by (simp add: Reconcile_slice_def reconcileSlice_def handleDelete_def never_bound_def Let_def)
    then show ?thesis by auto
  qed
  ultimately show ?thesis using assms(8) by (auto simp: Reconcile_agent_def)
qed

definition unreported :: "manager_error option \<times> manager \<times> vgpu_slice list" where
  "unreported = ReconcileSlice (io_ok\<lparr>mi_update := Some (\<lambda>site. if site = AtOutcome then VersionConflict else Accepted)\<rparr>)
     (placed_slice\<lparr>sl_Finalizers := [SliceFinalizerName]\<rparr>) new_manager"

definition doomed_slice :: vgpu_slice where
  "doomed_slice = (last (snd (snd unreported)))\<lparr>sl_DeletionTimestamp := Some 9\<rparr>"

theorem deletion_overtakes_wedge_recovery_witness:
  "\<exists>w m. so_written (Reconcile_slice (slice_env0 doomed_slice)) = Some w \<and> sl_Phase w = SlicePhaseReleasing \<and>
    Reconcile_agent ''n1'' io_ok NotFound m = (done_result, m, []) \<and> CommittedBytes ''GPU-A'' (mg_alloc m) = 30"
proof -
  let ?m = "fst (snd unreported)"
  have d: "sl_Phase doomed_slice = SlicePhaseAllocating" "sl_AllocationID doomed_slice = []" "sl_DeletionTimestamp doomed_slice = Some 9"
    "SliceFinalizerName \<in> set (sl_Finalizers doomed_slice)"
    by code_simp+
  have env: "sv_slice (slice_env0 doomed_slice) = Found doomed_slice" "sv_patchRead (slice_env0 doomed_slice) = Found doomed_slice"
    "sv_patch (slice_env0 doomed_slice) = Accepted"
    by (simp_all add: slice_env0_def)
  have k: "map_of (al_bySlice (mg_alloc ?m)) (sl_UID doomed_slice) = Some ''alloc-abc-5''" by code_simp
  have c: "CommittedBytes ''GPU-A'' (mg_alloc ?m) = 30" by code_simp
  show ?thesis
    using deletion_overtakes_wedge_recovery [OF d(1-3) env d(4) k, of "''n1''" io_ok] c by (auto simp: Reconcile_agent_def)
qed

end
