(* ===== verification/NodeLedger.thy ===== *)
theory NodeLedger
  imports SchedulerProps
begin

text \<open>
  What the scheduler's cache holds for one slice on one node (\<open>hold\<close>): its assumed, confirmed and allocated
  bytes there. The holds of a node add up to what the cache counts on it (\<open>used_on_holds\<close>), every operation
  on a slice touches only that slice's records (\<open>only_at\<close>), and no operation takes a node above its total
  once it is within it (\<open>room\<close>).
\<close>

section \<open>What a slice holds on a node\<close>

definition hold :: "string \<Rightarrow> vram_cache \<Rightarrow> string \<Rightarrow> int" where
  "hold n c u = at_key (on_node n) (assumedBySlice c) u + at_key (on_node n) (confirmedBySlice c) u
     + at_key (alloc_on (allocatedNodeBySlice c) n) (allocatedBytesBySlice c) u"

lemma gsum_over:
  assumes "gmap_ok m" and "finite U" and "fst ` set m \<subseteq> U"
  shows "gsum f m = (\<Sum>u\<in>U. at_key f m u)"
  using assms(1,3)
proof (induction m)
  case (Cons x m)
  obtain k v where x: "x = (k, v)" by (cases x)
  have ok: "gmap_ok m" and k: "map_of m k = None"
    using Cons.prems(1) by (auto simp: x gmap_ok_def map_of_eq_None_iff)
  have "(\<Sum>u\<in>U. at_key f ((k, v) # m) u) = (\<Sum>u\<in>U. (if u = k then f k v else 0) + at_key f m u)"
    using k by (intro sum.cong) auto
  also have "\<dots> = f k v + (\<Sum>u\<in>U. at_key f m u)"
    using Cons.prems(2) assms(2) by (simp add: sum.distrib x)
  finally show ?case using Cons.IH [OF ok] Cons.prems(2) by (simp add: x)
qed simp

definition holders :: "vram_cache \<Rightarrow> string set" where
  "holders c = fst ` set (assumedBySlice c) \<union> fst ` set (confirmedBySlice c) \<union> fst ` set (allocatedBytesBySlice c)"

lemma used_on_holds:
  assumes "cache_ok c" and "finite U" and "holders c \<subseteq> U"
  shows "used_on c n = (\<Sum>u\<in>U. hold n c u)"
proof -
  note maps = cache_okD(1) [OF assms(1), unfolded maps_ok_def]
  have s: "fst ` set (assumedBySlice c) \<subseteq> U" "fst ` set (confirmedBySlice c) \<subseteq> U" "fst ` set (allocatedBytesBySlice c) \<subseteq> U"
    using assms(3) by (auto simp: holders_def)
  show ?thesis
    using maps gsum_over [OF _ assms(2) s(1)] gsum_over [OF _ assms(2) s(2)] gsum_over [OF _ assms(2) s(3)]
    by (simp add: used_on_def on_defs hold_def sum.distrib)
qed

lemma finite_holders [simp]: "finite (holders c)"
  by (simp add: holders_def)

lemma hold_nonneg: "cache_ok c \<Longrightarrow> 0 \<le> hold n c u"
  using cache_okD(3) [of c] unfolding entries_ok_def hold_def
  by (intro add_nonneg_nonneg) (auto simp: on_node_def alloc_on_def split: option.split)

text \<open>Occupants of the node fit it together.\<close>

lemma holds_sum:
  assumes "cache_ok c" and "finite S" and "\<And>u. u \<in> S \<Longrightarrow> f u \<le> hold n c u"
  shows "sum f S \<le> used_on c n"
proof -
  have "sum f S \<le> (\<Sum>u\<in>S. hold n c u)" using assms(3) by (rule sum_mono)
  also have "\<dots> \<le> (\<Sum>u\<in>S \<union> holders c. hold n c u)"
    using assms(2) hold_nonneg [OF assms(1)] by (intro sum_mono2) auto
  also have "\<dots> = used_on c n" using assms(1,2) by (intro used_on_holds [symmetric]) auto
  finally show ?thesis .
qed

lemma hold_cong:
  assumes "map_of (assumedBySlice c') u = map_of (assumedBySlice c) u" and "map_of (confirmedBySlice c') u = map_of (confirmedBySlice c) u"
    and "map_of (allocatedNodeBySlice c') u = map_of (allocatedNodeBySlice c) u"
    and "map_of (allocatedBytesBySlice c') u = map_of (allocatedBytesBySlice c) u"
  shows "hold n c' u = hold n c u"
  using assms by (simp add: hold_def alloc_on_def split: option.split)

section \<open>Operations on the cache\<close>

text \<open>The node is known, with the given total, and what is counted on it is within the total.\<close>

definition room :: "string \<Rightarrow> int \<Rightarrow> vram_cache \<Rightarrow> bool" where
  "room n tot c \<longleftrightarrow> (\<exists>N. map_of (nodes c) n = Some N \<and> ns_Total N = tot \<and> ns_Allocated N + ns_Reserved N \<le> tot)"

text \<open>A node update that takes bytes off keeps the room.\<close>

lemma room_upd_node:
  assumes "room n tot c" and "\<And>N. map_of (nodes c) k = Some N \<Longrightarrow> k = n \<Longrightarrow>
      ns_Total (f N) = ns_Total N \<and> ns_Allocated (f N) + ns_Reserved (f N) \<le> ns_Allocated N + ns_Reserved N"
  shows "room n tot (upd_node k f c)"
proof -
  obtain N where N: "map_of (nodes c) n = Some N" "ns_Total N = tot" "ns_Allocated N + ns_Reserved N \<le> tot"
    using assms(1) by (auto simp: room_def)
  show ?thesis
    using N assms(2) [of N] by (cases "k = n") (fastforce simp: room_def upd_node_nodes)+
qed

lemma drop_reserved_shrinks:
  assumes "node_ok r a N" and "0 \<le> b" and "b \<le> r"
  shows "ns_Total (drop_reserved b N) = ns_Total N \<and>
    ns_Allocated (drop_reserved b N) + ns_Reserved (drop_reserved b N) \<le> ns_Allocated N + ns_Reserved N"
proof -
  have "ns_Reserved (drop_reserved b N) = r - b"
    using node_ok_drop_reserved [OF assms] by (simp add: node_ok_def)
  moreover have "ns_Reserved N = r" using assms(1) by (simp add: node_ok_def)
  ultimately show ?thesis using assms(2) by (simp add: drop_reserved_def recalculateFreeVRAM_def Let_def)
qed

lemma drop_allocated_shrinks:
  assumes "node_ok r a N" and "0 \<le> b" and "b \<le> a"
  shows "ns_Total (drop_allocated b N) = ns_Total N \<and>
    ns_Allocated (drop_allocated b N) + ns_Reserved (drop_allocated b N) \<le> ns_Allocated N + ns_Reserved N"
proof -
  note bounds = node_ok_bounds [OF assms(1)]
  have a: "b \<le> ns_Allocated N" using assms by (simp add: node_ok_def)
  then have "i64 (ns_Allocated N - b) = ns_Allocated N - b" using bounds assms(2) by (intro i64_id) linarith+
  then show ?thesis using assms(2) a by (simp add: drop_allocated_def recalculateFreeVRAM_def Let_def)
qed

lemma entry_bytes:
  assumes "cache_ok c"
  shows "map_of (assumedBySlice c) v = Some x \<Longrightarrow> 0 \<le> aa_Bytes x"
    and "map_of (confirmedBySlice c) v = Some x \<Longrightarrow> 0 \<le> aa_Bytes x"
    and "map_of (allocatedBytesBySlice c) v = Some b \<Longrightarrow> 0 \<le> b"
  using cache_okD(3) [OF assms] unfolding entries_ok_def by blast+

lemma on_node_sums_nonneg:
  assumes "cache_ok c"
  shows "0 \<le> assumed_on c n" and "0 \<le> confirmed_on c n"
  unfolding on_defs
  using cache_okD(1) [OF assms] entry_bytes [OF assms]
  by (auto simp: maps_ok_def intro!: on_node_nonneg)

lemma room_drop_reserved:
  assumes "cache_ok c" and "room n tot c" and "0 \<le> b" and "b \<le> assumed_on c k + confirmed_on c k"
  shows "room n tot (upd_node k (drop_reserved b) c)"
  using room_upd_node [OF assms(2)] drop_reserved_shrinks [OF counters_okD [OF assms(1)] assms(3,4)] by blast

lemma room_Rollback:
  assumes "cache_ok c" and "room n tot c"
  shows "room n tot (RollbackAssumedSlice u c)"
proof (cases "map_of (assumedBySlice c) u")
  case (Some a)
  have "aa_Bytes a \<le> assumed_on c (aa_NodeName a)"
    using on_node_ge [OF _ Some] cache_okD(1) [OF assms(1)] entry_bytes(1) [OF assms(1)] by (simp add: on_defs maps_ok_def)
  then have "room n tot (upd_node (aa_NodeName a) (drop_reserved (aa_Bytes a)) c)"
    using on_node_sums_nonneg(2) [OF assms(1)] entry_bytes(1) [OF assms(1) Some]
    by (intro room_drop_reserved assms) (auto intro: add_increasing2)
  then show ?thesis by (simp add: RollbackAssumedSlice_Some [OF Some] room_def)
qed (simp add: assms(2) RollbackAssumedSlice_None)

lemma room_ReleaseConfirmed:
  assumes "cache_ok c" and "room n tot c"
  shows "room n tot (ReleaseConfirmedSlice u c)"
proof (cases "map_of (confirmedBySlice c) u")
  case (Some a)
  have "aa_Bytes a \<le> confirmed_on c (aa_NodeName a)"
    using on_node_ge [OF _ Some] cache_okD(1) [OF assms(1)] entry_bytes(2) [OF assms(1)] by (simp add: on_defs maps_ok_def)
  then have "room n tot (upd_node (aa_NodeName a) (drop_reserved (aa_Bytes a)) c)"
    using on_node_sums_nonneg(1) [OF assms(1)] entry_bytes(2) [OF assms(1) Some]
    by (intro room_drop_reserved assms) (auto intro: add_increasing)
  then show ?thesis by (simp add: ReleaseConfirmedSlice_Some [OF Some] room_def)
qed (simp add: assms(2) ReleaseConfirmedSlice_None)

lemma alloc_bytes_le:
  assumes "cache_ok c" and "node_agrees c u k"
  shows "0 \<le> gget 0 (allocatedBytesBySlice c) u \<and> gget 0 (allocatedBytesBySlice c) u \<le> allocated_on c k"
proof (cases "map_of (allocatedBytesBySlice c) u")
  case None
  then show ?thesis using allocated_on_nonneg [OF assms(1)] by simp
next
  case (Some b)
  then obtain m where m: "map_of (allocatedNodeBySlice c) u = Some m" using alloc_entry [OF cache_okD(2) [OF assms(1)]] by blast
  then have "m = k" using assms(2) by (simp add: node_agrees_def)
  then show ?thesis
    using alloc_on_ge [OF _ Some m] cache_okD(1) [OF assms(1)] entry_bytes(3) [OF assms(1)] Some
    by (simp add: on_defs maps_ok_def)
qed

lemma room_drop_alloc:
  assumes "cache_ok c" and "room n tot c" and "node_agrees c u k"
  shows "room n tot (ReleaseAllocated k (gget 0 (allocatedBytesBySlice c) u) (drop_alloc_entry ph u c))"
proof -
  have nd: "nodes (drop_alloc_entry ph u c) = nodes c" by (simp add: drop_alloc_entry_def)
  then have "room n tot (drop_alloc_entry ph u c)" using assms(2) by (simp add: room_def)
  then show ?thesis
    unfolding ReleaseAllocated_def
  proof (rule room_upd_node)
    fix N assume "map_of (nodes (drop_alloc_entry ph u c)) k = Some N"
    then show "ns_Total (drop_allocated (gget 0 (allocatedBytesBySlice c) u) N) = ns_Total N \<and>
        ns_Allocated (drop_allocated (gget 0 (allocatedBytesBySlice c) u) N) + ns_Reserved (drop_allocated (gget 0 (allocatedBytesBySlice c) u) N)
          \<le> ns_Allocated N + ns_Reserved N"
      using drop_allocated_shrinks [OF counters_okD [OF assms(1), of k N]] alloc_bytes_le [OF assms(1,3)] by (simp add: nd)
  qed
qed

lemma room_ReleaseSliceOnce:
  "cache_ok c \<Longrightarrow> room n tot c \<Longrightarrow> node_agrees c u k \<Longrightarrow> room n tot (ReleaseSliceOnce u k c)"
  by (simp add: ReleaseSliceOnce_alt room_drop_alloc)

lemma room_FailSliceOnce:
  assumes "cache_ok c" and "room n tot c" and "node_agrees c u k"
  shows "room n tot (FailSliceOnce u k c)"
proof -
  have "room n tot (drop_alloc_entry ''Failed'' u c)" using assms(2) by (simp add: room_def drop_alloc_entry_def)
  then show ?thesis
    using assms room_drop_alloc [OF assms] cache_ok_drop_alloc [OF assms(1,3)] cache_ok_drop_alloc0 [OF assms(1)]
    by (simp add: FailSliceOnce_alt Let_def room_ReleaseConfirmed)
qed

lemma room_Assume:
  assumes "cache_ok c" and "room n tot c" and "0 < req" and "AssumeSlice u ns k req ttl now c = Inr c'"
  shows "room n tot c'"
proof -
  obtain N where N: "map_of (nodes c) k = Some N" "req \<le> ns_Free N"
    and c': "nodes c' = gput k (add_reserved req N) (nodes c)"
    using assms(4) by (rule AssumeSlice_SomeD) simp
  note nok = counters_okD [OF assms(1) N(1)]
  show ?thesis
    using assms(2) node_ok_free_room [OF nok assms(3) N(2)] add_reserved_node [OF nok _ N(2)] assms(3) N(1)
    by (cases "k = n") (auto simp: room_def c')
qed

lemma room_reap: "cache_ok c \<Longrightarrow> room n tot c \<Longrightarrow> room n tot (reapExpiredAssumptions now c)"
proof -
  have "room n tot (reap_loop now m c)"
    if "cache_ok c" "room n tot c" "\<And>u a. (u, a) \<in> set m \<Longrightarrow> map_of (assumedBySlice c) u = Some a" "distinct (map fst m)" for m
    using that
  proof (induction m arbitrary: c)
    case (Cons x m)
    obtain u a where x: "x = (u, a)" by (cases x)
    let ?c = "if now > aa_ExpiresAt a then RollbackAssumedSlice u c else c"
    have "cache_ok ?c" "room n tot ?c"
      using Cons.prems(1,2) by (simp_all add: cache_ok_RollbackAssumedSlice room_Rollback)
    moreover have "map_of (assumedBySlice ?c) v = Some b" if "(v, b) \<in> set m" for v b
    proof -
      have "v \<noteq> u" using Cons.prems(4) that by (auto simp: x image_iff)
      then show ?thesis using Cons.prems(3) [of v b] that by (simp add: x RollbackAssumedSlice_other)
    qed
    moreover have "map_of (assumedBySlice c) u = Some a" using Cons.prems(3) by (simp add: x)
    ultimately show ?case using Cons.IH [of ?c] Cons.prems(4) by (simp only: x reap_loop_Cons) simp
  qed simp
  then show "cache_ok c \<Longrightarrow> room n tot c \<Longrightarrow> ?thesis"
    unfolding reapExpiredAssumptions_def
    using cache_okD(1) by (auto simp: maps_ok_def gmap_ok_def)
qed

text \<open>The operation touches what is recorded for one slice only.\<close>

definition only_at :: "string \<Rightarrow> vram_cache \<Rightarrow> vram_cache \<Rightarrow> bool" where
  "only_at u c c' \<longleftrightarrow> (\<forall>v. v \<noteq> u \<longrightarrow>
     map_of (assumedBySlice c') v = map_of (assumedBySlice c) v \<and> map_of (confirmedBySlice c') v = map_of (confirmedBySlice c) v \<and>
     map_of (allocatedNodeBySlice c') v = map_of (allocatedNodeBySlice c) v \<and>
     map_of (allocatedBytesBySlice c') v = map_of (allocatedBytesBySlice c) v)"

lemma only_at_hold: "only_at u c c' \<Longrightarrow> v \<noteq> u \<Longrightarrow> hold n c' v = hold n c v"
  by (rule hold_cong) (simp_all add: only_at_def)

lemma only_at_trans: "only_at u c c' \<Longrightarrow> only_at u c' c'' \<Longrightarrow> only_at u c c''"
  by (simp add: only_at_def)

lemma only_at_Assume: "AssumeSlice u ns k req ttl now c = Inr c' \<Longrightarrow> only_at u c c'"
  by (elim AssumeSlice_SomeD) (simp add: only_at_def)

lemma only_at_Rollback: "only_at u c (RollbackAssumedSlice u c)"
  by (simp add: only_at_def RollbackAssumedSlice_def Let_def split: option.split)

lemma only_at_ReleaseConfirmed: "only_at u c (ReleaseConfirmedSlice u c)"
  by (simp add: only_at_def ReleaseConfirmedSlice_def Let_def split: option.split)

lemma only_at_Confirm: "only_at u c (snd (ConfirmSliceOrRearm u ns k b now c))"
  by (simp add: only_at_def ConfirmSliceOrRearm_def Let_def split: option.split)

lemma only_at_Pin: "only_at u c (snd (PinAssumption u ttl now c))"
  by (simp add: only_at_def PinAssumption_def split: option.split)

lemma only_at_drop: "only_at u c (drop_alloc_entry ph u c)"
  by (simp add: only_at_def drop_alloc_entry_def)

lemma only_at_ReleaseAllocated: "only_at u c (ReleaseAllocated k b c)"
  by (simp add: only_at_def ReleaseAllocated_def)

lemma only_at_ReleaseSliceOnce: "only_at u c (ReleaseSliceOnce u k c)"
  using only_at_trans [OF only_at_drop only_at_ReleaseAllocated] by (auto simp: ReleaseSliceOnce_alt) (simp add: only_at_def)+

lemma only_at_FailSliceOnce: "only_at u c (FailSliceOnce u k c)"
proof -
  have "only_at u c (ReleaseAllocated k b (drop_alloc_entry ''Failed'' u c))" for b
    by (rule only_at_trans [OF only_at_drop only_at_ReleaseAllocated])
  moreover have "only_at u c c" by (simp add: only_at_def)
  ultimately show ?thesis
    by (auto simp: FailSliceOnce_alt Let_def intro: only_at_trans [OF _ only_at_ReleaseConfirmed] only_at_drop)
qed

lemma only_at_Promote: "only_at u c (snd (PromoteSliceToAllocatedOnce u k b c))"
  by (auto simp: only_at_def PromoteSliceToAllocatedOnce_def promoteConfirmedToAllocatedLocked_def Let_def
      split: option.splits prod.splits)

lemma only_at_Sync: "only_at u c (SyncCacheFromSlice u k p b c)"
  using only_at_Promote only_at_ReleaseSliceOnce only_at_FailSliceOnce by (auto simp: SyncCacheFromSlice_def) (simp add: only_at_def)

lemma only_at_Forget: "only_at u c (ForgetSlice u k c)"
proof -
  let ?c2 = "ReleaseConfirmedSlice u (RollbackAssumedSlice u c)"
  have "only_at u c ?c2" by (rule only_at_trans [OF only_at_Rollback only_at_ReleaseConfirmed])
  moreover have "only_at u ?c2 (ReleaseSliceOnce u k ?c2)" by (rule only_at_ReleaseSliceOnce)
  ultimately show ?thesis
    by (simp add: ForgetSlice_def Let_def only_at_def)
qed

text \<open>Holds that survive.\<close>

lemma hold_Assume:
  assumes "cache_ok c" and "0 \<le> req" and "AssumeSlice u ns k req ttl now c = Inr c'"
  shows "hold n c v \<le> hold n c' v"
proof (cases "v = u")
  case True
  from assms(3) obtain N where "\<not> ghas (assumedBySlice c) u"
    "c' = c\<lparr>assumedBySlice := gput u \<lparr>aa_SliceUID = u, aa_Namespace = ns, aa_NodeName = k,
           aa_Bytes = req, aa_ExpiresAt = now + ttl\<rparr> (assumedBySlice c), nodes := gput k (add_reserved req N) (nodes c)\<rparr>"
    by (rule AssumeSlice_SomeD)
  then show ?thesis using assms(2) True by (simp add: hold_def not_ghas on_node_def alloc_on_def split: option.split)
next
  case False
  then show ?thesis using only_at_hold [OF only_at_Assume [OF assms(3)]] by simp
qed

lemma hold_Pin: "hold n (snd (PinAssumption u ttl now c)) v = hold n c v"
  by (auto simp: hold_def PinAssumption_def on_node_def split: option.split)

lemma hold_Confirm:
  assumes "cache_ok c" and "ghas (assumedBySlice c) u"
  shows "hold n (snd (ConfirmSliceOrRearm u ns k b now c)) v = hold n c v"
proof -
  obtain a where a: "map_of (assumedBySlice c) u = Some a" using assms(2) by (auto elim: ghasE)
  have "map_of (confirmedBySlice c) u = None"
    using cache_okD(2) [OF assms(1)] assms(2) by (simp add: stages_ok_def not_ghas)
  then show ?thesis by (simp add: ConfirmSliceOrRearm_def a hold_def on_node_def alloc_on_def split: option.split)
qed

lemma room_Promote:
  assumes "cache_ok c" and "room n tot c" and "map_of (confirmedBySlice c) u = Some a" and "aa_NodeName a = n"
    and "0 \<le> x" and "x \<le> aa_Bytes a"
  shows "room n tot (snd (PromoteSliceToAllocatedOnce u n x c))"
proof (cases "gget [] (syncedPhaseBySlice c) u = ''Ready''")
  case True
  then show ?thesis using assms(2) by (simp add: PromoteSliceToAllocatedOnce_def)
next
  case False
  obtain N where N: "map_of (nodes c) n = Some N" "ns_Total N = tot" "ns_Allocated N + ns_Reserved N \<le> tot"
    using assms(2) by (auto simp: room_def)
  note nok = counters_okD [OF assms(1) N(1)] and bounds = node_ok_bounds [OF counters_okD [OF assms(1) N(1)]]
  have "aa_Bytes a \<le> confirmed_on c n"
    using on_node_ge [OF _ assms(3)] cache_okD(1) [OF assms(1)] entry_bytes(2) [OF assms(1)] assms(4)
    by (simp add: on_defs maps_ok_def)
  then have b: "aa_Bytes a \<le> ns_Reserved N" "0 \<le> aa_Bytes a"
    using nok on_node_sums_nonneg(1) [OF assms(1), of n] entry_bytes(2) [OF assms(1,3)] by (simp_all add: node_ok_def)
  have i: "i64 (ns_Reserved N - aa_Bytes a) = ns_Reserved N - aa_Bytes a" "i64 (ns_Allocated N + x) = ns_Allocated N + x"
    using b bounds assms(5,6) by (auto intro!: i64_id)
  show ?thesis
    using False N b assms(3-6) i
    by (simp add: PromoteSliceToAllocatedOnce_def promoteConfirmedToAllocatedLocked_def room_def recalculateFreeVRAM_def Let_def)
qed

lemma hold_promoted:
  assumes "cache_ok c" and "gget [] (syncedPhaseBySlice c) u \<noteq> ''Ready''"
  shows "x \<le> hold n (snd (PromoteSliceToAllocatedOnce u n x c)) u"
proof -
  obtain e c1 where p: "promoteConfirmedToAllocatedLocked u n x c = (e, c1)" by (cases "promoteConfirmedToAllocatedLocked u n x c")
  have a: "assumedBySlice c1 = assumedBySlice c" and f: "confirmedBySlice c1 = confirmedBySlice c \<or> confirmedBySlice c1 = gdel u (confirmedBySlice c)"
    using p by (auto simp: promoteConfirmedToAllocatedLocked_def Let_def split: option.splits)
  have "0 \<le> at_key (on_node n) (assumedBySlice c1) u" "0 \<le> at_key (on_node n) (confirmedBySlice c1) u"
    using a f entry_bytes [OF assms(1)] by (auto simp: on_node_def split: option.splits if_splits)
  then show ?thesis
    using assms(2) by (simp add: PromoteSliceToAllocatedOnce_def p hold_def alloc_on_def)
qed

end
