(* ===== verification/NodeSystem.thy ===== *)
theory NodeSystem
  imports NodeLedger AgentProps SliceLifecycle
begin

text \<open>
  The scheduler, the controllers and the agent of one node together: a step relation whose steps are the
  modelled operations on the scheduler's cache, the agent's manager and the slices on the API server, in any
  order. It describes a node with a single card whose advertised bytes are at most what the card can
  hold, and shows that the scheduler's ledger covers the agent's: a slice bound to the node always finds
  room on the card.
\<close>

section \<open>The system\<close>

record node_system =
  ys_cache :: vram_cache
  ys_agent :: manager
  ys_api :: "(string, vgpu_slice) gomap"

definition pending :: "vgpu_slice \<Rightarrow> bool" where
  "pending s \<longleftrightarrow> sl_Phase s = [] \<or> sl_Phase s = SlicePhasePending"

definition store_writes :: "vgpu_slice list \<Rightarrow> (string, vgpu_slice) gomap \<Rightarrow> (string, vgpu_slice) gomap" where
  "store_writes ws api = fold (\<lambda>w. gput (sl_UID w) w) ws api"

definition effect_slice :: "api_effect \<Rightarrow> vgpu_slice" where
  "effect_slice e = (case e of PatchSpec s \<Rightarrow> s | PatchStatus s \<Rightarrow> s)"

text \<open>The API server removes an object that is being deleted once its finalizer is gone.\<close>

definition store_controlled :: "vgpu_slice \<Rightarrow> (string, vgpu_slice) gomap \<Rightarrow> (string, vgpu_slice) gomap" where
  "store_controlled w api =
    (if sl_DeletionTimestamp w \<noteq> None \<and> SliceFinalizerName \<notin> set (sl_Finalizers w)
     then gdel (sl_UID w) api else gput (sl_UID w) w api)"

text \<open>A UID is given once.\<close>

definition unused :: "string \<Rightarrow> node_system \<Rightarrow> bool" where
  "unused u y \<longleftrightarrow> u \<noteq> [] \<and> map_of (ys_api y) u = None \<and> \<not> ghas (assumedBySlice (ys_cache y)) u \<and>
    \<not> ghas (confirmedBySlice (ys_cache y)) u \<and> \<not> ghas (allocatedNodeBySlice (ys_cache y)) u \<and>
    map_of (al_bySlice (mg_alloc (ys_agent y))) u = None"

text \<open>The controller's reads show the slice as it is.\<close>

definition reads_current :: "slice_env \<Rightarrow> vgpu_slice \<Rightarrow> bool" where
  "reads_current env s \<longleftrightarrow> sv_slice env = Found s \<and> (\<forall>x. sv_patchRead env = Found x \<longrightarrow> x = s) \<and>
    (\<forall>i x. fst (sv_finalizer env i) = Found x \<longrightarrow> x = s)"

text \<open>
  The steps. Three of them rest on what the code's timing gives: a hold does not expire between the
  patches of its bind and its confirmation (\<open>bindPinTTL\<close>), a slice's own scheduling and synchronisation do
  not overlap (one reconcile per key), and a slice is not removed while the agent has an allocation for it
  that its status does not show, which \<open>Handover.deletion_overtakes_wedge_recovery\<close> shows to be possible.
\<close>

inductive node_step :: "string \<Rightarrow> alloc_device \<Rightarrow> node_system \<Rightarrow> node_system \<Rightarrow> bool" for n d where
  create: "unused (sl_UID s) y \<Longrightarrow> pending s \<Longrightarrow> sl_AllocationID s = [] \<Longrightarrow> 0 < sl_RequestedVRAMBytes s \<Longrightarrow>
    node_step n d y (y\<lparr>ys_api := gput (sl_UID s) s (ys_api y)\<rparr>)"
| reserve: "map_of (ys_api y) u = Some s \<Longrightarrow> pending s \<Longrightarrow>
    AssumeSlice u ns k (sl_RequestedVRAMBytes s) ttl now (ys_cache y) = Inr c \<Longrightarrow>
    node_step n d y (y\<lparr>ys_cache := c\<rparr>)"
| give_back: "\<forall>s. map_of (ys_api y) u = Some s \<longrightarrow> pending s \<Longrightarrow>
    node_step n d y (y\<lparr>ys_cache := RollbackAssumedSlice u (ys_cache y)\<rparr>)"
| reap: "\<forall>u s a. map_of (ys_api y) u = Some s \<longrightarrow> map_of (assumedBySlice (ys_cache y)) u = Some a \<longrightarrow>
      \<not> pending s \<longrightarrow> now \<le> aa_ExpiresAt a \<Longrightarrow>
    node_step n d y (y\<lparr>ys_cache := reapExpiredAssumptions now (ys_cache y)\<rparr>)"
| pin: "node_step n d y (y\<lparr>ys_cache := snd (PinAssumption u ttl now (ys_cache y))\<rparr>)"
| bind: "map_of (ys_api y) u = Some s \<Longrightarrow> pending s \<Longrightarrow> IsAssumed (ys_cache y) u = Some (k, b) \<Longrightarrow>
    bindToKubernetesAPI (Found s) patch statusPatch now (ys_cache y) k = (err, eff) \<Longrightarrow>
    node_step n d y (y\<lparr>ys_api := store_writes (map effect_slice eff) (ys_api y)\<rparr>)"
| confirm: "ghas (assumedBySlice (ys_cache y)) u \<Longrightarrow>
    node_step n d y (y\<lparr>ys_cache := snd (ConfirmSliceOrRearm u ns k b now (ys_cache y))\<rparr>)"
| sync: "map_of (ys_api y) u = Some s \<Longrightarrow> \<not> ghas (assumedBySlice (ys_cache y)) u \<Longrightarrow> sl_NodeName s = n \<Longrightarrow>
    sl_Phase s \<in> {SlicePhaseReady, SlicePhaseReleased, SlicePhaseFailed} \<Longrightarrow>
    node_step n d y (y\<lparr>ys_cache := SyncCacheFromSlice u n (sl_Phase s) (sl_AllocatedBytes s) (ys_cache y)\<rparr>)"
| forget: "map_of (ys_api y) u = None \<Longrightarrow> node_agrees (ys_cache y) u k \<Longrightarrow> k \<noteq> [] \<Longrightarrow>
    node_step n d y (y\<lparr>ys_cache := ForgetSlice u k (ys_cache y)\<rparr>)"
| other_node: "k \<noteq> n \<Longrightarrow> cache_step (ys_cache y) c \<Longrightarrow> c = RemoveNode k (ys_cache y) \<or> c = UpdateNode k tot alloc (ys_cache y) \<Longrightarrow>
    node_step n d y (y\<lparr>ys_cache := c\<rparr>)"
| seed: "node_step n d y (y\<lparr>ys_cache := MarkSeeded (ys_cache y)\<rparr>)"
| health: "node_step n d y (y\<lparr>ys_cache := SetNodeHealth k h (ys_cache y)\<rparr>)"
| zone: "node_step n d y (y\<lparr>ys_cache := SetNodeZone k z (ys_cache y)\<rparr>)"
| delete_asked: "map_of (ys_api y) u = Some s \<Longrightarrow>
    node_step n d y (y\<lparr>ys_api := gput u (s\<lparr>sl_DeletionTimestamp := Some t\<rparr>) (ys_api y)\<rparr>)"
| preempt: "map_of (ys_api y) u = Some s \<Longrightarrow> mark_change requester grace now s = Some w \<or> unmark_change s = Some w \<Longrightarrow>
    node_step n d y (y\<lparr>ys_api := gput u w (ys_api y)\<rparr>)"
| controller: "map_of (ys_api y) u = Some s \<Longrightarrow> reads_current env s \<Longrightarrow> so_written (Reconcile_slice env) = Some w \<Longrightarrow>
    map_of (store_controlled w (ys_api y)) u = None \<longrightarrow> map_of (al_bySlice (mg_alloc (ys_agent y))) u = None \<Longrightarrow>
    node_step n d y (y\<lparr>ys_api := store_controlled w (ys_api y)\<rparr>)"
| agent: "map_of (ys_api y) u = Some s \<Longrightarrow> Reconcile_agent n io (Found s) (ys_agent y) = (res, m, ws) \<Longrightarrow>
    mi_devices io = Some [d] \<Longrightarrow> mi_update io = Some reply \<Longrightarrow>
    \<not> ghas (al_byAlloc (mg_alloc (ys_agent y))) (alloc_id u (mi_now io)) \<Longrightarrow>
    node_step n d y (y\<lparr>ys_agent := m, ys_api := store_writes ws (ys_api y)\<rparr>)"

definition fresh_system :: "string \<Rightarrow> int \<Rightarrow> bool \<Rightarrow> cdi_dir \<Rightarrow> node_system" where
  "fresh_system n tot mock cdi =
    \<lparr>ys_cache = UpdateNode n tot 0 NewVRAMCache, ys_agent = NewManager n mock True [] cdi, ys_api = []\<rparr>"

inductive system_run :: "string \<Rightarrow> alloc_device \<Rightarrow> int \<Rightarrow> node_system \<Rightarrow> bool" for n d tot where
  start: "system_run n d tot (fresh_system n tot mock cdi)"
| step: "system_run n d tot y \<Longrightarrow> node_step n d y y' \<Longrightarrow> system_run n d tot y'"

section \<open>The invariant\<close>

text \<open>Phases in which a slice occupies its node in the scheduler's ledger, and those in which the agent may have allocated it.\<close>

definition occupying :: "vgpu_slice \<Rightarrow> bool" where
  "occupying s \<longleftrightarrow> sl_Phase s \<in> {SlicePhaseScheduled, SlicePhaseAllocating, SlicePhaseReady, PhasePreempting}"

definition allocatable :: "vgpu_slice \<Rightarrow> bool" where
  "allocatable s \<longleftrightarrow> sl_Phase s \<in> {SlicePhaseAllocating, SlicePhaseReady, PhasePreempting, SlicePhaseReleasing}"

definition slice_ok :: "string \<Rightarrow> vram_cache \<Rightarrow> string \<Rightarrow> vgpu_slice \<Rightarrow> bool" where
  "slice_ok n c u s \<longleftrightarrow> sl_UID s = u \<and> u \<noteq> [] \<and> 0 < sl_RequestedVRAMBytes s \<and>
    (\<forall>a. map_of (assumedBySlice c) u = Some a \<longrightarrow> sl_RequestedVRAMBytes s \<le> aa_Bytes a) \<and>
    (\<forall>m. map_of (allocatedNodeBySlice c) u = Some m \<longrightarrow> m = sl_NodeName s \<and> \<not> pending s) \<and>
    (sl_NodeName s = n \<longrightarrow> occupying s \<longrightarrow> sl_RequestedVRAMBytes s \<le> hold n c u) \<and>
    (sl_NodeName s = n \<longrightarrow> sl_Phase s = SlicePhaseReady \<or> sl_Phase s = PhasePreempting \<longrightarrow>
       sl_AllocatedBytes s = sl_RequestedVRAMBytes s) \<and>
    (pending s \<or> sl_Phase s = SlicePhaseScheduled \<or> sl_Phase s = SlicePhaseAllocating \<longrightarrow> sl_AllocationID s = [])"

definition backs :: "string \<Rightarrow> vgpu_slice \<Rightarrow> string \<Rightarrow> ledger_entry \<Rightarrow> bool" where
  "backs n s k e \<longleftrightarrow> sl_NodeName s = n \<and> allocatable s \<and> le_bytes e = sl_RequestedVRAMBytes s \<and>
    (sl_AllocationID s = [] \<or> sl_AllocationID s = k)"

definition entry_ok :: "string \<Rightarrow> vram_cache \<Rightarrow> (string, vgpu_slice) gomap \<Rightarrow> string \<Rightarrow> ledger_entry \<Rightarrow> bool" where
  "entry_ok n c api k e \<longleftrightarrow> le_bytes e \<le> hold n c (le_sliceUID e) \<and>
    (\<exists>s. map_of api (le_sliceUID e) = Some s \<and> backs n s k e)"

text \<open>Every entry of the agent's ledger is the one its index names for the slice.\<close>

definition indexed :: "allocator \<Rightarrow> bool" where
  "indexed a \<longleftrightarrow> (\<forall>k e. map_of (al_byAlloc a) k = Some e \<longrightarrow> map_of (al_bySlice a) (le_sliceUID e) = Some k)"

definition agent_ok :: "alloc_device \<Rightarrow> allocator \<Rightarrow> bool" where
  "agent_ok d a \<longleftrightarrow> ledger_ok [d] a \<and> al_initialized a \<and> indexed a"

definition system_ok :: "string \<Rightarrow> alloc_device \<Rightarrow> int \<Rightarrow> node_system \<Rightarrow> bool" where
  "system_ok n d tot y \<longleftrightarrow> cache_ok (ys_cache y) \<and> room n tot (ys_cache y) \<and> agent_ok d (mg_alloc (ys_agent y)) \<and>
    (\<forall>u s. map_of (ys_api y) u = Some s \<longrightarrow> slice_ok n (ys_cache y) u s) \<and>
    (\<forall>k e. map_of (al_byAlloc (mg_alloc (ys_agent y))) k = Some e \<longrightarrow> entry_ok n (ys_cache y) (ys_api y) k e)"

lemma system_okD:
  assumes "system_ok n d tot y"
  shows "cache_ok (ys_cache y)" and "room n tot (ys_cache y)" and "agent_ok d (mg_alloc (ys_agent y))"
    and "map_of (ys_api y) u = Some s \<Longrightarrow> slice_ok n (ys_cache y) u s"
    and "map_of (al_byAlloc (mg_alloc (ys_agent y))) k = Some e \<Longrightarrow> entry_ok n (ys_cache y) (ys_api y) k e"
  using assms by (simp_all add: system_ok_def)

lemma slice_ok_cong:
  assumes "only_at u c c'" and "v \<noteq> u"
  shows "slice_ok n c' v s = slice_ok n c v s"
  using assms only_at_hold [OF assms, of n] by (simp add: slice_ok_def only_at_def)

text \<open>A change of the cache, and one that concerns a single slice.\<close>

lemma cache_change_ok:
  assumes "system_ok n d tot y" and "cache_ok c" and "room n tot c"
    and "\<And>u s. map_of (ys_api y) u = Some s \<Longrightarrow> slice_ok n c u s"
    and "\<And>u s. map_of (ys_api y) u = Some s \<Longrightarrow> sl_Phase s = SlicePhaseReleasing \<Longrightarrow> sl_NodeName s = n \<Longrightarrow>
      hold n (ys_cache y) u \<le> hold n c u"
  shows "system_ok n d tot (y\<lparr>ys_cache := c\<rparr>)"
proof -
  have "entry_ok n c (ys_api y) k e" if "map_of (al_byAlloc (mg_alloc (ys_agent y))) k = Some e" for k e
  proof -
    have e: "entry_ok n (ys_cache y) (ys_api y) k e" by (rule system_okD(5) [OF assms(1) that])
    then obtain s where s: "map_of (ys_api y) (le_sliceUID e) = Some s" "backs n s k e" by (auto simp: entry_ok_def)
    have "le_bytes e \<le> hold n c (le_sliceUID e)"
    proof (cases "sl_Phase s = SlicePhaseReleasing")
      case True
      then show ?thesis using e assms(5) [OF s(1)] s(2) by (auto simp: entry_ok_def backs_def)
    next
      case False
      then show ?thesis using assms(4) [OF s(1)] s(2) by (auto simp: slice_ok_def backs_def allocatable_def occupying_def)
    qed
    then show ?thesis using s by (auto simp: entry_ok_def)
  qed
  then show ?thesis using assms(1-4) by (simp add: system_ok_def)
qed

lemma cache_step_ok:
  assumes "system_ok n d tot y" and "cache_ok c" and "room n tot c" and "only_at u (ys_cache y) c"
    and "\<And>s. map_of (ys_api y) u = Some s \<Longrightarrow> slice_ok n c u s"
    and "\<And>s. map_of (ys_api y) u = Some s \<Longrightarrow> sl_Phase s = SlicePhaseReleasing \<Longrightarrow> sl_NodeName s = n \<Longrightarrow> hold n (ys_cache y) u \<le> hold n c u"
  shows "system_ok n d tot (y\<lparr>ys_cache := c\<rparr>)"
proof (rule cache_change_ok [OF assms(1-3)])
  fix v s assume v: "map_of (ys_api y) v = Some s"
  show "slice_ok n c v s"
    using v assms(5) system_okD(4) [OF assms(1) v] slice_ok_cong [OF assms(4)] by (cases "v = u") auto
  show "hold n (ys_cache y) v \<le> hold n c v" if "sl_Phase s = SlicePhaseReleasing" and "sl_NodeName s = n"
    using v assms(6) that only_at_hold [OF assms(4), of v n] by (cases "v = u") auto
qed

text \<open>A write to one slice.\<close>

lemma api_step_ok:
  assumes "system_ok n d tot y" and "slice_ok n (ys_cache y) u s"
    and "\<And>k e. map_of (al_byAlloc (mg_alloc (ys_agent y))) k = Some e \<Longrightarrow> le_sliceUID e = u \<Longrightarrow> backs n s k e"
  shows "system_ok n d tot (y\<lparr>ys_api := gput u s (ys_api y)\<rparr>)"
proof -
  have "entry_ok n (ys_cache y) (gput u s (ys_api y)) k e"
    if "map_of (al_byAlloc (mg_alloc (ys_agent y))) k = Some e" for k e
    using system_okD(5) [OF assms(1) that] assms(3) [OF that] by (cases "le_sliceUID e = u") (auto simp: entry_ok_def)
  then show ?thesis using assms(1,2) by (simp add: system_ok_def)
qed

lemma indexed_unique:
  assumes "agent_ok d a" and "map_of (al_byAlloc a) k = Some e" and "map_of (al_bySlice a) (le_sliceUID e) = None"
  shows False
  using assms by (auto simp: agent_ok_def indexed_def)

lemma api_removal_ok:
  assumes "system_ok n d tot y" and "map_of (al_bySlice (mg_alloc (ys_agent y))) u = None"
  shows "system_ok n d tot (y\<lparr>ys_api := gdel u (ys_api y)\<rparr>)"
proof -
  have "entry_ok n (ys_cache y) (gdel u (ys_api y)) k e"
    if "map_of (al_byAlloc (mg_alloc (ys_agent y))) k = Some e" for k e
  proof -
    have "le_sliceUID e \<noteq> u" using indexed_unique [OF system_okD(3) [OF assms(1)] that] assms(2) by auto
    then show ?thesis using system_okD(5) [OF assms(1) that] by (auto simp: entry_ok_def)
  qed
  then show ?thesis using assms(1) by (simp add: system_ok_def split: if_splits)
qed

section \<open>The card has room\<close>

lemma entries_sum:
  assumes "agent_ok d a"
  shows "gget 0 (al_committed a) (ad_uuid d) \<le> (\<Sum>k\<in>dom (map_of (al_byAlloc a)). le_bytes (the (map_of (al_byAlloc a) k)))"
proof -
  let ?m = "al_byAlloc a"
  have ok: "ledger_ok [d] a" using assms by (simp add: agent_ok_def)
  have g: "gmap_ok ?m" by (rule ledger_gmaps(2) [OF ok])
  have "gget 0 (al_committed a) (ad_uuid d) = gsum (on_card (ad_uuid d)) ?m" by (rule ledger_sum [OF ok])
  also have "\<dots> = (\<Sum>k\<in>dom (map_of ?m). at_key (on_card (ad_uuid d)) ?m k)"
    by (rule gsum_over [OF g]) (simp_all add: finite_dom_map_of dom_map_of_conv_image_fst)
  also have "\<dots> \<le> (\<Sum>k\<in>dom (map_of ?m). le_bytes (the (map_of ?m k)))"
    using ledger_entry [OF ok, THEN conjunct1, THEN less_imp_le] by (intro sum_mono) (auto simp: on_card_def)
  finally show ?thesis .
qed

text \<open>The agent's charges, with a slice that holds its node but has no allocation yet, are within the scheduler's ledger.\<close>

lemma agent_within_ledger:
  assumes "system_ok n d tot y" and "finite X" and "\<And>u. u \<in> X \<Longrightarrow> map_of (al_bySlice (mg_alloc (ys_agent y))) u = None \<and> f u \<le> hold n (ys_cache y) u"
  shows "CommittedBytes (ad_uuid d) (mg_alloc (ys_agent y)) + sum f X \<le> used_on (ys_cache y) n"
proof -
  let ?a = "mg_alloc (ys_agent y)"
  let ?D = "dom (map_of (al_byAlloc ?a))"
  let ?e = "\<lambda>k. the (map_of (al_byAlloc ?a) k)"
  let ?u = "\<lambda>k. le_sliceUID (?e k)"
  let ?g = "\<lambda>u. if u \<in> X then f u else le_bytes (?e (the (map_of (al_bySlice ?a) u)))"
  note agent = system_okD(3) [OF assms(1)]
  have own: "map_of (al_bySlice ?a) (?u k) = Some k" if "k \<in> ?D" for k
    using that agent unfolding agent_ok_def indexed_def by force
  have inj: "inj_on ?u ?D"
  proof (rule inj_onI)
    fix j k assume jk: "j \<in> ?D" "k \<in> ?D" "?u j = ?u k"
    show "j = k" using own [OF jk(1)] own [OF jk(2)] unfolding jk(3) by simp
  qed
  have disj: "?u k \<notin> X" if "k \<in> ?D" for k using own [OF that] assms(3) by auto
  have fin: "finite ?D" by (simp add: finite_dom_map_of)
  have "CommittedBytes (ad_uuid d) ?a \<le> (\<Sum>k\<in>?D. le_bytes (?e k))"
    using entries_sum [OF agent] by (simp add: CommittedBytes_def)
  also have "\<dots> = (\<Sum>k\<in>?D. ?g (?u k))" using own disj by (intro sum.cong) auto
  also have "\<dots> = sum ?g (?u ` ?D)" using inj by (simp add: sum.reindex)
  finally have "CommittedBytes (ad_uuid d) ?a + sum f X \<le> sum ?g (?u ` ?D) + sum ?g X" by simp
  also have "\<dots> = sum ?g (?u ` ?D \<union> X)"
    using fin assms(2) disj by (intro sum.union_disjoint [symmetric]) auto
  also have "\<dots> \<le> used_on (ys_cache y) n"
  proof (rule holds_sum [OF system_okD(1) [OF assms(1)]])
    fix u assume "u \<in> ?u ` ?D \<union> X"
    then show "?g u \<le> hold n (ys_cache y) u"
    proof
      assume "u \<in> ?u ` ?D"
      then obtain k where k: "k \<in> ?D" "u = ?u k" by auto
      then show ?thesis
        using own [OF k(1)] disj [OF k(1)] system_okD(5) [OF assms(1), of k "?e k"] by (auto simp: entry_ok_def)
    next
      assume "u \<in> X"
      then show ?thesis using assms(3) by simp
    qed
  qed (use fin assms(2) in auto)
  finally show ?thesis .
qed

lemma used_within:
  assumes "cache_ok c" and "room n tot c"
  shows "used_on c n \<le> tot"
proof -
  obtain N where N: "map_of (nodes c) n = Some N" "ns_Allocated N + ns_Reserved N \<le> tot"
    using assms(2) by (auto simp: room_def)
  then show ?thesis using counters_okD [OF assms(1) N(1)] by (simp add: node_ok_def used_on_def)
qed

lemma Allocate_succeeds:
  assumes "agent_ok d a" and "devices_ok [d]" and "sl_UID s \<noteq> []" and "0 < sl_RequestedVRAMBytes s"
    and "map_of (al_bySlice a) (sl_UID s) = None \<Longrightarrow>
      CommittedBytes (ad_uuid d) a + sl_RequestedVRAMBytes s \<le> ad_total d - ad_reserved d"
  obtains r a' where "Allocate (Some [d]) now (request_of s) a = (Inr r, a')"
proof (cases "map_of (al_bySlice a) (sl_UID s)")
  case None
  have ok: "ledger_ok [d] a" "al_initialized a" using assms(1) by (simp_all add: agent_ok_def)
  have "sl_RequestedVRAMBytes s \<le> available a d"
    using available_eq [OF ok(1) assms(2), of d] assms(5) [OF None] by (simp add: CommittedBytes_def)
  then obtain u where "pickBestFitLocked a [d] (sl_RequestedVRAMBytes s) = Inr u"
    using pickBestFit_exact [OF assms(4,2), of a] by (cases "pickBestFitLocked a [d] (sl_RequestedVRAMBytes s)") auto
  then show ?thesis using that ok(2) None assms(3,4) by (simp add: Allocate_def)
next
  case (Some k)
  then show ?thesis using that assms(1,3,4) by (simp add: Allocate_def Let_def agent_ok_def)
qed

lemma card_fits:
  assumes "system_ok n d tot y" and "tot \<le> ad_total d - ad_reserved d" and "map_of (ys_api y) u = Some s"
    and "sl_NodeName s = n" and "occupying s" and "map_of (al_bySlice (mg_alloc (ys_agent y))) u = None"
  shows "CommittedBytes (ad_uuid d) (mg_alloc (ys_agent y)) + sl_RequestedVRAMBytes s \<le> ad_total d - ad_reserved d"
proof -
  have "sl_RequestedVRAMBytes s \<le> hold n (ys_cache y) u"
    using system_okD(4) [OF assms(1,3)] assms(4,5) by (simp add: slice_ok_def)
  then have "CommittedBytes (ad_uuid d) (mg_alloc (ys_agent y)) + sl_RequestedVRAMBytes s \<le> used_on (ys_cache y) n"
    using agent_within_ledger [OF assms(1), of "{u}" "\<lambda>u. sl_RequestedVRAMBytes s"] assms(6) by simp
  then show ?thesis using used_within [OF system_okD(1,2) [OF assms(1)]] assms(2) by linarith
qed

lemma agent_allocates:
  assumes "system_ok n d tot y" and "devices_ok [d]" and "tot \<le> ad_total d - ad_reserved d" and "map_of (ys_api y) u = Some s"
    and "sl_NodeName s = n" and "sl_Phase s = SlicePhaseScheduled \<or> sl_Phase s = SlicePhaseAllocating"
  obtains r a where "Allocate (Some [d]) now (request_of s) (mg_alloc (ys_agent y)) = (Inr r, a)"
proof -
  have sl: "sl_UID s = u" "u \<noteq> []" "0 < sl_RequestedVRAMBytes s"
    using system_okD(4) [OF assms(1,4)] by (simp_all add: slice_ok_def)
  have "occupying s" using assms(6) by (auto simp: occupying_def)
  then show ?thesis
    using Allocate_succeeds [OF system_okD(3) [OF assms(1)] assms(2), of s] card_fits [OF assms(1,3-5)] sl that by metis
qed

section \<open>The agent's step\<close>

definition same_slice :: "vgpu_slice \<Rightarrow> vgpu_slice \<Rightarrow> bool" where
  "same_slice w s \<longleftrightarrow> sl_UID w = sl_UID s \<and> sl_NodeName w = sl_NodeName s \<and> sl_RequestedVRAMBytes w = sl_RequestedVRAMBytes s"

lemma Transition_same: "TransitionSlicePhase s q r t = Inr w \<Longrightarrow> same_slice w s \<and> sl_Phase w = q \<and>
    sl_AllocationID w = sl_AllocationID s \<and> sl_AllocatedBytes w = sl_AllocatedBytes s \<and> sl_ClaimRef w = sl_ClaimRef s"
  by (auto simp: same_slice_def TransitionSlicePhase_def Let_def split: option.splits if_splits)

lemma Ready_same:
  assumes "w \<in> set (snd (ReportAllocationReady cl s r))"
  shows "same_slice w s"
  using assms
  by (auto simp: ReportAllocationReady_def MarkSliceReady_def same_slice_def dest!: statusUpdate_writes Transition_same split: sum.splits if_splits)

lemma Released_same:
  assumes "w \<in> set (snd (ReportReleaseComplete cl s))"
  shows "same_slice w s"
  using assms
  by (auto simp: ReportReleaseComplete_def same_slice_def dest!: statusUpdate_writes Transition_same split: sum.splits if_splits)

lemma allocate_slice_writes:
  assumes "allocate_slice io s m = (err, m', ws)" and "mi_update io = Some reply" and "mi_devices io = Some [d]"
    and "Allocate (Some [d]) (mi_now io) (request_of s) (mg_alloc m) = (Inr r, a)"
  shows "ws = [] \<and> m' = m \<or>
    ws \<noteq> [] \<and> mg_alloc m' = a \<and> (\<forall>w\<in>set ws. same_slice w s \<and>
      (sl_Phase w = SlicePhaseAllocating \<and> sl_AllocationID w = sl_AllocationID s \<or>
       sl_Phase w = SlicePhaseReady \<and> sl_AllocationID w = ar_AllocationID r \<and> sl_AllocatedBytes w = ar_AllocatedBytes r))"
proof -
  obtain e0 s1 ws0 where t: "TransitionToAllocating (mi_update io) s = (e0, s1, ws0)" by (metis prod_cases3)
  show ?thesis
  proof (cases e0)
    case (Some e)
    then have "ws0 = []"
      using t assms(2) by (auto simp: TransitionToAllocating_def statusUpdate_def Let_def split: sum.splits if_splits prod.splits)
    then show ?thesis using assms(1) t Some by (simp add: allocate_slice_def)
  next
    case None
    obtain x where x: "TransitionSlicePhase s SlicePhaseAllocating [] ''NodeAgent beginning hardware allocation'' = Inr x"
      using t None by (auto simp: TransitionToAllocating_def split: sum.splits)
    then have s1: "s1 = x" "ws0 = [x]"
      using t None assms(2) by (auto simp: TransitionToAllocating_def statusUpdate_def Let_def split: if_splits)
    note same = Transition_same [OF x]
    have q: "request_of x = request_of s" using same by (simp add: request_of_def same_slice_def)
    obtain ws1 where f: "finish_allocation io x r (m\<lparr>mg_alloc := a\<rparr>) = (err, m', ws1)" and ws: "ws = x # ws1"
      using assms(1,3,4) t None s1 by (auto simp: allocate_slice_def q [unfolded request_of_def] request_of_def split: prod.splits)
    have "\<forall>w\<in>set ws1. w \<in> set (snd (ReportAllocationReady (mi_update io) x r))"
      using finish_facts(2) [OF f] by (cases ws1) auto
    then show ?thesis
      using finish_facts(1) [OF f] same ws ReportAllocationReady_writes Ready_same
      by (fastforce simp: same_slice_def)
  qed
qed

lemma map_of_store_writes:
  "\<forall>w\<in>set ws. sl_UID w = u \<Longrightarrow> ws \<noteq> [] \<Longrightarrow> map_of (store_writes ws api) = (map_of api)(u \<mapsto> last ws)"
proof (induction ws arbitrary: api)
  case (Cons w ws)
  then show ?case by (cases "ws = []") (auto simp: store_writes_def fun_eq_iff)
qed simp

lemma store_writes_Nil [simp]: "store_writes [] api = api"
  by (simp add: store_writes_def)

lemma indexed_release:
  assumes "agent_ok d a" and "devices_ok [d]"
  shows "agent_ok d (releaseLocked k a)"
proof (cases "map_of (al_byAlloc a) k")
  case None
  then show ?thesis using assms(1) by (simp add: releaseLocked_def)
next
  case (Some e)
  have idx: "indexed a" and ok: "ledger_ok [d] a" using assms(1) by (simp_all add: agent_ok_def)
  have "map_of (al_bySlice (releaseLocked k a)) (le_sliceUID x) = Some j"
    if "map_of (al_byAlloc (releaseLocked k a)) j = Some x" for j x
  proof -
    have j: "j \<noteq> k" "map_of (al_byAlloc a) j = Some x"
      using that by (auto simp: releaseLocked_byAlloc split: if_splits)
    then have "map_of (al_bySlice a) (le_sliceUID x) = Some j" "map_of (al_bySlice a) (le_sliceUID e) = Some k"
      using idx Some by (auto simp: indexed_def)
    then have "le_sliceUID x \<noteq> le_sliceUID e" using j(1) by auto
    then show ?thesis using \<open>map_of (al_bySlice a) (le_sliceUID x) = Some j\<close> by (simp add: releaseLocked_def Some Let_def)
  qed
  moreover have "al_initialized (releaseLocked k a)" using assms(1) by (simp add: releaseLocked_def Some Let_def agent_ok_def)
  ultimately show ?thesis using release_ok [OF ok assms(2)] by (simp add: agent_ok_def indexed_def)
qed

end
