(* ===== verification/NodeSteps.thy ===== *)
theory NodeSteps
  imports NodeSystem
begin

text \<open>
  Every step of the node's system keeps the invariant, so a slice that the scheduler has bound to the node
  always finds its card.
\<close>

section \<open>Steps of the cache\<close>

lemma occupied_hold:
  "slice_ok n c u s \<Longrightarrow> sl_NodeName s = n \<Longrightarrow> occupying s \<Longrightarrow> sl_RequestedVRAMBytes s \<le> hold n c u"
  by (simp add: slice_ok_def)

lemma pending_not_occupying: "pending s \<Longrightarrow> \<not> occupying s \<and> \<not> allocatable s \<and> sl_Phase s \<noteq> SlicePhaseReady
    \<and> sl_Phase s \<noteq> PhasePreempting \<and> sl_Phase s \<noteq> SlicePhaseReleasing"
  by (auto simp: pending_def occupying_def allocatable_def phase_defs)

lemma slice_ok_sub:
  assumes "slice_ok n c u s"
    and "\<And>a. map_of (assumedBySlice c') u = Some a \<Longrightarrow> \<exists>b. map_of (assumedBySlice c) u = Some b \<and> aa_Bytes b = aa_Bytes a"
    and "\<And>m. map_of (allocatedNodeBySlice c') u = Some m \<Longrightarrow> map_of (allocatedNodeBySlice c) u = Some m"
    and "occupying s \<Longrightarrow> hold n c u \<le> hold n c' u"
  shows "slice_ok n c' u s"
  using assms unfolding slice_ok_def by (smt (verit))

lemma reserve_ok:
  assumes ok: "system_ok n d tot y" and s: "map_of (ys_api y) u = Some s" "pending s"
    and a: "AssumeSlice u ns k (sl_RequestedVRAMBytes s) ttl now (ys_cache y) = Inr c"
  shows "system_ok n d tot (y\<lparr>ys_cache := c\<rparr>)"
proof -
  note sl = system_okD(4) [OF ok s(1)]
  have req: "0 < sl_RequestedVRAMBytes s" using sl by (simp add: slice_ok_def)
  note c = system_okD(1) [OF ok]
  show ?thesis
  proof (rule cache_step_ok [OF ok])
    show "cache_ok c" using req by (intro cache_ok_AssumeSlice [OF c _ a]) simp
    show "room n tot c" by (rule room_Assume [OF c system_okD(2) [OF ok] req a])
    show "only_at u (ys_cache y) c" by (rule only_at_Assume [OF a])
    fix s' assume s': "map_of (ys_api y) u = Some s'"
    show "slice_ok n c u s'"
      using a sl s s' pending_not_occupying [OF s(2)]
      by (elim AssumeSlice_SomeD) (auto simp: slice_ok_def)
    show "hold n (ys_cache y) u \<le> hold n c u"
      using req by (intro hold_Assume [OF c _ a]) simp
  qed
qed

lemma give_back_ok:
  assumes ok: "system_ok n d tot y" and s: "\<forall>s. map_of (ys_api y) u = Some s \<longrightarrow> pending s"
  shows "system_ok n d tot (y\<lparr>ys_cache := RollbackAssumedSlice u (ys_cache y)\<rparr>)"
proof (rule cache_step_ok [OF ok _ _ only_at_Rollback])
  note c = system_okD(1,2) [OF ok]
  show "cache_ok (RollbackAssumedSlice u (ys_cache y))" by (rule cache_ok_RollbackAssumedSlice [OF c(1)])
  show "room n tot (RollbackAssumedSlice u (ys_cache y))" by (rule room_Rollback [OF c])
  fix s' assume s': "map_of (ys_api y) u = Some s'"
  then have p: "pending s'" using s by simp
  show "slice_ok n (RollbackAssumedSlice u (ys_cache y)) u s'"
    by (rule slice_ok_sub [OF system_okD(4) [OF ok s']])
      (use pending_not_occupying [OF p] in \<open>auto simp: RollbackAssumedSlice_def Let_def split: option.splits\<close>)
  show "hold n (ys_cache y) u \<le> hold n (RollbackAssumedSlice u (ys_cache y)) u" if "sl_Phase s' = SlicePhaseReleasing"
    using that pending_not_occupying [OF p] by simp
qed

text \<open>The reaper takes away expired holds and nothing else.\<close>

lemma reap_loop_maps:
  "confirmedBySlice (reap_loop now m c) = confirmedBySlice c \<and> allocatedNodeBySlice (reap_loop now m c) = allocatedNodeBySlice c \<and>
   allocatedBytesBySlice (reap_loop now m c) = allocatedBytesBySlice c"
  by (induction m arbitrary: c) (auto simp: Let_def)

lemma reap_assumed:
  assumes "cache_ok c"
  shows "map_of (assumedBySlice (reapExpiredAssumptions now c)) u =
    (case map_of (assumedBySlice c) u of
       Some a \<Rightarrow> if now > aa_ExpiresAt a then None else Some a | None \<Rightarrow> None)"
proof -
  have "distinct (map fst (assumedBySlice c))"
    using cache_okD(1) [OF assms] by (simp add: maps_ok_def gmap_ok_def)
  from reap_loop_assumed [OF this, of now c u] show ?thesis
    by (auto simp: reapExpiredAssumptions_def split: option.splits)
qed

lemma reap_ok:
  assumes ok: "system_ok n d tot y" and live: "\<forall>u s a. map_of (ys_api y) u = Some s \<longrightarrow>
      map_of (assumedBySlice (ys_cache y)) u = Some a \<longrightarrow> \<not> pending s \<longrightarrow> now \<le> aa_ExpiresAt a"
  shows "system_ok n d tot (y\<lparr>ys_cache := reapExpiredAssumptions now (ys_cache y)\<rparr>)"
proof (rule cache_change_ok [OF ok])
  note c = system_okD(1,2) [OF ok] and assumed = reap_assumed [OF system_okD(1) [OF ok], of now]
  let ?c = "reapExpiredAssumptions now (ys_cache y)"
  have maps: "confirmedBySlice ?c = confirmedBySlice (ys_cache y)" "allocatedNodeBySlice ?c = allocatedNodeBySlice (ys_cache y)"
    "allocatedBytesBySlice ?c = allocatedBytesBySlice (ys_cache y)"
    by (simp_all add: reapExpiredAssumptions_def reap_loop_maps)
  show "cache_ok ?c" by (rule cache_ok_reap [OF c(1)])
  show "room n tot ?c" by (rule room_reap [OF c])
  fix u s assume s: "map_of (ys_api y) u = Some s"
  have h: "hold n ?c u = hold n (ys_cache y) u" if "occupying s \<or> sl_Phase s = SlicePhaseReleasing"
    using live s that pending_not_occupying [of s]
    by (intro hold_cong) (fastforce simp: assumed maps split: option.splits)+
  show "slice_ok n ?c u s"
    by (rule slice_ok_sub [OF system_okD(4) [OF ok s]])
      (use h in \<open>auto simp: assumed maps split: option.splits if_splits\<close>)
  show "hold n (ys_cache y) u \<le> hold n ?c u" if "sl_Phase s = SlicePhaseReleasing"
    using h that by simp
qed

lemma pin_ok:
  assumes ok: "system_ok n d tot y"
  shows "system_ok n d tot (y\<lparr>ys_cache := snd (PinAssumption u ttl now (ys_cache y))\<rparr>)"
proof (rule cache_step_ok [OF ok _ _ only_at_Pin])
  let ?c = "snd (PinAssumption u ttl now (ys_cache y))"
  note c = system_okD(1,2) [OF ok]
  show "cache_ok ?c" by (rule cache_ok_Pin [OF c(1)])
  show "room n tot ?c" using c(2) by (simp add: room_def PinAssumption_def split: option.split)
  show "slice_ok n ?c u s" if "map_of (ys_api y) u = Some s" for s
    by (rule slice_ok_sub [OF system_okD(4) [OF ok that]])
      (auto simp: hold_Pin, auto simp: PinAssumption_def split: option.splits)
qed (simp add: hold_Pin)

lemma confirm_ok:
  assumes ok: "system_ok n d tot y" and g: "ghas (assumedBySlice (ys_cache y)) u"
  shows "system_ok n d tot (y\<lparr>ys_cache := snd (ConfirmSliceOrRearm u ns k b now (ys_cache y))\<rparr>)"
proof (rule cache_step_ok [OF ok _ _ only_at_Confirm])
  let ?c = "snd (ConfirmSliceOrRearm u ns k b now (ys_cache y))"
  note c = system_okD(1,2) [OF ok]
  obtain a where a: "map_of (assumedBySlice (ys_cache y)) u = Some a" using g by (auto elim: ghasE)
  show "cache_ok ?c" by (rule cache_ok_Confirm [OF c(1) a])
  show "room n tot ?c" using c(2) by (simp add: room_def ConfirmSliceOrRearm_def a)
  show "slice_ok n ?c u s" if "map_of (ys_api y) u = Some s" for s
    by (rule slice_ok_sub [OF system_okD(4) [OF ok that]])
      (use hold_Confirm [OF c(1) g] in \<open>auto simp: ConfirmSliceOrRearm_def a\<close>)
qed (simp add: hold_Confirm [OF system_okD(1) [OF ok] g])

text \<open>A slice that is neither assumed nor tracked as ready holds a node only by a confirmed entry.\<close>

lemma promoted_entry:
  assumes "cache_ok c" and "\<not> ghas (assumedBySlice c) u" and "gget [] (syncedPhaseBySlice c) u \<noteq> ''Ready''" and "0 < hold n c u"
  obtains e where "map_of (confirmedBySlice c) u = Some e" and "aa_NodeName e = n" and "hold n c u = aa_Bytes e"
proof -
  have "map_of (assumedBySlice c) u = None" "map_of (allocatedBytesBySlice c) u = None"
    using assms(2) promote_not_ready [OF cache_okD(2) [OF assms(1)] assms(3)] by (simp_all add: not_ghas)
  then have "hold n c u = at_key (on_node n) (confirmedBySlice c) u" by (simp add: hold_def)
  then show ?thesis using that assms(4) by (auto simp: on_node_def split: option.splits if_splits)
qed

lemma confirmed_within:
  assumes "cache_ok c" and "room n tot c" and "map_of (confirmedBySlice c) u = Some e" and "aa_NodeName e = n"
  shows "aa_Bytes e \<le> tot"
proof -
  have "aa_Bytes e \<le> confirmed_on c n"
    using on_node_ge [OF _ assms(3)] cache_okD(1) [OF assms(1)] entry_bytes(2) [OF assms(1)] assms(4)
    by (simp add: on_defs maps_ok_def)
  then show ?thesis
    using used_within [OF assms(1,2)] on_node_sums_nonneg(1) [OF assms(1)] allocated_on_nonneg [OF assms(1)]
    unfolding used_on_def by smt
qed

lemma untracked:
  "assumedBySlice (ReleaseSliceOnce u k c) = assumedBySlice c" "assumedBySlice (FailSliceOnce u k c) = assumedBySlice c"
  "map_of (allocatedNodeBySlice (ReleaseSliceOnce u k c)) v = Some m \<Longrightarrow> map_of (allocatedNodeBySlice c) v = Some m"
  "map_of (allocatedNodeBySlice (FailSliceOnce u k c)) v = Some m \<Longrightarrow> map_of (allocatedNodeBySlice c) v = Some m"
  by (auto simp: ReleaseSliceOnce_alt FailSliceOnce_alt Let_def ReleaseAllocated_def drop_alloc_entry_def split: if_splits)

lemma promoted_maps:
  "assumedBySlice (snd (PromoteSliceToAllocatedOnce u k x c)) = assumedBySlice c"
  "map_of (allocatedNodeBySlice (snd (PromoteSliceToAllocatedOnce u k x c))) u = Some m \<Longrightarrow> m = k \<or> map_of (allocatedNodeBySlice c) u = Some m"
  by (auto simp: PromoteSliceToAllocatedOnce_def promoteConfirmedToAllocatedLocked_def Let_def split: option.splits prod.splits if_splits)

text \<open>A ready slice that the cache has not allocated yet is confirmed on the node, with room for its bytes.\<close>

lemma unsynced_ready:
  assumes ok: "system_ok n d tot y" and tot: "tot < 2 ^ 62" and s: "map_of (ys_api y) u = Some s" and n: "sl_NodeName s = n"
    and a: "\<not> ghas (assumedBySlice (ys_cache y)) u" and p: "sl_Phase s = SlicePhaseReady"
    and g: "gget [] (syncedPhaseBySlice (ys_cache y)) u \<noteq> ''Ready''"
  obtains e N where "map_of (confirmedBySlice (ys_cache y)) u = Some e" and "aa_NodeName e = n"
    and "sl_RequestedVRAMBytes s \<le> aa_Bytes e" and "map_of (nodes (ys_cache y)) n = Some N"
    and "ns_Allocated N + ns_Reserved N + sl_RequestedVRAMBytes s < 2 ^ 63"
    and "sl_AllocatedBytes s = sl_RequestedVRAMBytes s" and "0 < sl_RequestedVRAMBytes s"
proof -
  note c = system_okD(1,2) [OF ok] and sl = system_okD(4) [OF ok s]
  have x: "sl_AllocatedBytes s = sl_RequestedVRAMBytes s" "0 < sl_RequestedVRAMBytes s"
    using sl p n by (auto simp: slice_ok_def)
  have h: "sl_RequestedVRAMBytes s \<le> hold n (ys_cache y) u"
    using occupied_hold [OF sl n] p by (simp add: occupying_def)
  then have "0 < hold n (ys_cache y) u" using x(2) by simp
  from promoted_entry [OF c(1) a g this]
  obtain e where e: "map_of (confirmedBySlice (ys_cache y)) u = Some e" "aa_NodeName e = n" "sl_RequestedVRAMBytes s \<le> aa_Bytes e"
    using h by metis
  obtain N where N: "map_of (nodes (ys_cache y)) n = Some N" "ns_Allocated N + ns_Reserved N \<le> tot"
    using c(2) by (auto simp: room_def)
  have "aa_Bytes e \<le> tot" by (rule confirmed_within [OF c e(1,2)])
  then have "ns_Allocated N + ns_Reserved N + sl_RequestedVRAMBytes s < 2 ^ 63" using N(2) e(3) tot by simp
  then show ?thesis using that e N(1) x by blast
qed

lemma sync_node_agrees:
  "system_ok n d tot y \<Longrightarrow> map_of (ys_api y) u = Some s \<Longrightarrow> sl_NodeName s = n \<Longrightarrow> node_agrees (ys_cache y) u n"
  using system_okD(4) [of n d tot y u s] by (auto simp: node_agrees_def slice_ok_def)

text \<open>What a synchronisation does: nothing, a promotion, or the release of a slice that occupies no node.\<close>

lemma sync_cases:
  assumes "sl_Phase s \<in> {SlicePhaseReady, SlicePhaseReleased, SlicePhaseFailed}"
  obtains (promoted) "sl_Phase s = SlicePhaseReady" and "gget [] (syncedPhaseBySlice c) u \<noteq> ''Ready''"
      and "SyncCacheFromSlice u n (sl_Phase s) b c = snd (PromoteSliceToAllocatedOnce u n b c)"
  | (same) "SyncCacheFromSlice u n (sl_Phase s) b c = c"
  | (let_go) "\<not> occupying s" and "SyncCacheFromSlice u n (sl_Phase s) b c \<in> {ReleaseSliceOnce u n c, FailSliceOnce u n c}"
proof (cases "sl_Phase s = SlicePhaseReady \<and> gget [] (syncedPhaseBySlice c) u \<noteq> ''Ready''")
  case True
  then show ?thesis using promoted by (simp add: SyncCacheFromSlice_def SlicePhaseReady_def)
next
  case False
  then show ?thesis
    using assms same let_go by (auto simp: SyncCacheFromSlice_def phase_defs occupying_def PromoteSliceToAllocatedOnce_def)
qed

lemma sync_ok:
  assumes ok: "system_ok n d tot y" and tot: "tot < 2 ^ 62" and s: "map_of (ys_api y) u = Some s" and n: "sl_NodeName s = n"
    and a: "\<not> ghas (assumedBySlice (ys_cache y)) u" and p: "sl_Phase s \<in> {SlicePhaseReady, SlicePhaseReleased, SlicePhaseFailed}"
  shows "system_ok n d tot (y\<lparr>ys_cache := SyncCacheFromSlice u n (sl_Phase s) (sl_AllocatedBytes s) (ys_cache y)\<rparr>)"
    (is "system_ok n d tot (y\<lparr>ys_cache := ?c\<rparr>)")
proof (rule cache_step_ok [OF ok _ _ only_at_Sync])
  note c = system_okD(1,2) [OF ok] and sl = system_okD(4) [OF ok s] and agree = sync_node_agrees [OF ok s n]
  have all: "cache_ok ?c \<and> room n tot ?c \<and> slice_ok n ?c u s"
    using p
  proof (cases rule: sync_cases [of s "ys_cache y" u n "sl_AllocatedBytes s"])
    case promoted
    from unsynced_ready [OF ok tot s n a promoted(1,2)]
    obtain e N where e: "map_of (confirmedBySlice (ys_cache y)) u = Some e" "aa_NodeName e = n" "sl_RequestedVRAMBytes s \<le> aa_Bytes e"
      and N: "map_of (nodes (ys_cache y)) n = Some N" "ns_Allocated N + ns_Reserved N + sl_RequestedVRAMBytes s < 2 ^ 63"
      and x: "sl_AllocatedBytes s = sl_RequestedVRAMBytes s" "0 < sl_RequestedVRAMBytes s" by metis
    let ?c' = "snd (PromoteSliceToAllocatedOnce u n (sl_RequestedVRAMBytes s) (ys_cache y))"
    have "cache_ok ?c'" using e(1,2) x(2) by (intro cache_ok_Promote [OF c(1) N(1) _ N(2)]) auto
    moreover have "room n tot ?c'" using x(2) by (intro room_Promote [OF c e(1,2) _ e(3)]) simp
    moreover have "slice_ok n ?c' u s"
      using sl hold_promoted [OF c(1) promoted(2)] n promoted(1)
      by (auto simp: slice_ok_def pending_def promoted_maps(1) dest!: promoted_maps(2))
    moreover have "?c = ?c'" using promoted(3) x(1) by simp
    ultimately show ?thesis by simp
  next
    case same
    then show ?thesis using c sl by simp
  next
    case let_go
    have "slice_ok n (ReleaseSliceOnce u n (ys_cache y)) u s" "slice_ok n (FailSliceOnce u n (ys_cache y)) u s"
      using let_go(1) untracked [of u n "ys_cache y"] by (auto intro!: slice_ok_sub [OF sl])
    then show ?thesis
      using let_go(2) c agree cache_ok_ReleaseSliceOnce cache_ok_FailSliceOnce room_ReleaseSliceOnce room_FailSliceOnce by auto
  qed
  then show "cache_ok ?c" "room n tot ?c" by auto
  show "slice_ok n ?c u s'" if "map_of (ys_api y) u = Some s'" for s'
    using all that s by auto
qed (use p s in auto)

text \<open>It is a step of the cache.\<close>

lemma sync_step:
  assumes ok: "system_ok n d tot y" and tot: "tot < 2 ^ 62" and s: "map_of (ys_api y) u = Some s" and n: "sl_NodeName s = n"
    and a: "\<not> ghas (assumedBySlice (ys_cache y)) u" and p: "sl_Phase s \<in> {SlicePhaseReady, SlicePhaseReleased, SlicePhaseFailed}"
    and re: "reachable (ys_cache y)"
  shows "reachable (SyncCacheFromSlice u n (sl_Phase s) (sl_AllocatedBytes s) (ys_cache y))"
  using p
proof (cases rule: sync_cases [of s "ys_cache y" u n "sl_AllocatedBytes s"])
  case promoted
  from unsynced_ready [OF ok tot s n a promoted(1,2)]
  obtain e N where "map_of (confirmedBySlice (ys_cache y)) u = Some e" "aa_NodeName e = n" "map_of (nodes (ys_cache y)) n = Some N"
    "ns_Allocated N + ns_Reserved N + sl_RequestedVRAMBytes s < 2 ^ 63"
    "sl_AllocatedBytes s = sl_RequestedVRAMBytes s" "0 < sl_RequestedVRAMBytes s" by metis
  then have "room_for (ys_cache y) n (sl_AllocatedBytes s)" "holds_agree (ys_cache y) u n"
    by (simp_all add: room_for_def holds_agree_def)
  then show ?thesis unfolding promoted(3) by (intro reach_step [OF re] step_promote)
next
  case same
  then show ?thesis using re by simp
next
  case let_go
  note agree = sync_node_agrees [OF ok s n]
  from let_go(2) show ?thesis
    using reach_step [OF re step_release [OF agree]] reach_step [OF re step_fail [OF agree]] by auto
qed

lemma forget_ok:
  assumes ok: "system_ok n d tot y" and s: "map_of (ys_api y) u = None" and k: "node_agrees (ys_cache y) u k" "k \<noteq> []"
  shows "system_ok n d tot (y\<lparr>ys_cache := ForgetSlice u k (ys_cache y)\<rparr>)"
proof (rule cache_step_ok [OF ok _ _ only_at_Forget])
  note c = system_okD(1,2) [OF ok]
  show "cache_ok (ForgetSlice u k (ys_cache y))" using k by (intro cache_ok_ForgetSlice c) auto
  let ?c2 = "ReleaseConfirmedSlice u (RollbackAssumedSlice u (ys_cache y))"
  have "cache_ok ?c2" "room n tot ?c2" "node_agrees ?c2 u k"
    using c k(1)
    by (simp_all add: cache_ok_ReleaseConfirmedSlice cache_ok_RollbackAssumedSlice room_ReleaseConfirmed room_Rollback node_agrees_def)
  then have "room n tot (ReleaseSliceOnce u k ?c2)" by (intro room_ReleaseSliceOnce)
  then show "room n tot (ForgetSlice u k (ys_cache y))" using k(2) by (simp add: ForgetSlice_def Let_def room_def)
qed (use s in auto)

text \<open>Changes of the nodes alone, and the end of another node.\<close>

lemma nodes_only_ok:
  assumes ok: "system_ok n d tot y" and "cache_ok c" and "room n tot c"
    and maps: "assumedBySlice c = assumedBySlice (ys_cache y)" "confirmedBySlice c = confirmedBySlice (ys_cache y)"
      "allocatedNodeBySlice c = allocatedNodeBySlice (ys_cache y)" "allocatedBytesBySlice c = allocatedBytesBySlice (ys_cache y)"
  shows "system_ok n d tot (y\<lparr>ys_cache := c\<rparr>)"
proof (rule cache_change_ok [OF ok assms(2,3)])
  have h: "hold n c u = hold n (ys_cache y) u" for u by (rule hold_cong) (simp_all add: maps)
  show "slice_ok n c u s" if "map_of (ys_api y) u = Some s" for u s
    using system_okD(4) [OF ok that] by (simp add: slice_ok_def maps h)
  show "hold n (ys_cache y) u \<le> hold n c u" for u by (simp add: h)
qed

lemma health_ok:
  assumes ok: "system_ok n d tot y"
  shows "system_ok n d tot (y\<lparr>ys_cache := SetNodeHealth k h (ys_cache y)\<rparr>)"
proof (rule nodes_only_ok [OF ok cache_ok_SetNodeHealth])
  show "room n tot (SetNodeHealth k h (ys_cache y))"
    using system_okD(2) [OF ok] unfolding SetNodeHealth_def by (rule room_upd_node) simp
qed (use system_okD(1) [OF ok] in \<open>simp_all add: SetNodeHealth_def\<close>)

lemma seed_ok:
  assumes ok: "system_ok n d tot y"
  shows "system_ok n d tot (y\<lparr>ys_cache := MarkSeeded (ys_cache y)\<rparr>)"
  using system_okD(2) [OF ok] cache_ok_step [OF step_seed system_okD(1) [OF ok]]
  by (intro nodes_only_ok [OF ok]) (simp_all add: MarkSeeded_def room_def)

lemma zone_ok:
  assumes ok: "system_ok n d tot y"
  shows "system_ok n d tot (y\<lparr>ys_cache := SetNodeZone k z (ys_cache y)\<rparr>)"
proof (rule nodes_only_ok [OF ok cache_ok_SetNodeZone])
  show "room n tot (SetNodeZone k z (ys_cache y))"
    using system_okD(2) [OF ok] by (cases "k = n") (auto simp: SetNodeZone_def room_def Let_def)
qed (use system_okD(1) [OF ok] in \<open>simp_all add: SetNodeZone_def Let_def\<close>)

lemma update_node_ok:
  assumes ok: "system_ok n d tot y" and "k \<noteq> n" and "cache_ok (UpdateNode k t a (ys_cache y))"
  shows "system_ok n d tot (y\<lparr>ys_cache := UpdateNode k t a (ys_cache y)\<rparr>)"
proof (rule nodes_only_ok [OF ok assms(3)])
  show "room n tot (UpdateNode k t a (ys_cache y))"
    using system_okD(2) [OF ok] assms(2) by (simp add: UpdateNode_def room_def Let_def)
qed (simp_all add: UpdateNode_def Let_def)

lemma hold_RemoveNode:
  assumes "cache_ok c" and "k \<noteq> n" and "ghas (nodes c) k"
  shows "hold n (RemoveNode k c) u = hold n c u"
proof -
  note maps = cache_okD(1) [OF assms(1)]
  then have g: "gmap_ok (assumedBySlice c)" "gmap_ok (confirmedBySlice c)" "gmap_ok (allocatedNodeBySlice c)" "gmap_ok (allocatedBytesBySlice c)"
    by (simp_all add: maps_ok_def)
  have "at_key (on_node n) (keep_named k m) u = at_key (on_node n) m u" if "gmap_ok m" for m
    using that assms(2) by (auto simp: keep_named_def map_of_filter_ok on_node_def split: option.splits)
  moreover have "at_key (alloc_on (filter (\<lambda>(uid, m). m \<noteq> k) (allocatedNodeBySlice c)) n)
      (filter (\<lambda>(uid, b). \<not> gone k c uid) (allocatedBytesBySlice c)) u
    = at_key (alloc_on (allocatedNodeBySlice c) n) (allocatedBytesBySlice c) u"
    using g assms(2) by (auto simp: gone_def map_of_filter_ok alloc_on_def split: option.splits)
  moreover have sel: "assumedBySlice (RemoveNode k c) = keep_named k (assumedBySlice c)"
    "confirmedBySlice (RemoveNode k c) = keep_named k (confirmedBySlice c)"
    "allocatedNodeBySlice (RemoveNode k c) = filter (\<lambda>(uid, m). m \<noteq> k) (allocatedNodeBySlice c)"
    "allocatedBytesBySlice (RemoveNode k c) = filter (\<lambda>(uid, b). \<not> gone k c uid) (allocatedBytesBySlice c)"
    by (simp_all add: RemoveNode_alt [OF maps assms(3)])
  ultimately show ?thesis using g unfolding hold_def sel by simp
qed

lemma remove_node_ok:
  assumes ok: "system_ok n d tot y" and "k \<noteq> n"
  shows "system_ok n d tot (y\<lparr>ys_cache := RemoveNode k (ys_cache y)\<rparr>)"
proof (cases "ghas (nodes (ys_cache y)) k")
  case False
  then show ?thesis using ok by (simp add: RemoveNode_def)
next
  case True
  note c = system_okD(1,2) [OF ok]
  note maps = cache_okD(1) [OF c(1)] and alt = RemoveNode_alt [OF cache_okD(1) [OF c(1)] True] and h = hold_RemoveNode [OF c(1) assms(2) True]
  then have g: "gmap_ok (assumedBySlice (ys_cache y))" "gmap_ok (allocatedNodeBySlice (ys_cache y))" by (simp_all add: maps_ok_def)
  show ?thesis
  proof (rule cache_change_ok [OF ok])
    show "cache_ok (RemoveNode k (ys_cache y))" by (rule cache_ok_RemoveNode [OF c(1)])
    show "room n tot (RemoveNode k (ys_cache y))" using c(2) assms(2) by (auto simp: room_def alt)
    show "slice_ok n (RemoveNode k (ys_cache y)) u s" if "map_of (ys_api y) u = Some s" for u s
      by (rule slice_ok_sub [OF system_okD(4) [OF ok that]])
        (use g in \<open>auto simp: h, auto simp: alt map_of_keep_named map_of_filter_ok split: option.splits if_splits\<close>)
  qed (simp add: h)
qed

section \<open>Steps of the API objects\<close>

text \<open>Only the lookups of the store matter.\<close>

lemma system_ok_api:
  "map_of a = map_of b \<Longrightarrow> system_ok n d tot (y\<lparr>ys_api := a\<rparr>) = system_ok n d tot (y\<lparr>ys_api := b\<rparr>)"
  by (simp add: system_ok_def entry_ok_def)

lemma create_ok:
  assumes ok: "system_ok n d tot y" and s: "unused (sl_UID s) y" "pending s" "sl_AllocationID s = []" "0 < sl_RequestedVRAMBytes s"
  shows "system_ok n d tot (y\<lparr>ys_api := gput (sl_UID s) s (ys_api y)\<rparr>)"
proof (rule api_step_ok [OF ok])
  show "slice_ok n (ys_cache y) (sl_UID s) s"
    using s pending_not_occupying [OF s(2)] by (auto simp: slice_ok_def unused_def not_ghas)
  show "backs n s k e" if "map_of (al_byAlloc (mg_alloc (ys_agent y))) k = Some e" "le_sliceUID e = sl_UID s" for k e
    using indexed_unique [OF system_okD(3) [OF ok] that(1)] that(2) s(1) by (simp add: unused_def)
qed

text \<open>A write that keeps the slice and moves it, if at all, to \<open>Releasing\<close>.\<close>

definition rewritten :: "vgpu_slice \<Rightarrow> vgpu_slice \<Rightarrow> bool" where
  "rewritten w s \<longleftrightarrow> same_slice w s \<and> sl_AllocationID w = sl_AllocationID s \<and> sl_AllocatedBytes w = sl_AllocatedBytes s"

lemma backs_unique_entry:
  assumes "system_ok n d tot y" and "map_of (ys_api y) u = Some s"
    and "map_of (al_byAlloc (mg_alloc (ys_agent y))) k = Some e" and "le_sliceUID e = u"
  shows "backs n s k e" and "le_bytes e \<le> hold n (ys_cache y) u"
  using system_okD(5) [OF assms(1,3)] assms(2,4) by (simp_all add: entry_ok_def)

lemma rewrite_ok:
  assumes ok: "system_ok n d tot y" and s: "map_of (ys_api y) u = Some s" and w: "rewritten w s"
    and p: "sl_Phase w = sl_Phase s \<or> sl_Phase w = SlicePhaseReleasing \<or>
      sl_Phase w = SlicePhaseReady \<and> sl_Phase s = PhasePreempting \<or> sl_Phase w = PhasePreempting \<and> sl_Phase s = SlicePhaseReady"
  shows "system_ok n d tot (y\<lparr>ys_api := gput u w (ys_api y)\<rparr>)"
proof (rule api_step_ok [OF ok])
  note sl = system_okD(4) [OF ok s]
  have f: "sl_UID w = sl_UID s" "sl_NodeName w = sl_NodeName s" "sl_RequestedVRAMBytes w = sl_RequestedVRAMBytes s"
    "sl_AllocationID w = sl_AllocationID s" "sl_AllocatedBytes w = sl_AllocatedBytes s"
    using w by (simp_all add: rewritten_def same_slice_def)
  have ph: "pending w \<longrightarrow> pending s" "occupying w \<longrightarrow> occupying s" "allocatable s \<longrightarrow> allocatable w"
    "sl_Phase w = SlicePhaseReady \<or> sl_Phase w = PhasePreempting \<longrightarrow> sl_Phase s = SlicePhaseReady \<or> sl_Phase s = PhasePreempting"
    "sl_Phase w = SlicePhaseScheduled \<or> sl_Phase w = SlicePhaseAllocating \<longrightarrow> sl_Phase s = SlicePhaseScheduled \<or> sl_Phase s = SlicePhaseAllocating"
    using p by (elim disjE conjE; simp add: pending_def occupying_def allocatable_def)+
  show "slice_ok n (ys_cache y) u w"
    using sl ph unfolding slice_ok_def f by blast
  show "backs n w k e" if "map_of (al_byAlloc (mg_alloc (ys_agent y))) k = Some e" "le_sliceUID e = u" for k e
    using backs_unique_entry(1) [OF ok s that] ph(3)
    by (simp add: backs_def f)
qed

lemma delete_asked_ok:
  assumes "system_ok n d tot y" and "map_of (ys_api y) u = Some s"
  shows "system_ok n d tot (y\<lparr>ys_api := gput u (s\<lparr>sl_DeletionTimestamp := Some t\<rparr>) (ys_api y)\<rparr>)"
  by (rule rewrite_ok [OF assms]) (simp_all add: rewritten_def same_slice_def)

lemma preempt_ok:
  assumes "system_ok n d tot y" and "map_of (ys_api y) u = Some s"
    and "mark_change requester grace now s = Some w \<or> unmark_change s = Some w"
  shows "system_ok n d tot (y\<lparr>ys_api := gput u w (ys_api y)\<rparr>)"
  using assms(3)
  by (intro rewrite_ok [OF assms(1,2)])
    (auto simp: mark_change_def unmark_change_def rewritten_def same_slice_def phase_defs split: if_splits)

lemma bind_writes:
  assumes "bindToKubernetesAPI (Found s) patch statusPatch now c k = (err, eff)"
  shows "eff = [] \<or> (\<forall>w\<in>set (map effect_slice eff). sl_UID w = sl_UID s) \<and>
    rewritten (last (map effect_slice eff) \<lparr>sl_NodeName := sl_NodeName s\<rparr>) s \<and> sl_NodeName (last (map effect_slice eff)) = k \<and>
    (sl_Phase (last (map effect_slice eff)) = sl_Phase s \<or> sl_Phase (last (map effect_slice eff)) = SlicePhaseScheduled)"
  using assms
  by (auto simp: bindToKubernetesAPI_def Let_def effect_slice_def rewritten_def same_slice_def SlicePhaseScheduled_def split: if_splits)

lemma bind_ok:
  assumes ok: "system_ok n d tot y" and s: "map_of (ys_api y) u = Some s" "pending s"
    and k: "IsAssumed (ys_cache y) u = Some (k, b)"
    and eff: "bindToKubernetesAPI (Found s) patch statusPatch now (ys_cache y) k = (err, eff)"
  shows "system_ok n d tot (y\<lparr>ys_api := store_writes (map effect_slice eff) (ys_api y)\<rparr>)"
proof (cases "eff = []")
  case True
  then show ?thesis using ok by simp
next
  case False
  let ?w = "last (map effect_slice eff)"
  note sl = system_okD(4) [OF ok s(1)] and c = system_okD(1) [OF ok] and wr = bind_writes [OF eff]
  have uid: "sl_UID s = u" using sl by (simp add: slice_ok_def)
  have "map_of (store_writes (map effect_slice eff) (ys_api y)) = (map_of (ys_api y))(u \<mapsto> ?w)"
    using wr False uid by (intro map_of_store_writes) auto
  then have "system_ok n d tot (y\<lparr>ys_api := store_writes (map effect_slice eff) (ys_api y)\<rparr>)
      = system_ok n d tot (y\<lparr>ys_api := gput u ?w (ys_api y)\<rparr>)"
    by (intro system_ok_api) auto
  moreover have "system_ok n d tot (y\<lparr>ys_api := gput u ?w (ys_api y)\<rparr>)"
  proof (rule api_step_ok [OF ok])
    obtain a where a: "map_of (assumedBySlice (ys_cache y)) u = Some a" "aa_NodeName a = k"
      using k by (auto simp: IsAssumed_def)
    have "aa_Bytes a \<le> hold k (ys_cache y) u"
      using a entry_bytes [OF c] unfolding hold_def
      by (auto simp: on_node_def alloc_on_def intro!: add_nonneg_nonneg split: option.split)
    moreover have "sl_RequestedVRAMBytes s \<le> aa_Bytes a" using sl a by (simp add: slice_ok_def)
    ultimately have h: "sl_RequestedVRAMBytes s \<le> hold k (ys_cache y) u" by linarith
    have f: "sl_UID ?w = u" "sl_NodeName ?w = k" "sl_RequestedVRAMBytes ?w = sl_RequestedVRAMBytes s"
      "sl_AllocationID ?w = sl_AllocationID s"
      using wr False uid by (simp_all add: rewritten_def same_slice_def)
    have ph: "sl_Phase ?w \<noteq> SlicePhaseReady" "sl_Phase ?w \<noteq> PhasePreempting"
      using wr False pending_not_occupying [OF s(2)] by auto
    have tracked: "map_of (allocatedNodeBySlice (ys_cache y)) u = None"
      using sl s(2) by (auto simp: slice_ok_def)
    show "slice_ok n (ys_cache y) u ?w"
      using sl s(2) h ph tracked unfolding slice_ok_def f by blast
    show "backs n ?w j e" if "map_of (al_byAlloc (mg_alloc (ys_agent y))) j = Some e" "le_sliceUID e = u" for j e
      using backs_unique_entry(1) [OF ok s(1) that] pending_not_occupying [OF s(2)] by (simp add: backs_def)
  qed
  ultimately show ?thesis by simp
qed

section \<open>The controller's step\<close>

lemma to_releasing_rewrites: "rewritten (to_releasing s) s \<and> (sl_Phase (to_releasing s) = sl_Phase s \<or> sl_Phase (to_releasing s) = SlicePhaseReleasing)"
proof (cases "TransitionSlicePhase s SlicePhaseReleasing [] ''Deletion requested''")
  case (Inl e)
  then show ?thesis by (simp add: to_releasing_def rewritten_def same_slice_def)
next
  case (Inr w)
  then show ?thesis using Transition_same [OF Inr] by (simp add: to_releasing_def rewritten_def)
qed

lemma finalizer_rewrites:
  assumes "drop_slice_finalizer s = Some w \<or> add_slice_finalizer s = Some w"
  shows "rewritten w s \<and> sl_Phase w = sl_Phase s"
  using assms by (auto simp: drop_slice_finalizer_def add_slice_finalizer_def rewritten_def same_slice_def)

lemma preempting_rewrites:
  assumes "so_written (reconcile_preempting env s) = Some w"
  shows "rewritten w s \<and> (sl_Phase w = sl_Phase s \<or> sl_Phase w = SlicePhaseReleasing)"
  using assms
  by (auto simp: reconcile_preempting_def Let_def rewritten_def same_slice_def split: option.splits if_splits prod.splits)

lemma PatchSliceStatus_current:
  assumes "PatchSliceStatus rd reply f s = (b, Some w)" and "\<forall>x. rd = Found x \<longrightarrow> x = s"
  shows "w = f s"
  using assms by (auto simp: PatchSliceStatus_def Let_def split: api_read.splits if_splits)

lemma RetryOnConflict_current:
  assumes "RetryOnConflict net f = (err, Some w)" and "\<forall>i x. fst (net i) = Found x \<longrightarrow> x = s"
  shows "f s = Some w"
  using RetryOnConflict_written [of net f w] assms by auto

lemma controller_rewrites:
  assumes "reads_current env s" and "so_written (Reconcile_slice env) = Some w"
  shows "rewritten w s \<and> (sl_Phase w = sl_Phase s \<or> sl_Phase w = SlicePhaseReleasing)"
proof (cases "sl_Phase s = PhasePreempting")
  case True
  then show ?thesis
    using assms by (intro preempting_rewrites [of env]) (simp add: Reconcile_slice_def reads_current_def)
next
  case False
  have cur: "\<forall>i x. fst (sv_finalizer env i) = Found x \<longrightarrow> x = s" "\<forall>x. sv_patchRead env = Found x \<longrightarrow> x = s"
    using assms(1) by (simp_all add: reads_current_def)
  have "snd (reconcileSlice env s) = Some w"
    using assms False by (simp add: Reconcile_slice_def reads_current_def split_beta)
  then have "snd (RetryOnConflict (sv_finalizer env) drop_slice_finalizer) = Some w \<or>
      snd (RetryOnConflict (sv_finalizer env) add_slice_finalizer) = Some w \<or>
      snd (PatchSliceStatus (sv_patchRead env) (sv_patch env) to_releasing s) = Some w"
    by (auto simp: reconcileSlice_def handleDelete_def Let_def split_beta split: if_splits)
  then have "drop_slice_finalizer s = Some w \<or> add_slice_finalizer s = Some w \<or> w = to_releasing s"
    using RetryOnConflict_current [OF _ cur(1)] PatchSliceStatus_current [OF _ cur(2)] by (metis prod.collapse)
  then show ?thesis using finalizer_rewrites to_releasing_rewrites by blast
qed

lemma controller_ok:
  assumes ok: "system_ok n d tot y" and s: "map_of (ys_api y) u = Some s" and "reads_current env s"
    and "so_written (Reconcile_slice env) = Some w"
    and gone: "map_of (store_controlled w (ys_api y)) u = None \<longrightarrow> map_of (al_bySlice (mg_alloc (ys_agent y))) u = None"
  shows "system_ok n d tot (y\<lparr>ys_api := store_controlled w (ys_api y)\<rparr>)"
proof -
  note r = controller_rewrites [OF assms(3,4)]
  have uid: "sl_UID w = u" using r system_okD(4) [OF ok s] by (simp add: rewritten_def same_slice_def slice_ok_def)
  show ?thesis
  proof (cases "sl_DeletionTimestamp w \<noteq> None \<and> SliceFinalizerName \<notin> set (sl_Finalizers w)")
    case True
    then have "store_controlled w (ys_api y) = gdel u (ys_api y)" by (simp add: store_controlled_def uid)
    then show ?thesis using api_removal_ok [OF ok, of u] gone by simp
  next
    case False
    then have "store_controlled w (ys_api y) = gput u w (ys_api y)" by (auto simp: store_controlled_def uid)
    then show ?thesis using rewrite_ok [OF ok s, of w] r by auto
  qed
qed

section \<open>The agent's step\<close>

lemma agent_fewer_ok:
  assumes ok: "system_ok n d tot y" and "agent_ok d (mg_alloc m)"
    and "map_of (al_byAlloc (mg_alloc m)) \<subseteq>\<^sub>m map_of (al_byAlloc (mg_alloc (ys_agent y)))"
  shows "system_ok n d tot (y\<lparr>ys_agent := m\<rparr>)"
proof -
  have "entry_ok n (ys_cache y) (ys_api y) k e" if "map_of (al_byAlloc (mg_alloc m)) k = Some e" for k e
    using that assms(3) by (intro system_okD(5) [OF ok]) (force simp: map_le_def)
  then show ?thesis using ok assms(2) by (simp add: system_ok_def)
qed

lemma released_subset: "map_of (al_byAlloc (releaseLocked k a)) \<subseteq>\<^sub>m map_of (al_byAlloc a)"
  by (auto simp: releaseLocked_byAlloc map_le_def)

lemma free_hardware_fewer:
  assumes "free_hardware io s m = (err, m')" and "agent_ok d (mg_alloc m)" and "devices_ok [d]"
  shows "agent_ok d (mg_alloc m') \<and> map_of (al_byAlloc (mg_alloc m')) \<subseteq>\<^sub>m map_of (al_byAlloc (mg_alloc m))"
proof -
  have "mg_alloc m' = mg_alloc m \<or> (\<exists>k. mg_alloc m' = releaseLocked k (mg_alloc m))"
    using free_hardware_alloc [OF assms(1)]
    by (auto simp: Release_def ReleaseBySlice_def split: if_splits option.splits)
  then show ?thesis using assms(2) indexed_release [OF assms(2,3)] released_subset by auto
qed

text \<open>A release that reports takes the slice's entry off the ledger.\<close>

lemma free_hardware_clears:
  assumes ok: "system_ok n d tot y" and s: "map_of (ys_api y) u = Some s"
    and free: "free_hardware io s (ys_agent y) = (None, m')"
  shows "map_of (al_byAlloc (mg_alloc m')) k = Some e \<Longrightarrow> le_sliceUID e \<noteq> u"
proof
  assume e: "map_of (al_byAlloc (mg_alloc m')) k = Some e" "le_sliceUID e = u"
  note agent = system_okD(3) [OF ok]
  note freed = free_hardware_done [OF free, of "[d]"]
  have ledger: "ledger_ok [d] (mg_alloc (ys_agent y))" and idx: "indexed (mg_alloc (ys_agent y))"
    using agent by (simp_all add: agent_ok_def)
  have uid: "sl_UID s = u" using system_okD(4) [OF ok s] by (simp add: slice_ok_def)
  show False
  proof (cases "released_id s (mg_alloc (ys_agent y))")
    case None
    then have "map_of (al_byAlloc (mg_alloc (ys_agent y))) k = Some e" using freed ledger e(1) by simp
    then have "map_of (al_bySlice (mg_alloc (ys_agent y))) u = Some k" using idx e(2) by (auto simp: indexed_def)
    then show False using None uid by (simp add: released_id_def split: if_splits)
  next
    case (Some j)
    then have j: "k \<noteq> j" "map_of (al_byAlloc (mg_alloc (ys_agent y))) k = Some e"
      using freed ledger e(1) by (auto simp: releaseLocked_byAlloc split: if_splits)
    then have "map_of (al_bySlice (mg_alloc (ys_agent y))) u = Some k" "sl_AllocationID s = [] \<or> sl_AllocationID s = k"
      using idx e(2) backs_unique_entry(1) [OF ok s j(2) e(2)] by (auto simp: indexed_def backs_def)
    then show False using Some uid j(1) by (auto simp: released_id_def split: if_splits)
  qed
qed

lemma agent_release_ok:
  assumes ok: "system_ok n d tot y" and dev: "devices_ok [d]" and s: "map_of (ys_api y) u = Some s"
    and rel: "release_slice io s (ys_agent y) = (err, m, ws)"
  shows "system_ok n d tot (y\<lparr>ys_agent := m, ys_api := store_writes ws (ys_api y)\<rparr>)"
proof -
  obtain e m1 where free: "free_hardware io s (ys_agent y) = (e, m1)" by (cases "free_hardware io s (ys_agent y)")
  note fewer = free_hardware_fewer [OF free system_okD(3) [OF ok] dev]
  have ok1: "system_ok n d tot (y\<lparr>ys_agent := m1\<rparr>)" using fewer by (intro agent_fewer_ok [OF ok]) simp_all
  have m: "m = m1" and ws: "ws \<noteq> [] \<longrightarrow> e = None \<and> ws = snd (ReportReleaseComplete (mi_update io) s)"
    using rel free by (auto simp: release_slice_def split: option.splits prod.splits)
  show ?thesis
  proof (cases "ws = []")
    case True
    then show ?thesis using ok1 m by simp
  next
    case False
    let ?w = "last ws" and ?y = "y\<lparr>ys_agent := m1\<rparr>"
    have report: "ws = snd (ReportReleaseComplete (mi_update io) s)" and e: "e = None" using ws False by auto
    have same: "same_slice w s" "sl_Phase w = SlicePhaseReleased" if "w \<in> set ws" for w
      using Released_same ReportReleaseComplete_writes that unfolding report by blast+
    have w: "same_slice ?w s" "sl_Phase ?w = SlicePhaseReleased" using same False by auto
    have s1: "map_of (ys_api ?y) u = Some s" using s by simp
    note sl = system_okD(4) [OF ok1 s1]
    have "map_of (store_writes ws (ys_api y)) = (map_of (ys_api y))(u \<mapsto> ?w)"
      using same(1) sl False by (intro map_of_store_writes) (auto simp: same_slice_def slice_ok_def)
    then have "system_ok n d tot (?y\<lparr>ys_api := store_writes ws (ys_api y)\<rparr>) = system_ok n d tot (?y\<lparr>ys_api := gput u ?w (ys_api ?y)\<rparr>)"
      by (intro system_ok_api) auto
    moreover have "system_ok n d tot (?y\<lparr>ys_api := gput u ?w (ys_api ?y)\<rparr>)"
    proof (rule api_step_ok [OF ok1])
      show "slice_ok n (ys_cache ?y) u ?w"
        using sl w by (auto simp: slice_ok_def same_slice_def occupying_def pending_def)
      show "backs n ?w k x" if "map_of (al_byAlloc (mg_alloc (ys_agent ?y))) k = Some x" "le_sliceUID x = u" for k x
        using free_hardware_clears [OF ok s free [unfolded e]] that by simp
    qed
    ultimately show ?thesis using m by simp
  qed
qed

text \<open>An allocation adds the slice's entry, or finds it.\<close>

lemma Allocate_index:
  assumes "Allocate (Some ds) now req a = (Inr r, a')"
  shows "map_of (al_bySlice a') = (map_of (al_bySlice a))(aq_SliceUID req \<mapsto> ar_AllocationID r) \<and> al_initialized a' \<and>
    (case map_of (al_bySlice a) (aq_SliceUID req) of
       None \<Rightarrow> ar_AllocatedBytes r = aq_RequestedVRAMBytes req
     | Some k \<Rightarrow> k = ar_AllocationID r \<and> (\<forall>e. map_of (al_byAlloc a) k = Some e \<longrightarrow> ar_AllocatedBytes r = le_bytes e))"
  using assms by (auto simp: Allocate_def Let_def commit_entry_def split: if_splits option.splits sum.splits)

lemma indexed_Allocate:
  assumes "Allocate (Some [d]) now req a = (Inr r, a')" and "agent_ok d a" and "devices_ok [d]"
    and "\<not> ghas (al_byAlloc a) (alloc_id (aq_SliceUID req) now)"
  shows "agent_ok d a'"
proof -
  have ledger: "ledger_ok [d] a" and idx: "indexed a" using assms(2) by (simp_all add: agent_ok_def)
  note entry = Allocate_entry [OF assms(1) ledger assms(3)] and index = Allocate_index [OF assms(1)]
  have "map_of (al_bySlice a') (le_sliceUID x) = Some j" if "map_of (al_byAlloc a') j = Some x" for j x
  proof (cases "j = ar_AllocationID r")
    case True
    then show ?thesis using that entry index by (auto simp: result_entry_def)
  next
    case False
    then have "map_of (al_bySlice a) (le_sliceUID x) = Some j" using that entry idx by (simp add: indexed_def)
    moreover from this have "le_sliceUID x \<noteq> aq_SliceUID req" using False index by auto
    ultimately show ?thesis using index by simp
  qed
  then show ?thesis
    using Allocate_ok [OF ledger assms(3,4)] assms(1) index by (simp add: agent_ok_def indexed_def)
qed

lemma allocated_bytes:
  assumes ok: "system_ok n d tot y" and s: "map_of (ys_api y) u = Some s"
    and r: "Allocate (Some [d]) now (request_of s) (mg_alloc (ys_agent y)) = (Inr r, a)"
  shows "ar_AllocatedBytes r = sl_RequestedVRAMBytes s"
proof (cases "map_of (al_bySlice (mg_alloc (ys_agent y))) u")
  case None
  then show ?thesis using Allocate_index [OF r] system_okD(4) [OF ok s] by (simp add: slice_ok_def)
next
  case (Some k)
  have "ledger_ok [d] (mg_alloc (ys_agent y))" using system_okD(3) [OF ok] by (simp add: agent_ok_def)
  then obtain e where e: "map_of (al_byAlloc (mg_alloc (ys_agent y))) k = Some e" "le_sliceUID e = u"
    using ledger_index [OF _ Some] by blast
  then show ?thesis
    using Allocate_index [OF r] Some system_okD(4) [OF ok s] backs_unique_entry(1) [OF ok s e]
    by (simp add: slice_ok_def backs_def)
qed

lemma agent_allocate_ok:
  assumes ok: "system_ok n d tot y" and dev: "devices_ok [d]" and fits: "tot \<le> ad_total d - ad_reserved d"
    and s: "map_of (ys_api y) u = Some s" "sl_NodeName s = n" "sl_Phase s = SlicePhaseScheduled \<or> sl_Phase s = SlicePhaseAllocating"
    and al: "allocate_slice io s (ys_agent y) = (err, m, ws)"
    and io: "mi_devices io = Some [d]" "mi_update io = Some reply"
    and fresh: "\<not> ghas (al_byAlloc (mg_alloc (ys_agent y))) (alloc_id u (mi_now io))"
  shows "system_ok n d tot (y\<lparr>ys_agent := m, ys_api := store_writes ws (ys_api y)\<rparr>)"
proof -
  let ?a = "mg_alloc (ys_agent y)" and ?w = "last ws"
  obtain r a where r: "Allocate (Some [d]) (mi_now io) (request_of s) ?a = (Inr r, a)"
    using agent_allocates [OF ok dev fits s] by blast
  note sl = system_okD(4) [OF ok s(1)] and agent = system_okD(3) [OF ok]
  have uid: "sl_UID s = u" and req: "0 < sl_RequestedVRAMBytes s" and id: "sl_AllocationID s = []"
    using sl s(3) by (auto simp: slice_ok_def)
  from allocate_slice_writes [OF al io(2,1) r] show ?thesis
  proof (elim disjE conjE)
    assume "ws = []" and "m = ys_agent y"
    then show ?thesis using ok by simp
  next
    assume ws: "ws \<noteq> []" and m: "mg_alloc m = a" and w: "\<forall>w\<in>set ws. same_slice w s \<and>
      (sl_Phase w = SlicePhaseAllocating \<and> sl_AllocationID w = sl_AllocationID s \<or>
       sl_Phase w = SlicePhaseReady \<and> sl_AllocationID w = ar_AllocationID r \<and> sl_AllocatedBytes w = ar_AllocatedBytes r)"
    have f: "sl_UID ?w = u" "sl_NodeName ?w = n" "sl_RequestedVRAMBytes ?w = sl_RequestedVRAMBytes s"
      and ph: "sl_Phase ?w = SlicePhaseAllocating \<and> sl_AllocationID ?w = [] \<or>
        sl_Phase ?w = SlicePhaseReady \<and> sl_AllocationID ?w = ar_AllocationID r \<and> sl_AllocatedBytes ?w = ar_AllocatedBytes r"
      using w ws uid s(2) id by (auto simp: same_slice_def)
    have entry: "map_of (al_byAlloc a) = (map_of (al_byAlloc ?a))(ar_AllocationID r \<mapsto> result_entry u r)"
      using Allocate_entry [OF r _ dev] agent uid by (simp add: agent_ok_def)
    have bytes: "ar_AllocatedBytes r = sl_RequestedVRAMBytes s"
      using allocated_bytes [OF ok s(1) r] .
    have held: "sl_RequestedVRAMBytes s \<le> hold n (ys_cache y) u"
      using occupied_hold [OF sl s(2)] s(3) by (auto simp: occupying_def)
    have "agent_ok d a" using indexed_Allocate [OF r agent dev] fresh uid by simp
    moreover have "slice_ok n (ys_cache y) u ?w"
      using sl ph held s(2,3) bytes unfolding slice_ok_def f by (auto simp: pending_def)
    moreover have "entry_ok n (ys_cache y) (gput u ?w (ys_api y)) k e" if "map_of (al_byAlloc a) k = Some e" for k e
    proof (cases "k = ar_AllocationID r")
      case True
      then have "e = result_entry u r" using that entry by simp
      then show ?thesis using True f ph held bytes by (auto simp: entry_ok_def backs_def result_entry_def allocatable_def)
    next
      case False
      then have old: "map_of (al_byAlloc ?a) k = Some e" using that entry by simp
      have "le_sliceUID e \<noteq> u"
      proof
        assume e: "le_sliceUID e = u"
        then have "map_of (al_bySlice ?a) u = Some k" using old agent by (auto simp: agent_ok_def indexed_def)
        then show False using Allocate_index [OF r] uid False by simp
      qed
      then show ?thesis using system_okD(5) [OF ok old] by (simp add: entry_ok_def)
    qed
    ultimately have "system_ok n d tot (y\<lparr>ys_agent := m, ys_api := gput u ?w (ys_api y)\<rparr>)"
      using ok by (simp add: system_ok_def m)
    moreover have "map_of (store_writes ws (ys_api y)) = (map_of (ys_api y))(u \<mapsto> ?w)"
      using w uid ws by (intro map_of_store_writes) (auto simp: same_slice_def)
    then have "map_of (store_writes ws (ys_api y)) = map_of (gput u ?w (ys_api y))" by auto
    ultimately show ?thesis using system_ok_api [of "store_writes ws (ys_api y)" "gput u ?w (ys_api y)" n d tot "y\<lparr>ys_agent := m\<rparr>"] by simp
  qed
qed

end
