(* ===== verification/NodeProps.thy ===== *)
theory NodeProps
  imports NodeSteps
begin

text \<open>
  The composed node, run from the start: whatever order the scheduler, the controllers and the agent act in,
  the agent's ledger stays within the scheduler's, and a slice bound to the node gets its bytes.
\<close>

section \<open>Every run keeps the invariant\<close>

lemma node_step_ok:
  assumes step: "node_step n d y y'" and ok: "system_ok n d tot y"
    and dev: "devices_ok [d]" and fits: "tot \<le> ad_total d - ad_reserved d" "tot < 2 ^ 62"
  shows "system_ok n d tot y'"
  using step
proof cases
  case (other_node k c t a)
  then show ?thesis
    using ok remove_node_ok update_node_ok cache_ok_step [OF _ system_okD(1) [OF ok]] by metis
next
  case (agent u s io res m ws reply)
  consider "m = ys_agent y" "ws = []"
    | err where "sl_NodeName s = n" "sl_Phase s = SlicePhaseScheduled \<or> sl_Phase s = SlicePhaseAllocating"
        "allocate_slice io s (ys_agent y) = (err, m, ws)"
    | err where "release_slice io s (ys_agent y) = (err, m, ws)"
    using agent(3) by (auto simp: Reconcile_agent_def ReconcileSlice_def split: if_splits prod.splits option.splits)
  then show ?thesis
  proof cases
    case 1
    then show ?thesis using ok agent(1) by simp
  next
    case 2
    show ?thesis
      unfolding agent(1) by (rule agent_allocate_ok [OF ok dev fits(1) agent(2) 2 agent(4-6)])
  next
    case 3
    then show ?thesis unfolding agent(1) by (rule agent_release_ok [OF ok dev agent(2)])
  qed
next
  case create
  show ?thesis unfolding create(1) by (rule create_ok [OF ok create(2-5)])
next
  case reserve
  show ?thesis unfolding reserve(1) by (rule reserve_ok [OF ok reserve(2-4)])
next
  case give_back
  show ?thesis unfolding give_back(1) by (rule give_back_ok [OF ok give_back(2)])
next
  case reap
  show ?thesis unfolding reap(1) by (rule reap_ok [OF ok reap(2)])
next
  case pin
  show ?thesis unfolding pin by (rule pin_ok [OF ok])
next
  case bind
  show ?thesis unfolding bind(1) by (rule bind_ok [OF ok bind(2-5)])
next
  case confirm
  show ?thesis unfolding confirm(1) by (rule confirm_ok [OF ok confirm(2)])
next
  case sync
  show ?thesis unfolding sync(1) by (rule sync_ok [OF ok fits(2) sync(2,4,3,5)])
next
  case forget
  show ?thesis unfolding forget(1) by (rule forget_ok [OF ok forget(2-4)])
next
  case seed
  show ?thesis unfolding seed by (rule seed_ok [OF ok])
next
  case health
  show ?thesis unfolding health by (rule health_ok [OF ok])
next
  case zone
  show ?thesis unfolding zone by (rule zone_ok [OF ok])
next
  case delete_asked
  show ?thesis unfolding delete_asked(1) by (rule delete_asked_ok [OF ok delete_asked(2)])
next
  case preempt
  show ?thesis unfolding preempt(1) by (rule preempt_ok [OF ok preempt(2,3)])
next
  case controller
  show ?thesis unfolding controller(1) by (rule controller_ok [OF ok controller(2-5)])
qed

lemma fresh_system_ok:
  assumes "devices_ok [d]" and "0 \<le> tot" and "tot < 2 ^ 62"
  shows "system_ok n d tot (fresh_system n tot mock cdi)"
proof -
  have "cache_ok (UpdateNode n tot 0 NewVRAMCache)"
    using assms(2,3) by (intro cache_ok_UpdateNode cache_ok_New) (simp_all add: NewVRAMCache_def new_node_def)
  moreover have "room n tot (UpdateNode n tot 0 NewVRAMCache)"
    using assms(2) by (simp add: room_def UpdateNode_def NewVRAMCache_def new_node_def recalculateFreeVRAM_def Let_def)
  moreover have "agent_ok d (NewAllocator mock)"
    using NewAllocator_ok [OF assms(1)] by (simp add: agent_ok_def indexed_def NewAllocator_def)
  ultimately show ?thesis
    by (simp add: system_ok_def fresh_system_def NewManager_def LoadAll_def NewAllocator_def)
qed

lemma system_run_ok:
  assumes "system_run n d tot y" and "devices_ok [d]" and "0 \<le> tot" and "tot \<le> ad_total d - ad_reserved d" and "tot < 2 ^ 62"
  shows "system_ok n d tot y"
  using assms(1)
proof induction
  case (start mock cdi)
  then show ?case by (rule fresh_system_ok [OF assms(2,3,5)])
next
  case (step y y')
  then show ?case using node_step_ok [OF step.hyps(2) step.IH assms(2,4,5)] by simp
qed

section \<open>An attempt in which every write is taken\<close>

text \<open>The files of the allocation can be written: its CDI spec and its checkpoint record.\<close>

definition files_writable :: "manager_io \<Rightarrow> vgpu_slice \<Rightarrow> manager \<Rightarrow> bool" where
  "files_writable io s m \<longleftrightarrow>
    (case Allocate (mi_devices io) (mi_now io) (request_of s) (mg_alloc m) of
       (Inl _, _) \<Rightarrow> True
     | (Inr r, _) \<Rightarrow> fst (GenerateFirewall (mi_cdi io) (ar_AllocationID r) (ar_DeviceUUID r) (mg_cdi m)) = None \<and>
         fst (Save (mi_store io) (the_record io m s r) (mg_store m)) = None)"

lemma Transition_record:
  "TransitionSlicePhase s q reason msg = Inr x \<Longrightarrow> sl_Phase x = q \<and> request_of x = request_of s \<and>
    the_record io m x r = the_record io m s r \<and> sl_UID x = sl_UID s"
  by (auto simp: TransitionSlicePhase_def Let_def request_of_def the_record_def split: option.splits if_splits)

lemma to_Allocating:
  "sl_Phase s = SlicePhaseScheduled \<or> sl_Phase s = SlicePhaseAllocating \<Longrightarrow>
    \<exists>x. TransitionSlicePhase s SlicePhaseAllocating reason msg = Inr x"
  by (auto simp: TransitionSlicePhase_def legalSliceTransitions_def Let_def)

lemma Allocating_to_Ready:
  assumes "sl_Phase x = SlicePhaseAllocating" and "k \<noteq> []"
  obtains w where "MarkSliceReady x k u b = Inr w" and "sl_Phase w = SlicePhaseReady" and "sl_AllocationID w = k"
    and "sl_AllocatedBytes w = b" and "sl_UID w = sl_UID x"
  using assms that by (simp add: MarkSliceReady_def TransitionSlicePhase_def legalSliceTransitions_def Let_def)

lemma finish_ready:
  assumes "sl_Phase x = SlicePhaseAllocating" and "ar_AllocationID r \<noteq> []" and "mi_update io = Some (\<lambda>site. Accepted)"
    and "fst (GenerateFirewall (mi_cdi io) (ar_AllocationID r) (ar_DeviceUUID r) (mg_cdi m)) = None"
    and "fst (Save (mi_store io) (the_record io m x r) (mg_store m)) = None"
  obtains m' w where "finish_allocation io x r m = (None, m', [w])" and "sl_Phase w = SlicePhaseReady"
    and "sl_AllocationID w = ar_AllocationID r" and "sl_AllocatedBytes w = ar_AllocatedBytes r" and "sl_UID w = sl_UID x"
proof -
  obtain cdi dirs where "GenerateFirewall (mi_cdi io) (ar_AllocationID r) (ar_DeviceUUID r) (mg_cdi m) = (None, cdi)"
    "Save (mi_store io) (the_record io m x r) (mg_store m) = (None, dirs)"
    using assms(4,5) by (metis prod.collapse)
  moreover obtain w where "MarkSliceReady x (ar_AllocationID r) (ar_DeviceUUID r) (ar_AllocatedBytes r) = Inr w"
    "sl_Phase w = SlicePhaseReady" "sl_AllocationID w = ar_AllocationID r" "sl_AllocatedBytes w = ar_AllocatedBytes r" "sl_UID w = sl_UID x"
    using Allocating_to_Ready [OF assms(1,2)] by metis
  ultimately show ?thesis
    using that assms(3) by (simp add: finish_allocation_def ReportAllocationReady_def statusUpdate_def)
qed

lemma allocate_slice_ready:
  assumes "sl_Phase s = SlicePhaseScheduled \<or> sl_Phase s = SlicePhaseAllocating" and "mi_devices io = Some [d]"
    and up: "mi_update io = Some (\<lambda>site. Accepted)" and r: "Allocate (Some [d]) (mi_now io) (request_of s) (mg_alloc m) = (Inr r, a)"
    and "ar_AllocationID r \<noteq> []" and files: "files_writable io s m"
  obtains m' ws where "allocate_slice io s m = (None, m', ws)" and "ws \<noteq> []" and "\<forall>w\<in>set ws. sl_UID w = sl_UID s"
    and "sl_Phase (last ws) = SlicePhaseReady" and "sl_AllocationID (last ws) = ar_AllocationID r"
    and "sl_AllocatedBytes (last ws) = ar_AllocatedBytes r"
proof -
  obtain x where x: "TransitionSlicePhase s SlicePhaseAllocating [] ''NodeAgent beginning hardware allocation'' = Inr x"
    "sl_Phase x = SlicePhaseAllocating" "request_of x = request_of s" "the_record io m x r = the_record io m s r" "sl_UID x = sl_UID s"
    using to_Allocating [OF assms(1)] Transition_record [of s SlicePhaseAllocating] by metis
  have rec: "the_record io (m\<lparr>mg_alloc := a\<rparr>) x r = the_record io m s r" using x(4) by (simp add: the_record_def)
  obtain m' w where f: "finish_allocation io x r (m\<lparr>mg_alloc := a\<rparr>) = (None, m', [w])"
    "sl_Phase w = SlicePhaseReady" "sl_AllocationID w = ar_AllocationID r" "sl_AllocatedBytes w = ar_AllocatedBytes r" "sl_UID w = sl_UID x"
    using finish_ready [OF x(2) assms(5) up, of "m\<lparr>mg_alloc := a\<rparr>"] files rec assms(2) r
    by (auto simp: files_writable_def)
  have "allocate_slice io s m = (None, m', [x, w])"
    using x(1,3) up assms(2) r f(1)
    by (simp add: allocate_slice_def TransitionToAllocating_def statusUpdate_def request_of_def)
  then show ?thesis using that f(2-5) x(5) by simp
qed

section \<open>Properties\<close>

text \<open>A run: a slice is created, reserved on the node and bound.\<close>

definition y_created :: node_system where
  "y_created = (fresh_system ''n1'' 60 True [])\<lparr>ys_api := [(''u'', slice0)]\<rparr>"

definition y_reserved :: node_system where
  "y_reserved = y_created\<lparr>ys_cache := (case AssumeSlice ''u'' ''ns'' ''n1'' 10 50 0 (ys_cache y_created) of
     Inr c \<Rightarrow> c | Inl _ \<Rightarrow> ys_cache y_created)\<rparr>"

definition y_bound :: node_system where
  "y_bound = y_reserved\<lparr>ys_api := store_writes (map effect_slice
     (snd (bindToKubernetesAPI (Found slice0) WriteOk WriteOk 1 (ys_cache y_reserved) ''n1''))) (ys_api y_reserved)\<rparr>"

definition s_bound :: vgpu_slice where
  "s_bound = slice0\<lparr>sl_NodeName := ''n1'', sl_Phase := SlicePhaseScheduled\<rparr>"

lemma y_created_run: "system_run ''n1'' gpu_A 60 y_created"
proof -
  have "y_created = (fresh_system ''n1'' 60 True [])\<lparr>ys_api := gput (sl_UID slice0) slice0 (ys_api (fresh_system ''n1'' 60 True []))\<rparr>"
    by code_simp
  moreover have "unused (sl_UID slice0) (fresh_system ''n1'' 60 True [])" "pending slice0" "sl_AllocationID slice0 = []"
    "0 < sl_RequestedVRAMBytes slice0"
    by code_simp+
  ultimately have "node_step ''n1'' gpu_A (fresh_system ''n1'' 60 True []) y_created"
    using node_step.create [of slice0 "fresh_system ''n1'' 60 True []"] by simp
  then show ?thesis by (rule step [OF start])
qed

lemma y_bound_run: "system_run ''n1'' gpu_A 60 y_bound"
proof -
  have "node_step ''n1'' gpu_A y_created y_reserved"
  proof -
    have c: "map_of (ys_api y_created) ''u'' = Some slice0" "pending slice0"
      "AssumeSlice ''u'' ''ns'' ''n1'' (sl_RequestedVRAMBytes slice0) 50 0 (ys_cache y_created) = Inr (ys_cache y_reserved)"
      and y: "y_created\<lparr>ys_cache := ys_cache y_reserved\<rparr> = y_reserved"
      by code_simp+
    from node_step.reserve [OF c] show ?thesis unfolding y .
  qed
  moreover have "node_step ''n1'' gpu_A y_reserved y_bound"
  proof -
    let ?b = "bindToKubernetesAPI (Found slice0) WriteOk WriteOk 1 (ys_cache y_reserved) ''n1''"
    have "map_of (ys_api y_reserved) ''u'' = Some slice0" "pending slice0" "IsAssumed (ys_cache y_reserved) ''u'' = Some (''n1'', 10)"
      by code_simp+
    then show ?thesis unfolding y_bound_def by (rule bind) (rule prod.collapse [symmetric])
  qed
  ultimately show ?thesis
    by (blast intro: step y_created_run)
qed

lemma y_bound_slice: "map_of (ys_api y_bound) ''u'' = Some s_bound"
  by code_simp

text \<open>The agent allocates it.\<close>

definition y_ready :: node_system where
  "y_ready = (case Reconcile_agent ''n1'' io_ok (Found s_bound) (ys_agent y_bound) of
     (res, m, ws) \<Rightarrow> y_bound\<lparr>ys_agent := m, ys_api := store_writes ws (ys_api y_bound)\<rparr>)"

lemma y_ready_run: "system_run ''n1'' gpu_A 60 y_ready"
proof -
  obtain res m ws where r: "Reconcile_agent ''n1'' io_ok (Found s_bound) (ys_agent y_bound) = (res, m, ws)"
    by (metis prod_cases3)
  obtain reply where "mi_devices io_ok = Some [gpu_A]" "mi_update io_ok = Some reply" by (simp add: io_ok_def)
  moreover have "\<not> ghas (al_byAlloc (mg_alloc (ys_agent y_bound))) (alloc_id ''u'' (mi_now io_ok))" by code_simp
  ultimately have "node_step ''n1'' gpu_A y_bound y_ready"
    using agent [OF y_bound_slice r] by (simp add: y_ready_def r)
  then show ?thesis by (rule step [OF y_bound_run])
qed

lemma y_ready_charged: "CommittedBytes (ad_uuid gpu_A) (mg_alloc (ys_agent y_ready)) = 10"
  by code_simp

lemma gpu_A_fits: "60 \<le> ad_total gpu_A - ad_reserved gpu_A"
  by code_simp







text \<open>
  The card matters: the scheduler counts a node with two cards as one pool, and reserves there what no card
  has.
\<close>

definition two_cards :: "alloc_device list" where
  "two_cards = [gpu_A, gpu_A\<lparr>ad_uuid := ''GPU-B''\<rparr>]"

lemma pooled_cards_fragment:
  "isl (AssumeSlice ''u'' ''ns'' ''n1'' 120 50 0 (UpdateNode ''n1'' 200 0 NewVRAMCache)) = False \<and>
   fst (Allocate (Some two_cards) 7 \<lparr>aq_SliceUID = ''u'', aq_ClaimName = ''c'', aq_RequestedVRAMBytes = 120\<rparr> (NewAllocator True))
     = Inl (Fragmentation 120 200)"
  by code_simp

end
