(* ===== verification/Progress.thy ===== *)
theory Progress
  imports NodeProps
begin

text \<open>
  Progress of a pending slice through the composed node: a quiet scheduling cycle (\<open>plugin.go\<close>) that finds a
  node with room binds the slice, its reads and writes being steps of \<open>node_step\<close>; with
  \<open>NodeProps.bound_slice_becomes_ready\<close> it then becomes \<open>Ready\<close>.
\<close>

section \<open>The cache of a run is reachable\<close>

lemma node_step_reachable:
  assumes step: "node_step n d y y'" and ok: "system_ok n d tot y" and "tot < 2 ^ 62" and re: "reachable (ys_cache y)"
  shows "reachable (ys_cache y')"
  using step
proof cases
  case (reserve u s ns k ttl now c)
  have "0 \<le> sl_RequestedVRAMBytes s" using system_okD(4) [OF ok reserve(2)] by (simp add: slice_ok_def)
  then show ?thesis using reach_step [OF re step_assume [OF _ reserve(4)]] reserve(1) by simp
next
  case give_back
  then show ?thesis using reach_step [OF re step_rollback] by simp
next
  case reap
  then show ?thesis using reach_step [OF re step_reap] by simp
next
  case pin
  then show ?thesis using reach_step [OF re step_pin] by simp
next
  case confirm
  then show ?thesis using reach_step [OF re step_confirm] by simp
next
  case sync
  then show ?thesis using sync_step [OF ok assms(3)] re by simp
next
  case forget
  then show ?thesis using reach_step [OF re step_forget] by simp
next
  case other_node
  then show ?thesis using reach_step [OF re] by simp
next
  case seed
  then show ?thesis using reach_step [OF re step_seed] by simp
next
  case health
  then show ?thesis using reach_step [OF re step_health] by simp
next
  case zone
  then show ?thesis using reach_step [OF re step_zone] by simp
qed (use re in simp_all)

lemma system_run_reachable:
  assumes "system_run n d tot y" and "devices_ok [d]" and "0 \<le> tot" and "tot \<le> ad_total d - ad_reserved d" and "tot < 2 ^ 62"
  shows "reachable (ys_cache y)"
  using assms(1)
proof induction
  case (start mock cdi)
  have "cache_step NewVRAMCache (UpdateNode n tot 0 NewVRAMCache)"
    using assms(3,5) by (intro step_update_node) (simp_all add: NewVRAMCache_def new_node_def)
  then show ?case using reach_step [OF reach_new] by (simp add: fresh_system_def)
next
  case (step y y')
  then show ?case using node_step_reachable [OF step.hyps(2) system_run_ok [OF step.hyps(1) assms(2-5)] assms(5)] by simp
qed

section \<open>A quiet cycle\<close>

text \<open>
  Nothing interferes and nothing fails: the other goroutines leave the cache alone during the cycle, the
  quota allows it, the reads find the slice, which is no gang member, and both patches are taken.
\<close>

definition quiet_cycle :: "sched_config \<Rightarrow> sched_env \<Rightarrow> string \<Rightarrow> vgpu_slice \<Rightarrow> vram_cache \<Rightarrow> bool" where
  "quiet_cycle cfg env ns s c \<longleftrightarrow> (\<forall>i c. se_gap env i c = c) \<and> IsSeeded c \<and>
    quota_gate cfg env ns (sl_RequestedVRAMBytes s) c = None \<and>
    annotation s AnnotationReservationRef = [] \<and> se_gateSlice env = Found s \<and> se_bindSlice env = Found s \<and>
    se_bindPatch env = WriteOk \<and> se_bindStatus env = WriteOk"

lemma solo_passes:
  assumes "annotation s AnnotationReservationRef = []" and "se_gateSlice env = Found s"
  shows "\<exists>g'. gate_step cfg env node b tx g = (Inr tx, g')"
  using assms by (auto simp: gate_step_def CheckSliceWithCohort_def annotation_def Let_def)

lemma fits_assumable:
  assumes "CanFit c k req = Fits" and "\<not> ghas (assumedBySlice c) u" and "\<not> ghas (confirmedBySlice c) u"
  obtains c' where "AssumeSlice u ns k req ttl now c = Inr c'" and "map_of (assumedBySlice c') u \<noteq> None"
  using assms that
  by (auto simp: CanFit_def AssumeSlice_def Let_def upd_node_def split: option.splits if_splits)

lemma winner_among:
  assumes "reachable c" and "filter (\<lambda>k. CanFit c k req = Fits) (ListNodes c) \<noteq> []"
  obtains w ws where "ScoreWithTopology c (filter (\<lambda>k. CanFit c k req = Fits) (ListNodes c)) req be z = w # ws"
    and "CanFit c (sc_NodeName w) req = Fits"
proof -
  let ?vs = "filter (\<lambda>k. CanFit c k req = Fits) (ListNodes c)"
  let ?ys = "ScoreWithTopology c ?vs req be z"
  have "ranking_of (score_loop (byName (SnapshotAllNodes c)) req be z ?vs) ?ys"
    by (simp add: ScoreWithTopology_def ranking_sort_stable)
  from winner_is_best [OF assms(1) _ assms(2) this] have "?ys \<noteq> []" "sc_NodeName (hd ?ys) \<in> set ?vs" by simp_all
  then show ?thesis using that by (cases ?ys) auto
qed

lemma quiet_cycle_binds:
  assumes "quiet_cycle cfg env ns s (ss_cache st)" and "reachable (ss_cache st)" and "sl_RequestedVRAMBytes s = req"
    and fresh: "\<not> ghas (assumedBySlice (ss_cache st)) u" "\<not> ghas (confirmedBySlice (ss_cache st)) u"
    and fit: "CanFit (ss_cache st) j req = Fits"
  obtains k c' st' eff where "Schedule cfg env ns u req be st = (Bound k, st', eff)"
    and "AssumeSlice u ns k req reserverTTL (se_now env 1) (ss_cache st) = Inr c'"
    and "bindToKubernetesAPI (Found s) WriteOk WriteOk (se_now env 5) (snd (PinAssumption u bindPinTTL (se_now env 4) c')) k = (None, eff)"
    and "ss_cache st' = snd (ConfirmSliceOrRearm u ns k req (se_now env 6) (snd (PinAssumption u bindPinTTL (se_now env 4) c')))"
proof -
  let ?c = "ss_cache st"
  have q: "se_gap env i c = c" "IsSeeded ?c" "quota_gate cfg env ns req ?c = None" "se_bindSlice env = Found s"
    "se_bindPatch env = WriteOk" "se_bindStatus env = WriteOk" for i c
    using assms(1,3) by (auto simp: quiet_cycle_def)
  have pin: "PinAssumption u gangHoldTTL t ?c = (None, ?c)" for t
    using fresh(1) by (simp add: PinAssumption_def not_ghas)
  have "j \<in> set (ListNodes ?c)"
    using fit by (auto simp: CanFit_def ListNodes_def split: option.splits dest: map_of_SomeD intro: rev_image_eqI)
  then have ne: "filter (\<lambda>k. CanFit ?c k req = Fits) (ListNodes ?c) \<noteq> []" using fit by (auto simp: filter_empty_conv)
  obtain w ws where w: "ScoreWithTopology ?c (filter (\<lambda>k. CanFit ?c k req = Fits) (ListNodes ?c)) req be
      (slicePreferredZone (se_zoneSlice env)) = w # ws" "CanFit ?c (sc_NodeName w) req = Fits"
    using winner_among [OF assms(2) ne] by metis
  let ?k = "sc_NodeName w" and ?tx = "NewReservationTxForHeld u ns (sc_NodeName w) req"
  obtain c' where c': "AssumeSlice u ns ?k req reserverTTL (se_now env 1) ?c = Inr c'" "map_of (assumedBySlice c') u \<noteq> None"
    using fits_assumable [OF w(2) fresh] by metis
  have res: "Reserve reserverTTL u ns ?k req (se_now env 1) ?c = Inr (?tx, c')"
    using c'(1) by (simp add: Reserve_def NewReservationTxForHeld_def)
  obtain g' where g: "gate_step cfg env ?k req ?tx (ss_gate st) = (Inr ?tx, g')"
    using solo_passes assms(1) by (metis quiet_cycle_def)
  obtain h c1 where p: "PinAssumption u bindPinTTL (se_now env 4) c' = (Some h, c1)"
    using c'(2) by (auto simp: PinAssumption_def)
  obtain eff where b: "bindToKubernetesAPI (Found s) WriteOk WriteOk (se_now env 5) c1 ?k = (None, eff)"
    by (simp add: bindToKubernetesAPI_def Let_def)
  let ?c2 = "snd (ConfirmSliceOrRearm u ns ?k req (se_now env 6) c1)"
  have "gate_and_finish cfg env u ?k req ?tx (st\<lparr>ss_cache := c'\<rparr>) = (Bound ?k, st\<lparr>ss_cache := ?c2, ss_gate := g'\<rparr>, eff)"
    using g p b q
    by (simp add: gate_and_finish_def gateAndBind_def Confirm_def RollbackIfNotConfirmed_def NewReservationTxForHeld_def split_beta)
  then have "Schedule cfg env ns u req be st = (Bound ?k, st\<lparr>ss_cache := ?c2, ss_gate := g'\<rparr>, eff)"
    using q pin ne w(1) res by (simp add: Schedule_def fresh_attempt_def Let_def)
  then show ?thesis using that [OF _ c'(1)] b p by simp
qed

lemma bound_is_scheduled:
  assumes "bindToKubernetesAPI (Found s) patch statusPatch now c k = (None, eff)"
  shows "eff \<noteq> [] \<and> sl_Phase (last (map effect_slice eff)) = SlicePhaseScheduled"
  using assms by (auto simp: bindToKubernetesAPI_def Let_def effect_slice_def SlicePhaseScheduled_def split: if_splits)

text \<open>The cycle is four steps of the system: it reserves, pins, binds and confirms.\<close>

lemma quiet_cycle_runs:
  assumes run: "system_run n d tot y" and s: "map_of (ys_api y) u = Some s" "pending s"
    and asm: "AssumeSlice u ns k (sl_RequestedVRAMBytes s) ttl t1 (ys_cache y) = Inr c'"
    and eff: "bindToKubernetesAPI (Found s) WriteOk WriteOk t3 (snd (PinAssumption u pinTTL t2 c')) k = (None, eff)"
  shows "system_run n d tot (y\<lparr>ys_cache := snd (ConfirmSliceOrRearm u ns k b t4 (snd (PinAssumption u pinTTL t2 c'))),
    ys_api := store_writes (map effect_slice eff) (ys_api y)\<rparr>)"
proof -
  let ?c1 = "snd (PinAssumption u pinTTL t2 c')"
  have "\<exists>b. IsAssumed c' u = Some (k, b)"
    using asm by (elim AssumeSlice_SomeD) (simp add: IsAssumed_def)
  then obtain b' where held: "IsAssumed ?c1 u = Some (k, b')" using IsAssumed_Pin [of u pinTTL t2 c'] by auto
  then have g: "ghas (assumedBySlice ?c1) u" by (auto simp: IsAssumed_def map_of_SomeD_ghas)
  have "system_run n d tot (y\<lparr>ys_cache := c'\<rparr>)" by (rule step [OF run reserve [OF s asm]])
  from step [OF this pin] have pinned: "system_run n d tot (y\<lparr>ys_cache := ?c1\<rparr>)" by simp
  let ?api = "store_writes (map effect_slice eff) (ys_api y)" and ?c2 = "snd (ConfirmSliceOrRearm u ns k b t4 ?c1)"
  have "system_run n d tot (y\<lparr>ys_cache := ?c1, ys_api := ?api\<rparr>)"
    using step [OF pinned bind [of "y\<lparr>ys_cache := ?c1\<rparr>" u s k b' WriteOk WriteOk t3 None eff]] s held eff by simp
  from step [OF this confirm] g have "system_run n d tot (y\<lparr>ys_api := ?api, ys_cache := ?c2\<rparr>)" by simp
  moreover have "y\<lparr>ys_api := ?api, ys_cache := ?c2\<rparr> = y\<lparr>ys_cache := ?c2, ys_api := ?api\<rparr>" by simp
  ultimately show ?thesis by (rule back_subst [of "system_run n d tot"])
qed

section \<open>Properties\<close>


definition y_seeded :: node_system where
  "y_seeded = y_created\<lparr>ys_cache := MarkSeeded (ys_cache y_created)\<rparr>"

definition quiet_env :: sched_env where
  "quiet_env = (cycle_env slice0)\<lparr>se_quotas := Some [], se_quotaSlices := Some []\<rparr>"

lemma y_seeded_run: "system_run ''n1'' gpu_A 60 y_seeded"
  unfolding y_seeded_def by (rule step [OF y_created_run seed])

lemma y_seeded_quiet: "quiet_cycle cfg_on quiet_env ''ns'' slice0 (ys_cache y_seeded)"
proof -
  have "quota_gate cfg_on quiet_env ''ns'' (sl_RequestedVRAMBytes slice0) (ys_cache y_seeded) = None" by code_simp
  moreover have "IsSeeded (ys_cache y_seeded)" "annotation slice0 AnnotationReservationRef = []" by code_simp+
  ultimately show ?thesis by (simp add: quiet_cycle_def quiet_env_def cycle_env_def)
qed


end
