(* ===== verification/Spec2Isabelle.thy ===== *)
theory Spec2Isabelle
  imports SchedulerProcess Webhooks EnforcementProps AgentProcess QuotaStatus ProcessWiring Handover Progress
begin

text \<open>
  A verified model of the vGPU scheduler for Kubernetes.

  \<^bold>\<open>The program.\<close> Users create a \<open>VGPUJob\<close> or a \<open>VGPUGangJob\<close>. The admission webhooks validate and resize it.
  The controllers turn it into a \<open>VGPUClaim\<close>, the claim into a \<open>VGPUSlice\<close>, and an allocated slice into a
  workload pod; for a gang they keep a \<open>VGPUGangReservation\<close> that binds all children or none. The scheduler
  takes pending slices from a priority queue, checks the namespace quota, filters and scores the nodes by
  the memory its ledger says is free, holds gangs at a gate until their quorum is present, preempts lower
  priorities when nothing fits, and binds the slice. The agent on the node picks one card, writes the
  CDI spec and the checkpoint and reports the slice \<open>Ready\<close>; it also watches the real memory use of every
  process, charges it to slices, and warns or evicts those that use more than they were granted.

  \<^bold>\<open>Theories and sources\<close> (paths under \<open>src/\<close>).

  \<^item> \<open>Prelude\<close>, \<open>GoText\<close>: Go's \<open>int64\<close> arithmetic on \<open>int\<close> with the wrap-around written out (\<open>i64\<close>), Go maps as
    association lists with distinct keys (\<open>gput\<close>, \<open>gget\<close>, \<open>ghas\<close>, \<open>gdel\<close>), stable sorting by a comparison
    (locale \<open>strict_weak\<close>), decimal parsing and printing, trimming and splitting of strings.
  \<^item> \<open>ApiTypes\<close>, \<open>SlicePhases\<close>, \<open>ApiClient\<close>: the objects of \<open>api/v1alpha1\<close> as records, the slice state machine
    of \<open>internal/state\<close>, and the read-change-write loop over the API server with its retries and errors.
  \<^item> \<open>VramCache\<close>, \<open>VramLedger\<close>, \<open>VramProps\<close>: \<open>internal/scheduler/cache.go\<close>, every method; the step relation
    \<open>cache_step\<close>, the invariant \<open>cache_ok\<close> and its consequences.
  \<^item> \<open>Reservation\<close>, \<open>Scoring\<close>, \<open>Quota\<close>: \<open>reserve.go\<close>, \<open>filter.go\<close> and \<open>score.go\<close>, \<open>quota.go\<close>.
  \<^item> \<open>GangGate\<close>, \<open>GangProps\<close>: \<open>gang.go\<close>; \<open>Preemption\<close>, \<open>PreemptionProps\<close>: \<open>preemptor.go\<close>.
  \<^item> \<open>SliceScheduler\<close>, \<open>SchedulerProps\<close>: \<open>plugin.go\<close>, one scheduling cycle composed of the parts above.
  \<^item> \<open>GoHeap\<close>, \<open>PriorityQueue\<close>: \<open>container/heap\<close> and \<open>internal/scheduler/priorityqueue\<close>.
  \<^item> \<open>SchedulerProcess\<close>, \<open>QuotaStatus\<close>: \<open>cmd/scheduler/main.go\<close> (seeding, readiness, the slice and node
    reconcilers, the janitor, the priority function, the gauges) and the quota controller.
  \<^item> \<open>GangReservation\<close>, \<open>GangJob\<close>, \<open>JobController\<close>, \<open>SliceLifecycle\<close>: the controllers of
    \<open>internal/controller\<close>; \<open>Recommendation\<close>: \<open>internal/recommendation\<close> with the workload profiles.
  \<^item> \<open>Webhooks\<close>: \<open>internal/webhook\<close> and the pod policy of \<open>internal/security\<close>.
  \<^item> \<open>NodeAllocator\<close>, \<open>AgentStore\<close>, \<open>AgentManager\<close>, \<open>AgentProps\<close>: \<open>internal/nodeagent/nvml\<close>, \<open>checkpoint\<close>,
    \<open>cdi\<close>, \<open>manager.go\<close>, \<open>reporter.go\<close> and \<open>drift\<close>.
  \<^item> \<open>OveruseDetector\<close>, \<open>Attribution\<close>, \<open>Enforcement\<close>, \<open>EnforcementProps\<close>: \<open>violation.go\<close>, \<open>cgroup.go\<close>,
    \<open>slice_violation.go\<close>, \<open>enforcement.go\<close> and \<open>profile_observer.go\<close> of \<open>internal/nodeagent\<close>.
  \<^item> \<open>GpuProvider\<close>, \<open>Monitor\<close>, \<open>AgentProcess\<close>: \<open>internal/nodeagent/gpu\<close>, \<open>monitor.go\<close> and \<open>cmd/nodeagent/main.go\<close>.

  \<^item> \<open>ProcessWiring\<close>: \<open>main\<close> of \<open>cmd/scheduler\<close> and \<open>cmd/controller\<close>, the queue adapter and the hardware health
    probe.
  \<^item> \<open>Handover\<close>: failures between two components, the two patches of a bind and the deletion of a slice whose
    allocation was not reported.
  \<^item> \<open>NodeLedger\<close>, \<open>NodeSystem\<close>, \<open>NodeSteps\<close>, \<open>NodeProps\<close>, \<open>Progress\<close>: the scheduler's cache, the API objects, the
    controllers' writes and the agent of one node as one step relation \<open>node_step\<close>, whose steps are the modelled
    operations in any order; its invariant \<open>system_ok\<close>, one lemma per step, the runs, and the way of a slice
    from \<open>Pending\<close> to \<open>Ready\<close>.

  Definitions keep the names of the Go functions; a suffix separates methods of the same name
  (\<open>Reconcile_slice\<close>, \<open>Reconcile_job\<close>). Fields keep theirs with the prefix of their record.

  \<^bold>\<open>How Go is modelled.\<close> A struct is a record and a method takes the state and returns the new one. An error
  return is a constructor of a datatype of the component, or \<open>Inl\<close> of a sum. Integers are \<open>int\<close>, with \<open>i64\<close> or
  \<open>i32\<close> around every operation that could leave the range. What the API server, the file system, NVML, the
  clock or a library call (quantity and duration parsers) answers is an argument, one per call site, so that
  every combination of failures is covered; the writes a function makes are part of its result. A cycle
  reads the clock once. The range over a Go map is the order of its association list, which no theorem
  assumes anything about. A mutex makes a method atomic, and runs are sequences of whole methods
  (\<open>cache_step\<close>, \<open>gate_reachable\<close>, \<open>queue_step\<close>, \<open>allocator_reachable\<close>, \<open>manager_run\<close>, \<open>agent_run\<close>,
  \<open>profile_run\<close>). A file write is the list of directory states it passes through, so that a crash is a prefix.

  \<^bold>\<open>What is shown.\<close> For the scheduler: the ledger's counters are exact in every reachable cache, a reservation
  never goes beyond a node's total, a binding is charged and every failure path returns what it held, a gang
  member is bound only with its quorum, the quota check is exact, a preemption plan frees enough from
  eligible victims and is marked whole or not at all, the queue implements an abstract workqueue and serves
  the best request, nothing is placed before the seeding, and a sweep removes exactly the ghosts. For the
  controllers: when a gang is failed or released, when a pod is created, when a finalizer goes, and that status
  writes settle. For the webhooks: what an admitted job, gang or pod guarantees. For the agent: a card is never
  oversold, a \<open>Ready\<close> slice is backed on all three records, retries charge once, a release frees its own
  allocation only, a restart restores the ledger, the checkpoint survives crashes, usage is that of confirmed
  processes, evictions have a cause and a rate limit, and a recovery undoes the enforcement. For the whole: on a
  node with one card, in every run of scheduler, controllers and agent, the agent's ledger is within the
  scheduler's, and a slice bound to the node gets its bytes (with several cards it need not:
  \<open>pooled_cards_fragment\<close>); an undisturbed cycle binds a slice that fits, and one reconcile of the agent in
  which no write fails makes a bound slice \<open>Ready\<close>.
  Some lemmas show where the code departs from its comments, for instance \<open>eviction_mark_erased\<close>,
  \<open>failed_recharge_is_lost\<close>, \<open>half_bound_slice_is_stuck\<close>, \<open>deletion_overtakes_wedge_recovery\<close>, \<open>wedge_teardown_not_retried\<close>, \<open>duplicate_entry_escapes_pin\<close> and
  \<open>early_promotion_not_charged\<close>.

  \<^bold>\<open>Interfaces.\<close> \<open>strict_weak\<close> states what a comparison needs so that a stable sort has a least head; the orders
  of scoring, victims and gang admission interpret it. \<open>heap_interface\<close> is \<open>container/heap\<close>'s contract with
  \<open>Less\<close> and \<open>Swap\<close>, interpreted by the queue's heap. \<open>hold_store\<close> is what the reservation handle needs from
  the cache. \<open>allocation_store\<close> is a store of records by allocation, interpreted by the checkpoint and by the
  CDI directory. The rank of a queued request is an instance of the library's linear orders.

  \<^bold>\<open>Bounds.\<close> No definition takes fuel but the retry loop, whose count is the library's own
  (\<open>RetryAttempts = 5\<close>), the seeding, whose attempts are the list of answers, and the heap's sift loops,
  which end by their index. Gangs have at most 256 members, as the webhook admits. Theorems on byte sums
  assume what keeps the sums inside 64 bits: \<open>2 ^ 63\<close> for a sum, smaller powers for the product or the sum of several.

  \<^bold>\<open>Assumptions\<close> that appear as premises: allocation names are fresh (they are a UID prefix and a nanosecond
  clock), names of cards are distinct, object names are distinct in a list the server returns.

  The composed node rests on what the steps of \<open>node_step\<close> say: a hold does not expire between the patches of
  its bind and its confirmation, one reconcile per slice runs at a time, the controller reads the slice as it
  is, and a slice is not removed while the agent has an allocation its status does not show.

  \<^bold>\<open>Not modelled.\<close> Registration of metrics and most counters, logs, traces and events; generated deep copies;
  the manager and the watches of controller-runtime, which run the parts; trace identifiers; the command line
  probe; mutual exclusion itself; the float64 moving average of the profile, which is an argument; the typographic dashes
  of some messages, written in ASCII.
\<close>

end
